(* ===== verification/Cam_Prelude.thy ===== *)
theory Cam_Prelude
  imports Complex_Main "HOL-Library.Word" "HOL-Library.Code_Target_Nat"
begin

text \<open>
  Shared vocabulary of the development: byte strings, the little- and big-endian integer
  codecs behind the program's \<open>struct\<close> formats, Python slices and searches on byte
  strings, decimal printing, and errors as sums.  The collections \<open>codec_simps\<close> (codec
  equations) and \<open>py_simps\<close> (equations of the Python list operations) carry the
  component proofs.
\<close>

named_theorems codec_simps \<open>equations of the integer codecs\<close>
named_theorems py_simps \<open>equations of the Python sequence operations\<close>

type_synonym byte = "8 word"
type_synonym bytes = "8 word list"

section \<open>Errors as sums\<close>

fun ebind :: "'e + 'a \<Rightarrow> ('a \<Rightarrow> 'e + 'b) \<Rightarrow> 'e + 'b" where
  "ebind (Inl e) f = Inl e"
| "ebind (Inr x) f = f x"

lemma ebind_Inr_iff [simp]: "ebind m f = Inr y \<longleftrightarrow> (\<exists>x. m = Inr x \<and> f x = Inr y)"
  by (cases m) auto

lemma ebind_Inl_iff: "ebind m f = Inl e \<longleftrightarrow> m = Inl e \<or> (\<exists>x. m = Inr x \<and> f x = Inl e)"
  by (cases m) auto

section \<open>Python slices and searches\<close>

text \<open>\<open>xs[a:b]\<close> for non-negative bounds: out-of-range bounds are clipped, as in Python.\<close>

definition slice :: "'a list \<Rightarrow> nat \<Rightarrow> nat \<Rightarrow> 'a list" where
  "slice xs a b = take (b - a) (drop a xs)"

lemma length_slice [simp]: "length (slice xs a b) = min (b - a) (length xs - a)"
  by (simp add: slice_def min.commute)

lemma slice_all [simp]: "length xs \<le> n \<Longrightarrow> slice xs 0 n = xs"
  by (simp add: slice_def)

lemma slice_append_left [py_simps]: "b \<le> length xs \<Longrightarrow> slice (xs @ ys) a b = slice xs a b"
  by (cases "a \<le> b") (auto simp: slice_def)

lemma slice_append_right [py_simps]:
  "length xs \<le> a \<Longrightarrow> slice (xs @ ys) a b = slice ys (a - length xs) (b - length xs)"
  by (auto simp: slice_def)

lemma slice_whole_tail: "b = length xs \<Longrightarrow> slice xs a b = drop a xs"
  by (simp add: slice_def)

text \<open>\<open>xs.find(x, i)\<close>: the least index from \<open>i\<close> on that holds \<open>x\<close>; \<open>None\<close> is Python's -1.\<close>

fun find_from :: "'a \<Rightarrow> 'a list \<Rightarrow> nat \<Rightarrow> nat option" where
  "find_from x [] i = None"
| "find_from x (y # ys) 0 = (if x = y then Some 0 else map_option Suc (find_from x ys 0))"
| "find_from x (y # ys) (Suc i) = map_option Suc (find_from x ys i)"

lemma find_from_Some:
  "find_from x ys i = Some j \<Longrightarrow> i \<le> j \<and> j < length ys \<and> ys ! j = x \<and> (\<forall>k. i \<le> k \<and> k < j \<longrightarrow> ys ! k \<noteq> x)"
proof (induction x ys i arbitrary: j rule: find_from.induct)
  case (2 x y ys)
  show ?case
  proof (cases "x = y")
    case True
    with 2 show ?thesis by simp
  next
    case False
    with "2.prems" obtain k where k: "find_from x ys 0 = Some k" "j = Suc k" by auto
    from "2.IH"[OF False k(1)] have "k < length ys" "ys ! k = x" "\<forall>m<k. ys ! m \<noteq> x" by auto
    with False k show ?thesis by (auto simp: nth_Cons split: nat.splits)
  qed
next
  case (3 x y ys i)
  then obtain k where k: "find_from x ys i = Some k" "j = Suc k" by auto
  from "3.IH"[OF k(1)] k show ?case by (auto simp: nth_Cons split: nat.splits)
qed simp

lemma find_from_None: "find_from x ys 0 = None \<longleftrightarrow> x \<notin> set ys"
  by (induction ys) auto

lemma find_from_skip: "x \<notin> set ys \<Longrightarrow> find_from x (ys @ x # zs) 0 = Some (length ys)"
  by (induction ys) auto

section \<open>Integer codecs\<close>

datatype endian = LE | BE

fun le_bytes :: "nat \<Rightarrow> nat \<Rightarrow> bytes" where
  "le_bytes 0 n = []"
| "le_bytes (Suc k) n = of_nat (n mod 256) # le_bytes k (n div 256)"

fun le_nat :: "bytes \<Rightarrow> nat" where
  "le_nat [] = 0"
| "le_nat (b # bs) = unat b + 256 * le_nat bs"

definition enc :: "endian \<Rightarrow> nat \<Rightarrow> nat \<Rightarrow> bytes" where
  "enc e k n = (case e of LE \<Rightarrow> le_bytes k n | BE \<Rightarrow> rev (le_bytes k n))"

definition dec :: "endian \<Rightarrow> bytes \<Rightarrow> nat" where
  "dec e bs = (case e of LE \<Rightarrow> le_nat bs | BE \<Rightarrow> le_nat (rev bs))"

text \<open>\<open>struct\<close>'s \<open>i\<close>: a 32-bit field read as two's complement.\<close>

definition signed32 :: "nat \<Rightarrow> int" where
  "signed32 n = (if n < 2 ^ 31 then int n else int n - 2 ^ 32)"

definition signed16 :: "nat \<Rightarrow> int" where
  "signed16 n = (if n < 2 ^ 15 then int n else int n - 2 ^ 16)"

definition signed64 :: "nat \<Rightarrow> int" where
  "signed64 n = (if n < 2 ^ 63 then int n else int n - 2 ^ 64)"

lemma length_le_bytes [simp]: "length (le_bytes k n) = k"
  by (induction k arbitrary: n) auto

lemma length_enc [simp]: "length (enc e k n) = k"
  by (cases e) (auto simp: enc_def)

lemma unat_of_nat_byte [simp]: "unat (of_nat n :: byte) = n mod 256"
  by (simp add: unat_of_nat)

lemma le_nat_le_bytes [codec_simps]: "le_nat (le_bytes k n) = n mod 256 ^ k"
proof (induction k arbitrary: n)
  case (Suc k)
  have "n mod 256 + 256 * (n div 256 mod 256 ^ k) = n mod (256 * 256 ^ k)"
    by (simp add: mod_mult2_eq)
  with Suc show ?case by simp
qed simp

lemma dec_enc [codec_simps]: "dec e (enc e k n) = n mod 256 ^ k"
  by (cases e) (auto simp: dec_def enc_def le_nat_le_bytes)

lemma le_nat_bound: "le_nat bs < 256 ^ length bs"
proof (induction bs)
  case (Cons b bs)
  have "unat b < 256" using unsigned_less [of b] by simp
  with Cons show ?case by simp
qed simp

lemma dec_bound: "dec e bs < 256 ^ length bs"
  using le_nat_bound [of bs] le_nat_bound [of "rev bs"] by (cases e) (auto simp: dec_def)

lemma le_bytes_le_nat [codec_simps]: "le_bytes (length bs) (le_nat bs) = bs"
proof (induction bs)
  case (Cons b bs)
  have b: "unat b < 256" using unsigned_less [of b] by simp
  then have "(unat b + 256 * le_nat bs) mod 256 = unat b" by simp
  moreover from b have "(unat b + 256 * le_nat bs) div 256 = le_nat bs" by simp
  ultimately show ?case using Cons by simp
qed simp

lemma enc_dec [codec_simps]: "length bs = k \<Longrightarrow> enc e k (dec e bs) = bs"
  using le_bytes_le_nat [of bs] le_bytes_le_nat [of "rev bs"]
  by (cases e) (auto simp: dec_def enc_def)

lemma dec_inject: "length xs = length ys \<Longrightarrow> dec e xs = dec e ys \<longleftrightarrow> xs = ys"
  by (metis enc_dec)

lemma enc_inject: "m < 256 ^ k \<Longrightarrow> n < 256 ^ k \<Longrightarrow> enc e k m = enc e k n \<longleftrightarrow> m = n"
  by (metis dec_enc mod_less)

lemma enc_append_take [simp]: "take k (enc e k n @ xs) = enc e k n"
  and enc_append_drop [simp]: "drop k (enc e k n @ xs) = xs"
  by simp_all

section \<open>Decimal printing\<close>

text \<open>Python's \<open>str\<close> of a non-negative int.\<close>

fun str_nat :: "nat \<Rightarrow> string" where
  "str_nat n = (if n < 10 then [char_of (48 + n)] else str_nat (n div 10) @ [char_of (48 + n mod 10)])"

declare str_nat.simps [simp del]

lemma str_nat_small: "n < 10 \<Longrightarrow> str_nat n = [char_of (48 + n)]"
  by (subst str_nat.simps) simp

lemma str_nat_nonempty: "str_nat n \<noteq> []"
  by (subst str_nat.simps) simp

definition digit_val :: "char \<Rightarrow> nat" where
  "digit_val c = of_char c - 48"

definition nat_of_str :: "string \<Rightarrow> nat" where
  "nat_of_str s = foldl (\<lambda>a c. 10 * a + digit_val c) 0 s"

lemma digit_val_char [simp]: "d < 10 \<Longrightarrow> digit_val (char_of (48 + d)) = d"
  by (simp add: digit_val_def)

text \<open>Printing is injective: the digits read back to the number.\<close>

lemma nat_of_str_nat [simp]: "nat_of_str (str_nat n) = n"
proof (induction n rule: str_nat.induct)
  case (1 n)
  show ?case
  proof (cases "n < 10")
    case True
    then show ?thesis by (simp add: str_nat_small nat_of_str_def)
  next
    case False
    with 1 have "nat_of_str (str_nat (n div 10)) = n div 10" by simp
    with False show ?thesis
      by (subst str_nat.simps) (simp add: nat_of_str_def)
  qed
qed

lemma str_nat_inject [simp]: "str_nat m = str_nat n \<longleftrightarrow> m = n"
  by (metis nat_of_str_nat)

definition str_int :: "int \<Rightarrow> string" where
  "str_int i = (if i < 0 then CHR ''-'' # str_nat (nat (- i)) else str_nat (nat i))"

text \<open>\<open>int(x)\<close> of a float truncates towards zero.\<close>

definition trunc_rat :: "rat \<Rightarrow> int" where
  "trunc_rat x = (if 0 \<le> x then \<lfloor>x\<rfloor> else \<lceil>x\<rceil>)"

lemma trunc_rat_int [simp]: "trunc_rat (of_int i) = i"
  by (simp add: trunc_rat_def)

lemma trunc_rat_mono: "x \<le> y \<Longrightarrow> trunc_rat x \<le> trunc_rat y"
  unfolding trunc_rat_def
  by (auto intro: floor_mono ceiling_mono order_trans [of _ 0] simp: not_le)

section \<open>Floor division\<close>

text \<open>Python's \<open>//\<close> on ints is \<open>div\<close>: both round towards minus infinity.\<close>

lemma floor_div_bounds:
  fixes a d :: int
  assumes "0 < d"
  shows "a div d * d \<le> a" "a < (a div d + 1) * d"
proof -
  have "a div d * d + a mod d = a" by (rule div_mult_mod_eq)
  moreover have "0 \<le> a mod d" "a mod d < d" using assms by simp_all
  ultimately show "a div d * d \<le> a" "a < (a div d + 1) * d"
    by (simp_all only: distrib_right)
qed

section \<open>Lists\<close>

text \<open>Python's \<open>max(xs, default=d)\<close>.\<close>

fun max_default :: "'a::linorder \<Rightarrow> 'a list \<Rightarrow> 'a" where
  "max_default d [] = d"
| "max_default d (x # xs) = foldl max x xs"

lemma foldl_max_ge: "a \<le> foldl max (a::'a::linorder) xs \<and> (\<forall>x\<in>set xs. x \<le> foldl max a xs)"
proof (induction xs arbitrary: a)
  case (Cons x xs)
  from Cons[of "max a x"] show ?case by auto
qed simp

lemma foldl_max_in: "foldl max (a::'a::linorder) xs \<in> insert a (set xs)"
proof (induction xs arbitrary: a)
  case (Cons x xs)
  from Cons[of "max a x"] show ?case by (auto simp: max_def split: if_splits)
qed simp

lemma max_default_ge: "x \<in> set xs \<Longrightarrow> x \<le> max_default d xs"
  using foldl_max_ge by (cases xs) auto

lemma max_default_in: "xs \<noteq> [] \<Longrightarrow> max_default d xs \<in> set xs"
  using foldl_max_in by (cases xs) auto

lemma max_default_le: "(\<And>x. x \<in> set xs \<Longrightarrow> x \<le> m) \<Longrightarrow> d \<le> m \<Longrightarrow> max_default d xs \<le> m"
  using max_default_in [of xs d] by (cases "xs = []") auto

text \<open>\<open>dict.fromkeys(xs)\<close>: duplicates dropped, first-seen order kept.\<close>

fun dedup :: "'a list \<Rightarrow> 'a list" where
  "dedup [] = []"
| "dedup (x # xs) = x # dedup (filter (\<lambda>y. y \<noteq> x) xs)"

lemma set_dedup [simp]: "set (dedup xs) = set xs"
  by (induction xs rule: dedup.induct) auto

lemma distinct_dedup [simp]: "distinct (dedup xs)"
  by (induction xs rule: dedup.induct) auto

section \<open>Strings\<close>

text \<open>\<open>str.isspace\<close>, \<open>str.strip\<close>, \<open>str.lower\<close> and \<open>str.upper\<close>; characters are 8-bit, and case
  changes only the ASCII letters.\<close>

definition is_space :: "char \<Rightarrow> bool" where
  "is_space c \<longleftrightarrow> (let n = of_char c :: nat in 9 \<le> n \<and> n \<le> 13 \<or> 28 \<le> n \<and> n \<le> 32 \<or> n = 133 \<or> n = 160)"

definition strip_by :: "(char \<Rightarrow> bool) \<Rightarrow> string \<Rightarrow> string" where
  "strip_by f s = rev (dropWhile f (rev (dropWhile f s)))"

definition strip_space :: "string \<Rightarrow> string" where
  "strip_space s = strip_by is_space s"

definition lower_char :: "char \<Rightarrow> char" where
  "lower_char c = (let n = of_char c :: nat in if 65 \<le> n \<and> n \<le> 90 then char_of (n + 32) else c)"

definition lower :: "string \<Rightarrow> string" where
  "lower s = map lower_char s"

definition upper_char :: "char \<Rightarrow> char" where
  "upper_char c = (let n = of_char c :: nat in if 97 \<le> n \<and> n \<le> 122 then char_of (n - 32) else c)"

definition upper :: "string \<Rightarrow> string" where
  "upper s = map upper_char s"

definition is_digit :: "char \<Rightarrow> bool" where
  "is_digit c \<longleftrightarrow> (let n = of_char c :: nat in 48 \<le> n \<and> n \<le> 57)"

definition starts_with :: "'a list \<Rightarrow> 'a list \<Rightarrow> bool" where
  "starts_with p s \<longleftrightarrow> take (length p) s = p"

definition ends_with :: "'a list \<Rightarrow> 'a list \<Rightarrow> bool" where
  "ends_with p s \<longleftrightarrow> length p \<le> length s \<and> drop (length s - length p) s = p"

text \<open>\<open>p in s\<close>\<close>

fun contains_str :: "'a list \<Rightarrow> 'a list \<Rightarrow> bool" where
  "contains_str p [] = (p = [])"
| "contains_str p (c # s) = (starts_with p (c # s) \<or> contains_str p s)"

text \<open>\<open>sep.join(xs)\<close>\<close>

fun join_with :: "string \<Rightarrow> string list \<Rightarrow> string" where
  "join_with sep [] = []"
| "join_with sep [x] = x"
| "join_with sep (x # xs) = x @ sep @ join_with sep xs"

section \<open>Dynamic values\<close>

text \<open>What \<open>json.loads\<close> and the YAML reader deliver: a bool is not an int, and a float may be NaN or
  infinite.  Objects keep their key order.\<close>

datatype json =
    JNull | JBool bool | JInt int | JNum rat | JNonfinite string | JStr string
  | JList "json list" | JObj "(string \<times> json) list"

text \<open>\<open>dict.get\<close> and \<open>{**d, **e}\<close> on key-ordered dicts.\<close>

fun upd_key :: "string \<Rightarrow> 'v \<Rightarrow> (string \<times> 'v) list \<Rightarrow> (string \<times> 'v) list" where
  "upd_key k v [] = [(k, v)]"
| "upd_key k v ((x, w) # d) = (if x = k then (k, v) # d else (x, w) # upd_key k v d)"

definition merge_dict :: "(string \<times> 'v) list \<Rightarrow> (string \<times> 'v) list \<Rightarrow> (string \<times> 'v) list" where
  "merge_dict d e = fold (\<lambda>(k, v) d. upd_key k v d) e d"

lemma map_of_upd_key [simp]: "map_of (upd_key k v d) = (map_of d)(k \<mapsto> v)"
  by (induction k v d rule: upd_key.induct) auto

lemma keys_upd_key [simp]: "fst ` set (upd_key k v d) = insert k (fst ` set d)"
  by (induction k v d rule: upd_key.induct) auto

lemma distinct_upd_key: "distinct (map fst d) \<Longrightarrow> distinct (map fst (upd_key k v d))"
proof (induction k v d rule: upd_key.induct)
  case (2 k v x w d)
  then show ?case using keys_upd_key [of k v d] by auto
qed simp

lemma map_of_merge_dict:
  "distinct (map fst e) \<Longrightarrow> map_of (merge_dict d e) k = (case map_of e k of None \<Rightarrow> map_of d k | Some v \<Rightarrow> Some v)"
proof (induction e arbitrary: d)
  case (Cons p e)
  obtain k' v where p: "p = (k', v)" by (cases p)
  from Cons.prems p have n: "k' \<notin> fst ` set e" "distinct (map fst e)" by auto
  then have "map_of e k' = None" by (simp add: map_of_eq_None_iff)
  with Cons.IH [OF n(2), of "upd_key k' v d"] p show ?case
    by (auto simp: merge_dict_def split: option.split)
qed (simp add: merge_dict_def)

lemma keys_merge_dict: "fst ` set (merge_dict d e) = fst ` set d \<union> fst ` set e"
proof (induction e arbitrary: d)
  case (Cons p e)
  have "merge_dict d (p # e) = merge_dict (upd_key (fst p) (snd p) d) e"
    by (simp add: merge_dict_def case_prod_beta)
  with Cons.IH [of "upd_key (fst p) (snd p) d"] show ?case by simp
qed (simp add: merge_dict_def)

end
