(* ===== verification/Pcap_IO.thy ===== *)
theory Pcap_IO
  imports Cam_Prelude "HOL-Library.Sublist"
begin

text \<open>
  \<open>core-driver/cam_driver/pcapio.py\<close>: the classic pcap and pcapng readers.  A file is its byte
  string; a generator's run is the list of packets it yields and the exception that ended it, if
  any (\<open>None\<close>: it returned).  \<open>f.read(n)\<close> takes at most \<open>n\<close> bytes of the rest.  Log calls are
  left out.  The readers recurse on the rest of the file, which every round shortens.
\<close>

type_synonym packet = "nat \<times> nat \<times> bytes"   \<comment> \<open>link type, timestamp in ns, record\<close>

datatype pcap_error =
    Not_Pcap bytes
  | Truncated_Global_Header
  | Record_Too_Long nat nat          \<comment> \<open>offset, claimed length\<close>
  | Bad_Byte_Order_Magic bytes
  | Absurd_SHB nat
  | No_Section_Header
  | Bad_Block_Length nat nat nat     \<comment> \<open>type, offset, length\<close>
  | Short_IDB
  | Short_EPB
  | Unknown_Interface nat nat
  | Captured_Overrun nat nat
  | Py_IndexError                    \<comment> \<open>\<open>opts[4]\<close> of a cut option: not a \<open>PcapFormatError\<close>\<close>

type_synonym pcap_result = "packet list \<times> pcap_error option"

definition yield_packet :: "packet \<Rightarrow> pcap_result \<Rightarrow> pcap_result" where
  "yield_packet p r = (p # fst r, snd r)"

definition MAX_RECORD :: nat where
  "MAX_RECORD = 256 * 1024 * 1024"

definition PCAP_MAGICS :: "(bytes \<times> (endian \<times> nat)) list" where
  "PCAP_MAGICS =
     [([0xd4, 0xc3, 0xb2, 0xa1], (LE, 1000)), ([0xa1, 0xb2, 0xc3, 0xd4], (BE, 1000)),
      ([0x4d, 0x3c, 0xb2, 0xa1], (LE, 1)), ([0xa1, 0xb2, 0x3c, 0x4d], (BE, 1))]"

definition PCAPNG_MAGIC :: bytes where
  "PCAPNG_MAGIC = [0x0a, 0x0d, 0x0d, 0x0a]"

definition sniff_format :: "bytes \<Rightarrow> pcap_error + string" where
  "sniff_format file =
     (let magic = take 4 file in
      if magic = PCAPNG_MAGIC then Inr ''pcapng''
      else case map_of PCAP_MAGICS magic of
        Some (e, frac_ns) \<Rightarrow>
          Inr ((if frac_ns = 1000 then ''pcap'' else ''pcap-ns'') @ (if e = BE then ''-be'' else []))
      | None \<Rightarrow> Inl (Not_Pcap magic))"

section \<open>Classic pcap\<close>

function pcap_records :: "endian \<Rightarrow> nat \<Rightarrow> nat \<Rightarrow> nat \<Rightarrow> bytes \<Rightarrow> pcap_result" where
  "pcap_records e frac_ns linktype off f =
     (let hdr = take 16 f in
      if length hdr < 16 then ([], None)
      else
        let ts_sec = dec e (slice hdr 0 4); ts_frac = dec e (slice hdr 4 8);
            incl_len = dec e (slice hdr 8 12) in
        if incl_len > MAX_RECORD then ([], Some (Record_Too_Long off incl_len))
        else
          let data = take incl_len (drop 16 f) in
          if length data < incl_len then ([], None)
          else yield_packet (linktype, ts_sec * 1000000000 + ts_frac * frac_ns, data)
                 (pcap_records e frac_ns linktype (off + 16 + incl_len) (drop (16 + incl_len) f)))"
  by pat_completeness auto
termination by (relation "measure (\<lambda>(e, frac_ns, lt, off, f). length f)") auto

declare pcap_records.simps [simp del]

text \<open>\<open>_iter_pcap\<close>, on the file after its 4 magic bytes.\<close>

definition iter_pcap :: "endian \<Rightarrow> nat \<Rightarrow> bytes \<Rightarrow> pcap_result" where
  "iter_pcap e frac_ns f =
     (let ghdr = take 20 f in
      if length ghdr < 20 then ([], Some Truncated_Global_Header)
      else pcap_records e frac_ns (dec e (slice ghdr 16 20)) 24 (drop 20 f))"

section \<open>pcapng\<close>

definition tsresol_to_ns :: "byte \<Rightarrow> nat \<Rightarrow> nat" where
  "tsresol_to_ns tsresol ts =
     (if bit tsresol 7 then ts * 1000000000 div 2 ^ (unat tsresol mod 128)
      else if unat tsresol \<le> 9 then ts * 10 ^ (9 - unat tsresol)
      else ts div 10 ^ (unat tsresol - 9))"

text \<open>The option loop of an interface description block.\<close>

function idb_tsresol :: "endian \<Rightarrow> bytes \<Rightarrow> byte \<Rightarrow> pcap_error + byte" where
  "idb_tsresol e opts tsresol =
     (if length opts < 4 then Inr tsresol
      else
        let code = dec e (slice opts 0 2); olen = dec e (slice opts 2 4) in
        if code = 0 then Inr tsresol
        else if code = 9 \<and> olen \<ge> 1 then
          (if length opts \<le> 4 then Inl Py_IndexError
           else idb_tsresol e (drop (4 + (olen + 3) div 4 * 4) opts) (opts ! 4))
        else idb_tsresol e (drop (4 + (olen + 3) div 4 * 4) opts) tsresol)"
  by pat_completeness auto
termination by (relation "measure (\<lambda>(e, opts, r). length opts)") auto

declare idb_tsresol.simps [simp del]

type_synonym iface = "nat \<times> byte"  \<comment> \<open>link type, \<open>if_tsresol\<close>\<close>

datatype block_result =
    Block_Skip
  | Block_Iface iface
  | Block_Packet packet
  | Block_Raise pcap_error

text \<open>What one whole block (not a section header) does: \<open>body\<close> is its content.\<close>

definition pcapng_block :: "endian \<Rightarrow> iface list \<Rightarrow> nat \<Rightarrow> bytes \<Rightarrow> block_result" where
  "pcapng_block e ifs btype body =
     (if btype = 1 then
        (if length body < 8 then Block_Raise Short_IDB
         else case idb_tsresol e (drop 8 body) 6 of
                Inl err \<Rightarrow> Block_Raise err
              | Inr r \<Rightarrow> Block_Iface (dec e (slice body 0 2), r))
      else if btype = 6 then
        (if length body < 20 then Block_Raise Short_EPB
         else
           let if_id = dec e (slice body 0 4); ts_hi = dec e (slice body 4 8);
               ts_lo = dec e (slice body 8 12); cap_len = dec e (slice body 12 16) in
           if if_id \<ge> length ifs then Block_Raise (Unknown_Interface if_id (length ifs))
           else if cap_len > length body - 20 then
             Block_Raise (Captured_Overrun cap_len (length body - 20))
           else Block_Packet (fst (ifs ! if_id),
                  tsresol_to_ns (snd (ifs ! if_id)) (ts_hi * 2 ^ 32 + ts_lo),
                  slice body 20 (20 + cap_len)))
      else Block_Skip)"

text \<open>The body of \<open>_iter_pcapng\<close>'s loop, on the rest of the file at a block boundary (the
  dispatcher's 4 consumed bytes are still its front): stop, or go on past a block of the given
  length with the section's endianness and interfaces, yielding at most one packet.\<close>

datatype pcapng_round =
    Stop "pcap_error option"
  | Go nat "endian option" "iface list" "packet option"

definition shb_round :: "bytes \<Rightarrow> pcapng_round" where
  "shb_round f =
     (let head = take 8 (drop 4 f) in
      if length head < 8 then Stop None
      else
        let bom = slice head 4 8 in
        case (if bom = [0x4d, 0x3c, 0x2b, 0x1a] then Some LE
              else if bom = [0x1a, 0x2b, 0x3c, 0x4d] then Some BE else None) of
          None \<Rightarrow> Stop (Some (Bad_Byte_Order_Magic bom))
        | Some e \<Rightarrow>
            let total_len = dec e (slice head 0 4) in
            if \<not> (12 \<le> total_len \<and> total_len \<le> MAX_RECORD) then Stop (Some (Absurd_SHB total_len))
            else if length (take (total_len - 12) (drop 12 f)) < total_len - 12 then Stop None
            else Go total_len (Some e) [] None)"

definition block_round :: "endian \<Rightarrow> iface list \<Rightarrow> nat \<Rightarrow> bytes \<Rightarrow> pcapng_round" where
  "block_round e ifs off f =
     (let btype = dec e (take 4 f); lenb = take 4 (drop 4 f) in
      if length lenb < 4 then Stop None
      else
        let total_len = dec e lenb in
        if \<not> (12 \<le> total_len \<and> total_len \<le> MAX_RECORD) \<or> total_len mod 4 \<noteq> 0
        then Stop (Some (Bad_Block_Length btype off total_len))
        else
          let body = take (total_len - 12) (drop 8 f); trailer = take 4 (drop (total_len - 4) f) in
          if length body < total_len - 12 \<or> length trailer < 4 then Stop None
          else case pcapng_block e ifs btype body of
                 Block_Raise err \<Rightarrow> Stop (Some err)
               | Block_Skip \<Rightarrow> Go total_len (Some e) ifs None
               | Block_Iface i \<Rightarrow> Go total_len (Some e) (ifs @ [i]) None
               | Block_Packet p \<Rightarrow> Go total_len (Some e) ifs (Some p))"

definition pcapng_round :: "endian option \<Rightarrow> iface list \<Rightarrow> nat \<Rightarrow> bytes \<Rightarrow> pcapng_round" where
  "pcapng_round eo ifs off f =
     (let btype_raw = take 4 f in
      if length btype_raw < 4 then Stop None
      else if btype_raw = PCAPNG_MAGIC then shb_round f
      else case eo of
        None \<Rightarrow> Stop (Some No_Section_Header)
      | Some e \<Rightarrow> block_round e ifs off f)"

lemma shb_round_Go:
  "shb_round f = Go k eo' ifs' po \<Longrightarrow> 12 \<le> k \<and> k \<le> length f \<and> po = None"
  by (auto simp: shb_round_def Let_def min_def split: if_splits)

lemma block_round_Go: "block_round e ifs off f = Go k eo' ifs' po \<Longrightarrow> 12 \<le> k \<and> k \<le> length f"
  by (auto simp: block_round_def Let_def min_def split: if_splits block_result.splits)

lemma pcapng_round_Go: "pcapng_round eo ifs off f = Go k eo' ifs' po \<Longrightarrow> 12 \<le> k \<and> k \<le> length f"
  using shb_round_Go block_round_Go
  by (fastforce simp: pcapng_round_def Let_def split: if_splits option.splits)

definition yield_opt :: "packet option \<Rightarrow> pcap_result \<Rightarrow> pcap_result" where
  "yield_opt po r = (case po of None \<Rightarrow> r | Some p \<Rightarrow> yield_packet p r)"

function pcapng_blocks :: "endian option \<Rightarrow> iface list \<Rightarrow> nat \<Rightarrow> bytes \<Rightarrow> pcap_result" where
  "pcapng_blocks eo ifs off f =
     (case pcapng_round eo ifs off f of
        Stop err \<Rightarrow> ([], err)
      | Go k eo' ifs' po \<Rightarrow> yield_opt po (pcapng_blocks eo' ifs' (off + k) (drop k f)))"
  by pat_completeness auto
termination
  by (relation "measure (\<lambda>(eo, ifs, off, f). length f)") (auto dest!: pcapng_round_Go)

declare pcapng_blocks.simps [simp del]

definition iter_packets :: "bytes \<Rightarrow> pcap_result" where
  "iter_packets file =
     (let magic = take 4 file in
      if magic = PCAPNG_MAGIC then pcapng_blocks None [] 0 file
      else case map_of PCAP_MAGICS magic of
        Some (e, frac_ns) \<Rightarrow> iter_pcap e frac_ns (drop 4 file)
      | None \<Rightarrow> ([], Some (Not_Pcap magic)))"

section \<open>A capture cut short\<close>

text \<open>How a run over a prefix of a file relates to the run over the whole: it yields a prefix of
  the packets, and either returns or ends exactly as the whole run did.\<close>

definition cut_of :: "pcap_result \<Rightarrow> pcap_result \<Rightarrow> bool" where
  "cut_of c r \<longleftrightarrow> prefix (fst c) (fst r) \<and> (snd c = None \<or> c = r)"

lemma cut_of_refl [simp]: "cut_of r r"
  and cut_of_stop [simp]: "cut_of ([], None) r"
  by (simp_all add: cut_of_def)

lemma cut_of_yield [simp]: "cut_of (yield_packet p c) (yield_packet p r) \<longleftrightarrow> cut_of c r"
  by (cases c; cases r) (auto simp: cut_of_def yield_packet_def)

lemma take_take_le: "n \<le> m \<Longrightarrow> take n (take m xs) = take n xs"
  by (simp add: min_absorb1)

lemma pcap_records_step:
  assumes "length (take 16 f) = 16" "incl = dec e (slice (take 16 f) 8 12)" "incl \<le> MAX_RECORD"
    "length (take incl (drop 16 f)) = incl"
  shows "pcap_records e frac_ns lt off f = yield_packet
      (lt, dec e (slice (take 16 f) 0 4) * 1000000000 + dec e (slice (take 16 f) 4 8) * frac_ns,
       take incl (drop 16 f))
      (pcap_records e frac_ns lt (off + 16 + incl) (drop (16 + incl) f))"
  using assms by (subst pcap_records.simps) (simp only: Let_def, simp)

lemma pcap_records_cut:
  "cut_of (pcap_records e frac_ns lt off (take n f)) (pcap_records e frac_ns lt off f)"
proof (induction e frac_ns lt off f arbitrary: n rule: pcap_records.induct)
  case (1 e frac_ns lt off f)
  define incl where "incl = dec e (slice (take 16 f) 8 12)"
  show ?case
  proof (cases "length f < 16 \<or> n < 16")
    case True
    then have "length (take 16 (take n f)) < 16" by auto
    then show ?thesis by (subst pcap_records.simps) (simp add: Let_def)
  next
    case False
    then have h: "take 16 (take n f) = take 16 f" "length (take 16 f) = 16" "\<not> length (take 16 f) < 16"
      by (auto simp: min_absorb1)
    show ?thesis
    proof (cases "incl > MAX_RECORD")
      case True
      then have "pcap_records e frac_ns lt off (take n f) = pcap_records e frac_ns lt off f"
        using h by (subst (1 2) pcap_records.simps) (simp add: Let_def incl_def)
      then show ?thesis by simp
    next
      case small: False
      show ?thesis
      proof (cases "length (take incl (drop 16 (take n f))) < incl")
        case True
        with h small show ?thesis
          by (subst pcap_records.simps) (simp only: Let_def incl_def [symmetric] if_False if_True cut_of_stop)
      next
        case False
        then have d: "take incl (drop 16 (take n f)) = take incl (drop 16 f)"
          "length (take incl (drop 16 f)) = incl"
          using h by (auto simp: drop_take min_def split: if_splits)
        have ih: "cut_of (pcap_records e frac_ns lt (off + 16 + incl) (take (n - (16 + incl)) (drop (16 + incl) f)))
            (pcap_records e frac_ns lt (off + 16 + incl) (drop (16 + incl) f))"
          using 1 [OF refl h(3) refl refl refl] small d(2) by (simp add: incl_def [symmetric])
        have dr: "drop (16 + incl) (take n f) = take (n - (16 + incl)) (drop (16 + incl) f)"
          by (rule drop_take)
        have "pcap_records e frac_ns lt off (take n f) = yield_packet
            (lt, dec e (slice (take 16 f) 0 4) * 1000000000 + dec e (slice (take 16 f) 4 8) * frac_ns,
             take incl (drop 16 f))
            (pcap_records e frac_ns lt (off + 16 + incl) (drop (16 + incl) (take n f)))"
          using pcap_records_step [of "take n f" incl e frac_ns lt off] h d small
          unfolding h(1) d(1) by (simp add: incl_def)
        moreover have "pcap_records e frac_ns lt off f = yield_packet
            (lt, dec e (slice (take 16 f) 0 4) * 1000000000 + dec e (slice (take 16 f) 4 8) * frac_ns,
             take incl (drop 16 f))
            (pcap_records e frac_ns lt (off + 16 + incl) (drop (16 + incl) f))"
          using h d small by (intro pcap_records_step) (simp_all add: incl_def)
        ultimately show ?thesis using ih by (simp only: dr cut_of_yield)
      qed
    qed
  qed
qed

lemma cut_of_yield_opt [simp]: "cut_of c r \<Longrightarrow> cut_of (yield_opt po c) (yield_opt po r)"
  by (cases po) (auto simp: yield_opt_def)

text \<open>A round on a prefix of the file stops, or does what it does on the whole file.\<close>

lemma if_cut:
  assumes "c' \<or> c' = c \<and> y' = y"
  shows "(if b then x else if c' then s else y') = s
       \<or> (if b then x else if c' then s else y') = (if b then x else if c then s else y)"
  using assms by auto

lemma shb_round_cut: "shb_round (take n f) = Stop None \<or> shb_round (take n f) = shb_round f"
proof (cases "length f < 12 \<or> n < 12")
  case True
  then have "length (take 8 (drop 4 (take n f))) < 8" by auto
  then show ?thesis by (simp only: shb_round_def Let_def if_True simp_thms)
next
  case False
  then have "8 \<le> n - 4" by auto
  then have h: "take 8 (drop 4 (take n f)) = take 8 (drop 4 f)" by (simp add: drop_take min_absorb1)
  from False have l: "\<not> length (take 8 (drop 4 f)) < 8" by (simp add: min_def) linarith
  have d: "length (take (k - 12) (drop 12 (take n f))) < k - 12
      \<or> (length (take (k - 12) (drop 12 (take n f))) < k - 12) = (length (take (k - 12) (drop 12 f)) < k - 12)"
    for k by (auto simp: drop_take min_def)
  define bom where "bom = slice (take 8 (drop 4 f)) 4 8"
  show ?thesis
  proof (cases "if bom = [0x4d, 0x3c, 0x2b, 0x1a] then Some LE
              else if bom = [0x1a, 0x2b, 0x3c, 0x4d] then Some BE else None")
    case None
    then show ?thesis unfolding shb_round_def Let_def h bom_def by (simp only: option.case simp_thms)
  next
    case (Some e)
    then show ?thesis
      unfolding shb_round_def Let_def h bom_def
      by (simp only: l if_False option.case) (rule if_cut, use d in blast)
  qed
qed

lemma block_round_cut:
  assumes "4 \<le> n" "4 \<le> length f"
  shows "block_round e ifs off (take n f) = Stop None \<or> block_round e ifs off (take n f) = block_round e ifs off f"
proof (cases "length f < 8 \<or> n < 8")
  case True
  then have "length (take 4 (drop 4 (take n f))) < 4" by auto
  then show ?thesis by (simp only: block_round_def Let_def if_True simp_thms)
next
  case False
  then have "4 \<le> n - 4" "4 \<le> n" by auto
  then have h: "take 4 (drop 4 (take n f)) = take 4 (drop 4 f)" "take 4 (take n f) = take 4 f"
    by (simp_all add: drop_take min_absorb1)
  from False have l: "\<not> length (take 4 (drop 4 f)) < 4" by (simp add: min_def) linarith
  have d: "(length (take (k - 12) (drop 8 (take n f))) < k - 12 \<or> length (take 4 (drop (k - 4) (take n f))) < 4)
      \<or> (take (k - 12) (drop 8 (take n f)) = take (k - 12) (drop 8 f)
       \<and> take 4 (drop (k - 4) (take n f)) = take 4 (drop (k - 4) f))" for k
    by (auto simp: drop_take min_def)
  show ?thesis
    unfolding block_round_def Let_def h
    by (simp only: l if_False) (rule if_cut, use d [of "dec e (take 4 (drop 4 f))"] in fastforce)
qed

lemma pcapng_round_cut:
  "pcapng_round eo ifs off (take n f) = Stop None \<or> pcapng_round eo ifs off (take n f) = pcapng_round eo ifs off f"
proof (cases "length f < 4 \<or> n < 4")
  case True
  then have "length (take 4 (take n f)) < 4" by auto
  then show ?thesis by (simp only: pcapng_round_def Let_def if_True simp_thms)
next
  case False
  then have h: "take 4 (take n f) = take 4 f" by (simp add: min_absorb1)
  from False have n: "4 \<le> n" "4 \<le> length f" by auto
  show ?thesis
    unfolding pcapng_round_def Let_def h
    using shb_round_cut [of n f] block_round_cut [OF n] by (auto split: option.splits)
qed

lemma pcapng_blocks_cut: "cut_of (pcapng_blocks eo ifs off (take n f)) (pcapng_blocks eo ifs off f)"
proof (induction eo ifs off f arbitrary: n rule: pcapng_blocks.induct)
  case (1 eo ifs off f)
  show ?case
  proof (cases "pcapng_round eo ifs off (take n f) = Stop None")
    case True
    then show ?thesis by (subst pcapng_blocks.simps) simp
  next
    case False
    with pcapng_round_cut have r: "pcapng_round eo ifs off (take n f) = pcapng_round eo ifs off f" by blast
    show ?thesis
    proof (cases "pcapng_round eo ifs off f")
      case (Stop err)
      with r show ?thesis by (subst (1 2) pcapng_blocks.simps) simp
    next
      case (Go k eo' ifs' po)
      from 1 [OF Go, of "n - k"] have
        "cut_of (pcapng_blocks eo' ifs' (off + k) (drop k (take n f))) (pcapng_blocks eo' ifs' (off + k) (drop k f))"
        by (simp add: drop_take)
      with Go r show ?thesis by (subst (1 2) pcapng_blocks.simps) simp
    qed
  qed
qed

lemma iter_pcap_cut: "20 \<le> n \<Longrightarrow> cut_of (iter_pcap e frac_ns (take n f)) (iter_pcap e frac_ns f)"
  by (simp add: iter_pcap_def Let_def drop_take min_absorb1 pcap_records_cut)

text \<open>C30: a capture killed mid-write is readable up to the cut.  For every file, pcap or pcapng, of
  either byte order, reading any prefix that still holds the 24-byte global header yields a prefix of
  the packets the whole file yields, and then either returns normally or stops on the very error the
  whole file stops on; truncation by itself never raises.\<close>

theorem truncation_tolerant:
  assumes "24 \<le> n"
  shows "prefix (fst (iter_packets (take n file))) (fst (iter_packets file))
     \<and> (snd (iter_packets (take n file)) = None \<or> iter_packets (take n file) = iter_packets file)"
proof -
  have m: "take 4 (take n file) = take 4 file" using assms by (simp add: min_absorb1)
  have d: "drop 4 (take n file) = take (n - 4) (drop 4 file)" by (rule drop_take)
  have "cut_of (iter_packets (take n file)) (iter_packets file)"
    unfolding iter_packets_def Let_def m d
    using pcapng_blocks_cut iter_pcap_cut assms by (auto split: option.splits)
  then show ?thesis by (simp add: cut_of_def)
qed

theorem truncation_tolerant_witness:
  "snd (iter_packets (take 24 (hd (map fst PCAP_MAGICS) @ replicate 40 0))) = None
   \<or> iter_packets (take 24 (hd (map fst PCAP_MAGICS) @ replicate 40 0))
       = iter_packets (hd (map fst PCAP_MAGICS) @ replicate 40 0)"
  using truncation_tolerant [of 24 "hd (map fst PCAP_MAGICS) @ replicate 40 0"] by simp

section \<open>Well-formed files\<close>

text \<open>The classic format as a writer lays it out: the abstract content is the byte order, the
  fraction unit, the link type and the records (seconds, fraction, bytes).\<close>

definition pcap_magic :: "endian \<Rightarrow> nat \<Rightarrow> bytes" where
  "pcap_magic e frac_ns =
     (case e of LE \<Rightarrow> (if frac_ns = 1000 then [0xd4, 0xc3, 0xb2, 0xa1] else [0x4d, 0x3c, 0xb2, 0xa1])
      | BE \<Rightarrow> (if frac_ns = 1000 then [0xa1, 0xb2, 0xc3, 0xd4] else [0xa1, 0xb2, 0x3c, 0x4d]))"

fun record_bytes :: "endian \<Rightarrow> nat \<times> nat \<times> bytes \<Rightarrow> bytes" where
  "record_bytes e (sec, fr, d) =
     enc e 4 sec @ enc e 4 fr @ enc e 4 (length d) @ enc e 4 (length d) @ d"

definition pcap_file :: "endian \<Rightarrow> nat \<Rightarrow> nat \<Rightarrow> (nat \<times> nat \<times> bytes) list \<Rightarrow> bytes" where
  "pcap_file e frac_ns lt recs =
     pcap_magic e frac_ns @ enc e 2 2 @ enc e 2 4 @ enc e 4 0 @ enc e 4 0 @ enc e 4 65535 @ enc e 4 lt
     @ concat (map (record_bytes e) recs)"

definition record_ok :: "nat \<times> nat \<times> bytes \<Rightarrow> bool" where
  "record_ok r \<longleftrightarrow> fst r < 2 ^ 32 \<and> fst (snd r) < 2 ^ 32 \<and> length (snd (snd r)) \<le> MAX_RECORD"

lemma MAX_RECORD_small: "n \<le> MAX_RECORD \<Longrightarrow> n < 4294967296"
  by (simp add: MAX_RECORD_def)

lemma pcap_records_written:
  "\<forall>r\<in>set recs. record_ok r \<Longrightarrow>
     pcap_records e frac_ns lt off (concat (map (record_bytes e) recs))
       = (map (\<lambda>(s, fr, d). (lt, s * 1000000000 + fr * frac_ns, d)) recs, None)"
proof (induction recs arbitrary: off)
  case Nil
  show ?case by (subst pcap_records.simps) simp
next
  case (Cons r recs)
  obtain s fr d where r: "r = (s, fr, d)" by (cases r)
  from Cons.prems r have ok: "s < 4294967296" "fr < 4294967296" "length d \<le> MAX_RECORD"
    by (auto simp: record_ok_def)
  let ?f = "concat (map (record_bytes e) (r # recs))"
  have fields: "length (take 16 ?f) = 16" "dec e (slice (take 16 ?f) 8 12) = length d"
    "dec e (slice (take 16 ?f) 0 4) = s" "dec e (slice (take 16 ?f) 4 8) = fr"
    "take (length d) (drop 16 ?f) = d" "drop (16 + length d) ?f = concat (map (record_bytes e) recs)"
    using ok MAX_RECORD_small [OF ok(3)] by (simp_all add: r slice_def dec_enc)
  have "pcap_records e frac_ns lt off ?f = yield_packet (lt, s * 1000000000 + fr * frac_ns, d)
      (pcap_records e frac_ns lt (off + 16 + length d) (concat (map (record_bytes e) recs)))"
    using pcap_records_step [OF fields(1) fields(2) [symmetric] ok(3), of frac_ns lt off]
    by (simp only: fields)
  with Cons.IH Cons.prems show ?case by (simp add: yield_packet_def r)
qed

lemma pcap_file_packets:
  assumes "frac_ns \<in> {1, 1000}" "lt < 2 ^ 32" "\<forall>r\<in>set recs. record_ok r"
  shows "iter_packets (pcap_file e frac_ns lt recs) =
     (map (\<lambda>(s, fr, d). (lt, s * 1000000000 + fr * frac_ns, d)) recs, None)"
proof -
  let ?f = "pcap_file e frac_ns lt recs"
  have m: "take 4 ?f = pcap_magic e frac_ns" "drop 4 ?f = enc e 2 2 @ enc e 2 4 @ enc e 4 0 @ enc e 4 0
      @ enc e 4 65535 @ enc e 4 lt @ concat (map (record_bytes e) recs)"
    by (cases e; simp add: pcap_file_def pcap_magic_def)+
  have k: "map_of PCAP_MAGICS (pcap_magic e frac_ns) = Some (e, frac_ns)" "pcap_magic e frac_ns \<noteq> PCAPNG_MAGIC"
    using assms(1) by (cases e; auto simp: pcap_magic_def PCAP_MAGICS_def PCAPNG_MAGIC_def)+
  have "iter_packets ?f = pcap_records e frac_ns lt 24 (concat (map (record_bytes e) recs))"
    using k assms(2) unfolding iter_packets_def Let_def m by (simp add: iter_pcap_def slice_def dec_enc)
  with pcap_records_written [OF assms(3)] show ?thesis by simp
qed

text \<open>classic pcap round trip.  A well-formed file of either byte order and either timestamp
  unit reads back to exactly its records, in order, each stamped in nanoseconds.\<close>

theorem pcap_roundtrip:
  assumes "frac_ns \<in> {1, 1000}" "lt < 2 ^ 32" "\<forall>r\<in>set recs. record_ok r"
  shows "iter_packets (pcap_file e frac_ns lt recs) =
     (map (\<lambda>(s, fr, d). (lt, s * 1000000000 + fr * frac_ns, d)) recs, None)"
  using assms by (rule pcap_file_packets)

theorem pcap_roundtrip_witness:
  "iter_packets (pcap_file BE 1000 220 [(1, 5, [7, 8]), (2, 0, [])])
     = ([(220, 1000005000, [7, 8]), (220, 2000000000, [])], None)"
  by (subst pcap_roundtrip) (simp_all add: record_ok_def MAX_RECORD_def)

text \<open>The pcapng content: sections, interfaces with their timestamp resolution, packets and other
  blocks, and what a reader owes for it.\<close>

datatype ng_block =
    NG_Section endian
  | NG_Iface nat byte
  | NG_Packet nat nat bytes          \<comment> \<open>interface, raw timestamp, data\<close>
  | NG_Other nat bytes

definition pad4 :: "nat \<Rightarrow> nat" where
  "pad4 n = (4 - n mod 4) mod 4"

definition ng_raw :: "endian \<Rightarrow> nat \<Rightarrow> bytes \<Rightarrow> bytes" where
  "ng_raw e t body = enc e 4 t @ enc e 4 (12 + length body) @ body @ enc e 4 (12 + length body)"

definition ng_bom :: "endian \<Rightarrow> bytes" where
  "ng_bom e = (case e of LE \<Rightarrow> [0x4d, 0x3c, 0x2b, 0x1a] | BE \<Rightarrow> [0x1a, 0x2b, 0x3c, 0x4d])"

fun ng_bytes :: "endian \<Rightarrow> ng_block \<Rightarrow> bytes" where
  "ng_bytes _ (NG_Section e) =
     PCAPNG_MAGIC @ enc e 4 28 @ ng_bom e @ replicate 12 0 @ enc e 4 28"
| "ng_bytes e (NG_Iface lt r) =
     ng_raw e 1 (enc e 2 lt @ enc e 2 0 @ enc e 4 0 @ enc e 2 9 @ enc e 2 1 @ [r, 0, 0, 0] @ enc e 2 0 @ enc e 2 0)"
| "ng_bytes e (NG_Packet i ts d) =
     ng_raw e 6 (enc e 4 i @ enc e 4 (ts div 2 ^ 32) @ enc e 4 (ts mod 2 ^ 32) @ enc e 4 (length d)
                 @ enc e 4 (length d) @ d @ replicate (pad4 (length d)) 0)"
| "ng_bytes e (NG_Other t body) = ng_raw e t body"

fun ng_file :: "endian \<Rightarrow> ng_block list \<Rightarrow> bytes" where
  "ng_file e [] = []"
| "ng_file e (b # bs) = ng_bytes e b @ ng_file (case b of NG_Section e' \<Rightarrow> e' | _ \<Rightarrow> e) bs"

fun ng_packets :: "iface list \<Rightarrow> ng_block list \<Rightarrow> packet list" where
  "ng_packets ifs [] = []"
| "ng_packets ifs (NG_Section _ # bs) = ng_packets [] bs"
| "ng_packets ifs (NG_Iface lt r # bs) = ng_packets (ifs @ [(lt, r)]) bs"
| "ng_packets ifs (NG_Packet i ts d # bs) =
     (fst (ifs ! i), tsresol_to_ns (snd (ifs ! i)) ts, d) # ng_packets ifs bs"
| "ng_packets ifs (NG_Other _ _ # bs) = ng_packets ifs bs"

fun ng_wf :: "iface list \<Rightarrow> ng_block list \<Rightarrow> bool" where
  "ng_wf ifs [] = True"
| "ng_wf ifs (NG_Section _ # bs) = ng_wf [] bs"
| "ng_wf ifs (NG_Iface lt r # bs) = (lt < 2 ^ 16 \<and> ng_wf (ifs @ [(lt, r)]) bs)"
| "ng_wf ifs (NG_Packet i ts d # bs) =
     (i < length ifs \<and> i < 2 ^ 32 \<and> ts < 2 ^ 64 \<and> length d + 40 \<le> MAX_RECORD \<and> ng_wf ifs bs)"
| "ng_wf ifs (NG_Other t body # bs) =
     (t \<notin> {1, 6, 0x0A0D0D0A} \<and> t < 2 ^ 32 \<and> length body mod 4 = 0 \<and> length body + 12 \<le> MAX_RECORD \<and> ng_wf ifs bs)"

lemma pad4_aligned: "(n + pad4 n) mod 4 = 0" "pad4 n \<le> 3"
proof -
  have "n mod 4 < 4" by simp
  then consider "n mod 4 = 0" | "n mod 4 = 1" | "n mod 4 = 2" | "n mod 4 = 3" by linarith
  then have "(n + pad4 n) mod 4 = 0 \<and> pad4 n \<le> 3"
    by cases (simp_all add: pad4_def, presburger+)
  then show "(n + pad4 n) mod 4 = 0" "pad4 n \<le> 3" by auto
qed

lemma magic_code: "t < 4294967296 \<Longrightarrow> enc e 4 t = PCAPNG_MAGIC \<longleftrightarrow> t = 0x0A0D0D0A"
proof -
  assume t: "t < 4294967296"
  have "dec e PCAPNG_MAGIC = 0x0A0D0D0A"
    by (cases e) (simp_all add: dec_def PCAPNG_MAGIC_def)
  moreover have "length PCAPNG_MAGIC = 4" by (simp add: PCAPNG_MAGIC_def)
  ultimately have eq: "PCAPNG_MAGIC = enc e 4 0x0A0D0D0A" by (metis enc_dec)
  show ?thesis unfolding eq by (rule enc_inject) (use t in simp_all)
qed

lemma raw_round:
  assumes "t < 4294967296" "t \<noteq> 0x0A0D0D0A" "length body + 12 \<le> MAX_RECORD" "length body mod 4 = 0"
  shows "pcapng_round (Some e) ifs off (ng_raw e t body @ rest) =
     (case pcapng_block e ifs t body of
        Block_Raise err \<Rightarrow> Stop (Some err)
      | Block_Skip \<Rightarrow> Go (12 + length body) (Some e) ifs None
      | Block_Iface i \<Rightarrow> Go (12 + length body) (Some e) (ifs @ [i]) None
      | Block_Packet p \<Rightarrow> Go (12 + length body) (Some e) ifs (Some p))"
proof -
  let ?f = "ng_raw e t body @ rest"
  have k: "length body + 12 < 4294967296" using MAX_RECORD_small [OF assms(3)] .
  have f: "take 4 ?f = enc e 4 t" "take 4 (drop 4 ?f) = enc e 4 (12 + length body)"
    "take (12 + length body - 12) (drop 8 ?f) = body"
    "take 4 (drop (12 + length body - 4) ?f) = enc e 4 (12 + length body)"
    by (simp_all add: ng_raw_def)
  have d: "dec e (enc e 4 t) = t" "dec e (enc e 4 (12 + length body)) = 12 + length body"
    using k assms(1) by (simp_all add: dec_enc)
  have m: "enc e 4 t \<noteq> PCAPNG_MAGIC" using assms magic_code by blast
  have a: "(12 + length body) mod 4 = 0" using assms(4) by presburger
  have b: "block_round e ifs off ?f = (case pcapng_block e ifs t body of
        Block_Raise err \<Rightarrow> Stop (Some err)
      | Block_Skip \<Rightarrow> Go (12 + length body) (Some e) ifs None
      | Block_Iface i \<Rightarrow> Go (12 + length body) (Some e) (ifs @ [i]) None
      | Block_Packet p \<Rightarrow> Go (12 + length body) (Some e) ifs (Some p))"
    unfolding block_round_def Let_def f d using assms(3) a f by simp
  show ?thesis unfolding pcapng_round_def Let_def f using m by (simp add: b)
qed

lemma section_round:
  "pcapng_round eo ifs off (ng_bytes e' (NG_Section e) @ rest) = Go 28 (Some e) [] None"
proof -
  let ?f = "ng_bytes e' (NG_Section e) @ rest"
  have l: "length PCAPNG_MAGIC = 4" "length (ng_bom e) = 4"
    by (simp_all add: PCAPNG_MAGIC_def ng_bom_def split: endian.splits)
  have f: "take 4 ?f = PCAPNG_MAGIC" "take 8 (drop 4 ?f) = enc e 4 28 @ ng_bom e"
    "length (take (28 - 12) (drop 12 ?f)) = 16"
    using l by simp_all
  have b: "slice (enc e 4 28 @ ng_bom e) 4 8 = ng_bom e" "slice (enc e 4 28 @ ng_bom e) 0 4 = enc e 4 28"
    "dec e (enc e 4 28) = 28" "length (enc e 4 28 @ ng_bom e) = 8"
    "(if ng_bom e = [0x4d, 0x3c, 0x2b, 0x1a] then Some LE
      else if ng_bom e = [0x1a, 0x2b, 0x3c, 0x4d] then Some BE else None) = Some e"
    using l by (simp_all add: slice_def dec_enc ng_bom_def split: endian.splits)
  have "shb_round ?f = Go 28 (Some e) [] None"
    unfolding shb_round_def Let_def f(2) b option.case f(3) by (simp add: MAX_RECORD_def)
  then show ?thesis
    unfolding pcapng_round_def Let_def f(1) by (simp add: l)
qed

text \<open>The interface block's option loop reads the resolution back.\<close>

lemma iface_block:
  "lt < 65536 \<Longrightarrow> pcapng_block e ifs 1
     (enc e 2 lt @ enc e 2 0 @ enc e 4 0 @ enc e 2 9 @ enc e 2 1 @ [r, 0, 0, 0] @ enc e 2 0 @ enc e 2 0)
     = Block_Iface (lt, r)"
proof -
  assume lt: "lt < 65536"
  let ?o = "enc e 2 9 @ enc e 2 1 @ [r, 0, 0, 0] @ enc e 2 0 @ enc e 2 0"
  have fin: "idb_tsresol e (enc e 2 0 @ enc e 2 0) r = Inr r"
    by (subst idb_tsresol.simps) (simp add: slice_def dec_enc)
  have "idb_tsresol e ?o 6 = Inr r"
    using fin by (subst idb_tsresol.simps) (simp add: slice_def dec_enc nth_append)
  with lt show ?thesis by (simp add: pcapng_block_def slice_def dec_enc)
qed

lemma packet_block:
  assumes "i < length ifs" "i < 4294967296" "ts < 2 ^ 64" "length d + 40 \<le> MAX_RECORD"
  shows "pcapng_block e ifs 6 (enc e 4 i @ enc e 4 (ts div 2 ^ 32) @ enc e 4 (ts mod 2 ^ 32)
      @ enc e 4 (length d) @ enc e 4 (length d) @ d @ pad)
    = Block_Packet (fst (ifs ! i), tsresol_to_ns (snd (ifs ! i)) ts, d)"
proof -
  have "length d < 4294967296" using assms(4) MAX_RECORD_small [of "length d + 40"] by simp
  moreover have "ts div 2 ^ 32 < 4294967296" using assms(3) by (simp add: div_less_iff_less_mult)
  moreover have "ts div 4294967296 * 4294967296 + ts mod 4294967296 = ts" by simp
  ultimately show ?thesis using assms(1,2)
    by (simp add: pcapng_block_def slice_def dec_enc)
qed

lemma iter_packets_ng: "take 4 f = PCAPNG_MAGIC \<Longrightarrow> iter_packets f = pcapng_blocks None [] 0 f"
  by (simp add: iter_packets_def)

lemma ng_blocks_written:
  "ng_wf ifs bs \<Longrightarrow> pcapng_blocks (Some e) ifs off (ng_file e bs) = (ng_packets ifs bs, None)"
proof (induction bs arbitrary: e ifs off)
  case Nil
  show ?case by (subst pcapng_blocks.simps) (simp add: pcapng_round_def)
next
  case (Cons b bs)
  show ?case
  proof (cases b)
    case (NG_Section e')
    with Cons.IH [of "[]" e'] Cons.prems
      section_round [of "Some e" ifs off e e' "ng_file e' bs"] show ?thesis
      by (subst pcapng_blocks.simps) (simp add: yield_opt_def, simp add: PCAPNG_MAGIC_def ng_bom_def split: endian.splits)
  next
    case (NG_Iface lt r)
    let ?body = "enc e 2 lt @ enc e 2 0 @ enc e 4 0 @ enc e 2 9 @ enc e 2 1 @ [r, 0, 0, 0] @ enc e 2 0 @ enc e 2 0"
    have "pcapng_round (Some e) ifs off (ng_raw e 1 ?body @ ng_file e bs) = Go 32 (Some e) (ifs @ [(lt, r)]) None"
      using NG_Iface Cons.prems by (subst raw_round) (simp_all add: iface_block [simplified] MAX_RECORD_def)
    moreover have "drop 32 (ng_raw e 1 ?body @ ng_file e bs) = ng_file e bs" by (simp add: ng_raw_def)
    ultimately show ?thesis using NG_Iface Cons
      by (subst pcapng_blocks.simps) (simp add: yield_opt_def)
  next
    case (NG_Packet i ts d)
    let ?body = "enc e 4 i @ enc e 4 (ts div 2 ^ 32) @ enc e 4 (ts mod 2 ^ 32) @ enc e 4 (length d)
                 @ enc e 4 (length d) @ d @ replicate (pad4 (length d)) 0"
    have l: "length ?body = 20 + length d + pad4 (length d)" by simp
    have a: "length ?body mod 4 = 0" using pad4_aligned(1) [of "length d"] unfolding l by presburger
    have m: "length ?body + 12 \<le> MAX_RECORD"
      using pad4_aligned(2) [of "length d"] NG_Packet Cons.prems unfolding l by simp
    have r: "pcapng_round (Some e) ifs off (ng_raw e 6 ?body @ ng_file e bs)
        = Go (12 + length ?body) (Some e) ifs (Some (fst (ifs ! i), tsresol_to_ns (snd (ifs ! i)) ts, d))"
      using NG_Packet Cons.prems
      by (subst raw_round [OF _ _ m a]) (simp_all add: packet_block [simplified])
    have "drop (12 + length ?body) (ng_raw e 6 ?body @ ng_file e bs) = ng_file e bs" by (simp add: ng_raw_def)
    with r NG_Packet Cons show ?thesis
      by (subst pcapng_blocks.simps) (simp add: yield_opt_def yield_packet_def)
  next
    case (NG_Other t body)
    have "pcapng_round (Some e) ifs off (ng_raw e t body @ ng_file e bs) = Go (12 + length body) (Some e) ifs None"
      using NG_Other Cons.prems by (subst raw_round) (simp_all add: pcapng_block_def)
    moreover have "drop (12 + length body) (ng_raw e t body @ ng_file e bs) = ng_file e bs" by (simp add: ng_raw_def)
    ultimately show ?thesis using NG_Other Cons
      by (subst pcapng_blocks.simps) (simp add: yield_opt_def)
  qed
qed

text \<open>C31: pcapng reading refines the abstract content.  On every well-formed file (any number of
  sections of either byte order, each with its own interfaces and resolutions, packets and unknown
  blocks interleaved) the reader yields exactly the packets of the content, each stamped by its own
  interface's resolution, with the interface list starting over in each section.\<close>

theorem pcapng_refines:
  assumes "ng_wf [] bs"
  shows "iter_packets (ng_file e0 (NG_Section e # bs)) = (ng_packets [] bs, None)"
proof -
  let ?f = "ng_file e0 (NG_Section e # bs)"
  have f: "?f = ng_bytes e0 (NG_Section e) @ ng_file e bs" by simp
  have m: "take 4 ?f = PCAPNG_MAGIC" by (simp add: PCAPNG_MAGIC_def)
  have "drop 28 ?f = ng_file e bs"
    by (simp add: PCAPNG_MAGIC_def ng_bom_def split: endian.splits)
  moreover have "pcapng_round None [] 0 ?f = Go 28 (Some e) [] None"
    unfolding f by (rule section_round)
  ultimately have "pcapng_blocks None [] 0 ?f = pcapng_blocks (Some e) [] 28 (ng_file e bs)"
    by (subst pcapng_blocks.simps) (simp add: yield_opt_def)
  with ng_blocks_written [OF assms] show ?thesis
    by (simp only: iter_packets_ng [OF m])
qed

theorem pcapng_refines_witness:
  "iter_packets (ng_file LE (NG_Section BE # [NG_Iface 220 9, NG_Packet 0 77 [1, 2, 3], NG_Section LE,
      NG_Iface 189 6, NG_Other 5 [0, 0, 0, 0], NG_Packet 0 5 []]))
   = ([(220, 77, [1, 2, 3]), (189, 5000, [])], None)"
  by (subst pcapng_refines) (simp_all add: MAX_RECORD_def tsresol_to_ns_def)

text \<open>a cut interface option escapes the reader's own error type.  A pcapng file whose
  interface block ends in a four-byte \<open>if_tsresol\<close> option header, with no value, makes the reader
  index past the option bytes (a Python \<open>IndexError\<close>) instead of raising \<open>PcapFormatError\<close>.\<close>

theorem cut_option_index_error:
  "snd (iter_packets (ng_file LE [NG_Section e, NG_Other 1 (enc e 2 220 @ enc e 2 0 @ enc e 4 0 @ enc e 2 9 @ enc e 2 1)]))
   = Some Py_IndexError"
proof -
  let ?body = "enc e 2 220 @ enc e 2 0 @ enc e 4 0 @ enc e 2 9 @ enc e 2 1"
  let ?f = "ng_file LE [NG_Section e, NG_Other 1 ?body]"
  have f: "?f = ng_bytes LE (NG_Section e) @ ng_raw e 1 ?body" by simp
  have m: "take 4 ?f = PCAPNG_MAGIC" by (simp add: PCAPNG_MAGIC_def)
  have d: "drop 28 ?f = ng_raw e 1 ?body"
    by (simp add: PCAPNG_MAGIC_def ng_bom_def split: endian.splits)
  have "idb_tsresol e (enc e 2 9 @ enc e 2 1) 6 = Inl Py_IndexError"
    by (subst idb_tsresol.simps) (simp add: slice_def dec_enc)
  then have "pcapng_block e [] 1 ?body = Block_Raise Py_IndexError"
    by (simp add: pcapng_block_def)
  then have "pcapng_round (Some e) [] 28 (ng_raw e 1 ?body @ []) = Stop (Some Py_IndexError)"
    by (subst raw_round) (simp_all add: MAX_RECORD_def)
  then have "pcapng_blocks (Some e) [] 28 (ng_raw e 1 ?body) = ([], Some Py_IndexError)"
    by (subst pcapng_blocks.simps) simp
  moreover have "pcapng_round None [] 0 ?f = Go 28 (Some e) [] None"
    unfolding f by (rule section_round)
  ultimately have "pcapng_blocks None [] 0 ?f = ([], Some Py_IndexError)"
    using d by (subst pcapng_blocks.simps) (simp add: yield_opt_def)
  then show ?thesis by (simp only: iter_packets_ng [OF m] snd_conv)
qed

end
