(* ===== verification/Usbmon.thy ===== *)
theory Usbmon
  imports Pcap_IO
begin

text \<open>
  The usbmon layer of \<open>core-driver/cam_driver/uvcpcap.py\<close>: the URB record (\<open>_Urb\<close>), its parser
  with the byte-order lock (\<open>_UsbmonParser\<close>), the isochronous payload slicing and the UVC payload
  header.  Byte strings are lists, and every slice is the source's slice.
\<close>

definition LINKTYPE_USBMON_64 :: nat where
  "LINKTYPE_USBMON_64 = 220"

definition LINKTYPE_USBMON_48 :: nat where
  "LINKTYPE_USBMON_48 = 189"

definition USB_LINKTYPES :: "nat list" where
  "USB_LINKTYPES = [LINKTYPE_USBMON_64, LINKTYPE_USBMON_48]"

abbreviation (input) XFER_ISO :: nat where "XFER_ISO \<equiv> 0"
abbreviation (input) XFER_INTR :: nat where "XFER_INTR \<equiv> 1"
abbreviation (input) XFER_CTRL :: nat where "XFER_CTRL \<equiv> 2"
abbreviation (input) XFER_BULK :: nat where "XFER_BULK \<equiv> 3"

abbreviation (input) TYPE_S :: nat where "TYPE_S \<equiv> 0x53"
abbreviation (input) TYPE_C :: nat where "TYPE_C \<equiv> 0x43"
abbreviation (input) TYPE_E :: nat where "TYPE_E \<equiv> 0x45"

record urb =
  u_id :: nat
  u_type :: nat
  u_xfer :: nat
  u_ep :: nat
  u_is_in :: bool
  u_dev :: nat
  u_bus :: nat
  u_has_setup :: bool
  u_has_data :: bool
  u_status :: int
  u_length :: nat
  u_len_cap :: nat
  u_setup :: bytes
  u_ndesc :: nat
  u_hdr_len :: nat
  u_ts_ns :: nat
  u_record :: bytes

definition urb_data :: "urb \<Rightarrow> bytes" where
  "urb_data u =
     (let start = u_hdr_len u + u_ndesc u * 16;
          stop = u_hdr_len u + min (u_len_cap u) (length (u_record u) - u_hdr_len u)
      in if stop > start then slice (u_record u) start stop else [])"

definition parse_with :: "endian \<Rightarrow> nat \<Rightarrow> nat \<Rightarrow> bytes \<Rightarrow> urb option" where
  "parse_with e linktype ts_ns rec =
     (let hdr_len = (if linktype = LINKTYPE_USBMON_64 then 64 else 48) in
      if length rec < hdr_len then None
      else
        let ndesc = (if hdr_len = 64 then dec e (slice rec 60 64) else 0);
            u = \<lparr>u_id = dec e (slice rec 0 8), u_type = dec e (slice rec 8 9),
                 u_xfer = dec e (slice rec 9 10),
                 u_ep = dec e (slice rec 10 11) mod 128,
                 u_is_in = (dec e (slice rec 10 11) \<ge> 128),
                 u_dev = dec e (slice rec 11 12), u_bus = dec e (slice rec 12 14),
                 u_has_setup = (dec e (slice rec 14 15) = 0), u_has_data = (dec e (slice rec 15 16) = 0),
                 u_status = signed32 (dec e (slice rec 28 32)), u_length = dec e (slice rec 32 36),
                 u_len_cap = dec e (slice rec 36 40), u_setup = slice rec 40 48,
                 u_ndesc = 0, u_hdr_len = hdr_len, u_ts_ns = ts_ns, u_record = rec\<rparr>
        in if u_xfer u = XFER_ISO then
             (if hdr_len = 64 then Some (u\<lparr>u_ndesc := min ndesc 128\<rparr>)
              else
                let numdesc = signed32 (dec e (slice (u_setup u) 4 8)) in
                Some (u\<lparr>u_ndesc := nat (max 0 (min numdesc
                        (min (int ((length rec - hdr_len) div 16)) 128)))\<rparr>))
           else Some u)"

definition plausible :: "urb \<Rightarrow> bool" where
  "plausible u \<longleftrightarrow> u_type u \<in> {TYPE_S, TYPE_C, TYPE_E} \<and> u_xfer u \<le> 3 \<and> u_bus u \<le> 4096
     \<and> u_len_cap u \<le> length (u_record u) - u_hdr_len u + 16 * 128"

text \<open>The parser's only state is the locked byte order.\<close>

definition usbmon_parse ::
  "endian option \<Rightarrow> nat \<Rightarrow> nat \<Rightarrow> bytes \<Rightarrow> urb option \<times> endian option" where
  "usbmon_parse lock linktype ts_ns rec =
     (case lock of
        Some e \<Rightarrow> (parse_with e linktype ts_ns rec, lock)
      | None \<Rightarrow>
          let le = parse_with LE linktype ts_ns rec; be = parse_with BE linktype ts_ns rec;
              le_ok = (case le of None \<Rightarrow> False | Some u \<Rightarrow> plausible u);
              be_ok = (case be of None \<Rightarrow> False | Some u \<Rightarrow> plausible u)
          in if le_ok \<and> \<not> be_ok then (le, Some LE)
             else if be_ok \<and> \<not> le_ok then (be, Some BE)
             else if le_ok \<and> be_ok then
               (if u_bus (the le) \<le> u_bus (the be) then le else be, None)
             else (le, None))"

text \<open>\<open>iso_payloads\<close>, from descriptor \<open>i\<close> on: (payload, lost) per packet.\<close>

function iso_from :: "endian \<Rightarrow> urb \<Rightarrow> bytes \<Rightarrow> nat \<Rightarrow> (bytes \<times> bool) list" where
  "iso_from e u data i =
     (if i \<ge> u_ndesc u then []
      else
        let off = u_hdr_len u + i * 16 in
        if off + 16 > length (u_record u) then []
        else
          let iso_status = signed32 (dec e (slice (u_record u) off (off + 4)));
              iso_off = dec e (slice (u_record u) (off + 4) (off + 8));
              iso_len = dec e (slice (u_record u) (off + 8) (off + 12)) in
          if iso_status \<noteq> 0 then ([], True) # iso_from e u data (i + 1)
          else if iso_len = 0 then iso_from e u data (i + 1)
          else if iso_off + iso_len > length data then ([], True) # iso_from e u data (i + 1)
          else (slice data iso_off (iso_off + iso_len), False) # iso_from e u data (i + 1))"
  by pat_completeness auto
termination by (relation "measure (\<lambda>(e, u, d, i). u_ndesc u - i)") auto

declare iso_from.simps [simp del]

definition iso_payloads :: "endian option \<Rightarrow> urb \<Rightarrow> (bytes \<times> bool) list" where
  "iso_payloads lock u = iso_from (case lock of None \<Rightarrow> LE | Some e \<Rightarrow> e) u (urb_data u) 0"

section \<open>The UVC payload header\<close>

text \<open>Bits of \<open>bmHeaderInfo\<close>: 0 frame id, 1 end of frame, 2 PTS, 3 SCR, 6 error.\<close>

definition implied_len :: "byte \<Rightarrow> nat" where
  "implied_len info = 2 + (if bit info 2 then 4 else 0) + (if bit info 3 then 6 else 0)"

definition parse_uvc_header :: "bytes \<Rightarrow> bool \<Rightarrow> (nat \<times> byte) option" where
  "parse_uvc_header payload strict =
     (if length payload < 2 then None
      else
        let hlen = unat (payload ! 0); info = payload ! 1; implied = implied_len info in
        if strict then
          (if hlen \<noteq> implied \<or> hlen > length payload then None else Some (hlen, info))
        else if \<not> (implied \<le> hlen \<and> hlen \<le> length payload) then None
        else Some (hlen, info))"

section \<open>Properties\<close>

lemma urb_data_bound: "length (urb_data u) \<le> u_len_cap u"
  by (auto simp: urb_data_def Let_def)

lemma urb_data_in_record: "u_hdr_len u \<le> length (u_record u) \<Longrightarrow> length (urb_data u) \<le> length (u_record u) - u_hdr_len u"
  by (auto simp: urb_data_def Let_def)

text \<open>A payload the slicer reports as intact is a whole, non-empty slice of the captured data:
  never padded, never shortened.\<close>

lemma iso_from_sound:
  "(p, lost) \<in> set (iso_from e u data i) \<Longrightarrow>
     (lost \<longrightarrow> p = []) \<and> (\<not> lost \<longrightarrow> p \<noteq> [] \<and> (\<exists>a n. a + n \<le> length data \<and> 0 < n \<and> p = slice data a (a + n) \<and> length p = n))"
proof (induction "u_ndesc u - i" arbitrary: i)
  case 0
  then show ?case by (subst (asm) iso_from.simps) simp
next
  case (Suc n)
  define off where "off = u_hdr_len u + i * 16"
  define io where "io = dec e (slice (u_record u) (off + 4) (off + 8))"
  define il where "il = dec e (slice (u_record u) (off + 8) (off + 12))"
  define st where "st = signed32 (dec e (slice (u_record u) off (off + 4)))"
  have unf: "iso_from e u data i =
     (if i \<ge> u_ndesc u then [] else if off + 16 > length (u_record u) then []
      else if st \<noteq> 0 then ([], True) # iso_from e u data (i + 1)
      else if il = 0 then iso_from e u data (i + 1)
      else if io + il > length data then ([], True) # iso_from e u data (i + 1)
      else (slice data io (io + il), False) # iso_from e u data (i + 1))"
    by (subst iso_from.simps) (simp only: Let_def off_def io_def il_def st_def)
  from Suc.prems unf consider "(p, lost) = ([], True)" | "(p, lost) \<in> set (iso_from e u data (i + 1))"
     | "0 < il" "io + il \<le> length data" "p = slice data io (io + il)" "\<not> lost"
    by (fastforce split: if_splits)
  then show ?case
  proof cases
    case 1
    then show ?thesis by simp
  next
    case 2
    have "n = u_ndesc u - (i + 1)" using Suc.hyps(2) by simp
    from Suc.hyps(1) [OF this 2] show ?thesis .
  next
    case 3
    then have "length p = il" by simp
    with 3 show ?thesis by (metis length_greater_0_conv)
  qed
qed

lemma uvc_header_bounds:
  "parse_uvc_header p strict = Some (hlen, info) \<Longrightarrow>
     2 \<le> hlen \<and> hlen \<le> length p \<and> info = p ! 1 \<and> implied_len info \<le> hlen"
  by (auto simp: parse_uvc_header_def Let_def implied_len_def split: if_splits)

lemma strict_implies_tolerant:
  "parse_uvc_header p True = Some r \<Longrightarrow> parse_uvc_header p False = Some r"
  by (auto simp: parse_uvc_header_def Let_def split: if_splits)

text \<open>Once locked, the byte order never changes; until then nothing but the two parses is returned.\<close>

lemma usbmon_lock_stable: "usbmon_parse (Some e) lt ts rec = (parse_with e lt ts rec, Some e)"
  by (simp add: usbmon_parse_def)

lemma usbmon_parse_either:
  "fst (usbmon_parse lock lt ts rec) \<in> {parse_with LE lt ts rec, parse_with BE lt ts rec}"
  by (cases lock; cases "the lock") (auto simp: usbmon_parse_def Let_def)

lemma parse_with_keeps: "parse_with e lt ts rec = Some u \<Longrightarrow> u_ts_ns u = ts \<and> u_record u = rec \<and> u_hdr_len u \<le> length rec \<and> u_ndesc u \<le> 128"
  by (auto simp: parse_with_def Let_def split: if_splits)

end
