(* ===== verification/Uvc_Frames.thy ===== *)
theory Uvc_Frames
  imports Usbmon
begin

text \<open>
  \<open>UvcFrameExtractor\<close> of \<open>core-driver/cam_driver/uvcpcap.py\<close>: reassembly of UVC payloads into
  frames.  The extractor's mutable fields are the record \<open>uvc_state\<close> (its \<open>us_out\<close> is everything
  the generator has yielded, in order), its constructor arguments the record \<open>uvc_cfg\<close>.  The
  lemmas show that every frame delivered is the gapless concatenation of one run of payloads, that
  an intact stream is delivered completely, and that bulk payloads split over URBs are fed whole.
\<close>

datatype phase = ACCUM | AWAIT | SKIP

record extractor_stats =
  es_frames_ok :: nat
  es_err_frames :: nat
  es_truncated :: nat
  es_bad_header :: nat
  es_trailing :: nat
  es_size_drops :: nat
  es_sizes_seen :: "(nat \<times> nat) list"   \<comment> \<open>\<open>Counter\<close>, insertion order\<close>
  es_urbs :: nat
  es_first_ts_ns :: "nat option"
  es_last_ts_ns :: "nat option"

definition new_stats :: extractor_stats where
  "new_stats = \<lparr>es_frames_ok = 0, es_err_frames = 0, es_truncated = 0, es_bad_header = 0,
     es_trailing = 0, es_size_drops = 0, es_sizes_seen = [], es_urbs = 0,
     es_first_ts_ns = None, es_last_ts_ns = None\<rparr>"

fun counter_add :: "'k \<Rightarrow> ('k \<times> nat) list \<Rightarrow> ('k \<times> nat) list" where
  "counter_add k [] = [(k, 1)]"
| "counter_add k ((x, n) # c) = (if x = k then (x, n + 1) # c else (x, n) # counter_add k c)"

text \<open>\<open>Counter.most_common(1)[0]\<close>: the first entry with the greatest count.\<close>

fun most_common :: "'k \<times> nat \<Rightarrow> ('k \<times> nat) list \<Rightarrow> 'k \<times> nat" where
  "most_common best [] = best"
| "most_common best ((x, n) # c) = most_common (if n > snd best then (x, n) else best) c"

record uvc_cfg =
  uc_bus :: nat
  uc_dev :: nat
  uc_ep :: nat
  uc_expected :: "nat option"
  uc_mjpeg :: bool
  uc_max_payload :: nat
  uc_strict :: bool

definition new_extractor_cfg ::
  "nat \<Rightarrow> nat \<Rightarrow> nat \<Rightarrow> nat option \<Rightarrow> bool \<Rightarrow> nat option \<Rightarrow> bool \<Rightarrow> uvc_cfg" where
  "new_extractor_cfg bus dev ep expected mjpeg max_payload strict =
     \<lparr>uc_bus = bus, uc_dev = dev, uc_ep = ep mod 128, uc_expected = expected, uc_mjpeg = mjpeg,
      uc_max_payload = (case max_payload of None \<Rightarrow> 0 | Some m \<Rightarrow> m), uc_strict = strict\<rparr>"

record uvc_state =
  us_state :: phase
  us_fid :: "bool option"
  us_buf :: bytes
  us_start_ts :: nat
  us_bulk_cont :: bool
  us_pending :: bytes
  us_pending_ts :: nat
  us_req_len :: "nat \<times> nat \<Rightarrow> nat option"
  us_stats :: extractor_stats
  us_out :: "(nat \<times> bytes) list"

text \<open>\<open>_reset\<close>, with the fresh per-pass stats of \<open>__iter__\<close>.\<close>

definition uvc_reset :: uvc_state where
  "uvc_reset = \<lparr>us_state = AWAIT, us_fid = None, us_buf = [], us_start_ts = 0, us_bulk_cont = False,
     us_pending = [], us_pending_ts = 0, us_req_len = Map.empty, us_stats = new_stats, us_out = []\<rparr>"

definition upd_stats :: "(extractor_stats \<Rightarrow> extractor_stats) \<Rightarrow> uvc_state \<Rightarrow> uvc_state" where
  "upd_stats f s = s\<lparr>us_stats := f (us_stats s)\<rparr>"

definition rstrip0 :: "bytes \<Rightarrow> bytes" where
  "rstrip0 xs = rev (dropWhile (\<lambda>b. b = 0) (rev xs))"

definition is_jpeg :: "bytes \<Rightarrow> bool" where
  "is_jpeg b \<longleftrightarrow> take 2 b = [0xff, 0xd8] \<and> 2 \<le> length b \<and> drop (length b - 2) b = [0xff, 0xd9]"

definition deliver :: "bytes \<Rightarrow> uvc_state \<Rightarrow> uvc_state" where
  "deliver b s = upd_stats (\<lambda>x. x\<lparr>es_frames_ok := es_frames_ok x + 1\<rparr>) s
     \<lparr>us_out := us_out s @ [(us_start_ts s, b)]\<rparr>"

definition size_drop :: "nat \<Rightarrow> uvc_state \<Rightarrow> uvc_state" where
  "size_drop n s = upd_stats (\<lambda>x. x\<lparr>es_size_drops := es_size_drops x + 1,
     es_sizes_seen := counter_add n (es_sizes_seen x)\<rparr>) s"

definition finalize :: "uvc_cfg \<Rightarrow> uvc_state \<Rightarrow> uvc_state" where
  "finalize c s =
     (let buf = us_buf s; s = s\<lparr>us_buf := []\<rparr> in
      if uc_mjpeg c then
        let trimmed = rstrip0 buf in
        if is_jpeg trimmed then deliver trimmed s else size_drop (length trimmed) s
      else if uc_expected c = None \<or> uc_expected c = Some (length buf) then deliver buf s
      else size_drop (length buf) s)"

definition begin_frame :: "bool \<Rightarrow> nat \<Rightarrow> uvc_state \<Rightarrow> uvc_state" where
  "begin_frame fid ts s = s\<lparr>us_state := ACCUM, us_fid := Some fid, us_start_ts := ts, us_buf := []\<rparr>"

definition poison :: "uvc_state \<Rightarrow> uvc_state" where
  "poison s = (if us_state s = ACCUM then s\<lparr>us_buf := [], us_state := SKIP\<rparr> else s)"

text \<open>The ACCUM part of \<open>_feed\<close>.\<close>

definition feed_accum :: "uvc_cfg \<Rightarrow> bool \<Rightarrow> bool \<Rightarrow> bool \<Rightarrow> bytes \<Rightarrow> nat \<Rightarrow> uvc_state \<Rightarrow> uvc_state" where
  "feed_accum c fid eof err data ts s =
     (if err then (upd_stats (\<lambda>x. x\<lparr>es_err_frames := es_err_frames x + 1\<rparr>) s)\<lparr>us_buf := [], us_state := SKIP\<rparr>
      else
        let s = (if Some fid \<noteq> us_fid s then begin_frame fid ts (finalize c s) else s);
            s = s\<lparr>us_buf := us_buf s @ data\<rparr>
        in if eof then (finalize c s)\<lparr>us_state := AWAIT\<rparr> else s)"

definition feed :: "uvc_cfg \<Rightarrow> bytes \<Rightarrow> nat \<Rightarrow> uvc_state \<Rightarrow> uvc_state" where
  "feed c payload ts s =
     (case parse_uvc_header payload (uc_strict c) of
        None \<Rightarrow> poison (upd_stats (\<lambda>x. x\<lparr>es_bad_header := es_bad_header x + 1\<rparr>) s)
      | Some (hlen, info) \<Rightarrow>
          let fid = bit info 0; eof = bit info 1; err = bit info 6; data = drop hlen payload in
          (case us_state s of
             AWAIT \<Rightarrow>
               if Some fid = us_fid s \<and> data = []
               then upd_stats (\<lambda>x. x\<lparr>es_trailing := es_trailing x + 1\<rparr>) s
               else feed_accum c fid eof err data ts (begin_frame fid ts s)
           | SKIP \<Rightarrow>
               if Some fid = us_fid s then s
               else feed_accum c fid eof err data ts (begin_frame fid ts s)
           | ACCUM \<Rightarrow> feed_accum c fid eof err data ts s))"

section \<open>Bulk payloads\<close>

definition MAX_PENDING :: nat where
  "MAX_PENDING = 64 * 1024 * 1024"

function drain_pending :: "uvc_cfg \<Rightarrow> nat \<Rightarrow> uvc_state \<Rightarrow> uvc_state" where
  "drain_pending c ts s =
     (if uc_max_payload c \<noteq> 0 \<and> length (us_pending s) \<ge> uc_max_payload c then
        drain_pending c ts
          ((feed c (take (uc_max_payload c) (us_pending s)) (us_pending_ts s) s)
             \<lparr>us_pending := drop (uc_max_payload c) (us_pending s), us_pending_ts := ts\<rparr>)
      else s)"
  by pat_completeness auto
termination by (relation "measure (\<lambda>(c, ts, s). length (us_pending s))") auto

declare drain_pending.simps [simp del]

definition pop_req :: "urb \<Rightarrow> uvc_state \<Rightarrow> uvc_state" where
  "pop_req u s = s\<lparr>us_req_len := (us_req_len s)((u_bus u, u_id u) := None)\<rparr>"

definition note_submit :: "urb \<Rightarrow> uvc_state \<Rightarrow> uvc_state" where
  "note_submit u s = s\<lparr>us_req_len := (us_req_len s)((u_bus u, u_id u) \<mapsto> u_length u)\<rparr>"

definition count_truncated :: "uvc_state \<Rightarrow> uvc_state" where
  "count_truncated s = upd_stats (\<lambda>x. x\<lparr>es_truncated := es_truncated x + 1\<rparr>) s"

definition feed_bulk :: "uvc_cfg \<Rightarrow> urb \<Rightarrow> nat \<Rightarrow> uvc_state \<Rightarrow> uvc_state" where
  "feed_bulk c u ts s =
     (if u_length u = 0 then
        let s = pop_req u s;
            s = (if us_bulk_cont s \<and> us_pending s \<noteq> [] then feed c (us_pending s) (us_pending_ts s) s else s)
        in s\<lparr>us_pending := [], us_bulk_cont := False\<rparr>
      else if \<not> u_has_data u then
        pop_req u ((poison (count_truncated s))\<lparr>us_pending := [], us_bulk_cont := False\<rparr>)
      else
        let data = urb_data u in
        if length data < u_length u then
          (poison (count_truncated s))\<lparr>us_bulk_cont := False, us_pending := []\<rparr>
        else
          let req = us_req_len s (u_bus u, u_id u); s = pop_req u s;
              short = (case req of None \<Rightarrow> False | Some r \<Rightarrow> u_length u < r);
              s = (if \<not> us_bulk_cont s then s\<lparr>us_pending := [], us_pending_ts := ts\<rparr> else s);
              s = s\<lparr>us_pending := us_pending s @ data\<rparr>
          in if length (us_pending s) > MAX_PENDING then
               (count_truncated s)\<lparr>us_pending := [], us_bulk_cont := False\<rparr>
             else
               let s = drain_pending c ts s in
               if short \<or> req = None then
                 let s = (if us_pending s \<noteq> [] then feed c (us_pending s) (us_pending_ts s) s else s)
                 in s\<lparr>us_pending := [], us_bulk_cont := False\<rparr>
               else s\<lparr>us_bulk_cont := (length (us_pending s) > 0)\<rparr>)"

section \<open>The capture walk\<close>

definition feed_iso :: "uvc_cfg \<Rightarrow> nat \<Rightarrow> bytes \<times> bool \<Rightarrow> uvc_state \<Rightarrow> uvc_state" where
  "feed_iso c ts = (\<lambda>(payload, lost) s. if lost then poison (count_truncated s) else feed c payload ts s)"

definition note_urb :: "nat \<Rightarrow> uvc_state \<Rightarrow> uvc_state" where
  "note_urb ts s = upd_stats (\<lambda>x. x\<lparr>es_urbs := es_urbs x + 1,
     es_first_ts_ns := (case es_first_ts_ns x of None \<Rightarrow> Some ts | Some t \<Rightarrow> Some t),
     es_last_ts_ns := Some ts\<rparr>) s"

definition walk_packet :: "uvc_cfg \<Rightarrow> packet \<Rightarrow> endian option \<times> uvc_state \<Rightarrow> endian option \<times> uvc_state" where
  "walk_packet c = (\<lambda>(linktype, ts, rec) (lock, s).
     if linktype \<notin> set USB_LINKTYPES then (lock, s)
     else
       let (uo, lock) = usbmon_parse lock linktype ts rec in
       case uo of
         None \<Rightarrow> (lock, s)
       | Some u \<Rightarrow>
           if u_dev u \<noteq> uc_dev c \<or> u_bus u \<noteq> uc_bus c then (lock, s)
           else if \<not> u_is_in u \<or> u_ep u \<noteq> uc_ep c then (lock, s)
           else if u_type u = TYPE_S then
             (lock, if u_xfer u = XFER_BULK then note_submit u s else s)
           else if u_type u \<noteq> TYPE_C then (lock, s)
           else
             let s = note_urb ts s in
             (lock,
              if u_xfer u = XFER_ISO then fold (feed_iso c ts) (iso_payloads lock u) s
              else if u_xfer u = XFER_BULK then feed_bulk c u ts s
              else s))"

datatype capture_error =
    Capture_Format pcap_error
  | No_In_Data
  | Size_Mismatch nat nat nat   \<comment> \<open>drops, modal size, its count\<close>
  | No_Frames nat nat nat       \<comment> \<open>bad headers, truncated, err frames\<close>

definition end_of_capture :: "extractor_stats \<Rightarrow> capture_error option" where
  "end_of_capture st =
     (if es_frames_ok st \<noteq> 0 then None
      else if es_urbs st = 0 then Some No_In_Data
      else if es_size_drops st \<noteq> 0 \<and> es_sizes_seen st \<noteq> [] then
        (let (modal, count) = most_common (hd (es_sizes_seen st)) (tl (es_sizes_seen st))
         in Some (Size_Mismatch (es_size_drops st) modal count))
      else Some (No_Frames (es_bad_header st) (es_truncated st) (es_err_frames st)))"

text \<open>One pass: the frames yielded, the stats left behind, and the exception that ended it.\<close>

definition iter_extractor ::
  "uvc_cfg \<Rightarrow> bytes \<Rightarrow> (nat \<times> bytes) list \<times> extractor_stats \<times> capture_error option" where
  "iter_extractor c file =
     (let (packets, err) = iter_packets file;
          (lock, s) = fold (walk_packet c) packets (None, uvc_reset)
      in (us_out s, us_stats s,
          case err of Some e \<Rightarrow> Some (Capture_Format e) | None \<Rightarrow> end_of_capture (us_stats s)))"

section \<open>No holes\<close>

text \<open>What reaches the assembler: payloads, and notices that a payload was lost.\<close>

datatype uvc_event = Payload bytes nat | Lost_Payload

fun event_step :: "uvc_cfg \<Rightarrow> uvc_event \<Rightarrow> uvc_state \<Rightarrow> uvc_state" where
  "event_step c (Payload p ts) s = feed c p ts s"
| "event_step c Lost_Payload s = poison (count_truncated s)"

definition event_run :: "uvc_cfg \<Rightarrow> uvc_event list \<Rightarrow> uvc_state \<Rightarrow> uvc_state" where
  "event_run c evs s = fold (event_step c) evs s"

text \<open>A payload with a sane header, no error bit and the given frame id.\<close>

fun good_payload :: "uvc_cfg \<Rightarrow> bool \<Rightarrow> uvc_event \<Rightarrow> bool" where
  "good_payload c fid (Payload p ts) =
     (case parse_uvc_header p (uc_strict c) of
        None \<Rightarrow> False | Some (hlen, info) \<Rightarrow> bit info 0 = fid \<and> \<not> bit info 6)"
| "good_payload c fid Lost_Payload = False"

fun payload_data :: "uvc_cfg \<Rightarrow> uvc_event \<Rightarrow> bytes" where
  "payload_data c (Payload p ts) =
     (case parse_uvc_header p (uc_strict c) of None \<Rightarrow> [] | Some (hlen, info) \<Rightarrow> drop hlen p)"
| "payload_data c Lost_Payload = []"

fun event_ts :: "uvc_event \<Rightarrow> nat" where
  "event_ts (Payload p ts) = ts"
| "event_ts Lost_Payload = 0"

definition accepted :: "uvc_cfg \<Rightarrow> bytes \<Rightarrow> bool" where
  "accepted c b \<longleftrightarrow> (if uc_mjpeg c then is_jpeg b
     else uc_expected c = None \<or> uc_expected c = Some (length b))"

definition shaped :: "uvc_cfg \<Rightarrow> bytes \<Rightarrow> bytes" where
  "shaped c b = (if uc_mjpeg c then rstrip0 b else b)"

text \<open>\<open>segment\<close>: a non-empty run of good payloads of one frame id; \<open>frame_of\<close>: a delivered frame is
  the data of one such run, stamped with the run's first payload.\<close>

definition segment :: "uvc_cfg \<Rightarrow> bool \<Rightarrow> uvc_event list \<Rightarrow> bool" where
  "segment c fid seg \<longleftrightarrow> seg \<noteq> [] \<and> (\<forall>x\<in>set seg. good_payload c fid x)"

definition frame_of :: "uvc_cfg \<Rightarrow> uvc_event list \<Rightarrow> nat \<times> bytes \<Rightarrow> bool" where
  "frame_of c evs fr \<longleftrightarrow>
     (\<exists>pre seg post fid. evs = pre @ seg @ post \<and> segment c fid seg
        \<and> fst fr = event_ts (hd seg)
        \<and> snd fr = shaped c (concat (map (payload_data c) seg)) \<and> accepted c (snd fr))"

lemma frame_of_mono: "frame_of c evs fr \<Longrightarrow> frame_of c (evs @ xs) fr"
  unfolding frame_of_def by (metis append.assoc)

text \<open>The invariant, relative to the events fed so far.\<close>

definition assembling :: "uvc_cfg \<Rightarrow> uvc_event list \<Rightarrow> uvc_state \<Rightarrow> bool" where
  "assembling c evs s \<longleftrightarrow>
     (\<exists>pre seg fid. evs = pre @ seg \<and> segment c fid seg \<and> us_fid s = Some fid
        \<and> us_start_ts s = event_ts (hd seg) \<and> us_buf s = concat (map (payload_data c) seg))"

definition no_holes :: "uvc_cfg \<Rightarrow> uvc_event list \<Rightarrow> uvc_state \<Rightarrow> bool" where
  "no_holes c evs s \<longleftrightarrow> (us_state s = ACCUM \<longrightarrow> assembling c evs s)
     \<and> (\<forall>fr\<in>set (us_out s). frame_of c evs fr)"

lemma finalize_fields [simp]:
  "us_buf (finalize c s) = []" "us_state (finalize c s) = us_state s" "us_fid (finalize c s) = us_fid s"
  "us_start_ts (finalize c s) = us_start_ts s" "us_pending (finalize c s) = us_pending s"
  "us_pending_ts (finalize c s) = us_pending_ts s" "us_bulk_cont (finalize c s) = us_bulk_cont s"
  "us_req_len (finalize c s) = us_req_len s"
  by (simp_all add: finalize_def deliver_def size_drop_def upd_stats_def Let_def)

lemma finalize_out:
  "us_out (finalize c s) = us_out s @
     (if accepted c (shaped c (us_buf s)) then [(us_start_ts s, shaped c (us_buf s))] else [])"
  by (simp add: finalize_def deliver_def size_drop_def upd_stats_def accepted_def shaped_def Let_def)

lemma begin_fields [simp]:
  "us_buf (begin_frame fid ts s) = []" "us_state (begin_frame fid ts s) = ACCUM"
  "us_fid (begin_frame fid ts s) = Some fid" "us_start_ts (begin_frame fid ts s) = ts"
  "us_out (begin_frame fid ts s) = us_out s" "us_pending (begin_frame fid ts s) = us_pending s"
  "us_pending_ts (begin_frame fid ts s) = us_pending_ts s" "us_bulk_cont (begin_frame fid ts s) = us_bulk_cont s"
  "us_req_len (begin_frame fid ts s) = us_req_len s"
  by (simp_all add: begin_frame_def)

lemma upd_stats_fields [simp]:
  "us_buf (upd_stats f s) = us_buf s" "us_state (upd_stats f s) = us_state s" "us_fid (upd_stats f s) = us_fid s"
  "us_start_ts (upd_stats f s) = us_start_ts s" "us_out (upd_stats f s) = us_out s"
  "us_pending (upd_stats f s) = us_pending s" "us_pending_ts (upd_stats f s) = us_pending_ts s"
  "us_bulk_cont (upd_stats f s) = us_bulk_cont s" "us_req_len (upd_stats f s) = us_req_len s"
  "us_stats (upd_stats f s) = f (us_stats s)"
  by (simp_all add: upd_stats_def)

lemma poison_fields [simp]:
  "us_state (poison s) \<noteq> ACCUM" "us_out (poison s) = us_out s" "us_fid (poison s) = us_fid s"
  "us_pending (poison s) = us_pending s" "us_pending_ts (poison s) = us_pending_ts s"
  "us_bulk_cont (poison s) = us_bulk_cont s" "us_req_len (poison s) = us_req_len s"
  "us_stats (poison s) = us_stats s"
  by (simp_all add: poison_def)

lemma frame_of_assembled:
  "assembling c evs s \<Longrightarrow> accepted c (shaped c (us_buf s)) \<Longrightarrow> frame_of c evs (us_start_ts s, shaped c (us_buf s))"
  unfolding assembling_def frame_of_def by (metis append_Nil2 fst_conv snd_conv)

lemma finalize_frames:
  "assembling c evs s \<Longrightarrow> \<forall>fr\<in>set (us_out s). frame_of c evs fr \<Longrightarrow>
     \<forall>fr\<in>set (us_out (finalize c s)). frame_of c evs fr"
  using frame_of_assembled by (auto simp: finalize_out split: if_splits)

text \<open>A good payload starts a run, and extends the run of its frame id.\<close>

lemma assembling_begin:
  "good_payload c fid (Payload p ts) \<Longrightarrow> us_fid s = Some fid \<Longrightarrow> us_start_ts s = ts \<Longrightarrow>
     us_buf s = payload_data c (Payload p ts) \<Longrightarrow> assembling c (evs @ [Payload p ts]) s"
  unfolding assembling_def segment_def by (rule exI [of _ evs]) (rule exI [of _ "[Payload p ts]"], auto)

lemma assembling_extend:
  assumes "assembling c evs s" "us_fid s = Some fid" "good_payload c fid x"
    "us_fid s' = us_fid s" "us_start_ts s' = us_start_ts s" "us_buf s' = us_buf s @ payload_data c x"
  shows "assembling c (evs @ [x]) s'"
proof -
  from assms obtain pre seg where "evs = pre @ seg" "segment c fid seg"
    "us_start_ts s = event_ts (hd seg)" "us_buf s = concat (map (payload_data c) seg)"
    by (auto simp: assembling_def)
  with assms show ?thesis
    unfolding assembling_def segment_def
    by (intro exI [of _ pre] exI [of _ "seg @ [x]"] exI [of _ fid]) auto
qed

lemma feed_accum_no_holes:
  assumes hdr: "parse_uvc_header p (uc_strict c) = Some (hlen, info)"
    and out: "\<forall>fr\<in>set (us_out s). frame_of c evs fr"
    and acc: "assembling c evs s \<or> us_fid s = Some (bit info 0) \<and> us_start_ts s = ts \<and> us_buf s = []"
    and st: "us_state s = ACCUM"
  shows "no_holes c (evs @ [Payload p ts]) (feed_accum c (bit info 0) (bit info 1) (bit info 6) (drop hlen p) ts s)"
proof (cases "bit info 6")
  case True
  then show ?thesis using out frame_of_mono by (auto simp: feed_accum_def no_holes_def)
next
  case False
  let ?x = "Payload p ts" and ?fid = "bit info 0"
  let ?s1 = "if Some ?fid \<noteq> us_fid s then begin_frame ?fid ts (finalize c s) else s"
  let ?s2 = "?s1\<lparr>us_buf := us_buf ?s1 @ drop hlen p\<rparr>"
  have good: "good_payload c ?fid ?x" and data: "payload_data c ?x = drop hlen p"
    using hdr False by simp_all
  have out2: "\<forall>fr\<in>set (us_out ?s2). frame_of c (evs @ [?x]) fr"
  proof (cases "Some ?fid \<noteq> us_fid s")
    case True
    with acc have "assembling c evs s" by auto
    from finalize_frames [OF this out] True show ?thesis using frame_of_mono by auto
  qed (use out frame_of_mono in auto)
  have asm2: "assembling c (evs @ [?x]) ?s2"
  proof (cases "Some ?fid = us_fid s \<and> assembling c evs s")
    case True
    then show ?thesis by (intro assembling_extend [OF _ _ good]) (auto simp: hdr)
  next
    case False
    with acc good show ?thesis by (intro assembling_begin) (auto simp: hdr)
  qed
  have st2: "us_state ?s2 = ACCUM" using st by simp
  have "feed_accum c ?fid (bit info 1) (bit info 6) (drop hlen p) ts s
      = (if bit info 1 then (finalize c ?s2)\<lparr>us_state := AWAIT\<rparr> else ?s2)"
    using False by (simp add: feed_accum_def Let_def)
  then show ?thesis
    using out2 asm2 finalize_frames [OF asm2 out2] by (simp add: no_holes_def del: finalize_fields)
qed

lemma feed_no_holes:
  assumes "no_holes c evs s"
  shows "no_holes c (evs @ [Payload p ts]) (feed c p ts s)"
proof (cases "parse_uvc_header p (uc_strict c)")
  case None
  then show ?thesis using assms frame_of_mono by (auto simp: feed_def no_holes_def)
next
  case (Some r)
  obtain hlen info where r: "r = (hlen, info)" by (cases r)
  have idle: "us_state s' \<noteq> ACCUM \<Longrightarrow> us_out s' = us_out s \<Longrightarrow> no_holes c (evs @ [Payload p ts]) s'" for s'
    using assms frame_of_mono by (auto simp: no_holes_def)
  have fresh: "no_holes c (evs @ [Payload p ts])
      (feed_accum c (bit info 0) (bit info 1) (bit info 6) (drop hlen p) ts (begin_frame (bit info 0) ts s))"
    using assms Some r by (intro feed_accum_no_holes) (auto simp: no_holes_def)
  show ?thesis
  proof (cases "us_state s")
    case ACCUM
    from assms ACCUM have "\<forall>fr\<in>set (us_out s). frame_of c evs fr" "assembling c evs s"
      by (simp_all add: no_holes_def)
    from feed_accum_no_holes [OF Some [unfolded r] this(1) disjI1 [OF this(2)] ACCUM]
    show ?thesis using ACCUM Some r by (simp add: feed_def Let_def)
  qed (use Some r fresh idle in \<open>auto simp: feed_def Let_def\<close>)
qed

lemma event_run_no_holes:
  "no_holes c evs s \<Longrightarrow> no_holes c (evs @ xs) (event_run c xs s)"
proof (induction xs arbitrary: evs s)
  case (Cons x xs)
  have "no_holes c (evs @ [x]) (event_step c x s)"
  proof (cases x)
    case Lost_Payload
    with Cons.prems show ?thesis using frame_of_mono
      by (auto simp: no_holes_def count_truncated_def)
  qed (use Cons.prems feed_no_holes in auto)
  from Cons.IH [OF this] show ?case by (simp add: event_run_def)
qed (simp add: event_run_def)

section \<open>The isochronous capture\<close>

text \<open>The events of a capture: what \<open>walk_packet\<close> feeds for each isochronous completion.\<close>

definition on_stream :: "uvc_cfg \<Rightarrow> urb \<Rightarrow> bool" where
  "on_stream c u \<longleftrightarrow> u_dev u = uc_dev c \<and> u_bus u = uc_bus c \<and> u_is_in u \<and> u_ep u = uc_ep c"

definition iso_event :: "nat \<Rightarrow> bytes \<times> bool \<Rightarrow> uvc_event" where
  "iso_event ts = (\<lambda>(payload, lost). if lost then Lost_Payload else Payload payload ts)"

fun packet_events :: "uvc_cfg \<Rightarrow> endian option \<Rightarrow> packet \<Rightarrow> uvc_event list \<times> endian option" where
  "packet_events c lock (linktype, ts, rec) =
     (if linktype \<notin> set USB_LINKTYPES then ([], lock)
      else
        let (uo, lock) = usbmon_parse lock linktype ts rec in
        case uo of
          None \<Rightarrow> ([], lock)
        | Some u \<Rightarrow>
            if on_stream c u \<and> u_type u = TYPE_C \<and> u_xfer u = XFER_ISO
            then (map (iso_event ts) (iso_payloads lock u), lock) else ([], lock))"

fun bulk_packet :: "uvc_cfg \<Rightarrow> endian option \<Rightarrow> packet \<Rightarrow> bool" where
  "bulk_packet c lock (linktype, ts, rec) =
     (linktype \<in> set USB_LINKTYPES \<and>
      (case fst (usbmon_parse lock linktype ts rec) of
         None \<Rightarrow> False | Some u \<Rightarrow> on_stream c u \<and> u_type u = TYPE_C \<and> u_xfer u = XFER_BULK))"

fun stream_events :: "uvc_cfg \<Rightarrow> endian option \<Rightarrow> packet list \<Rightarrow> uvc_event list" where
  "stream_events c lock [] = []"
| "stream_events c lock (p # ps) =
     (let (evs, lock') = packet_events c lock p in evs @ stream_events c lock' ps)"

fun iso_only :: "uvc_cfg \<Rightarrow> endian option \<Rightarrow> packet list \<Rightarrow> bool" where
  "iso_only c lock [] = True"
| "iso_only c lock (p # ps) = (\<not> bulk_packet c lock p \<and> iso_only c (snd (packet_events c lock p)) ps)"

text \<open>The invariant does not look at the counters or the pending S submissions.\<close>

lemma no_holes_cong:
  "us_state s' = us_state s \<Longrightarrow> us_fid s' = us_fid s \<Longrightarrow> us_start_ts s' = us_start_ts s \<Longrightarrow>
   us_buf s' = us_buf s \<Longrightarrow> us_out s' = us_out s \<Longrightarrow> no_holes c evs s' = no_holes c evs s"
  by (simp add: no_holes_def assembling_def)

lemma note_urb_fields [simp]:
  "us_state (note_urb ts s) = us_state s" "us_fid (note_urb ts s) = us_fid s"
  "us_start_ts (note_urb ts s) = us_start_ts s" "us_buf (note_urb ts s) = us_buf s"
  "us_out (note_urb ts s) = us_out s"
  by (simp_all add: note_urb_def)

lemma feed_iso_event: "feed_iso c ts x = event_step c (iso_event ts x)"
  by (cases x) (auto simp: feed_iso_def iso_event_def)

lemma fold_feed_iso: "fold (feed_iso c ts) xs s = event_run c (map (iso_event ts) xs) s"
  by (induction xs arbitrary: s) (simp_all add: event_run_def feed_iso_event)

lemma walk_packet_Some:
  "lt \<in> set USB_LINKTYPES \<Longrightarrow> usbmon_parse lock lt ts rec = (Some u, l) \<Longrightarrow>
     walk_packet c (lt, ts, rec) (lock, s) = (l,
       if \<not> on_stream c u then s
       else if u_type u = TYPE_S then
         (if u_xfer u = XFER_BULK then note_submit u s else s)
       else if u_type u \<noteq> TYPE_C then s
       else if u_xfer u = XFER_ISO then fold (feed_iso c ts) (iso_payloads l u) (note_urb ts s)
       else if u_xfer u = XFER_BULK then feed_bulk c u ts (note_urb ts s) else note_urb ts s)"
  by (simp add: walk_packet_def on_stream_def Let_def)

lemma walk_packet_no_holes:
  assumes nh: "no_holes c evs s" and nb: "\<not> bulk_packet c lock (lt, ts, rec)"
    and w: "walk_packet c (lt, ts, rec) (lock, s) = (lock', s')"
  shows "lock' = snd (packet_events c lock (lt, ts, rec))
    \<and> no_holes c (evs @ fst (packet_events c lock (lt, ts, rec))) s'"
proof -
  obtain uo l where up: "usbmon_parse lock lt ts rec = (uo, l)" by fastforce
  have req: "no_holes c evs (note_submit u s)" "no_holes c evs (note_urb ts s)" for u
    by (rule iffD2 [OF no_holes_cong nh]; simp add: note_submit_def)+
  have iso: "no_holes c (evs @ map (iso_event ts) xs) (fold (feed_iso c ts) xs (note_urb ts s))" for xs
    unfolding fold_feed_iso by (rule event_run_no_holes [OF req(2)])
  show ?thesis
  proof (cases "lt \<in> set USB_LINKTYPES \<and> uo \<noteq> None")
    case False
    with w nh up show ?thesis by (auto simp: walk_packet_def split: if_splits)
  next
    case True
    then obtain u where u: "uo = Some u" and lt: "lt \<in> set USB_LINKTYPES" by auto
    from nb up u lt have nob: "on_stream c u \<Longrightarrow> u_type u = TYPE_C \<Longrightarrow> u_xfer u \<noteq> XFER_BULK" by simp
    note step = walk_packet_Some [OF lt up [unfolded u], of c s, unfolded w]
    let ?E = "fst (packet_events c lock (lt, ts, rec))"
    have E: "?E = (if on_stream c u \<and> u_type u = TYPE_C \<and> u_xfer u = XFER_ISO
        then map (iso_event ts) (iso_payloads l u) else [])"
      using lt up u by simp
    have "no_holes c (evs @ ?E) s'"
    proof (cases "on_stream c u \<and> u_type u = TYPE_C")
      case False
      then have "s' = s \<or> s' = note_submit u s"
        using step by (cases "on_stream c u"; cases "u_type u = TYPE_S"; cases "u_xfer u = XFER_BULK") simp_all
      moreover have "?E = []" using False E by auto
      ultimately show ?thesis using nh req(1) by auto
    next
      case True
      with nob have "s' = (if u_xfer u = XFER_ISO then fold (feed_iso c ts) (iso_payloads l u) (note_urb ts s)
          else note_urb ts s)"
        using step by (cases "u_xfer u = XFER_ISO") simp_all
      with True iso [of "iso_payloads l u"] req(2) show ?thesis unfolding E
        by (cases "u_xfer u = XFER_ISO") simp_all
    qed
    moreover have "lock' = l" using step by simp
    ultimately show ?thesis by (simp add: up u lt)
  qed
qed

lemma walk_no_holes:
  "no_holes c evs s \<Longrightarrow> iso_only c lock ps \<Longrightarrow>
     no_holes c (evs @ stream_events c lock ps) (snd (fold (walk_packet c) ps (lock, s)))"
proof (induction ps arbitrary: evs s lock)
  case (Cons p ps)
  obtain lt ts rec where p: "p = (lt, ts, rec)" by (cases p)
  obtain lock' s' where w: "walk_packet c p (lock, s) = (lock', s')" by fastforce
  from walk_packet_no_holes [OF Cons.prems(1) _ w [unfolded p]] Cons.prems(2)
  have l: "lock' = snd (packet_events c lock p)"
    and n: "no_holes c (evs @ fst (packet_events c lock p)) s'"
    by (simp_all add: p)
  from Cons.IH [OF n, of lock'] Cons.prems(2) l w show ?case
    by (cases "packet_events c lock p") (simp add: p [symmetric])
qed simp

lemma no_holes_init: "no_holes c [] uvc_reset"
  by (simp add: no_holes_def uvc_reset_def)

text \<open>C16: no frame with a hole.  Every frame a pass over an isochronous capture yields is the data
  of one uninterrupted run of payloads of the capture with one frame id and no error bit (no lost
  packet, bad header or error in between), carries the timestamp of the run's first payload, and
  passed the size (or JPEG marker) check.\<close>

theorem frames_have_no_holes:
  assumes "iso_only c None (fst (iter_packets file))" "fr \<in> set (fst (iter_extractor c file))"
  shows "frame_of c (stream_events c None (fst (iter_packets file))) fr"
proof -
  from walk_no_holes [OF no_holes_init assms(1), of] assms(2) show ?thesis
    by (auto simp: iter_extractor_def no_holes_def split: prod.splits)
qed

section \<open>Completeness\<close>

text \<open>A frame sent intact: one run of good payloads whose last payload alone carries the end-of-frame
  bit, and whose first payload has data (an empty one with the previous frame's id reads as trailing).\<close>

fun ends_frame :: "uvc_cfg \<Rightarrow> uvc_event \<Rightarrow> bool" where
  "ends_frame c (Payload p ts) =
     (case parse_uvc_header p (uc_strict c) of None \<Rightarrow> False | Some (hlen, info) \<Rightarrow> bit info 1)"
| "ends_frame c Lost_Payload = False"

definition intact_frame :: "uvc_cfg \<Rightarrow> bool \<Rightarrow> uvc_event list \<Rightarrow> bool" where
  "intact_frame c fid seg \<longleftrightarrow> segment c fid seg \<and> payload_data c (hd seg) \<noteq> []
     \<and> ends_frame c (last seg) \<and> (\<forall>x\<in>set (butlast seg). \<not> ends_frame c x)"

definition sent_frame :: "uvc_cfg \<Rightarrow> uvc_event list \<Rightarrow> nat \<times> bytes" where
  "sent_frame c seg = (event_ts (hd seg), shaped c (concat (map (payload_data c) seg)))"

lemma event_run_simps [simp]:
  "event_run c [] s = s" "event_run c (x # xs) s = event_run c xs (event_step c x s)"
  "event_run c (xs @ ys) s = event_run c ys (event_run c xs s)"
  by (simp_all add: event_run_def)

lemma good_step_accum:
  assumes "good_payload c fid x" "us_state s = ACCUM" "us_fid s = Some fid"
  shows "event_step c x s =
    (let s' = s\<lparr>us_buf := us_buf s @ payload_data c x\<rparr>
     in if ends_frame c x then (finalize c s')\<lparr>us_state := AWAIT\<rparr> else s')"
proof (cases x)
  case (Payload p ts)
  with assms(1) obtain hlen info where "parse_uvc_header p (uc_strict c) = Some (hlen, info)"
    "bit info 0 = fid" "\<not> bit info 6" by (auto split: option.splits)
  with assms(2-) Payload show ?thesis by (simp add: feed_def feed_accum_def Let_def)
qed (use assms in simp)

lemma good_step_await:
  assumes "good_payload c fid x" "us_state s = AWAIT" "payload_data c x \<noteq> []"
  shows "event_step c x s = event_step c x (begin_frame fid (event_ts x) s)"
proof (cases x)
  case (Payload p ts)
  with assms(1) obtain hlen info where "parse_uvc_header p (uc_strict c) = Some (hlen, info)"
    "bit info 0 = fid" "\<not> bit info 6" by (auto split: option.splits)
  with assms(2-) Payload show ?thesis by (simp add: feed_def Let_def)
qed (use assms in simp)

lemma intact_accum:
  assumes "us_state s = ACCUM" "us_fid s = Some fid" "segment c fid seg"
    "ends_frame c (last seg)" "\<forall>x\<in>set (butlast seg). \<not> ends_frame c x"
    "fr = (us_start_ts s, shaped c (us_buf s @ concat (map (payload_data c) seg)))"
  shows "us_state (event_run c seg s) = AWAIT \<and>
    us_out (event_run c seg s) = us_out s @ (if accepted c (snd fr) then [fr] else [])"
  using assms
proof (induction seg arbitrary: s)
  case (Cons x seg)
  then have good: "good_payload c fid x" by (simp add: segment_def)
  note step = good_step_accum [OF good Cons.prems(1,2)]
  show ?case
  proof (cases "seg = []")
    case True
    with step Cons.prems show ?thesis by (simp add: Let_def finalize_out del: event_step.simps)
  next
    case False
    let ?s = "s\<lparr>us_buf := us_buf s @ payload_data c x\<rparr>"
    from False step Cons.prems have "event_step c x s = ?s" by (simp add: Let_def)
    moreover have "us_state (event_run c seg ?s) = AWAIT \<and>
      us_out (event_run c seg ?s) = us_out ?s @ (if accepted c (snd fr) then [fr] else [])"
      using Cons.prems False by (intro Cons.IH) (auto simp: segment_def)
    ultimately show ?thesis by simp
  qed
qed (simp add: segment_def)

lemma intact_frame_delivered:
  assumes "intact_frame c fid seg" "us_state s = AWAIT" "fr = sent_frame c seg"
  shows "us_state (event_run c seg s) = AWAIT \<and>
    us_out (event_run c seg s) = us_out s @ (if accepted c (snd fr) then [fr] else [])"
proof -
  from assms(1) obtain x seg' where x: "seg = x # seg'" "good_payload c fid x" "payload_data c x \<noteq> []"
    by (cases seg) (auto simp: intact_frame_def segment_def)
  have "event_run c seg s = event_run c seg (begin_frame fid (event_ts x) s)"
    using good_step_await [OF x(2) assms(2) x(3)] x(1) by simp
  with intact_accum [of "begin_frame fid (event_ts x) s" fid c seg fr] assms x(1) show ?thesis
    by (simp add: intact_frame_def sent_frame_def)
qed

lemma intact_stream_run:
  "\<forall>(fid, seg)\<in>set frames. intact_frame c fid seg \<Longrightarrow> us_state s = AWAIT \<Longrightarrow>
     us_out (event_run c (concat (map snd frames)) s)
       = us_out s @ filter (\<lambda>fr. accepted c (snd fr)) (map (sent_frame c \<circ> snd) frames)"
proof (induction frames arbitrary: s)
  case (Cons f frames)
  obtain fid seg where f: "f = (fid, seg)" by (cases f)
  with Cons.prems have "intact_frame c fid seg" by simp
  from intact_frame_delivered [OF this Cons.prems(2) refl] Cons.IH [of "event_run c seg s"] Cons.prems(1) f
  show ?case by simp
qed simp

text \<open>intact frames are delivered.  A stream of intact frames is reassembled completely: every
  frame that passes the size (or JPEG) check is yielded exactly once, in order, with exactly its
  bytes and the timestamp of its first payload, and nothing else is yielded.\<close>

theorem intact_stream_delivered:
  assumes "\<forall>(fid, seg)\<in>set frames. intact_frame c fid seg"
  shows "us_out (event_run c (concat (map snd frames)) uvc_reset)
    = filter (\<lambda>fr. accepted c (snd fr)) (map (sent_frame c \<circ> snd) frames)"
  using intact_stream_run [OF assms, of uvc_reset] by (simp add: uvc_reset_def)

definition demo_cfg :: uvc_cfg where
  "demo_cfg = new_extractor_cfg 1 2 1 (Some 3) False None True"

definition demo_frames :: "(bool \<times> uvc_event list) list" where
  "demo_frames = [(False, [Payload [2, 0, 7, 8] 10, Payload [2, 2, 9] 11]), (True, [Payload [2, 3, 5] 12])]"

theorem intact_stream_delivered_witness:
  "us_out (event_run demo_cfg (concat (map snd demo_frames)) uvc_reset) = [(10, [7, 8, 9])]"
proof -
  have "\<forall>(fid, seg)\<in>set demo_frames. intact_frame demo_cfg fid seg" by code_simp
  moreover have "filter (\<lambda>fr. accepted demo_cfg (snd fr)) (map (sent_frame demo_cfg \<circ> snd) demo_frames)
    = [(10, [7, 8, 9])]" by code_simp
  ultimately show ?thesis using intact_stream_delivered [of demo_frames demo_cfg] by metis
qed

section \<open>Bulk payloads are fed whole\<close>

text \<open>A payload split over several URBs with no maximum payload size to cut it: full URBs (as long as
  their submission) and a terminating short URB, or a zero-length one.\<close>

definition captured :: "urb \<Rightarrow> bool" where
  "captured u \<longleftrightarrow> u_has_data u \<and> 0 < u_length u \<and> length (urb_data u) = u_length u"

definition full_urb :: "uvc_state \<Rightarrow> urb \<Rightarrow> bool" where
  "full_urb s u \<longleftrightarrow> captured u \<and> us_req_len s (u_bus u, u_id u) = Some (u_length u)"

text \<open>Before each completion the capture shows its submission, as usbmon records it.\<close>

fun bulk_transfers :: "uvc_cfg \<Rightarrow> (urb \<times> urb \<times> nat) list \<Rightarrow> uvc_state \<Rightarrow> uvc_state" where
  "bulk_transfers c [] s = s"
| "bulk_transfers c ((sub, com, ts) # xs) s = bulk_transfers c xs (feed_bulk c com ts (note_submit sub s))"

definition transfer :: "urb \<Rightarrow> urb \<Rightarrow> bool" where
  "transfer sub com \<longleftrightarrow> u_bus sub = u_bus com \<and> u_id sub = u_id com"

lemma drain_unbounded [simp]: "uc_max_payload c = 0 \<Longrightarrow> drain_pending c ts s = s"
  by (subst drain_pending.simps) simp

lemma submit_simps [simp]:
  "us_bulk_cont (note_submit u s) = us_bulk_cont s" "us_pending (note_submit u s) = us_pending s"
  "us_pending_ts (note_submit u s) = us_pending_ts s"
  "us_bulk_cont (pop_req u s) = us_bulk_cont s" "us_pending (pop_req u s) = us_pending s"
  "us_pending_ts (pop_req u s) = us_pending_ts s"
  by (simp_all add: note_submit_def pop_req_def)

lemma submit_req: "transfer sub com \<Longrightarrow> us_req_len (note_submit sub s) (u_bus com, u_id com) = Some (u_length sub)"
  by (simp add: note_submit_def transfer_def)

lemma pop_submit: "transfer sub com \<Longrightarrow> pop_req com (note_submit sub s) = pop_req com s"
  by (cases s) (simp add: note_submit_def transfer_def pop_req_def)

text \<open>The payload under assembly: the bytes so far and the time of its first URB.\<close>

definition pending_at :: "uvc_state \<Rightarrow> bytes \<Rightarrow> nat \<Rightarrow> bool" where
  "pending_at s b ts \<longleftrightarrow> us_bulk_cont s \<and> us_pending s = b \<and> b \<noteq> [] \<and> us_pending_ts s = ts"

definition with_pending :: "bytes \<Rightarrow> bool \<Rightarrow> uvc_state \<Rightarrow> uvc_state" where
  "with_pending b k s = s\<lparr>us_pending := b, us_bulk_cont := k\<rparr>"

lemma feed_bulk_full:
  assumes "uc_max_payload c = 0" "transfer sub com" "captured com" "u_length sub = u_length com"
    "us_bulk_cont s" "us_pending s \<noteq> []" "length (us_pending s) + u_length com \<le> MAX_PENDING"
  shows "feed_bulk c com ts (note_submit sub s)
    = with_pending (us_pending s @ urb_data com) True (pop_req com s)"
proof -
  from assms have c: "u_length com \<noteq> 0" "u_has_data com" "length (urb_data com) = u_length com"
    by (simp_all add: captured_def)
  have "feed_bulk c com ts (note_submit sub s)
     = (pop_req com s)\<lparr>us_pending := us_pending s @ urb_data com, us_bulk_cont := True\<rparr>"
    unfolding feed_bulk_def Let_def submit_req [OF assms(2)] pop_submit [OF assms(2)]
    using c assms by simp
  then show ?thesis by (simp add: with_pending_def)
qed


text \<open>The assembler's own fields, apart from the counters and the bulk buffers.\<close>

definition assembler :: "uvc_state \<Rightarrow> phase \<times> bool option \<times> nat \<times> bytes \<times> (nat \<times> bytes) list" where
  "assembler s = (us_state s, us_fid s, us_start_ts s, us_buf s, us_out s)"

lemma assembler_keep [simp]:
  "assembler (upd_stats f s) = assembler s" "assembler (pop_req u s) = assembler s"
  "assembler (note_submit u s) = assembler s" "assembler (with_pending b k s) = assembler s"
  "assembler (s\<lparr>us_pending := b\<rparr>) = assembler s" "assembler (s\<lparr>us_bulk_cont := k\<rparr>) = assembler s"
  "assembler (s\<lparr>us_pending_ts := t\<rparr>) = assembler s"
  by (simp_all add: assembler_def pop_req_def note_submit_def with_pending_def)

lemma assembler_finalize: "assembler s = assembler t \<Longrightarrow> assembler (finalize c s) = assembler (finalize c t)"
  by (simp add: assembler_def finalize_out)

lemma assembler_poison: "assembler s = assembler t \<Longrightarrow> assembler (poison s) = assembler (poison t)"
  by (simp add: assembler_def poison_def)

lemma assembler_begin: "assembler s = assembler t \<Longrightarrow> assembler (begin_frame fid ts s) = assembler (begin_frame fid ts t)"
  by (simp add: assembler_def)

lemma assembler_accum:
  assumes "assembler s = assembler t"
  shows "assembler (feed_accum c fid eof err data ts s) = assembler (feed_accum c fid eof err data ts t)"
proof -
  from assms have f: "us_fid s = us_fid t" by (simp add: assembler_def)
  have put: "assembler x = assembler y \<Longrightarrow> assembler (x\<lparr>us_buf := us_buf x @ data\<rparr>) = assembler (y\<lparr>us_buf := us_buf y @ data\<rparr>)"
    and st: "assembler x = assembler y \<Longrightarrow> assembler (x\<lparr>us_state := AWAIT\<rparr>) = assembler (y\<lparr>us_state := AWAIT\<rparr>)"
    and skip: "assembler x = assembler y \<Longrightarrow> assembler (x\<lparr>us_buf := [], us_state := SKIP\<rparr>) = assembler (y\<lparr>us_buf := [], us_state := SKIP\<rparr>)"
    for x y by (simp_all add: assembler_def)
  show ?thesis unfolding feed_accum_def Let_def f
    using assms by (auto simp del: begin_fields intro!: put st skip assembler_finalize assembler_begin)
qed

lemma assembler_feed:
  assumes "assembler s = assembler t"
  shows "assembler (feed c p ts s) = assembler (feed c p ts t)"
proof -
  from assms have f: "us_fid s = us_fid t" "us_state s = us_state t" by (simp_all add: assembler_def)
  show ?thesis unfolding feed_def Let_def f
    using assms by (auto split: option.split phase.split
      intro!: assembler_poison assembler_accum assembler_begin)
qed

lemma bulk_full_run:
  assumes "uc_max_payload c = 0" "pending_at s b t0"
    "\<forall>(sub, com, ts)\<in>set xs. transfer sub com \<and> captured com \<and> u_length sub = u_length com"
    "length b + sum_list (map (\<lambda>(sub, com, ts). u_length com) xs) \<le> MAX_PENDING"
  shows "assembler (bulk_transfers c xs s) = assembler s \<and>
    pending_at (bulk_transfers c xs s) (b @ concat (map (\<lambda>(sub, com, ts). urb_data com) xs)) t0"
  using assms
proof (induction xs arbitrary: s b)
  case (Cons x xs)
  obtain sub com ts where x: "x = (sub, com, ts)" by (cases x)
  let ?s = "with_pending (us_pending s @ urb_data com) True (pop_req com s)"
  from Cons.prems x have step: "feed_bulk c com ts (note_submit sub s) = ?s"
    by (intro feed_bulk_full) (auto simp: pending_at_def)
  from Cons.prems x have len: "length (urb_data com) = u_length com" by (simp add: captured_def)
  have "pending_at ?s (b @ urb_data com) t0"
    using Cons.prems(2) by (simp add: pending_at_def with_pending_def)
  from Cons.IH [OF Cons.prems(1) this] Cons.prems(3,4) x step len show ?case by simp
qed simp


text \<open>The first URB of a payload, and the two ways it ends.\<close>

lemma feed_bulk_first:
  assumes "uc_max_payload c = 0" "transfer sub com" "captured com" "u_length sub = u_length com"
    "\<not> us_bulk_cont s" "u_length com \<le> MAX_PENDING"
  shows "pending_at (feed_bulk c com ts (note_submit sub s)) (urb_data com) ts
    \<and> assembler (feed_bulk c com ts (note_submit sub s)) = assembler s"
proof -
  from assms have c: "u_length com \<noteq> 0" "u_has_data com" "length (urb_data com) = u_length com"
    by (simp_all add: captured_def)
  have "feed_bulk c com ts (note_submit sub s)
     = (pop_req com s)\<lparr>us_pending := urb_data com, us_pending_ts := ts, us_bulk_cont := True\<rparr>"
    unfolding feed_bulk_def Let_def submit_req [OF assms(2)] pop_submit [OF assms(2)]
    using c assms by simp
  with c show ?thesis by (auto simp: pending_at_def assembler_def pop_req_def)
qed

definition terminator :: "urb \<Rightarrow> urb \<Rightarrow> bool" where
  "terminator sub com \<longleftrightarrow> u_length com = 0 \<or> captured com \<and> u_length com < u_length sub"

lemma feed_bulk_last:
  assumes "uc_max_payload c = 0" "transfer sub com" "terminator sub com" "pending_at s b t0"
    "length b + u_length com \<le> MAX_PENDING"
  shows "assembler (feed_bulk c com ts (note_submit sub s))
      = assembler (feed c (b @ (if u_length com = 0 then [] else urb_data com)) t0 s)
    \<and> \<not> us_bulk_cont (feed_bulk c com ts (note_submit sub s))"
proof (cases "u_length com = 0")
  case True
  with assms have "feed_bulk c com ts (note_submit sub s)
      = (feed c b t0 (pop_req com s))\<lparr>us_pending := [], us_bulk_cont := False\<rparr>"
    unfolding feed_bulk_def Let_def pop_submit [OF assms(2)] by (simp add: pending_at_def)
  with True show ?thesis using assembler_feed [of "pop_req com s" s] by simp
next
  case False
  let ?t = "(pop_req com s)\<lparr>us_pending := b @ urb_data com\<rparr>"
  from False assms have c: "u_has_data com" "length (urb_data com) = u_length com" "u_length com < u_length sub"
    by (simp_all add: terminator_def captured_def)
  have "feed_bulk c com ts (note_submit sub s)
     = (feed c (b @ urb_data com) t0 ?t)\<lparr>us_pending := [], us_bulk_cont := False\<rparr>"
    unfolding feed_bulk_def Let_def submit_req [OF assms(2)] pop_submit [OF assms(2)]
    using False c assms by (simp add: pending_at_def)
  with False show ?thesis using assembler_feed [of ?t s] by simp
qed

lemma bulk_append: "bulk_transfers c (xs @ ys) s = bulk_transfers c ys (bulk_transfers c xs s)"
  by (induction xs arbitrary: s) auto

text \<open>a bulk payload is fed whole.  With no maximum payload size, a payload split over full
  URBs and ended by a short (or zero-length) one moves the assembler exactly as feeding the joined
  bytes at once, stamped with the payload's first URB; the bulk buffer is empty again afterwards.\<close>

theorem bulk_payload_fed_whole:
  assumes "uc_max_payload c = 0" "\<not> us_bulk_cont s"
    "\<forall>(sub, com, ts)\<in>set ((sub0, com0, t0) # xs). transfer sub com \<and> captured com \<and> u_length sub = u_length com"
    "transfer sub1 com1" "terminator sub1 com1"
    "u_length com0 + sum_list (map (\<lambda>(sub, com, ts). u_length com) xs) + u_length com1 \<le> MAX_PENDING"
  shows "assembler (bulk_transfers c ((sub0, com0, t0) # xs @ [(sub1, com1, t1)]) s)
      = assembler (feed c (urb_data com0 @ concat (map (\<lambda>(sub, com, ts). urb_data com) xs)
          @ (if u_length com1 = 0 then [] else urb_data com1)) t0 s)
    \<and> \<not> us_bulk_cont (bulk_transfers c ((sub0, com0, t0) # xs @ [(sub1, com1, t1)]) s)"
proof -
  let ?s1 = "feed_bulk c com0 t0 (note_submit sub0 s)"
  let ?s2 = "bulk_transfers c xs ?s1"
  let ?b = "urb_data com0 @ concat (map (\<lambda>(sub, com, ts). urb_data com) xs)"
  from assms have s1: "pending_at ?s1 (urb_data com0) t0" "assembler ?s1 = assembler s"
    using feed_bulk_first [of c sub0 com0 s t0] by auto
  from assms(3) have len: "length (urb_data com0) = u_length com0" by (simp add: captured_def)
  from bulk_full_run [OF assms(1) s1(1)] assms(3,6) len
  have s2: "assembler ?s2 = assembler s" "pending_at ?s2 ?b t0" by (auto simp: s1)
  have lens: "length ?b \<le> u_length com0 + sum_list (map (\<lambda>(sub, com, ts). u_length com) xs)"
    using assms(3) len by (induction xs) (auto simp: captured_def)
  from feed_bulk_last [OF assms(1,4,5) s2(2), of t1] assembler_feed [OF s2(1)] lens assms(6)
  show ?thesis by (simp add: bulk_append)
qed


definition demo_urb :: "nat \<Rightarrow> nat \<Rightarrow> bytes \<Rightarrow> urb" where
  "demo_urb ty n d = \<lparr>u_id = 77, u_type = ty, u_xfer = XFER_BULK, u_ep = 1, u_is_in = True, u_dev = 2,
     u_bus = 1, u_has_setup = False, u_has_data = True, u_status = 0, u_length = n, u_len_cap = length d,
     u_setup = [], u_ndesc = 0, u_hdr_len = 4, u_ts_ns = 0, u_record = [0, 0, 0, 0] @ d\<rparr>"

theorem bulk_payload_fed_whole_witness:
  "assembler (bulk_transfers demo_cfg
      [(demo_urb TYPE_S 3 [], demo_urb TYPE_C 3 [2, 2, 7], 10),
       (demo_urb TYPE_S 3 [], demo_urb TYPE_C 2 [8, 9], 11)] uvc_reset)
    = assembler (feed demo_cfg [2, 2, 7, 8, 9] 10 uvc_reset)"
  using bulk_payload_fed_whole
    [of demo_cfg uvc_reset "demo_urb TYPE_S 3 []" "demo_urb TYPE_C 3 [2, 2, 7]" 10 "[]"
        "demo_urb TYPE_S 3 []" "demo_urb TYPE_C 2 [8, 9]" 11]
  by (simp add: demo_cfg_def new_extractor_cfg_def uvc_reset_def transfer_def captured_def terminator_def
      demo_urb_def urb_data_def slice_def MAX_PENDING_def)

text \<open>A capture of one isochronous completion with one packet: the whole frame \<open>7 8 9\<close>.\<close>

definition demo_record :: bytes where
  "demo_record = enc LE 8 77 @ [0x43, 0, 0x81, 2, 1, 0, 0, 0] @ replicate 12 0 @ enc LE 4 0
     @ enc LE 4 5 @ enc LE 4 21 @ replicate 20 0 @ enc LE 4 1
     @ enc LE 4 0 @ enc LE 4 0 @ enc LE 4 5 @ enc LE 4 0 @ [2, 2, 7, 8, 9]"

definition demo_capture :: bytes where
  "demo_capture = pcap_file LE 1000 220 [(1, 5, demo_record)]"

lemma demo_packets: "iter_packets demo_capture = ([(220, 1000005000, demo_record)], None)"
proof -
  have "length demo_record = 85" by code_simp
  then have "\<forall>r\<in>set [(1, 5, demo_record)]. record_ok r" by (simp add: record_ok_def MAX_RECORD_def)
  from pcap_file_packets [OF _ _ this, of 1000 220 LE] show ?thesis by (simp add: demo_capture_def)
qed

lemma demo_walk: "us_out (snd (walk_packet demo_cfg (220, 1000005000, demo_record) (None, uvc_reset))) = [(1000005000, [7, 8, 9])]
   \<and> iso_only demo_cfg None [(220, 1000005000, demo_record)]
   \<and> stream_events demo_cfg None [(220, 1000005000, demo_record)] = [Payload [2,2,7,8,9] 1000005000]"
  by code_simp


theorem frames_have_no_holes_witness:
  "(1000005000, [7, 8, 9]) \<in> set (fst (iter_extractor demo_cfg demo_capture)) \<and>
   frame_of demo_cfg [Payload [2, 2, 7, 8, 9] 1000005000] (1000005000, [7, 8, 9])"
proof -
  have p: "fst (iter_packets demo_capture) = [(220, 1000005000, demo_record)]" by (simp add: demo_packets)
  have i: "(1000005000, [7, 8, 9]) \<in> set (fst (iter_extractor demo_cfg demo_capture))"
    using demo_walk by (auto simp: iter_extractor_def demo_packets split_beta)
  from frames_have_no_holes [of demo_cfg demo_capture, unfolded p] i demo_walk show ?thesis by metis
qed

end
