(* ===== verification/Uvc_Probe.thy ===== *)
theory Uvc_Probe
  imports Uvc_Frames
begin

text \<open>
  The probe of \<open>core-driver/cam_driver/uvcpcap.py\<close>: candidate video streams of a capture, their
  UVC plausibility score, the negotiated and described formats, and the stream selection.  A
  Python dict whose order matters (\<open>stats\<close>) is an association list in insertion order; the others
  are maps.  Floats are rationals.  The lemmas bound the sampling windows and show what a selected
  stream is guaranteed to be.
\<close>

section \<open>Scoring\<close>

definition SCORE_SAMPLES :: nat where
  "SCORE_SAMPLES = 200"

definition SCORE_FID_PAYLOADS :: nat where
  "SCORE_FID_PAYLOADS = 200000"

record score_state =
  sc_sampled :: nat
  sc_plausible :: nat
  sc_seen :: nat
  sc_fids :: "bool set"

definition new_score :: score_state where
  "new_score = \<lparr>sc_sampled = 0, sc_plausible = 0, sc_seen = 0, sc_fids = {}\<rparr>"

definition settled :: "score_state \<Rightarrow> bool" where
  "settled st \<longleftrightarrow> sc_sampled st \<ge> SCORE_SAMPLES \<and> card (sc_fids st) > 1"

definition score_feed :: "bytes \<Rightarrow> score_state \<Rightarrow> score_state" where
  "score_feed payload st =
     (if payload = [] \<or> settled st \<or> sc_seen st \<ge> SCORE_FID_PAYLOADS then st
      else
        let st = st\<lparr>sc_seen := sc_seen st + 1\<rparr>;
            ok = (parse_uvc_header payload False \<noteq> None);
            st = (if sc_sampled st < SCORE_SAMPLES
                  then st\<lparr>sc_sampled := sc_sampled st + 1, sc_plausible := sc_plausible st + (if ok then 1 else 0)\<rparr>
                  else st)
        in if ok then st\<lparr>sc_fids := insert (bit (payload ! 1) 0) (sc_fids st)\<rparr> else st)"

definition score :: "score_state \<Rightarrow> rat" where
  "score st =
     (if sc_sampled st = 0 then 0
      else let frac = of_nat (sc_plausible st) / of_nat (sc_sampled st)
           in if card (sc_fids st) > 1 then frac else frac * (1 / 2))"

section \<open>Descriptors\<close>

type_synonym formats = "nat \<Rightarrow> string option option"
type_synonym frame_sizes = "nat \<times> nat \<Rightarrow> (nat \<times> nat) option"

definition GUID_FORMATS :: "(bytes \<times> string) list" where
  "GUID_FORMATS =
     [([0x59, 0x31, 0x36, 0x20], ''GRAY16_LE''), ([0x47, 0x52, 0x45, 0x59], ''GRAY8''),
      ([0x59, 0x55, 0x59, 0x32], ''YUY2''), ([0x4e, 0x56, 0x31, 0x32], ''NV12''),
      ([0x55, 0x59, 0x56, 0x59], ''UYVY''), ([0x49, 0x34, 0x32, 0x30], ''I420'')]"

text \<open>One descriptor \<open>d\<close> of type \<open>btype\<close>: the interface flag, the current format and the tables.\<close>

definition descriptor_step ::
  "bytes \<Rightarrow> bool \<times> nat option \<times> formats \<times> frame_sizes \<Rightarrow> bool \<times> nat option \<times> formats \<times> frame_sizes" where
  "descriptor_step d = (\<lambda>(vs_iface, cur_fmt, formats, frames).
     let blen = length d; btype = unat (d ! 1); fld = (\<lambda>i. unat (d ! i)) in
     if btype = 0x04 \<and> blen \<ge> 8 then (fld 5 = 0x0E \<and> fld 6 = 0x02, cur_fmt, formats, frames)
     else if btype = 0x24 \<and> vs_iface \<and> blen \<ge> 4 then
       (let sub = fld 2 in
        if sub = 0x04 \<and> blen \<ge> 21
        then (vs_iface, Some (fld 3), formats(fld 3 \<mapsto> map_of GUID_FORMATS (slice d 5 9)), frames)
        else if sub = 0x06 then (vs_iface, Some (fld 3), formats(fld 3 \<mapsto> Some ''MJPEG''), frames)
        else if (sub = 0x05 \<or> sub = 0x07) \<and> blen \<ge> 9 \<and> cur_fmt \<noteq> None then
          (vs_iface, cur_fmt, formats,
           frames((the cur_fmt, fld 3) \<mapsto> (fld 5 + fld 6 * 256, fld 7 + fld 8 * 256)))
        else (vs_iface, cur_fmt, formats, frames))
     else (vs_iface, cur_fmt, formats, frames))"

function walk_from :: "bytes \<Rightarrow> bool \<times> nat option \<times> formats \<times> frame_sizes \<Rightarrow> formats \<times> frame_sizes" where
  "walk_from data st =
     (if length data < 2 then snd (snd st)
      else
        let blen = unat (data ! 0) in
        if blen < 2 \<or> blen > length data then snd (snd st)
        else walk_from (drop blen data) (descriptor_step (take blen data) st))"
  by pat_completeness auto
termination by (relation "measure (\<lambda>(d, st). length d)") auto

declare walk_from.simps [simp del]

definition walk_config_descriptor :: "bytes \<Rightarrow> formats \<times> frame_sizes \<Rightarrow> formats \<times> frame_sizes" where
  "walk_config_descriptor data = (\<lambda>(formats, frames). walk_from data (False, None, formats, frames))"

section \<open>The probe\<close>

record negotiated =
  ng_fps :: "rat option"
  ng_max_video_frame_size :: "nat option"
  ng_max_payload_size :: "nat option"
  ng_format_index :: "nat option"
  ng_frame_index :: "nat option"

definition new_negotiated :: negotiated where
  "new_negotiated = \<lparr>ng_fps = None, ng_max_video_frame_size = None, ng_max_payload_size = None,
     ng_format_index = None, ng_frame_index = None\<rparr>"

datatype xfer_name = Iso | Bulk | Intr

record stream_info =
  si_bus :: nat
  si_dev :: nat
  si_ep :: nat
  si_xfer :: xfer_name
  si_urbs :: nat
  si_payload_bytes :: nat
  si_uvc_score :: rat
  si_negotiated :: "negotiated option"
  si_described :: "(string \<times> nat \<times> nat) option"

type_synonym stream_key = "nat \<times> nat \<times> nat \<times> nat"

record probe_result =
  pr_file_format :: string
  pr_linktypes :: "nat set"
  pr_packets :: nat
  pr_duration_ns :: int
  pr_streams :: "stream_info list"
  pr_best :: "stream_info option"

record probe_state =
  ps_lock :: "endian option"
  ps_packets :: nat
  ps_linktypes :: "nat set"
  ps_stats :: "(stream_key \<times> stream_info) list"
  ps_scores :: "stream_key \<Rightarrow> score_state option"
  ps_pending_setup :: "nat \<times> nat \<Rightarrow> bytes option"
  ps_negotiated :: "nat \<times> nat \<Rightarrow> negotiated option"
  ps_committed :: "nat \<times> nat \<Rightarrow> negotiated option"
  ps_descriptors :: "nat \<times> nat \<Rightarrow> (formats \<times> frame_sizes) option"
  ps_first_ts :: "nat option"
  ps_last_ts :: "nat option"

definition new_probe :: probe_state where
  "new_probe = \<lparr>ps_lock = None, ps_packets = 0, ps_linktypes = {}, ps_stats = [], ps_scores = Map.empty,
     ps_pending_setup = Map.empty, ps_negotiated = Map.empty, ps_committed = Map.empty,
     ps_descriptors = Map.empty, ps_first_ts = None, ps_last_ts = None\<rparr>"

definition vs_ctrl ::
  "(nat \<times> nat \<Rightarrow> negotiated option) \<Rightarrow> nat \<Rightarrow> nat \<Rightarrow> bytes \<Rightarrow> (nat \<times> nat \<Rightarrow> negotiated option)" where
  "vs_ctrl neg_map bus dev data =
     (if length data < 26 then neg_map
      else
        let interval = dec LE (slice data 4 8) in
        neg_map((bus, dev) \<mapsto>
          \<lparr>ng_fps = (if interval \<noteq> 0 then Some (10000000 / of_nat interval) else None),
           ng_max_video_frame_size = Some (dec LE (slice data 18 22)),
           ng_max_payload_size = Some (dec LE (slice data 22 26)),
           ng_format_index = Some (unat (data ! 2)), ng_frame_index = Some (unat (data ! 3))\<rparr>))"

text \<open>Control transfers: \<open>bm\<close>, \<open>breq\<close> and the high byte of \<open>w_value\<close> of a setup packet.\<close>

definition setup_fields :: "bytes \<Rightarrow> nat \<times> nat \<times> nat" where
  "setup_fields s = (unat (s ! 0), unat (s ! 1), unat (s ! 3))"

definition control_submit :: "urb \<Rightarrow> probe_state \<Rightarrow> probe_state" where
  "control_submit u s =
     (let (bm, breq, sel) = setup_fields (u_setup u) in
      if bm = 0x21 \<and> breq = 0x01 \<and> (sel = 1 \<or> sel = 2) \<and> u_has_data u then
        (if sel = 2 then s\<lparr>ps_committed := vs_ctrl (ps_committed s) (u_bus u) (u_dev u) (urb_data u)\<rparr>
         else s\<lparr>ps_negotiated := vs_ctrl (ps_negotiated s) (u_bus u) (u_dev u) (urb_data u)\<rparr>)
      else if bm \<ge> 0x80 then s\<lparr>ps_pending_setup := (ps_pending_setup s)((u_bus u, u_id u) \<mapsto> u_setup u)\<rparr>
      else s)"

definition control_complete :: "urb \<Rightarrow> probe_state \<Rightarrow> probe_state" where
  "control_complete u s =
     (let setup = ps_pending_setup s (u_bus u, u_id u);
          s = s\<lparr>ps_pending_setup := (ps_pending_setup s)((u_bus u, u_id u) := None)\<rparr>
      in case setup of
           None \<Rightarrow> s
         | Some su \<Rightarrow>
             let (bm, breq, sel) = setup_fields su in
             if bm = 0xA1 \<and> breq = 0x81 \<and> (sel = 1 \<or> sel = 2) then
               s\<lparr>ps_negotiated := vs_ctrl (ps_negotiated s) (u_bus u) (u_dev u) (urb_data u)\<rparr>
             else if bm = 0x80 \<and> breq = 0x06 \<and> sel = 0x02 then
               (let tables = (case ps_descriptors s (u_bus u, u_dev u) of None \<Rightarrow> (Map.empty, Map.empty) | Some t \<Rightarrow> t)
                in s\<lparr>ps_descriptors := (ps_descriptors s)
                       ((u_bus u, u_dev u) \<mapsto> walk_config_descriptor (urb_data u) tables)\<rparr>)
             else s)"

fun upd_assoc :: "'k \<Rightarrow> ('v \<Rightarrow> 'v) \<Rightarrow> ('k \<times> 'v) list \<Rightarrow> ('k \<times> 'v) list" where
  "upd_assoc k f [] = []"
| "upd_assoc k f ((x, v) # xs) = (if x = k then (x, f v) # xs else (x, v) # upd_assoc k f xs)"

definition urb_key :: "urb \<Rightarrow> stream_key" where
  "urb_key u = (u_bus u, u_dev u, u_ep u, u_xfer u)"

definition xfer_name :: "nat \<Rightarrow> xfer_name" where
  "xfer_name x = (if x = XFER_ISO then Iso else if x = XFER_BULK then Bulk else Intr)"

definition open_stream :: "urb \<Rightarrow> probe_state \<Rightarrow> probe_state" where
  "open_stream u s =
     (if map_of (ps_stats s) (urb_key u) = None then
        s\<lparr>ps_stats := ps_stats s @ [(urb_key u,
            \<lparr>si_bus = u_bus u, si_dev = u_dev u, si_ep = u_ep u, si_xfer = xfer_name (u_xfer u), si_urbs = 0,
             si_payload_bytes = 0, si_uvc_score = 0, si_negotiated = None, si_described = None\<rparr>)],
          ps_scores := (ps_scores s)(urb_key u \<mapsto> new_score)\<rparr>
      else s)"

definition count_urb :: "urb \<Rightarrow> probe_state \<Rightarrow> probe_state" where
  "count_urb u s = s\<lparr>ps_stats := upd_assoc (urb_key u) (\<lambda>i. i\<lparr>si_urbs := si_urbs i + 1\<rparr>) (ps_stats s)\<rparr>"

definition add_bytes :: "urb \<Rightarrow> nat \<Rightarrow> probe_state \<Rightarrow> probe_state" where
  "add_bytes u n s = s\<lparr>ps_stats := upd_assoc (urb_key u)
     (\<lambda>i. i\<lparr>si_payload_bytes := si_payload_bytes i + n\<rparr>) (ps_stats s)\<rparr>"

definition sample :: "urb \<Rightarrow> bytes \<Rightarrow> probe_state \<Rightarrow> probe_state" where
  "sample u payload s = s\<lparr>ps_scores := (ps_scores s)
     (urb_key u := map_option (score_feed payload) (ps_scores s (urb_key u)))\<rparr>"

definition probe_iso :: "urb \<Rightarrow> bytes \<times> bool \<Rightarrow> probe_state \<Rightarrow> probe_state" where
  "probe_iso u = (\<lambda>(payload, lost) s. if lost then s else sample u payload (add_bytes u (length payload) s))"

definition probe_data :: "urb \<Rightarrow> probe_state \<Rightarrow> probe_state" where
  "probe_data u s =
     (let s = count_urb u (open_stream u s) in
      if u_xfer u = XFER_ISO then fold (probe_iso u) (iso_payloads (ps_lock s) u) s
      else if u_has_data u then
        let s = add_bytes u (length (urb_data u)) s
        in if u_xfer u = XFER_BULK then sample u (urb_data u) s else s
      else s)"

definition probe_urb :: "urb \<Rightarrow> probe_state \<Rightarrow> probe_state" where
  "probe_urb u s =
     (if u_xfer u = XFER_CTRL then
        (if u_type u = TYPE_S \<and> u_has_setup u then control_submit u s
         else if u_type u = TYPE_C \<and> u_has_data u then control_complete u s
         else s)
      else if u_type u \<noteq> TYPE_C \<or> \<not> u_is_in u \<or> u_xfer u \<notin> {XFER_ISO, XFER_BULK, XFER_INTR} then s
      else probe_data u s)"

definition probe_packet :: "packet \<Rightarrow> probe_state \<Rightarrow> probe_state" where
  "probe_packet = (\<lambda>(linktype, ts, rec) s.
     let s = s\<lparr>ps_packets := ps_packets s + 1, ps_linktypes := insert linktype (ps_linktypes s)\<rparr> in
     if linktype \<notin> set USB_LINKTYPES then s
     else
       let (uo, lock) = usbmon_parse (ps_lock s) linktype ts rec; s = s\<lparr>ps_lock := lock\<rparr> in
       case uo of
         None \<Rightarrow> s
       | Some u \<Rightarrow>
           probe_urb u (s\<lparr>ps_first_ts := (case ps_first_ts s of None \<Rightarrow> Some ts | Some t \<Rightarrow> Some t),
                          ps_last_ts := Some ts\<rparr>))"

definition describe_stream :: "probe_state \<Rightarrow> stream_key \<times> stream_info \<Rightarrow> stream_info" where
  "describe_stream s = (\<lambda>(key, info).
     let dev = (si_bus info, si_dev info);
         neg = (case ps_committed s dev of Some n \<Rightarrow> Some n | None \<Rightarrow> ps_negotiated s dev);
         described = (case (neg, ps_descriptors s dev) of
             (Some n, Some (formats, frames)) \<Rightarrow>
               (case ng_format_index n of
                  None \<Rightarrow> None
                | Some fi \<Rightarrow>
                    (case (formats fi, ng_frame_index n) of
                       (Some (Some fmt), Some fri) \<Rightarrow>
                         map_option (\<lambda>(w, h). (fmt, w, h)) (frames (fi, fri))
                     | _ \<Rightarrow> None))
           | _ \<Rightarrow> None)
     in info\<lparr>si_uvc_score := (case ps_scores s key of None \<Rightarrow> 0 | Some st \<Rightarrow> score st),
             si_negotiated := neg, si_described := described\<rparr>)"

definition candidate :: "stream_info \<Rightarrow> bool" where
  "candidate i \<longleftrightarrow> si_xfer i \<in> {Iso, Bulk} \<and> si_uvc_score i \<ge> 9 / 10"

definition rank_streams :: "stream_info list \<Rightarrow> stream_info list" where
  "rank_streams = sort_key (\<lambda>i. - int (si_payload_bytes i))"

datatype probe_error =
    Probe_Format pcap_error
  | Not_Usb "nat set"
  | No_Match "stream_info list"
  | No_Uvc "stream_info list"

definition finish_probe :: "string \<Rightarrow> probe_state \<Rightarrow> probe_error + probe_result" where
  "finish_probe fmt s =
     (if ps_linktypes s \<inter> set USB_LINKTYPES = {} then Inl (Not_Usb (ps_linktypes s))
      else
        let streams = rank_streams (map (describe_stream s) (ps_stats s)) in
        Inr \<lparr>pr_file_format = fmt, pr_linktypes = ps_linktypes s, pr_packets = ps_packets s,
             pr_duration_ns = (case (ps_first_ts s, ps_last_ts s) of
                                 (Some a, Some b) \<Rightarrow> int b - int a | _ \<Rightarrow> 0),
             pr_streams = streams,
             pr_best = (case filter candidate streams of [] \<Rightarrow> None | c # _ \<Rightarrow> Some c)\<rparr>)"

text \<open>\<open>probe\<close>: with \<open>max_packets\<close> reached, the rest of the file (and an error in it) is not read.\<close>

definition probe :: "bytes \<Rightarrow> nat option \<Rightarrow> probe_error + probe_result" where
  "probe file max_packets =
     ebind (case sniff_format file of Inl e \<Rightarrow> Inl (Probe_Format e) | Inr fmt \<Rightarrow> Inr fmt) (\<lambda>fmt.
       let (packets, err) = iter_packets file;
           stop = (case max_packets of None \<Rightarrow> False | Some m \<Rightarrow> m < length packets);
           packets = (case max_packets of None \<Rightarrow> packets | Some m \<Rightarrow> take m packets)
       in case err of
            Some e \<Rightarrow> if stop then finish_probe fmt (fold probe_packet packets new_probe)
                      else Inl (Probe_Format e)
          | None \<Rightarrow> finish_probe fmt (fold probe_packet packets new_probe))"

section \<open>Selection\<close>

fun first_max :: "('a \<Rightarrow> nat) \<Rightarrow> 'a \<Rightarrow> 'a list \<Rightarrow> 'a" where
  "first_max k best [] = best"
| "first_max k best (x # xs) = first_max k (if k x > k best then x else best) xs"

definition pin_matches :: "nat option \<Rightarrow> nat option \<Rightarrow> nat option \<Rightarrow> stream_info \<Rightarrow> bool" where
  "pin_matches bus dev ep s \<longleftrightarrow> si_xfer s \<in> {Iso, Bulk}
     \<and> (bus = None \<or> bus = Some (si_bus s)) \<and> (dev = None \<or> dev = Some (si_dev s))
     \<and> (case ep of None \<Rightarrow> True | Some e \<Rightarrow> si_ep s = e mod 128)"

definition select_stream ::
  "probe_result \<Rightarrow> nat option \<Rightarrow> nat option \<Rightarrow> nat option \<Rightarrow> probe_error + stream_info" where
  "select_stream pr bus dev ep =
     (if bus \<noteq> None \<or> dev \<noteq> None \<or> ep \<noteq> None then
        (case filter (pin_matches bus dev ep) (pr_streams pr) of
           [] \<Rightarrow> Inl (No_Match (pr_streams pr))
         | s # ss \<Rightarrow> Inr (first_max si_payload_bytes s ss))
      else case pr_best pr of
             None \<Rightarrow> Inl (No_Uvc (pr_streams pr))
           | Some s \<Rightarrow> Inr s)"

definition iter_frames ::
  "bytes \<Rightarrow> nat option \<Rightarrow> nat option \<Rightarrow> nat option \<Rightarrow> nat option \<Rightarrow> bool \<Rightarrow> nat option \<Rightarrow> bool
     \<Rightarrow> probe_error + (nat \<times> bytes) list \<times> extractor_stats \<times> capture_error option" where
  "iter_frames file bus dev ep expected mjpeg max_payload strict =
     (case (bus, dev, ep) of
        (Some b, Some d, Some e) \<Rightarrow>
          Inr (iter_extractor (new_extractor_cfg b d e expected mjpeg max_payload strict) file)
      | _ \<Rightarrow>
          ebind (probe file None) (\<lambda>pr. ebind (select_stream pr bus dev ep) (\<lambda>best.
            let mp = (case (max_payload, si_negotiated best) of
                        (None, Some n) \<Rightarrow> ng_max_payload_size n | _ \<Rightarrow> max_payload)
            in Inr (iter_extractor (new_extractor_cfg (si_bus best) (si_dev best) (si_ep best)
                      expected mjpeg mp strict) file))))"

section \<open>Properties\<close>

text \<open>The sampling windows, for one stream.\<close>

definition score_ok :: "score_state \<Rightarrow> bool" where
  "score_ok st \<longleftrightarrow> sc_plausible st \<le> sc_sampled st \<and> sc_sampled st \<le> SCORE_SAMPLES
     \<and> sc_sampled st \<le> sc_seen st \<and> sc_seen st \<le> SCORE_FID_PAYLOADS"

lemma score_ok_new [simp]: "score_ok new_score"
  by (simp add: score_ok_def new_score_def)

lemma score_ok_feed [simp]: "score_ok st \<Longrightarrow> score_ok (score_feed p st)"
  by (auto simp: score_ok_def score_feed_def Let_def)

lemma score_bounds: "score_ok st \<Longrightarrow> 0 \<le> score st \<and> score st \<le> 1"
  by (auto simp: score_ok_def score_def Let_def divide_le_eq field_simps)

text \<open>Passing the gate takes both values of the frame id and nine plausible payloads in ten.\<close>

lemma score_gate:
  assumes "score_ok st" "9 / 10 \<le> score st"
  shows "sc_fids st = UNIV \<and> 0 < sc_sampled st \<and> 9 * sc_sampled st \<le> 10 * sc_plausible st"
proof -
  let ?p = "of_nat (sc_plausible st) :: rat" and ?n = "of_nat (sc_sampled st) :: rat"
  from assms(2) have n: "0 < sc_sampled st" by (auto simp: score_def split: if_splits)
  then have nr: "0 < ?n" by simp
  from assms(1) have le: "?p \<le> ?n" by (simp add: score_ok_def)
  have card: "card (sc_fids st) > 1"
  proof (rule ccontr)
    assume "\<not> ?thesis"
    with n have "score st = ?p / ?n * (1 / 2)" by (simp add: score_def Let_def)
    moreover from nr le have "?p / ?n \<le> 1" by simp
    ultimately show False using assms(2) by simp
  qed
  with n have "score st = ?p / ?n" by (simp add: score_def Let_def)
  with assms(2) nr have "9 * ?n \<le> 10 * ?p" by (simp add: field_simps)
  then have "of_nat (9 * sc_sampled st) \<le> (of_nat (10 * sc_plausible st) :: rat)" by simp
  then have "9 * sc_sampled st \<le> 10 * sc_plausible st" unfolding of_nat_le_iff .
  moreover have "sc_fids st = UNIV"
  proof (rule card_eq_UNIV_imp_eq_UNIV)
    have "card (sc_fids st) \<le> card (UNIV :: bool set)" by (rule card_mono) auto
    with card show "card (sc_fids st) = CARD(bool)" by simp
  qed simp
  ultimately show ?thesis using n by blast
qed

text \<open>The invariant of the walk: one score per stream, all within bounds, keys distinct.\<close>

definition probe_ok :: "probe_state \<Rightarrow> bool" where
  "probe_ok s \<longleftrightarrow> distinct (map fst (ps_stats s)) \<and> dom (ps_scores s) = fst ` set (ps_stats s)
     \<and> (\<forall>k. pred_option score_ok (ps_scores s k))"

lemma upd_assoc_keys [simp]: "map fst (upd_assoc k f xs) = map fst xs"
  by (induction k f xs rule: upd_assoc.induct) auto

lemma upd_assoc_key_set [simp]: "fst ` set (upd_assoc k f xs) = fst ` set xs"
  using upd_assoc_keys by (metis list.set_map)

lemma probe_ok_cong: "ps_stats s' = ps_stats s \<Longrightarrow> ps_scores s' = ps_scores s \<Longrightarrow> probe_ok s \<Longrightarrow> probe_ok s'"
  by (simp add: probe_ok_def)

lemma probe_ok_counts [simp]:
  "probe_ok s \<Longrightarrow> probe_ok (count_urb u s)" "probe_ok s \<Longrightarrow> probe_ok (add_bytes u n s)"
  by (simp_all add: probe_ok_def count_urb_def add_bytes_def)

lemma all_fun_upd: "\<forall>k. P (m k) \<Longrightarrow> P v \<Longrightarrow> \<forall>k. P ((m(x := v)) k)"
  by simp

lemma probe_ok_open [simp]:
  assumes "probe_ok s"
  shows "probe_ok (open_stream u s)"
proof (cases "map_of (ps_stats s) (urb_key u)")
  case None
  then have "urb_key u \<notin> fst ` set (ps_stats s)" by (simp add: map_of_eq_None_iff)
  with None assms show ?thesis
    unfolding probe_ok_def open_stream_def
    by (simp add: all_fun_upd del: split_paired_All fun_upd_apply)
qed (use assms in \<open>simp add: open_stream_def\<close>)

lemma probe_ok_sample [simp]:
  assumes "probe_ok s"
  shows "probe_ok (sample u p s)"
proof -
  have "dom ((ps_scores s)(urb_key u := map_option (score_feed p) (ps_scores s (urb_key u)))) = dom (ps_scores s)"
    by (cases "ps_scores s (urb_key u)") auto
  moreover have "\<forall>k. pred_option score_ok (ps_scores s k)" using assms by (simp add: probe_ok_def)
  moreover have "pred_option score_ok (map_option (score_feed p) (ps_scores s (urb_key u)))"
    using spec [OF calculation(2), of "urb_key u"] by (cases "ps_scores s (urb_key u)") simp_all
  ultimately show ?thesis using assms
    unfolding probe_ok_def sample_def
    by (simp add: all_fun_upd del: split_paired_All fun_upd_apply)
qed

lemma probe_ok_iso: "probe_ok s \<Longrightarrow> probe_ok (fold (probe_iso u) xs s)"
  by (induction xs arbitrary: s) (auto simp: probe_iso_def)

lemma probe_ok_data [simp]: "probe_ok s \<Longrightarrow> probe_ok (probe_data u s)"
  by (simp add: probe_data_def Let_def probe_ok_iso)

lemma control_keeps [simp]:
  "ps_stats (control_submit u s) = ps_stats s" "ps_scores (control_submit u s) = ps_scores s"
  "ps_stats (control_complete u s) = ps_stats s" "ps_scores (control_complete u s) = ps_scores s"
  by (simp_all add: control_submit_def control_complete_def Let_def split: prod.split option.split)

lemma probe_ok_urb: "probe_ok s \<Longrightarrow> probe_ok (probe_urb u s)"
  using probe_ok_cong [of "control_submit u s" s] probe_ok_cong [of "control_complete u s" s]
  by (simp add: probe_urb_def)

lemma probe_ok_packet: "probe_ok s \<Longrightarrow> probe_ok (probe_packet p s)"
  using probe_ok_cong [of _ s]
  by (cases p) (auto simp: probe_packet_def Let_def split: prod.split option.split intro!: probe_ok_urb)

lemma probe_ok_walk: "probe_ok s \<Longrightarrow> probe_ok (fold probe_packet ps s)"
  by (induction ps arbitrary: s) (simp_all add: probe_ok_packet)

lemma probe_ok_new: "probe_ok new_probe"
  by (simp add: probe_ok_def new_probe_def)


lemma first_max_in: "first_max k b xs \<in> insert b (set xs)"
  by (induction k b xs rule: first_max.induct) auto

lemma first_max_best: "k b \<le> k (first_max k b xs)"
  by (induction k b xs rule: first_max.induct) (auto intro: order_trans split: if_splits)

lemma first_max_ge: "x \<in> insert b (set xs) \<Longrightarrow> k x \<le> k (first_max k b xs)"
proof (induction xs arbitrary: b)
  case (Cons y xs)
  from first_max_best [of k "if k y > k b then y else b" xs]
  have "k y \<le> k (first_max k b (y # xs))" "k b \<le> k (first_max k b (y # xs))"
    by (auto split: if_splits)
  with Cons show ?case by auto
qed simp

lemma rank_sorted: "sorted_wrt (\<lambda>a b. si_payload_bytes a \<ge> si_payload_bytes b) (rank_streams xs)"
proof -
  have "sorted (map (\<lambda>i. - int (si_payload_bytes i)) (rank_streams xs))"
    by (simp add: rank_streams_def)
  then show ?thesis by (simp add: sorted_map)
qed

lemma filter_head_max:
  "sorted_wrt R xs \<Longrightarrow> filter P xs = y # ys \<Longrightarrow> y \<in> set xs \<and> P y \<and> (\<forall>z\<in>set xs. P z \<longrightarrow> z = y \<or> R y z)"
proof (induction xs)
  case (Cons x xs)
  then show ?case by (cases "P x") auto
qed simp

text \<open>What a probe of a file ran: the packets it walked.\<close>

definition probe_walk :: "bytes \<Rightarrow> nat option \<Rightarrow> probe_state" where
  "probe_walk file mp = fold probe_packet
     (case mp of None \<Rightarrow> fst (iter_packets file) | Some m \<Rightarrow> take m (fst (iter_packets file))) new_probe"

lemma probe_finish:
  "probe file mp = Inr pr \<Longrightarrow> \<exists>fmt. finish_probe fmt (probe_walk file mp) = Inr pr"
  by (cases "iter_packets file"; cases "snd (iter_packets file)"; cases mp)
    (auto simp: probe_def probe_walk_def Let_def split: if_splits)

lemma best_stream_sound:
  assumes "probe file mp = Inr pr" "pr_best pr = Some b"
  shows "b \<in> set (pr_streams pr) \<and> si_xfer b \<in> {Iso, Bulk} \<and> 9 / 10 \<le> si_uvc_score b
    \<and> (\<forall>i\<in>set (pr_streams pr). candidate i \<longrightarrow> si_payload_bytes i \<le> si_payload_bytes b)
    \<and> (\<exists>key st. ps_scores (probe_walk file mp) key = Some st \<and> si_uvc_score b = score st
         \<and> sc_fids st = UNIV \<and> 0 < sc_sampled st \<and> 9 * sc_sampled st \<le> 10 * sc_plausible st)"
proof -
  let ?s = "probe_walk file mp"
  let ?xs = "rank_streams (map (describe_stream ?s) (ps_stats ?s))"
  from probe_finish [OF assms(1)] assms(2)
  have xs: "pr_streams pr = ?xs" and "\<exists>cs. filter candidate ?xs = b # cs"
    by (auto simp: finish_probe_def Let_def split: if_splits list.splits)
  then obtain cs where "filter candidate ?xs = b # cs" by blast
  from filter_head_max [OF rank_sorted this]
  have b: "b \<in> set ?xs" "candidate b"
    "\<forall>i\<in>set ?xs. candidate i \<longrightarrow> i = b \<or> si_payload_bytes i \<le> si_payload_bytes b" by auto
  from b(1) obtain key info where ki: "(key, info) \<in> set (ps_stats ?s)" "b = describe_stream ?s (key, info)"
    by (auto simp: rank_streams_def)
  have ok: "probe_ok ?s" unfolding probe_walk_def by (rule probe_ok_walk [OF probe_ok_new])
  from ki(1) ok have "key \<in> dom (ps_scores ?s)" by (force simp: probe_ok_def)
  then obtain st where st: "ps_scores ?s key = Some st" by auto
  have "pred_option score_ok (ps_scores ?s key)" using ok unfolding probe_ok_def by blast
  with st have sok: "score_ok st" by simp
  from ki(2) st have sc: "si_uvc_score b = score st" by (simp add: describe_stream_def Let_def)
  from b(2) have c: "si_xfer b \<in> {Iso, Bulk}" "9 / 10 \<le> si_uvc_score b" by (simp_all add: candidate_def)
  from score_gate [OF sok] c(2) sc st have "ps_scores ?s key = Some st \<and> si_uvc_score b = score st
      \<and> sc_fids st = UNIV \<and> 0 < sc_sampled st \<and> 9 * sc_sampled st \<le> 10 * sc_plausible st" by simp
  moreover have "\<forall>i\<in>set ?xs. candidate i \<longrightarrow> si_payload_bytes i \<le> si_payload_bytes b" using b(3) by auto
  ultimately show ?thesis unfolding xs using b(1) c by blast
qed

text \<open>C32: the probe's best stream.  It is one of the streams seen, isochronous or bulk, at least nine
  in ten of its sampled payloads carry a sane UVC header, both frame ids were seen on it (a stream
  that never toggles is never chosen), and no other candidate carried more bytes.\<close>

theorem probe_best_sound:
  assumes "probe file mp = Inr pr" "pr_best pr = Some b"
  shows "b \<in> set (pr_streams pr) \<and> si_xfer b \<in> {Iso, Bulk} \<and> 9 / 10 \<le> si_uvc_score b
    \<and> (\<forall>i\<in>set (pr_streams pr). candidate i \<longrightarrow> si_payload_bytes i \<le> si_payload_bytes b)
    \<and> (\<exists>key st. ps_scores (probe_walk file mp) key = Some st \<and> si_uvc_score b = score st
         \<and> sc_fids st = UNIV \<and> 0 < sc_sampled st \<and> 9 * sc_sampled st \<le> 10 * sc_plausible st)"
  using assms by (rule best_stream_sound)

text \<open>A capture of two packets with different frame ids.\<close>

definition demo_record2 :: bytes where
  "demo_record2 = enc LE 8 77 @ [0x43, 0, 0x81, 2, 1, 0, 0, 0] @ replicate 12 0 @ enc LE 4 0
     @ enc LE 4 5 @ enc LE 4 21 @ replicate 20 0 @ enc LE 4 1
     @ enc LE 4 0 @ enc LE 4 0 @ enc LE 4 5 @ enc LE 4 0 @ [2, 3, 7, 8, 9]"

definition demo_capture2 :: bytes where
  "demo_capture2 = pcap_file LE 1000 220 [(1, 5, demo_record), (2, 0, demo_record2)]"

lemma demo_packets2:
  "iter_packets demo_capture2 = ([(220, 1000005000, demo_record), (220, 2000000000, demo_record2)], None)"
proof -
  have "length demo_record = 85" "length demo_record2 = 85" by code_simp+
  then have "\<forall>r\<in>set [(1, 5, demo_record), (2, 0, demo_record2)]. record_ok r"
    by (simp add: record_ok_def MAX_RECORD_def)
  from pcap_file_packets [OF _ _ this, of 1000 220 LE] show ?thesis by (simp add: demo_capture2_def)
qed

definition demo_stream :: stream_info where
  "demo_stream = \<lparr>si_bus = 1, si_dev = 2, si_ep = 1, si_xfer = Iso, si_urbs = 2, si_payload_bytes = 10,
     si_uvc_score = 1, si_negotiated = None, si_described = None\<rparr>"

lemma demo_finish:
  "finish_probe ''pcap'' (fold probe_packet
     [(220, 1000005000, demo_record), (220, 2000000000, demo_record2)] new_probe)
   = Inr \<lparr>pr_file_format = ''pcap'', pr_linktypes = {220}, pr_packets = 2, pr_duration_ns = 999995000,
          pr_streams = [demo_stream], pr_best = Some demo_stream\<rparr>"
  by code_simp


lemma demo_probe: "probe demo_capture2 None = Inr \<lparr>pr_file_format = ''pcap'', pr_linktypes = {220},
    pr_packets = 2, pr_duration_ns = 999995000, pr_streams = [demo_stream], pr_best = Some demo_stream\<rparr>"
proof -
  have "take 4 demo_capture2 = [0xd4, 0xc3, 0xb2, 0xa1]" by code_simp
  then have "sniff_format demo_capture2 = Inr ''pcap''"
    by (simp add: sniff_format_def PCAP_MAGICS_def PCAPNG_MAGIC_def)
  then show ?thesis
    by (simp only: probe_def demo_packets2 sum.case ebind.simps prod.case Let_def option.case demo_finish)
qed

theorem probe_best_sound_witness:
  "probe demo_capture2 None = Inr \<lparr>pr_file_format = ''pcap'', pr_linktypes = {220},
    pr_packets = 2, pr_duration_ns = 999995000, pr_streams = [demo_stream], pr_best = Some demo_stream\<rparr>
   \<and> 9 / 10 \<le> si_uvc_score demo_stream"
proof
  have "pr_best \<lparr>pr_file_format = ''pcap'', pr_linktypes = {220}, pr_packets = 2,
      pr_duration_ns = 999995000, pr_streams = [demo_stream], pr_best = Some demo_stream\<rparr> = Some demo_stream"
    by simp
  from probe_best_sound [OF demo_probe this] show "9 / 10 \<le> si_uvc_score demo_stream" by blast
qed (rule demo_probe)

text \<open>pinned selection.  A selected stream is one of the probe's streams and satisfies every pin
  given (the endpoint modulo its direction bit); among the matching streams it carries the most
  bytes; and the selection fails exactly when nothing matches.\<close>

theorem select_stream_pinned:
  assumes "bus \<noteq> None \<or> dev \<noteq> None \<or> ep \<noteq> None"
  shows "case select_stream pr bus dev ep of
      Inr s \<Rightarrow> s \<in> set (pr_streams pr) \<and> pin_matches bus dev ep s
        \<and> (\<forall>i\<in>set (pr_streams pr). pin_matches bus dev ep i \<longrightarrow> si_payload_bytes i \<le> si_payload_bytes s)
    | Inl e \<Rightarrow> e = No_Match (pr_streams pr) \<and> (\<forall>i\<in>set (pr_streams pr). \<not> pin_matches bus dev ep i)"
proof (cases "filter (pin_matches bus dev ep) (pr_streams pr)")
  case Nil
  then have "\<forall>i\<in>set (pr_streams pr). \<not> pin_matches bus dev ep i" by (simp add: filter_empty_conv)
  with assms Nil show ?thesis by (simp add: select_stream_def)
next
  case (Cons s ss)
  let ?m = "first_max si_payload_bytes s ss"
  have mem: "i \<in> insert s (set ss) \<longleftrightarrow> i \<in> set (pr_streams pr) \<and> pin_matches bus dev ep i" for i
    using arg_cong [OF Cons, of "\<lambda>xs. i \<in> set xs"] by auto
  have res: "select_stream pr bus dev ep = Inr ?m" using assms Cons by (simp add: select_stream_def)
  have "\<forall>i\<in>set (pr_streams pr). pin_matches bus dev ep i \<longrightarrow> si_payload_bytes i \<le> si_payload_bytes ?m"
  proof (intro ballI impI)
    fix i assume "i \<in> set (pr_streams pr)" "pin_matches bus dev ep i"
    then have "i \<in> insert s (set ss)" by (simp only: mem)
    then show "si_payload_bytes i \<le> si_payload_bytes ?m" by (rule first_max_ge)
  qed
  moreover have "?m \<in> set (pr_streams pr) \<and> pin_matches bus dev ep ?m"
    using first_max_in [of si_payload_bytes s ss] by (simp only: mem)
  ultimately show ?thesis unfolding res sum.case by blast
qed

theorem select_stream_pinned_witness:
  "select_stream \<lparr>pr_file_format = ''pcap'', pr_linktypes = {220}, pr_packets = 2, pr_duration_ns = 0,
      pr_streams = [demo_stream], pr_best = None\<rparr> None None (Some 0x81) = Inr demo_stream
   \<and> pin_matches None None (Some 0x81) demo_stream"
  using select_stream_pinned [of None None "Some 0x81" "\<lparr>pr_file_format = ''pcap'', pr_linktypes = {220},
      pr_packets = 2, pr_duration_ns = 0, pr_streams = [demo_stream], pr_best = None\<rparr>"]
  by (simp add: select_stream_def pin_matches_def demo_stream_def)

end
