(* ===== verification/Py_Values.thy ===== *)
theory Py_Values
  imports Cam_Prelude
begin

text \<open>
  What the program asks of Python's dynamic values and of \<open>os.path\<close>: truth, \<open>str\<close>, \<open>int\<close> and \<open>float\<close>
  of a parsed YAML or JSON value, comparisons, and the string functions of \<open>posixpath\<close>.  Floats are
  rationals (a literal is its exact value); the three non-finite ones are \<open>JNonfinite\<close> with the text
  \<open>nan\<close>, \<open>inf\<close> or \<open>-inf\<close>.
\<close>

section \<open>Truth and text\<close>

definition truthy :: "json \<Rightarrow> bool" where
  "truthy v = (case v of JNull \<Rightarrow> False | JBool b \<Rightarrow> b | JInt i \<Rightarrow> i \<noteq> 0 | JNum x \<Rightarrow> x \<noteq> 0 | JNonfinite _ \<Rightarrow> True
     | JStr s \<Rightarrow> s \<noteq> [] | JList xs \<Rightarrow> xs \<noteq> [] | JObj d \<Rightarrow> d \<noteq> [])"

lemma truthy_simps [simp]:
  "\<not> truthy JNull" "truthy (JBool b) = b" "truthy (JInt i) = (i \<noteq> 0)" "truthy (JNum x) = (x \<noteq> 0)"
  "truthy (JNonfinite t)" "truthy (JStr s) = (s \<noteq> [])" "truthy (JList xs) = (xs \<noteq> [])" "truthy (JObj d) = (d \<noteq> [])"
  by (simp_all add: truthy_def)

text \<open>\<open>repr\<close> of a float in the range Python prints without an exponent: at most 17 decimals.\<close>

fun frac_digits :: "nat \<Rightarrow> rat \<Rightarrow> string" where
  "frac_digits 0 x = []"
| "frac_digits (Suc k) x =
     (if x = 0 then [] else str_nat (nat \<lfloor>x * 10\<rfloor>) @ frac_digits k (x * 10 - of_int \<lfloor>x * 10\<rfloor>))"

definition num_text :: "rat \<Rightarrow> string" where
  "num_text x =
     (let a = \<bar>x\<bar>; d = frac_digits 17 (a - of_int \<lfloor>a\<rfloor>)
      in (if x < 0 then ''-'' else []) @ str_int \<lfloor>a\<rfloor> @ ''.'' @ (if d = [] then ''0'' else d))"

text \<open>\<open>str(v)\<close>; inside a container strings are quoted.\<close>

fun text_of :: "bool \<Rightarrow> json \<Rightarrow> string" where
  "text_of q JNull = ''None''"
| "text_of q (JBool b) = (if b then ''True'' else ''False'')"
| "text_of q (JInt i) = str_int i"
| "text_of q (JNum x) = num_text x"
| "text_of q (JNonfinite t) = t"
| "text_of q (JStr s) = (if q then [CHR 39] @ s @ [CHR 39] else s)"
| "text_of q (JList xs) = ''['' @ join_with '', '' (map (text_of True) xs) @ '']''"
| "text_of q (JObj d) = ''{'' @ join_with '', '' (map (\<lambda>(k, v). [CHR 39] @ k @ [CHR 39] @ '': '' @ text_of True v) d) @ ''}''"

text \<open>\<open>str(v or d)\<close>\<close>

definition str_or :: "json \<Rightarrow> string \<Rightarrow> string" where
  "str_or v d = (if truthy v then text_of False v else d)"

section \<open>Numbers\<close>

text \<open>\<open>int\<close> and \<open>float\<close> of a string: surrounding blanks, a sign, digits with single underscores between
  them; a float also a point, an exponent, or a name of a non-finite value.\<close>

fun us_ok :: "bool \<Rightarrow> string \<Rightarrow> bool" where
  "us_ok p [] = p"
| "us_ok p (c # s) = (if is_digit c then us_ok True s else c = CHR ''_'' \<and> p \<and> us_ok False s)"

definition digits_val :: "string \<Rightarrow> nat option" where
  "digits_val s = (if us_ok False s then Some (nat_of_str (filter is_digit s)) else None)"

definition sign_split :: "string \<Rightarrow> bool \<times> string" where
  "sign_split s = (case s of [] \<Rightarrow> (False, [])
     | c # t \<Rightarrow> if c = CHR ''-'' then (True, t) else if c = CHR ''+'' then (False, t) else (False, s))"

definition signed_digits :: "string \<Rightarrow> int option" where
  "signed_digits s = (let (neg, t) = sign_split s in map_option (\<lambda>n. if neg then - int n else int n) (digits_val t))"

definition int_of_str :: "string \<Rightarrow> int option" where
  "int_of_str s = signed_digits (strip_space s)"

definition pow10 :: "int \<Rightarrow> rat" where
  "pow10 e = (if e \<ge> 0 then 10 ^ nat e else 1 / 10 ^ nat (- e))"

definition mantissa :: "string \<Rightarrow> rat option" where
  "mantissa s =
     (let ip = takeWhile (\<lambda>c. c \<noteq> CHR ''.'') s; rest = dropWhile (\<lambda>c. c \<noteq> CHR ''.'') s; fp = drop 1 rest;
          part = (\<lambda>t. if t = [] then Some 0 else digits_val t)
      in if rest = [] then map_option of_nat (digits_val ip)
         else if ip = [] \<and> fp = [] then None
         else (case (part ip, part fp) of
                 (Some i, Some f) \<Rightarrow> Some (of_nat i + of_nat f / 10 ^ length (filter is_digit fp))
               | _ \<Rightarrow> None))"

definition float_of_str :: "string \<Rightarrow> json option" where
  "float_of_str s =
     (let (neg, t) = sign_split (lower (strip_space s));
          m = takeWhile (\<lambda>c. c \<noteq> CHR ''e'') t; rest = dropWhile (\<lambda>c. c \<noteq> CHR ''e'') t
      in if t \<in> {''inf'', ''infinity''} then Some (JNonfinite (if neg then ''-inf'' else ''inf''))
         else if t = ''nan'' then Some (JNonfinite ''nan'')
         else Option.bind (mantissa m) (\<lambda>x.
              Option.bind (if rest = [] then Some 0 else signed_digits (drop 1 rest)) (\<lambda>e.
              Some (JNum ((if neg then - x else x) * pow10 e)))))"

text \<open>\<open>a <= b\<close> between numbers; a NaN compares false with everything, anything else has no order with a number.\<close>

fun float_le :: "json \<Rightarrow> json \<Rightarrow> bool option" where
  "float_le (JNum x) (JNum y) = Some (x \<le> y)"
| "float_le (JNum x) (JNonfinite t) = Some (t = ''inf'')"
| "float_le (JNonfinite t) (JNum y) = Some (t = ''-inf'')"
| "float_le (JNonfinite t) (JNonfinite u) = Some (t = ''-inf'' \<and> u \<noteq> ''nan'' \<or> u = ''inf'' \<and> t \<noteq> ''nan'')"
| "float_le _ _ = None"

definition widen :: "json \<Rightarrow> json" where
  "widen v = (case v of JInt i \<Rightarrow> JNum (of_int i) | JBool b \<Rightarrow> JNum (if b then 1 else 0) | _ \<Rightarrow> v)"

definition num_le :: "json \<Rightarrow> json \<Rightarrow> bool option" where
  "num_le a b = float_le (widen a) (widen b)"

definition num_lt :: "json \<Rightarrow> rat \<Rightarrow> bool option" where
  "num_lt v c = (case v of JNum x \<Rightarrow> Some (x < c) | JInt i \<Rightarrow> Some (of_int i < c) | JNonfinite t \<Rightarrow> Some (t = ''-inf'') | _ \<Rightarrow> None)"

section \<open>Paths\<close>

fun split_on :: "'a \<Rightarrow> 'a list \<Rightarrow> 'a list list" where
  "split_on c [] = [[]]"
| "split_on c (x # s) = (if x = c then [] # split_on c s
     else case split_on c s of w # ws \<Rightarrow> (x # w) # ws | [] \<Rightarrow> [[x]])"

definition rstrip_slash :: "string \<Rightarrow> string" where
  "rstrip_slash s = rev (dropWhile (\<lambda>c. c = CHR ''/'') (rev s))"

definition path_join :: "string \<Rightarrow> string \<Rightarrow> string" where
  "path_join a b = (if starts_with ''/'' b then b else if a = [] \<or> ends_with ''/'' a then a @ b else a @ ''/'' @ b)"

text \<open>\<open>dirname\<close>: up to the last slash, trailing slashes dropped unless nothing else is left.\<close>

definition dirname :: "string \<Rightarrow> string" where
  "dirname p =
     (let h = rev (dropWhile (\<lambda>c. c \<noteq> CHR ''/'') (rev p))
      in if rstrip_slash h = [] then h else rstrip_slash h)"

text \<open>\<open>normpath\<close>: the components that stay, newest first.\<close>

fun norm_step :: "bool \<Rightarrow> string list \<Rightarrow> string \<Rightarrow> string list" where
  "norm_step absolute cs c =
     (if c = [] \<or> c = ''.'' then cs
      else if c \<noteq> ''..'' \<or> (\<not> absolute \<and> cs = []) \<or> (cs \<noteq> [] \<and> hd cs = ''..'') then c # cs
      else tl cs)"

definition normpath :: "string \<Rightarrow> string" where
  "normpath p =
     (let slashes = (if starts_with ''//'' p \<and> \<not> starts_with ''///'' p then ''//''
                     else if starts_with ''/'' p then ''/'' else []);
          comps = rev (foldl (norm_step (slashes \<noteq> [])) [] (split_on (CHR ''/'') p));
          r = slashes @ join_with ''/'' comps
      in if r = [] then ''.'' else r)"

lemma split_on_nonempty [simp]: "split_on c s \<noteq> []"
  by (induction c s rule: split_on.induct) (auto split: list.split)

lemma split_on_parts: "w \<in> set (split_on c s) \<Longrightarrow> c \<notin> set w"
proof (induction c s arbitrary: w rule: split_on.induct)
  case (2 c x s)
  obtain v vs where v: "split_on c s = v # vs" by (cases "split_on c s") auto
  with 2 show ?case by (auto split: if_splits)
qed simp

lemma split_on_append: "c \<notin> set w \<Longrightarrow> split_on c (w @ c # s) = w # split_on c s"
  by (induction w) auto

lemma split_on_single: "c \<notin> set w \<Longrightarrow> split_on c w = [w]"
  by (induction w) auto

lemma split_join:
  "xs \<noteq> [] \<Longrightarrow> \<forall>x \<in> set xs. c \<notin> set x \<Longrightarrow> split_on c (join_with [c] xs) = xs"
proof (induction "[c]" xs rule: join_with.induct)
  case (2 x)
  then show ?case by (simp add: split_on_single)
next
  case (3 x y ys)
  then show ?case by (simp add: split_on_append)
qed simp

text \<open>A normalised absolute path climbs nowhere.\<close>

lemma norm_steps_absolute:
  assumes "''..'' \<notin> set cs" "\<forall>x \<in> set cs. CHR ''/'' \<notin> set x" "\<forall>x \<in> set ps. CHR ''/'' \<notin> set x"
  shows "''..'' \<notin> set (foldl (norm_step True) cs ps)
    \<and> (\<forall>x \<in> set (foldl (norm_step True) cs ps). CHR ''/'' \<notin> set x)"
  using assms
proof (induction ps arbitrary: cs)
  case (Cons p ps)
  have "''..'' \<notin> set (norm_step True cs p)" "\<forall>x \<in> set (norm_step True cs p). CHR ''/'' \<notin> set x"
    using Cons.prems by (cases cs; auto split: if_splits)+
  moreover have "\<forall>x \<in> set ps. CHR ''/'' \<notin> set x" using Cons.prems by simp
  ultimately show ?case unfolding foldl_Cons by (rule Cons.IH)
qed simp

lemma normpath_absolute:
  assumes "starts_with ''/'' p"
  shows "''..'' \<notin> set (split_on (CHR ''/'') (normpath p))"
proof -
  define cs where "cs = rev (foldl (norm_step True) [] (split_on (CHR ''/'') p))"
  have cs: "''..'' \<notin> set cs" "\<forall>x \<in> set cs. CHR ''/'' \<notin> set x"
    unfolding cs_def using norm_steps_absolute[of "[]" "split_on (CHR ''/'') p"] by (auto dest: split_on_parts)
  have j: "''..'' \<notin> set (split_on (CHR ''/'') (join_with ''/'' cs))"
    using cs split_join[of cs "CHR ''/''"] by (cases "cs = []") auto
  consider "normpath p = ''//'' @ join_with ''/'' cs" | "normpath p = ''/'' @ join_with ''/'' cs"
    using assms unfolding normpath_def cs_def Let_def
    by (cases "starts_with ''//'' p \<and> \<not> starts_with ''///'' p") simp_all
  then show ?thesis using j by cases auto
qed

end
