(* ===== verification/Config.thy ===== *)
theory Config
  imports Py_Values
begin

text \<open>
  The configuration model, \<open>core-driver/cam_driver/config.py\<close>.  A dataclass is its list of fields with
  the numeric kind of the annotation and the default; an instance is the list of its fields with values.
  A parsed YAML document is a \<open>json\<close> value.  The exceptions are values; the \<open>ValueError\<close> of a field
  names it.  The lemmas show that an accepted configuration has exactly the declared fields, of the
  declared kinds and within the checked ranges, that unknown keys change nothing, where recordings land,
  and that a run prefix collides with nothing.
\<close>

section \<open>The dataclasses\<close>

datatype kind = KInt | KFloat | KAny

type_synonym dataclass = "(string \<times> kind \<times> json) list"
type_synonym fields = "(string \<times> json) list"

definition ROI :: dataclass where
  "ROI = [(''x'', KInt, JInt 0), (''y'', KInt, JInt 0), (''width'', KInt, JInt 0), (''height'', KInt, JInt 0)]"

definition CameraConfig :: dataclass where
  "CameraConfig =
     [(''type'', KAny, JStr ''gige''), (''frame_rate'', KFloat, JNull), (''reconnect'', KAny, JBool True),
      (''reconnect_timeout_s'', KFloat, JNum 5), (''reconnect_backoff_s'', KFloat, JNum 1),
      (''reconnect_backoff_max_s'', KFloat, JNum 30)]"

definition GigeConfig :: dataclass where
  "GigeConfig =
     [(''camera_id'', KAny, JNull), (''fake'', KAny, JBool False), (''pixel_format'', KAny, JStr ''Mono8''),
      (''roi'', KAny, JNull), (''packet_size'', KInt, JInt 9000), (''packet_delay'', KInt, JNull),
      (''n_stream_buffers'', KInt, JInt 20),
      (''timestamp_source'', KAny, JStr ''ptp_chunk''), (''ptp_enable'', KAny, JBool True),
      (''ptp_mode'', KAny, JStr ''SlaveOnly''), (''ptp_lock_timeout_s'', KFloat, JNum 10),
      (''chunk_selectors'', KAny, JStr ''Timestamp,FrameID''),
      (''chunk_timestamp_name'', KAny, JStr ''ChunkTimestamp''),
      (''chunk_frame_id_name'', KAny, JStr ''ChunkFrameID''),
      (''frame_rate'', KFloat, JNull), (''reconnect'', KAny, JBool True), (''reconnect_timeout_s'', KFloat, JNum 5)]"

definition UsbConfig :: dataclass where
  "UsbConfig =
     [(''device'', KAny, JStr ''/dev/video0''), (''fake'', KAny, JBool False), (''pixel_format'', KAny, JStr ''GRAY8''),
      (''width'', KInt, JInt 640), (''height'', KInt, JInt 480), (''sof_timestamps'', KAny, JBool False),
      (''control_protocol'', KAny, JStr ''''), (''control_device'', KAny, JStr ''''),
      (''frame_rate'', KFloat, JNum 30), (''reconnect'', KAny, JBool True), (''reconnect_timeout_s'', KFloat, JNum 5)]"

definition RtspConfig :: dataclass where
  "RtspConfig =
     [(''url'', KAny, JStr ''rtsp://127.0.0.1:8554/test''), (''probe'', KAny, JBool True), (''codec'', KAny, JStr ''h264''),
      (''latency_ms'', KInt, JInt 200), (''width'', KInt, JInt 640), (''height'', KInt, JInt 480),
      (''protocols'', KAny, JStr ''''), (''decoder'', KAny, JStr ''auto''),
      (''frame_rate'', KFloat, JNum 30), (''reconnect'', KAny, JBool True), (''reconnect_timeout_s'', KFloat, JNum 5)]"

definition SHM_FRAMINGS :: "string list" where "SHM_FRAMINGS = [''raw'', ''header'', ''unixfd'']"

definition CONTROL_PROTOCOLS :: "string list" where "CONTROL_PROTOCOLS = [''flir-boson'']"

definition ShmConfig :: dataclass where
  "ShmConfig =
     [(''socket_path'', KAny, JStr ''/tmp/cam/in''), (''framing'', KAny, JStr ''raw''), (''pixel_format'', KAny, JStr ''RGB''),
      (''width'', KInt, JInt 640), (''height'', KInt, JInt 480),
      (''frame_rate'', KFloat, JNum 10), (''reconnect'', KAny, JBool True), (''reconnect_timeout_s'', KFloat, JNum 5)]"

definition ReplayConfig :: dataclass where
  "ReplayConfig =
     [(''path'', KAny, JStr ''''), (''run'', KAny, JStr ''''), (''gap_max_s'', KFloat, JNum 5), (''speed'', KFloat, JNum 1),
      (''loop'', KAny, JBool False), (''retime'', KAny, JStr ''original''), (''decoder'', KAny, JStr ''auto''),
      (''frame_rate'', KFloat, JNull)]"

definition PcapConfig :: dataclass where
  "PcapConfig =
     [(''path'', KAny, JStr ''''), (''pixel_format'', KAny, JStr ''GRAY16_LE''), (''width'', KInt, JInt 640),
      (''height'', KInt, JInt 512), (''bus'', KInt, JNull), (''device'', KInt, JNull), (''endpoint'', KInt, JNull),
      (''speed'', KFloat, JNum 1), (''loop'', KAny, JBool False), (''retime'', KAny, JStr ''original''),
      (''frame_rate'', KFloat, JNull)]"

definition RecordingConfig :: dataclass where
  "RecordingConfig =
     [(''enabled'', KAny, JBool True), (''encoder'', KAny, JStr ''auto''), (''x264_crf'', KInt, JInt 23),
      (''x264_preset'', KAny, JStr ''ultrafast''), (''output_dir'', KAny, JStr ''''), (''name_prefix'', KAny, JStr ''cam''),
      (''segment_seconds'', KInt, JInt 60), (''bayer_pattern'', KAny, JNull), (''bayer_tile'', KAny, JStr ''off''),
      (''keyframe_interval_s'', KFloat, JNum 0), (''bframes'', KInt, JInt 0), (''nvenc_preset'', KAny, JStr ''''),
      (''nvenc_maxperf'', KAny, JBool True), (''videoconvert_threads'', KInt, JInt 4)]"

definition PreviewConfig :: dataclass where
  "PreviewConfig = [(''enabled'', KAny, JBool False), (''sink'', KAny, JStr ''fakesink sync=false'')]"

definition TransportEndpoint :: dataclass where
  "TransportEndpoint =
     [(''enabled'', KAny, JBool False), (''socket_path'', KAny, JStr ''''), (''shm_size'', KInt, JInt 0),
      (''max_rate_hz'', KFloat, JNum 0)]"

definition LIFECYCLE_STATES :: "string list" where "LIFECYCLE_STATES = [''active'', ''inactive'']"
definition PLAYBACK_STATES :: "string list" where "PLAYBACK_STATES = [''playing'', ''paused'']"
definition PLAYBACK_ON_FINISH :: "string list" where "PLAYBACK_ON_FINISH = [''auto'', ''hold'', ''exit'']"

definition PlaybackConfig :: dataclass where
  "PlaybackConfig =
     [(''initial_state'', KAny, JStr ''playing''), (''start_at_unix_s'', KFloat, JNull), (''epoch_unix_ns'', KInt, JNull),
      (''from_s'', KFloat, JNull), (''to_s'', KFloat, JNull), (''on_finish'', KAny, JStr ''auto'')]"

definition ControlConfig :: dataclass where
  "ControlConfig =
     [(''initial_state'', KAny, JStr ''active''), (''resume_state'', KAny, JBool True), (''state_file'', KAny, JStr ''''),
      (''enabled'', KAny, JBool True), (''zenoh_connect'', KAny, JNull)]"

definition HEALTH_PROVIDERS :: "string list" where "HEALTH_PROVIDERS = [''genicam'', ''boson'']"

definition HealthConfig :: dataclass where
  "HealthConfig =
     [(''enabled'', KAny, JBool True), (''interval_s'', KFloat, JNum 1), (''stale_after_s'', KFloat, JNum 5),
      (''stall_after_s'', KFloat, JNum 5), (''write_file'', KAny, JBool True), (''file'', KAny, JStr ''''),
      (''providers'', KAny, JObj []), (''limits'', KAny, JObj [])]"

definition defaults :: "dataclass \<Rightarrow> fields" where
  "defaults cls = map (\<lambda>(k, _, d). (k, d)) cls"

text \<open>\<open>getattr(cfg, k, default)\<close>\<close>

definition field_of :: "dataclass \<Rightarrow> fields \<Rightarrow> string \<Rightarrow> json" where
  "field_of cls cfg k = (case map_of cfg k of Some v \<Rightarrow> v
     | None \<Rightarrow> (case map_of (defaults cls) k of Some v \<Rightarrow> v | None \<Rightarrow> JNull))"

text \<open>\<open>transport\<close> holds two endpoints; a plugin is the dict of its fields.\<close>

record app_config =
  ac_camera :: fields
  ac_gige :: fields
  ac_usb :: fields
  ac_rtsp :: fields
  ac_shm :: fields
  ac_replay :: fields
  ac_pcap :: fields
  ac_recording :: fields
  ac_preview :: fields
  ac_plugin_endpoint :: fields
  ac_raw_endpoint :: fields
  ac_control :: fields
  ac_health :: fields
  ac_playback :: fields
  ac_plugins :: "fields list"

section \<open>Building one block\<close>

datatype cfg_error =
    Value_Error string      \<comment> \<open>\<open>ValueError\<close>, the field it names\<close>
  | Type_Error | Attribute_Error | Overflow_Error

definition numeric_kind :: "dataclass \<Rightarrow> string \<Rightarrow> kind" where
  "numeric_kind cls key = (case map_of cls key of Some (k, _) \<Rightarrow> k | None \<Rightarrow> KAny)"

definition coerce_int :: "string \<Rightarrow> json \<Rightarrow> cfg_error + json" where
  "coerce_int what v =
     (case v of
        JInt i \<Rightarrow> Inr (JInt i)
      | JNum x \<Rightarrow> Inr (JInt (trunc_rat x))
      | JNonfinite t \<Rightarrow> if t = ''nan'' then Inl (Value_Error what) else Inl Overflow_Error
      | JStr s \<Rightarrow> (case int_of_str s of Some i \<Rightarrow> Inr (JInt i) | None \<Rightarrow> Inl (Value_Error what))
      | _ \<Rightarrow> Inl (Value_Error what))"

definition coerce_float :: "string \<Rightarrow> json \<Rightarrow> cfg_error + json" where
  "coerce_float what v =
     (case v of
        JInt i \<Rightarrow> Inr (JNum (of_int i))
      | JNum x \<Rightarrow> Inr (JNum x)
      | JNonfinite t \<Rightarrow> Inr (JNonfinite t)
      | JStr s \<Rightarrow> (case float_of_str s of Some x \<Rightarrow> Inr x | None \<Rightarrow> Inl (Value_Error what))
      | _ \<Rightarrow> Inl (Value_Error what))"

definition coerce :: "dataclass \<Rightarrow> string \<Rightarrow> json \<Rightarrow> cfg_error + json" where
  "coerce cls key v =
     (case (numeric_kind cls key, v) of
        (KAny, _) \<Rightarrow> Inr v
      | (_, JNull) \<Rightarrow> Inr v
      | (_, JBool _) \<Rightarrow> Inl (Value_Error key)
      | (KInt, _) \<Rightarrow> coerce_int key v
      | (KFloat, _) \<Rightarrow> coerce_float key v)"

definition known :: "dataclass \<Rightarrow> string \<Rightarrow> bool" where
  "known cls key \<longleftrightarrow> key \<in> fst ` set cls"

text \<open>The comprehension over the known keys, in the order of the document.\<close>

fun coerce_all :: "dataclass \<Rightarrow> fields \<Rightarrow> cfg_error + fields" where
  "coerce_all cls [] = Inr []"
| "coerce_all cls ((k, v) # es) =
     (if known cls k
      then ebind (coerce cls k v) (\<lambda>w. ebind (coerce_all cls es) (\<lambda>ws. Inr ((k, w) # ws)))
      else coerce_all cls es)"

definition build :: "dataclass \<Rightarrow> json \<Rightarrow> cfg_error + fields" where
  "build cls data =
     (if \<not> truthy data then Inr (defaults cls)
      else (case data of
              JObj d \<Rightarrow> ebind (coerce_all cls d) (\<lambda>kvs. Inr (merge_dict (defaults cls) kvs))
            | _ \<Rightarrow> Inl Attribute_Error))"

definition merge_endpoint :: "json \<Rightarrow> fields \<Rightarrow> cfg_error + fields" where
  "merge_endpoint data dflt =
     (if \<not> truthy data then Inr dflt
      else (case data of
              JObj d \<Rightarrow> ebind (coerce_all TransportEndpoint d) (\<lambda>kvs. Inr (merge_dict dflt kvs))
            | _ \<Rightarrow> Inl Attribute_Error))"

text \<open>\<open>dict(v or {})\<close>: a map, or a list of string-keyed pairs.\<close>

fun pairs_dict :: "json list \<Rightarrow> cfg_error + fields" where
  "pairs_dict [] = Inr []"
| "pairs_dict (JList [JStr k, v] # xs) = ebind (pairs_dict xs) (\<lambda>d. Inr (if map_of d k = None then (k, v) # d else d))"
| "pairs_dict _ = Inl Type_Error"

definition dict_or_empty :: "json \<Rightarrow> cfg_error + fields" where
  "dict_or_empty v =
     (if \<not> truthy v then Inr [] else
      case v of JObj d \<Rightarrow> Inr d | JList xs \<Rightarrow> pairs_dict xs | _ \<Rightarrow> Inl Type_Error)"

definition get_key :: "fields \<Rightarrow> string \<Rightarrow> json" where
  "get_key d k = (case map_of d k of Some v \<Rightarrow> v | None \<Rightarrow> JNull)"

definition check :: "bool \<Rightarrow> cfg_error \<Rightarrow> cfg_error + unit" where
  "check ok e = (if ok then Inr () else Inl e)"

text \<open>An order on numbers that raises where Python's does.\<close>

definition order_of :: "bool option \<Rightarrow> cfg_error + bool" where
  "order_of r = (case r of None \<Rightarrow> Inl Type_Error | Some b \<Rightarrow> Inr b)"

section \<open>The document\<close>

definition setf :: "string \<Rightarrow> json \<Rightarrow> fields \<Rightarrow> fields" where
  "setf k v cfg = upd_key k v cfg"

definition norm_word :: "json \<Rightarrow> string \<Rightarrow> string" where
  "norm_word v d = lower (strip_space (str_or v d))"

definition parse_gige :: "fields \<Rightarrow> cfg_error + fields" where
  "parse_gige raw =
     ebind (dict_or_empty (get_key raw ''gige'')) (\<lambda>g.
     ebind (build GigeConfig (JObj (filter (\<lambda>(k, _). k \<noteq> ''roi'') g))) (\<lambda>gige.
     if truthy (get_key g ''roi'')
     then ebind (build ROI (get_key g ''roi'')) (\<lambda>roi. Inr (setf ''roi'' (JObj roi) gige))
     else Inr (setf ''roi'' JNull gige)))"

definition parse_usb :: "fields \<Rightarrow> cfg_error + fields" where
  "parse_usb raw =
     ebind (build UsbConfig (get_key raw ''usb'')) (\<lambda>usb.
     let protocol = norm_word (get_key usb ''control_protocol'') [];
         device = strip_space (str_or (get_key usb ''control_device'') [])
     in ebind (check (protocol = [] \<or> protocol \<in> set CONTROL_PROTOCOLS) (Value_Error ''usb.control_protocol'')) (\<lambda>_.
        ebind (check (protocol = [] \<or> device \<noteq> []) (Value_Error ''usb.control_device'')) (\<lambda>_.
        ebind (check (device = [] \<or> protocol \<noteq> []) (Value_Error ''usb.control_protocol'')) (\<lambda>_.
        Inr (setf ''control_device'' (JStr device) (setf ''control_protocol'' (JStr protocol) usb))))))"

definition parse_shm :: "fields \<Rightarrow> cfg_error + fields" where
  "parse_shm raw =
     ebind (build ShmConfig (get_key raw ''shm'')) (\<lambda>shm.
     let framing = norm_word (get_key shm ''framing'') ''raw''
     in ebind (check (framing \<in> set SHM_FRAMINGS) (Value_Error ''shm.framing'')) (\<lambda>_.
        ebind (check (truthy (get_key shm ''socket_path'')) (Value_Error ''shm.socket_path'')) (\<lambda>_.
        Inr (setf ''framing'' (JStr framing) shm))))"

definition check_nonneg :: "string \<Rightarrow> json \<Rightarrow> cfg_error + unit" where
  "check_nonneg what v = ebind (order_of (num_lt v 0)) (\<lambda>neg. check (\<not> neg) (Value_Error what))"

definition check_playback_sources :: "fields \<Rightarrow> fields \<Rightarrow> fields \<Rightarrow> cfg_error + unit" where
  "check_playback_sources camera replay pcap =
     ebind (check_nonneg ''replay.speed'' (get_key replay ''speed'')) (\<lambda>_.
     ebind (check_nonneg ''pcap.speed'' (get_key pcap ''speed'')) (\<lambda>_.
     ebind (check_nonneg ''replay.gap_max_s'' (get_key replay ''gap_max_s'')) (\<lambda>_.
     check (\<not> (get_key camera ''type'' = JStr ''pcap'' \<and> \<not> truthy (get_key pcap ''path''))) (Value_Error ''pcap.path''))))"

text \<open>The general camera settings laid over a source's own.\<close>

definition overlay_rate :: "fields \<Rightarrow> fields \<Rightarrow> fields" where
  "overlay_rate camera sc =
     (if get_key camera ''frame_rate'' \<noteq> JNull then setf ''frame_rate'' (get_key camera ''frame_rate'') sc else sc)"

definition overlay_live :: "fields \<Rightarrow> fields \<Rightarrow> fields" where
  "overlay_live camera sc =
     setf ''reconnect_timeout_s'' (get_key camera ''reconnect_timeout_s'')
       (setf ''reconnect'' (get_key camera ''reconnect'') (overlay_rate camera sc))"

definition plugin_endpoint_default :: fields where
  "plugin_endpoint_default =
     merge_dict (defaults TransportEndpoint) [(''enabled'', JBool True), (''socket_path'', JStr ''/tmp/cam/frames'')]"

definition raw_endpoint_default :: fields where
  "raw_endpoint_default =
     merge_dict (defaults TransportEndpoint) [(''enabled'', JBool False), (''socket_path'', JStr ''/tmp/cam/raw'')]"

definition get_or :: "fields \<Rightarrow> string \<Rightarrow> json \<Rightarrow> json" where
  "get_or d k dflt = (case map_of d k of Some v \<Rightarrow> v | None \<Rightarrow> dflt)"

definition RESERVED :: "string list" where
  "RESERVED = [''name'', ''enabled'', ''command'', ''restart'', ''isolation'', ''params'']"

definition plugin_of :: "fields \<Rightarrow> fields" where
  "plugin_of p =
     (let nested = (case get_key p ''params'' of JObj d \<Rightarrow> d | _ \<Rightarrow> []);
          flat = filter (\<lambda>(k, _). k \<notin> set RESERVED) p
      in [(''name'', get_key p ''name''), (''enabled'', JBool (truthy (get_or p ''enabled'' (JBool True)))),
          (''command'', get_key p ''command''), (''restart'', JBool (truthy (get_or p ''restart'' (JBool True)))),
          (''isolation'', JStr (text_of False (get_or p ''isolation'' (JStr ''process'')))),
          (''params'', JObj (merge_dict flat nested))])"

definition parse_plugins :: "json \<Rightarrow> cfg_error + fields list" where
  "parse_plugins v =
     (if \<not> truthy v then Inr [] else
      case v of
        JList ps \<Rightarrow> Inr (concat (map (\<lambda>p. case p of
                           JObj d \<Rightarrow> if map_of d ''name'' = None then [] else [plugin_of d] | _ \<Rightarrow> []) ps))
      | JStr _ \<Rightarrow> Inr [] | JObj _ \<Rightarrow> Inr []
      | _ \<Rightarrow> Inl Type_Error)"

definition parse_control :: "fields \<Rightarrow> cfg_error + fields" where
  "parse_control raw =
     ebind (build ControlConfig (get_key raw ''control'')) (\<lambda>control.
     let st = norm_word (get_key control ''initial_state'') ''active''
     in ebind (check (st \<in> set LIFECYCLE_STATES) (Value_Error ''ControlConfig.initial_state'')) (\<lambda>_.
        Inr (setf ''initial_state'' (JStr st) control)))"

definition check_window :: "json \<Rightarrow> json \<Rightarrow> cfg_error + unit" where
  "check_window from_s to_s =
     ebind (if from_s = JNull then Inr () else check_nonneg ''playback.from_s'' from_s) (\<lambda>_.
     if to_s = JNull then Inr ()
     else ebind (order_of (num_le to_s (if truthy from_s then from_s else JNum 0)))
            (\<lambda>le. check (\<not> le) (Value_Error ''playback.to_s'')))"

definition parse_playback :: "fields \<Rightarrow> cfg_error + fields" where
  "parse_playback raw =
     ebind (build PlaybackConfig (get_key raw ''playback'')) (\<lambda>pb.
     let st = norm_word (get_key pb ''initial_state'') ''playing'';
         fin = norm_word (get_key pb ''on_finish'') ''auto'';
         from_s = get_key pb ''from_s''; to_s = get_key pb ''to_s''
     in ebind (check (st \<in> set PLAYBACK_STATES) (Value_Error ''playback.initial_state'')) (\<lambda>_.
        ebind (check (fin \<in> set PLAYBACK_ON_FINISH) (Value_Error ''playback.on_finish'')) (\<lambda>_.
        ebind (check_window from_s to_s) (\<lambda>_.
        Inr (setf ''on_finish'' (JStr fin) (setf ''initial_state'' (JStr st) pb))))))"

text \<open>\<open>_parse_health\<close>: one provider's settings, one limit's bounds, then the block.  Python compares
  \<open>1\<close> and \<open>0\<close> equal to \<open>True\<close> and \<open>False\<close>.\<close>

definition health_auto :: "json \<Rightarrow> bool" where
  "health_auto v \<longleftrightarrow> v \<in> {JStr ''auto'', JBool True, JBool False, JInt 1, JInt 0, JNum 1, JNum 0}"

definition features_ok :: "json \<Rightarrow> bool" where
  "features_ok v = (case v of
     JObj f \<Rightarrow> list_all (\<lambda>(_, v). case v of JStr _ \<Rightarrow> True | _ \<Rightarrow> False) f | _ \<Rightarrow> False)"

definition parse_provider :: "string \<Rightarrow> json \<Rightarrow> cfg_error + fields" where
  "parse_provider name settings =
     ebind (check (name \<in> set HEALTH_PROVIDERS) (Value_Error (''health.providers.'' @ name))) (\<lambda>_.
     ebind (dict_or_empty settings) (\<lambda>d.
     let en = (case get_or d ''enabled'' (JStr ''auto'') of JStr s \<Rightarrow> JStr (lower (strip_space s)) | v \<Rightarrow> v);
         feats = (if truthy (get_key d ''features'') then get_key d ''features'' else JObj [])
     in ebind (check (health_auto en) (Value_Error (''health.providers.'' @ name @ ''.enabled''))) (\<lambda>_.
        ebind (check (features_ok feats) (Value_Error (''health.providers.'' @ name @ ''.features''))) (\<lambda>_.
        Inr (setf ''features'' feats (setf ''enabled'' en d))))))"

fun parse_providers :: "fields \<Rightarrow> cfg_error + fields" where
  "parse_providers [] = Inr []"
| "parse_providers ((k, v) # ps) =
     ebind (parse_provider k v) (\<lambda>d. ebind (parse_providers ps) (\<lambda>ds. Inr ((k, JObj d) # ds)))"

definition LIMIT_BOUNDS :: "string list" where
  "LIMIT_BOUNDS = [''warn_above'', ''error_above'', ''warn_below'', ''error_below'']"

definition limit_value :: "string \<Rightarrow> json \<Rightarrow> cfg_error + json" where
  "limit_value key t =
     (case t of JInt i \<Rightarrow> Inr (JNum (of_int i)) | JNum x \<Rightarrow> Inr (JNum x) | JNonfinite n \<Rightarrow> Inr (JNonfinite n)
      | _ \<Rightarrow> Inl (Value_Error (''health.limits.'' @ key)))"

fun parse_rule :: "string \<Rightarrow> fields \<Rightarrow> cfg_error + fields" where
  "parse_rule key [] = Inr []"
| "parse_rule key ((b, t) # rs) =
     ebind (check (b \<in> set LIMIT_BOUNDS) (Value_Error (''health.limits.'' @ key))) (\<lambda>_.
     ebind (limit_value key t) (\<lambda>w.
     ebind (parse_rule key rs) (\<lambda>ws. Inr ((b, w) # ws))))"

fun parse_limits :: "fields \<Rightarrow> cfg_error + fields" where
  "parse_limits [] = Inr []"
| "parse_limits ((k, v) # ls) =
     ebind (case v of JObj rule \<Rightarrow> if rule = [] then Inl (Value_Error (''health.limits.'' @ k)) else parse_rule k rule
            | _ \<Rightarrow> Inl (Value_Error (''health.limits.'' @ k))) (\<lambda>d.
     ebind (parse_limits ls) (\<lambda>ds. Inr ((k, JObj d) # ds)))"

definition map_or_none :: "string \<Rightarrow> (fields \<Rightarrow> cfg_error + fields) \<Rightarrow> json \<Rightarrow> cfg_error + fields" where
  "map_or_none what f v = (case v of JNull \<Rightarrow> f [] | JObj d \<Rightarrow> f d | _ \<Rightarrow> Inl (Value_Error what))"

definition check_positive :: "string \<Rightarrow> json \<Rightarrow> cfg_error + unit" where
  "check_positive what v = ebind (order_of (num_le v (JNum 0))) (\<lambda>le. check (\<not> le) (Value_Error what))"

definition parse_health :: "fields \<Rightarrow> cfg_error + fields" where
  "parse_health raw =
     ebind (build HealthConfig (get_key raw ''health'')) (\<lambda>h.
     ebind (check_positive ''health.interval_s'' (get_key h ''interval_s'')) (\<lambda>_.
     ebind (check_positive ''health.stale_after_s'' (get_key h ''stale_after_s'')) (\<lambda>_.
     ebind (check_positive ''health.stall_after_s'' (get_key h ''stall_after_s'')) (\<lambda>_.
     ebind (map_or_none ''health.providers'' parse_providers (get_key h ''providers'')) (\<lambda>ps.
     ebind (map_or_none ''health.limits'' parse_limits (get_key h ''limits'')) (\<lambda>ls.
     Inr (setf ''limits'' (JObj ls) (setf ''providers'' (JObj ps) h))))))))"

definition parse_config :: "json \<Rightarrow> cfg_error + app_config" where
  "parse_config doc =
     ebind (if \<not> truthy doc then Inr [] else case doc of JObj d \<Rightarrow> Inr d | _ \<Rightarrow> Inl Attribute_Error) (\<lambda>raw.
     ebind (build CameraConfig (get_key raw ''camera'')) (\<lambda>camera.
     ebind (parse_gige raw) (\<lambda>gige.
     ebind (parse_usb raw) (\<lambda>usb.
     ebind (build RtspConfig (get_key raw ''rtsp'')) (\<lambda>rtsp.
     ebind (parse_shm raw) (\<lambda>shm.
     ebind (build ReplayConfig (get_key raw ''replay'')) (\<lambda>replay.
     ebind (build PcapConfig (get_key raw ''pcap'')) (\<lambda>pcap.
     ebind (check_playback_sources camera replay pcap) (\<lambda>_.
     ebind (dict_or_empty (get_key raw ''transport'')) (\<lambda>tr.
     ebind (merge_endpoint (get_key tr ''plugin_endpoint'') plugin_endpoint_default) (\<lambda>pe.
     ebind (merge_endpoint (get_key tr ''raw_endpoint'') raw_endpoint_default) (\<lambda>re.
     ebind (parse_plugins (get_key raw ''plugins'')) (\<lambda>plugins.
     ebind (parse_control raw) (\<lambda>control.
     ebind (parse_playback raw) (\<lambda>pb.
     ebind (build RecordingConfig (get_key raw ''recording'')) (\<lambda>recording.
     ebind (build PreviewConfig (get_key raw ''preview'')) (\<lambda>preview.
     ebind (parse_health raw) (\<lambda>health.
     Inr \<lparr>ac_camera = camera, ac_gige = overlay_live camera gige, ac_usb = overlay_live camera usb,
          ac_rtsp = overlay_live camera rtsp, ac_shm = overlay_live camera shm,
          ac_replay = overlay_rate camera replay, ac_pcap = overlay_rate camera pcap,
          ac_recording = recording, ac_preview = preview, ac_plugin_endpoint = pe, ac_raw_endpoint = re,
          ac_control = control, ac_health = health, ac_playback = pb, ac_plugins = plugins\<rparr>))))))))))))))))))"

section \<open>Derived settings and paths\<close>

definition as_str :: "json \<Rightarrow> string" where
  "as_str v = (case v of JStr s \<Rightarrow> s | _ \<Rightarrow> [])"

definition sock_dir :: "app_config \<Rightarrow> string" where
  "sock_dir cfg =
     (let d = dirname (as_str (get_key (ac_plugin_endpoint cfg) ''socket_path'')) in if d = [] then ''/tmp/cam'' else d)"

definition health_file :: "app_config \<Rightarrow> string" where
  "health_file cfg =
     (if \<not> truthy (get_key (ac_health cfg) ''write_file'') then []
      else if truthy (get_key (ac_health cfg) ''file'') then as_str (get_key (ac_health cfg) ''file'')
      else path_join (sock_dir cfg) ''health.json'')"

definition hold_on_finish :: "app_config \<Rightarrow> bool" where
  "hold_on_finish cfg =
     (if get_key (ac_playback cfg) ''on_finish'' = JStr ''hold'' then True
      else if get_key (ac_playback cfg) ''on_finish'' = JStr ''exit'' then False
      else truthy (get_key (ac_control cfg) ''enabled''))"

definition lifecycle_state_file :: "app_config \<Rightarrow> string" where
  "lifecycle_state_file cfg =
     (if truthy (get_key (ac_control cfg) ''state_file'') then as_str (get_key (ac_control cfg) ''state_file'')
      else path_join (sock_dir cfg) ''lifecycle.state'')"

text \<open>The file system as \<open>resolve_recording_dir\<close> asks it.\<close>

record fs =
  fs_exists :: "string \<Rightarrow> bool"
  fs_realpath :: "string \<Rightarrow> string"

definition recordings_root :: "fs \<Rightarrow> string \<Rightarrow> string" where
  "recordings_root fs rdd =
     (if rdd = [] then [] else
      let current = path_join rdd ''current''; run = fs_realpath fs current in
      if fs_exists fs current \<and> starts_with (fs_realpath fs rdd @ ''/'') run then run else rdd)"

definition recordings_base :: "fs \<Rightarrow> string \<Rightarrow> string" where
  "recordings_base fs rdd = (if rdd = [] then ''/data/recordings'' else recordings_root fs rdd @ ''/recordings'')"

definition resolve_recording_dir :: "fs \<Rightarrow> string \<Rightarrow> string \<Rightarrow> string \<Rightarrow> string" where
  "resolve_recording_dir fs output_dir rig_data_dir inst =
     (let out = strip_space output_dir in
      if starts_with ''/'' out then out
      else
        let rdd = rstrip_slash (strip_space rig_data_dir);
            base = recordings_base fs rdd;
            joined = normpath (path_join base out);
            name = strip_space inst
        in if out \<noteq> [] \<and> (joined = base \<or> starts_with (base @ ''/'') joined) then joined
           else if name \<noteq> [] then base @ ''/'' @ name else base)"

definition resolve_input_path :: "string \<Rightarrow> string \<Rightarrow> string" where
  "resolve_input_path path input_dir =
     (let p = strip_space path in
      if p = [] \<or> starts_with ''/'' p then p
      else let root = rstrip_slash (strip_space input_dir)
           in (if root = [] then ''/input'' else root) @ ''/'' @ p)"

text \<open>The search for a free prefix: \<open>base\<close>, then \<open>base.2\<close>, \<open>base.3\<close>, ...; \<open>listing\<close> is what
  \<open>listdir\<close> returned, \<open>None\<close> when it raised \<open>OSError\<close>; \<open>stamp\<close> is the clock reading.\<close>

definition taken :: "string list \<Rightarrow> string \<Rightarrow> bool" where
  "taken existing candidate \<longleftrightarrow> list_ex (starts_with candidate) existing"

definition candidate :: "string \<Rightarrow> nat \<Rightarrow> string" where
  "candidate base n = (if n = 1 then base else base @ ''.'' @ str_nat n)"

lemma str_nat_bound: "n < 10 ^ length (str_nat n)"
proof (induction n rule: str_nat.induct)
  case (1 n)
  show ?case
  proof (cases "n < 10")
    case False
    with 1 have "n div 10 < 10 ^ length (str_nat (n div 10))" by simp
    then have "n < 10 ^ length (str_nat (n div 10)) * 10" by (simp add: less_mult_imp_div_less div_less_iff_less_mult)
    then show ?thesis using False by (subst str_nat.simps) simp
  qed (simp add: str_nat_small)
qed

lemma taken_bound: "taken existing (candidate base n) \<Longrightarrow> n < 10 ^ max_default 0 (map length existing) + 2"
proof -
  assume "taken existing (candidate base n)"
  then obtain e where e: "e \<in> set existing" "starts_with (candidate base n) e" by (auto simp: taken_def list_ex_iff)
  have l: "length (candidate base n) \<le> max_default 0 (map length existing)"
    using e max_default_ge[of "length e" "map length existing" 0]
    by (force simp: starts_with_def dest: arg_cong[of _ _ length])
  show ?thesis
  proof (cases "n = 1")
    case False
    then have "length (str_nat n) \<le> max_default 0 (map length existing)" using l by (simp add: candidate_def)
    then have "(10::nat) ^ length (str_nat n) \<le> 10 ^ max_default 0 (map length existing)" by (simp add: power_increasing)
    then show ?thesis using str_nat_bound[of n] by linarith
  qed simp
qed

function free_prefix :: "string list \<Rightarrow> string \<Rightarrow> nat \<Rightarrow> string" where
  "free_prefix existing base n =
     (if taken existing (candidate base n) then free_prefix existing base (n + 1) else candidate base n)"
  by pat_completeness auto
termination
  by (relation "measure (\<lambda>(existing, base, n). 10 ^ max_default 0 (map length existing) + 2 - n)")
    (auto dest: taken_bound)

declare free_prefix.simps [simp del]

definition unique_run_prefix :: "string list option \<Rightarrow> string \<Rightarrow> string \<Rightarrow> string" where
  "unique_run_prefix listing name_prefix stamp =
     (let base = name_prefix @ ''-'' @ stamp in
      case listing of None \<Rightarrow> base | Some existing \<Rightarrow> free_prefix existing base 1)"

section \<open>An accepted configuration\<close>

fun kind_ok :: "kind \<Rightarrow> json \<Rightarrow> bool" where
  "kind_ok KAny _ = True"
| "kind_ok KInt v = (case v of JNull \<Rightarrow> True | JInt _ \<Rightarrow> True | _ \<Rightarrow> False)"
| "kind_ok KFloat v = (case v of JNull \<Rightarrow> True | JNum _ \<Rightarrow> True | JNonfinite _ \<Rightarrow> True | _ \<Rightarrow> False)"

definition typed :: "dataclass \<Rightarrow> fields \<Rightarrow> bool" where
  "typed cls cfg \<longleftrightarrow> map fst cfg = map fst cls \<and> list_all (\<lambda>(k, v). kind_ok (numeric_kind cls k) v) cfg"

lemma upd_key_all: "list_all P cfg \<Longrightarrow> P (k, v) \<Longrightarrow> list_all P (upd_key k v cfg)"
  by (induction k v cfg rule: upd_key.induct) auto

lemma upd_key_fst: "k \<in> fst ` set cfg \<Longrightarrow> map fst (upd_key k v cfg) = map fst cfg"
  by (induction k v cfg rule: upd_key.induct) auto

lemma typed_setf:
  assumes "typed cls cfg" "known cls k" "kind_ok (numeric_kind cls k) v"
  shows "typed cls (setf k v cfg)"
proof -
  have "fst ` set cfg = fst ` set cls" using assms(1) by (metis list.set_map typed_def)
  then show ?thesis
    using assms unfolding typed_def setf_def known_def by (simp add: upd_key_all upd_key_fst)
qed

text \<open>Fields without a numeric kind, which the parser overwrites.\<close>

definition free_field :: "dataclass \<Rightarrow> string \<Rightarrow> bool" where
  "free_field cls k \<longleftrightarrow> known cls k \<and> numeric_kind cls k = KAny"

lemma typed_free: "typed cls cfg \<Longrightarrow> free_field cls k \<Longrightarrow> typed cls (setf k v cfg)"
  by (simp add: typed_setf free_field_def)

lemma free_fields:
  "free_field UsbConfig ''control_protocol''" "free_field UsbConfig ''control_device''" "free_field ShmConfig ''framing''"
  "free_field ControlConfig ''initial_state''" "free_field PlaybackConfig ''initial_state''"
  "free_field PlaybackConfig ''on_finish''" "free_field HealthConfig ''providers''" "free_field HealthConfig ''limits''"
  "free_field GigeConfig ''roi''" "free_field GigeConfig ''reconnect''" "free_field UsbConfig ''reconnect''"
  "free_field RtspConfig ''reconnect''" "free_field ShmConfig ''reconnect''"
  by code_simp+

lemma float_of_str_kind:
  assumes "float_of_str s = Some x"
  shows "kind_ok KFloat x"
proof -
  have g: "kind_ok KFloat r"
    if "(if a then Some (JNonfinite p) else if b then Some (JNonfinite q)
         else Option.bind m (\<lambda>x. Option.bind e (\<lambda>e. Some (JNum (g x e))))) = Some r"
    for a b p q r and m :: "rat option" and e :: "int option" and g
    using that by (auto split: if_splits bind_splits)
  show ?thesis
    by (rule g) (use assms in \<open>unfold float_of_str_def Let_def case_prod_beta\<close>)
qed

lemma coerce_int_kind: "coerce_int k v = Inr w \<Longrightarrow> kind_ok KInt w"
  by (auto simp: coerce_int_def split: json.splits if_splits option.splits)

lemma coerce_float_kind: "coerce_float k v = Inr w \<Longrightarrow> kind_ok KFloat w"
  by (auto simp: coerce_float_def simp del: kind_ok.simps dest!: float_of_str_kind
      split: json.splits if_splits option.splits) simp_all

lemma kind_ok_null: "kind_ok kd JNull"
  by (cases kd) auto

lemma coerce_kind: "coerce cls k v = Inr w \<Longrightarrow> kind_ok (numeric_kind cls k) w"
  by (cases "numeric_kind cls k"; cases v)
    (simp_all add: coerce_def del: kind_ok.simps(2,3) add: coerce_int_kind coerce_float_kind kind_ok_null)

lemma coerce_all_ok:
  "coerce_all cls d = Inr kvs \<Longrightarrow> \<forall>(k, v) \<in> set kvs. known cls k \<and> kind_ok (numeric_kind cls k) v"
proof (induction cls d arbitrary: kvs rule: coerce_all.induct)
  case (2 cls k v es)
  then show ?case
    by (cases "known cls k") (auto simp del: coerce_all.simps simp: coerce_all.simps(2) dest: coerce_kind)
qed simp

lemma typed_merge:
  assumes "typed cls d" "\<forall>(k, v) \<in> set kvs. known cls k \<and> kind_ok (numeric_kind cls k) v"
  shows "typed cls (merge_dict d kvs)"
  using assms
proof (induction kvs arbitrary: d)
  case (Cons p kvs)
  obtain k v where p: "p = (k, v)" by (cases p)
  have "typed cls (upd_key k v d)" using typed_setf[of cls d k v] Cons.prems p by (simp add: setf_def)
  moreover have "merge_dict d (p # kvs) = merge_dict (upd_key k v d) kvs" by (simp add: merge_dict_def p)
  ultimately show ?case using Cons by simp
qed (simp add: merge_dict_def)

lemma build_typed: "build cls data = Inr cfg \<Longrightarrow> typed cls (defaults cls) \<Longrightarrow> typed cls cfg"
  by (auto simp: build_def split: if_splits json.splits dest: coerce_all_ok intro!: typed_merge)

lemma typed_defaults:
  "typed ROI (defaults ROI)" "typed CameraConfig (defaults CameraConfig)" "typed GigeConfig (defaults GigeConfig)"
  "typed UsbConfig (defaults UsbConfig)" "typed RtspConfig (defaults RtspConfig)" "typed ShmConfig (defaults ShmConfig)"
  "typed ReplayConfig (defaults ReplayConfig)" "typed PcapConfig (defaults PcapConfig)"
  "typed RecordingConfig (defaults RecordingConfig)" "typed PreviewConfig (defaults PreviewConfig)"
  "typed ControlConfig (defaults ControlConfig)" "typed PlaybackConfig (defaults PlaybackConfig)"
  "typed HealthConfig (defaults HealthConfig)" "typed TransportEndpoint plugin_endpoint_default"
  "typed TransportEndpoint raw_endpoint_default"
  by code_simp+

lemma get_key_setf [simp]: "get_key (setf k v cfg) j = (if j = k then v else get_key cfg j)"
  by (simp add: get_key_def setf_def)

lemma check_Inr [simp]: "check b e = Inr u \<longleftrightarrow> b"
  by (simp add: check_def)

lemma order_of_Inr [simp]: "order_of r = Inr b \<longleftrightarrow> r = Some b"
  by (simp add: order_of_def split: option.split)

text \<open>What the checks establish, block by block.\<close>

definition usb_ok :: "fields \<Rightarrow> bool" where
  "usb_ok usb \<longleftrightarrow> typed UsbConfig usb
     \<and> get_key usb ''control_protocol'' \<in> set (map JStr ([] # CONTROL_PROTOCOLS))
     \<and> (get_key usb ''control_protocol'' = JStr [] \<longleftrightarrow> get_key usb ''control_device'' = JStr [])"

definition shm_ok :: "fields \<Rightarrow> bool" where
  "shm_ok shm \<longleftrightarrow> typed ShmConfig shm \<and> get_key shm ''framing'' \<in> set (map JStr SHM_FRAMINGS)
     \<and> truthy (get_key shm ''socket_path'')"

definition control_ok :: "fields \<Rightarrow> bool" where
  "control_ok c \<longleftrightarrow> typed ControlConfig c \<and> get_key c ''initial_state'' \<in> set (map JStr LIFECYCLE_STATES)"

definition window_ok :: "json \<Rightarrow> json \<Rightarrow> bool" where
  "window_ok from_s to_s \<longleftrightarrow> (from_s = JNull \<or> num_lt from_s 0 = Some False)
     \<and> (to_s = JNull \<or> num_le to_s (if truthy from_s then from_s else JNum 0) = Some False)"

definition playback_ok :: "fields \<Rightarrow> bool" where
  "playback_ok pb \<longleftrightarrow> typed PlaybackConfig pb
     \<and> get_key pb ''initial_state'' \<in> set (map JStr PLAYBACK_STATES)
     \<and> get_key pb ''on_finish'' \<in> set (map JStr PLAYBACK_ON_FINISH)
     \<and> window_ok (get_key pb ''from_s'') (get_key pb ''to_s'')"

definition limit_ok :: "string \<Rightarrow> json \<Rightarrow> bool" where
  "limit_ok b t \<longleftrightarrow> b \<in> set LIMIT_BOUNDS \<and> kind_ok KFloat t \<and> t \<noteq> JNull"

definition limits_ok :: "fields \<Rightarrow> bool" where
  "limits_ok ls \<longleftrightarrow> list_all (\<lambda>(_, v). case v of
     JObj rule \<Rightarrow> rule \<noteq> [] \<and> list_all (\<lambda>(b, t). limit_ok b t) rule
   | _ \<Rightarrow> False) ls"

definition providers_ok :: "fields \<Rightarrow> bool" where
  "providers_ok ps \<longleftrightarrow> list_all (\<lambda>(k, v). k \<in> set HEALTH_PROVIDERS \<and> (case v of
     JObj d \<Rightarrow> health_auto (get_key d ''enabled'') \<and> features_ok (get_key d ''features'')
   | _ \<Rightarrow> False)) ps"

definition health_ok :: "fields \<Rightarrow> bool" where
  "health_ok h \<longleftrightarrow> typed HealthConfig h
     \<and> list_all (\<lambda>k. num_le (get_key h k) (JNum 0) = Some False) [''interval_s'', ''stale_after_s'', ''stall_after_s'']
     \<and> (case get_key h ''providers'' of JObj ps \<Rightarrow> providers_ok ps | _ \<Rightarrow> False)
     \<and> (case get_key h ''limits'' of JObj ls \<Rightarrow> limits_ok ls | _ \<Rightarrow> False)"

definition source_ok :: "dataclass \<Rightarrow> fields \<Rightarrow> bool" where
  "source_ok cls sc \<longleftrightarrow> typed cls sc \<and> num_lt (get_key sc ''speed'') 0 = Some False"

definition config_ok :: "app_config \<Rightarrow> bool" where
  "config_ok c \<longleftrightarrow> typed CameraConfig (ac_camera c) \<and> typed GigeConfig (ac_gige c) \<and> usb_ok (ac_usb c)
     \<and> typed RtspConfig (ac_rtsp c) \<and> shm_ok (ac_shm c)
     \<and> source_ok ReplayConfig (ac_replay c) \<and> num_lt (get_key (ac_replay c) ''gap_max_s'') 0 = Some False
     \<and> source_ok PcapConfig (ac_pcap c)
     \<and> (get_key (ac_camera c) ''type'' = JStr ''pcap'' \<longrightarrow> truthy (get_key (ac_pcap c) ''path''))
     \<and> typed RecordingConfig (ac_recording c) \<and> typed PreviewConfig (ac_preview c)
     \<and> typed TransportEndpoint (ac_plugin_endpoint c) \<and> typed TransportEndpoint (ac_raw_endpoint c)
     \<and> control_ok (ac_control c) \<and> health_ok (ac_health c) \<and> playback_ok (ac_playback c)"

lemma parse_usb_ok: "parse_usb raw = Inr usb \<Longrightarrow> usb_ok usb"
  by (auto simp: parse_usb_def usb_ok_def Let_def
      intro!: typed_free free_fields dest!: build_typed[OF _ typed_defaults(4)])

lemma parse_shm_ok: "parse_shm raw = Inr shm \<Longrightarrow> shm_ok shm"
  by (auto simp: parse_shm_def shm_ok_def Let_def
      intro!: typed_free free_fields dest!: build_typed[OF _ typed_defaults(6)])

lemma parse_control_ok: "parse_control raw = Inr c \<Longrightarrow> control_ok c"
  by (auto simp: parse_control_def control_ok_def Let_def
      intro!: typed_free free_fields dest!: build_typed[OF _ typed_defaults(11)])

lemma check_nonneg_Inr [simp]: "check_nonneg what v = Inr u \<longleftrightarrow> num_lt v 0 = Some False"
  by (auto simp: check_nonneg_def)

lemma check_positive_Inr [simp]: "check_positive what v = Inr u \<longleftrightarrow> num_le v (JNum 0) = Some False"
  by (auto simp: check_positive_def)

lemma check_window_Inr [simp]: "check_window f t = Inr u \<longleftrightarrow> window_ok f t"
  by (auto simp: check_window_def window_ok_def)

lemma limit_value_ok: "limit_value key t = Inr w \<Longrightarrow> kind_ok KFloat w \<and> w \<noteq> JNull"
  by (auto simp: limit_value_def split: json.splits)

lemma parse_playback_ok:
  assumes "parse_playback raw = Inr pb"
  shows "playback_ok pb"
proof -
  obtain pb0 where b: "build PlaybackConfig (get_key raw ''playback'') = Inr pb0"
    and st: "norm_word (get_key pb0 ''initial_state'') ''playing'' \<in> set PLAYBACK_STATES"
    and fin: "norm_word (get_key pb0 ''on_finish'') ''auto'' \<in> set PLAYBACK_ON_FINISH"
    and w: "window_ok (get_key pb0 ''from_s'') (get_key pb0 ''to_s'')"
    and pb: "pb = setf ''on_finish'' (JStr (norm_word (get_key pb0 ''on_finish'') ''auto''))
         (setf ''initial_state'' (JStr (norm_word (get_key pb0 ''initial_state'') ''playing'')) pb0)"
    using assms unfolding parse_playback_def Let_def ebind_Inr_iff check_Inr by auto
  have "typed PlaybackConfig pb"
    unfolding pb by (intro typed_free free_fields build_typed[OF b] typed_defaults)
  then show ?thesis using st fin w unfolding playback_ok_def pb by simp
qed

lemma parse_rule_ok:
  "parse_rule key rs = Inr d \<Longrightarrow>
     list_all (\<lambda>(b, t). limit_ok b t) d \<and> (rs \<noteq> [] \<longrightarrow> d \<noteq> [])"
proof (induction key rs arbitrary: d rule: parse_rule.induct)
  case (2 key b t rs)
  from "2.prems" obtain w ws where w: "limit_ok b w" and ws: "parse_rule key rs = Inr ws" and d: "d = (b, w) # ws"
    by (auto simp: limit_ok_def simp del: kind_ok.simps dest: limit_value_ok)
  from 2(1)[OF ws] w d show ?case by simp
qed simp

lemma parse_limits_ok: "parse_limits ls = Inr d \<Longrightarrow> limits_ok d"
proof (induction ls arbitrary: d rule: parse_limits.induct)
  case (2 k v ls)
  from "2.prems" obtain rule r ds where v: "v = JObj rule" "rule \<noteq> []" "parse_rule k rule = Inr r"
    and d: "parse_limits ls = Inr ds" "d = (k, JObj r) # ds"
    by (auto split: json.splits if_splits)
  from 2(1)[OF d(1)] parse_rule_ok[OF v(3)] v(2) d(2) v show ?case
    by (auto simp: limits_ok_def)
qed (simp add: limits_ok_def)

lemma parse_provider_ok:
  "parse_provider name v = Inr d \<Longrightarrow> name \<in> set HEALTH_PROVIDERS \<and> health_auto (get_key d ''enabled'')
     \<and> features_ok (get_key d ''features'')"
  by (auto simp: parse_provider_def Let_def)

lemma parse_providers_ok: "parse_providers ps = Inr d \<Longrightarrow> providers_ok d"
proof (induction ps arbitrary: d rule: parse_providers.induct)
  case (2 k v ps)
  then obtain r ds where r: "parse_provider k v = Inr r" and ds: "parse_providers ps = Inr ds"
    and d: "d = (k, JObj r) # ds" by auto
  from 2(1)[OF ds] parse_provider_ok[OF r] d show ?case by (simp add: providers_ok_def)
qed (simp add: providers_ok_def)

lemma map_or_none_ok: "map_or_none what f v = Inr d \<Longrightarrow> \<exists>e. f e = Inr d"
  by (auto simp: map_or_none_def split: json.splits)

lemma parse_health_ok:
  assumes "parse_health raw = Inr h"
  shows "health_ok h"
proof -
  obtain h0 ps ls where b: "build HealthConfig (get_key raw ''health'') = Inr h0"
    and pos: "num_le (get_key h0 ''interval_s'') (JNum 0) = Some False"
      "num_le (get_key h0 ''stale_after_s'') (JNum 0) = Some False"
      "num_le (get_key h0 ''stall_after_s'') (JNum 0) = Some False"
    and ps: "map_or_none ''health.providers'' parse_providers (get_key h0 ''providers'') = Inr ps"
    and ls: "map_or_none ''health.limits'' parse_limits (get_key h0 ''limits'') = Inr ls"
    and h: "h = setf ''limits'' (JObj ls) (setf ''providers'' (JObj ps) h0)"
    using assms unfolding parse_health_def ebind_Inr_iff check_positive_Inr by auto
  have "typed HealthConfig h"
    unfolding h by (intro typed_free free_fields build_typed[OF b] typed_defaults)
  moreover have "providers_ok ps" "limits_ok ls"
    using map_or_none_ok[OF ps] map_or_none_ok[OF ls] parse_providers_ok parse_limits_ok by blast+
  ultimately show ?thesis using pos unfolding health_ok_def h by simp
qed

text \<open>The overlay writes three fields of the right kinds.\<close>

definition has_live :: "dataclass \<Rightarrow> bool" where
  "has_live cls \<longleftrightarrow> known cls ''frame_rate'' \<and> numeric_kind cls ''frame_rate'' = KFloat
     \<and> free_field cls ''reconnect'' \<and> known cls ''reconnect_timeout_s'' \<and> numeric_kind cls ''reconnect_timeout_s'' = KFloat"

definition has_rate :: "dataclass \<Rightarrow> bool" where
  "has_rate cls \<longleftrightarrow> known cls ''frame_rate'' \<and> numeric_kind cls ''frame_rate'' = KFloat"

lemma has_overlays:
  "has_live GigeConfig" "has_live UsbConfig" "has_live RtspConfig" "has_live ShmConfig"
  "has_rate ReplayConfig" "has_rate PcapConfig"
  by code_simp+

lemma typed_get: "typed cls cfg \<Longrightarrow> kind_ok (numeric_kind cls k) (get_key cfg k)"
  by (auto simp: typed_def get_key_def list_all_iff kind_ok_null split: option.splits dest!: map_of_SomeD)

lemma camera_get:
  assumes "typed CameraConfig camera"
  shows "kind_ok KFloat (get_key camera ''frame_rate'')" "kind_ok KFloat (get_key camera ''reconnect_timeout_s'')"
proof -
  have "numeric_kind CameraConfig ''frame_rate'' = KFloat" "numeric_kind CameraConfig ''reconnect_timeout_s'' = KFloat"
    by code_simp+
  then show "kind_ok KFloat (get_key camera ''frame_rate'')" "kind_ok KFloat (get_key camera ''reconnect_timeout_s'')"
    using typed_get[OF assms] by metis+
qed

lemma overlay_rate_typed:
  "typed cls sc \<Longrightarrow> typed CameraConfig camera \<Longrightarrow> has_rate cls \<Longrightarrow> typed cls (overlay_rate camera sc)"
  by (simp add: overlay_rate_def has_rate_def typed_setf camera_get del: kind_ok.simps)

lemma overlay_live_typed:
  "typed cls sc \<Longrightarrow> typed CameraConfig camera \<Longrightarrow> has_live cls \<Longrightarrow> typed cls (overlay_live camera sc)"
  by (simp add: overlay_live_def has_live_def overlay_rate_typed has_rate_def typed_setf typed_free camera_get del: kind_ok.simps)

lemma get_key_overlay [simp]:
  "k \<noteq> ''frame_rate'' \<Longrightarrow> get_key (overlay_rate camera sc) k = get_key sc k"
  "k \<notin> {''frame_rate'', ''reconnect'', ''reconnect_timeout_s''} \<Longrightarrow> get_key (overlay_live camera sc) k = get_key sc k"
  by (simp_all add: overlay_rate_def overlay_live_def)

lemma parse_gige_ok: "parse_gige raw = Inr g \<Longrightarrow> typed GigeConfig g"
  by (auto simp: parse_gige_def split: if_splits intro!: typed_free free_fields dest!: build_typed[OF _ typed_defaults(3)])

lemma merge_endpoint_ok:
  "merge_endpoint data dflt = Inr e \<Longrightarrow> typed TransportEndpoint dflt \<Longrightarrow> typed TransportEndpoint e"
  by (auto simp: merge_endpoint_def split: if_splits json.splits dest: coerce_all_ok intro!: typed_merge)

lemma overlay_sources:
  assumes "typed CameraConfig camera"
  shows "usb_ok usb \<Longrightarrow> usb_ok (overlay_live camera usb)" "shm_ok shm \<Longrightarrow> shm_ok (overlay_live camera shm)"
    "source_ok ReplayConfig sc \<Longrightarrow> source_ok ReplayConfig (overlay_rate camera sc)"
    "source_ok PcapConfig sc \<Longrightarrow> source_ok PcapConfig (overlay_rate camera sc)"
  using assms has_overlays
  unfolding usb_ok_def shm_ok_def source_ok_def
  by (auto simp: overlay_live_typed overlay_rate_typed simp del: set_map)

lemma parse_config_ok:
  assumes "parse_config doc = Inr cfg"
  shows "config_ok cfg"
proof -
  obtain raw camera gige usb rtsp shm replay pcap pe re plugins control pb recording preview health where
    camera: "build CameraConfig (get_key raw ''camera'') = Inr camera"
    and gige: "parse_gige raw = Inr gige" and usb: "parse_usb raw = Inr usb"
    and rtsp: "build RtspConfig (get_key raw ''rtsp'') = Inr rtsp" and shm: "parse_shm raw = Inr shm"
    and replay: "build ReplayConfig (get_key raw ''replay'') = Inr replay"
    and pcap: "build PcapConfig (get_key raw ''pcap'') = Inr pcap"
    and srcs: "check_playback_sources camera replay pcap = Inr ()"
    and pe: "\<exists>tr. merge_endpoint (get_key tr ''plugin_endpoint'') plugin_endpoint_default = Inr pe"
    and re: "\<exists>tr. merge_endpoint (get_key tr ''raw_endpoint'') raw_endpoint_default = Inr re"
    and control: "parse_control raw = Inr control" and pb: "parse_playback raw = Inr pb"
    and recording: "build RecordingConfig (get_key raw ''recording'') = Inr recording"
    and preview: "build PreviewConfig (get_key raw ''preview'') = Inr preview"
    and health: "parse_health raw = Inr health"
    and cfg: "cfg = \<lparr>ac_camera = camera, ac_gige = overlay_live camera gige, ac_usb = overlay_live camera usb,
          ac_rtsp = overlay_live camera rtsp, ac_shm = overlay_live camera shm,
          ac_replay = overlay_rate camera replay, ac_pcap = overlay_rate camera pcap,
          ac_recording = recording, ac_preview = preview, ac_plugin_endpoint = pe, ac_raw_endpoint = re,
          ac_control = control, ac_health = health, ac_playback = pb, ac_plugins = plugins\<rparr>"
    using assms unfolding parse_config_def ebind_Inr_iff
    by (elim exE conjE) (rule that, (assumption | (rule exI, assumption) | erule sym | simp)+)
  have cam: "typed CameraConfig camera" using build_typed[OF camera] typed_defaults by blast
  have s: "source_ok ReplayConfig replay" "source_ok PcapConfig pcap" "num_lt (get_key replay ''gap_max_s'') 0 = Some False"
    "get_key camera ''type'' = JStr ''pcap'' \<longrightarrow> truthy (get_key pcap ''path'')"
    using srcs build_typed[OF replay] build_typed[OF pcap] typed_defaults(7,8)
    by (simp_all add: check_playback_sources_def source_ok_def)
  have ends: "typed TransportEndpoint pe" "typed TransportEndpoint re"
    using pe re merge_endpoint_ok typed_defaults by blast+
  show ?thesis
    unfolding config_ok_def cfg app_config.simps
    using cam s ends overlay_sources[OF cam] overlay_live_typed[OF _ cam] has_overlays
      parse_gige_ok[OF gige] parse_usb_ok[OF usb] parse_shm_ok[OF shm] build_typed[OF rtsp] build_typed[OF recording]
      build_typed[OF preview] typed_defaults parse_control_ok[OF control] parse_health_ok[OF health] parse_playback_ok[OF pb]
    by (intro conjI impI) (simp_all add: overlay_sources(3,4)[OF cam])
qed

section \<open>Unknown keys\<close>

definition SECTIONS :: "(string \<times> dataclass) list" where
  "SECTIONS =
     [(''camera'', CameraConfig), (''gige'', GigeConfig), (''usb'', UsbConfig), (''rtsp'', RtspConfig),
      (''shm'', ShmConfig), (''replay'', ReplayConfig), (''pcap'', PcapConfig), (''recording'', RecordingConfig),
      (''preview'', PreviewConfig), (''control'', ControlConfig), (''health'', HealthConfig),
      (''playback'', PlaybackConfig)]"

definition prune_block :: "dataclass \<Rightarrow> json \<Rightarrow> json" where
  "prune_block cls v = (case v of JObj d \<Rightarrow> JObj (filter (\<lambda>(k, _). known cls k) d) | _ \<Rightarrow> v)"

definition prune :: "fields \<Rightarrow> fields" where
  "prune raw = map (\<lambda>(k, v). (k, case map_of SECTIONS k of Some cls \<Rightarrow> prune_block cls v | None \<Rightarrow> v))
     (filter (\<lambda>(k, _). k \<in> set (map fst SECTIONS @ [''transport'', ''plugins''])) raw)"

lemma coerce_all_known: "coerce_all cls (filter (\<lambda>(k, _). known cls k) d) = coerce_all cls d"
  by (induction cls d rule: coerce_all.induct) auto

lemma build_prune: "build cls (prune_block cls v) = build cls v"
proof (cases v)
  case (JObj d)
  have "coerce_all cls d = Inr []" if "filter (\<lambda>(k, _). known cls k) d = []"
    using coerce_all_known[of cls d] that by simp
  then show ?thesis
    by (simp add: JObj build_def prune_block_def coerce_all_known merge_dict_def)
qed (simp_all add: build_def prune_block_def)

lemma get_key_filter_map:
  "get_key (map (\<lambda>(k, v). (k, f k v)) (filter (\<lambda>(k, _). P k) raw)) s =
     (if P s then if map_of raw s = None then JNull else f s (get_key raw s) else JNull)"
  unfolding get_key_def by (induction raw) (auto split: option.split)

lemma prune_block_null [simp]: "prune_block cls JNull = JNull"
  by (simp add: prune_block_def)

lemma get_key_none: "map_of raw s = None \<Longrightarrow> get_key raw s = JNull"
  by (simp add: get_key_def)

lemma get_prune: "map_of SECTIONS s = Some cls \<Longrightarrow> get_key (prune raw) s = prune_block cls (get_key raw s)"
proof -
  assume s: "map_of SECTIONS s = Some cls"
  then have "s \<in> set (map fst SECTIONS @ [''transport'', ''plugins''])" by (force dest: map_of_SomeD)
  then show ?thesis
    using s unfolding prune_def by (subst get_key_filter_map) (simp add: get_key_none)
qed

lemma get_prune_rest:
  "get_key (prune raw) ''transport'' = get_key raw ''transport''"
  "get_key (prune raw) ''plugins'' = get_key raw ''plugins''"
proof -
  have "map_of SECTIONS ''transport'' = None" "map_of SECTIONS ''plugins'' = None" by code_simp+
  then show "get_key (prune raw) ''transport'' = get_key raw ''transport''"
    "get_key (prune raw) ''plugins'' = get_key raw ''plugins''"
    unfolding prune_def by (subst get_key_filter_map; simp add: get_key_none)+
qed

lemma sections_known:
  "map_of SECTIONS ''camera'' = Some CameraConfig" "map_of SECTIONS ''gige'' = Some GigeConfig"
  "map_of SECTIONS ''usb'' = Some UsbConfig" "map_of SECTIONS ''rtsp'' = Some RtspConfig"
  "map_of SECTIONS ''shm'' = Some ShmConfig" "map_of SECTIONS ''replay'' = Some ReplayConfig"
  "map_of SECTIONS ''pcap'' = Some PcapConfig" "map_of SECTIONS ''recording'' = Some RecordingConfig"
  "map_of SECTIONS ''preview'' = Some PreviewConfig" "map_of SECTIONS ''control'' = Some ControlConfig"
  "map_of SECTIONS ''health'' = Some HealthConfig" "map_of SECTIONS ''playback'' = Some PlaybackConfig"
  by (simp_all add: SECTIONS_def)

lemma parse_gige_prune: "parse_gige (prune raw) = parse_gige raw"
proof (cases "get_key raw ''gige''")
  case (JObj d)
  have roi: "known GigeConfig ''roi''" by code_simp
  have f: "filter (\<lambda>(k, _). k \<noteq> ''roi'') (filter (\<lambda>(k, _). known GigeConfig k) d)
     = filter (\<lambda>(k, _). known GigeConfig k) (filter (\<lambda>(k, _). k \<noteq> ''roi'') d)"
    by (simp add: filter_filter conj_commute case_prod_beta)
  have g: "get_key (filter (\<lambda>(k, _). known GigeConfig k) d) ''roi'' = get_key d ''roi''"
    using roi get_key_filter_map[of "\<lambda>_ v. v" "known GigeConfig" d "''roi''"]
    by (simp add: get_key_none)
  have b: "build GigeConfig (JObj (filter (\<lambda>(k, _). known GigeConfig k) e)) = build GigeConfig (JObj e)" for e
    using build_prune[of GigeConfig "JObj e"] by (simp add: prune_block_def)
  have e: "dict_or_empty (JObj e) = Inr e" for e by (simp add: dict_or_empty_def)
  show ?thesis
    unfolding parse_gige_def get_prune[OF sections_known(2)] JObj prune_block_def json.case e ebind.simps f b g ..
qed (simp_all add: parse_gige_def get_prune[OF sections_known(2)] prune_block_def)

section \<open>Properties\<close>

text \<open>C11: an accepted configuration is well typed.  Every block has exactly its dataclass's fields, a
  numeric field holds a number of its kind (or null), and the checked fields are in range: the
  enumerations, the control channel's two keys given together, non-negative speeds, a path for \<open>pcap\<close>,
  a window that ends after it starts, positive health periods, known providers and limit bounds.\<close>

theorem config_typed:
  assumes "parse_config doc = Inr cfg"
  shows "config_ok cfg"
  using assms by (rule parse_config_ok)

theorem config_typed_witness:
  "\<exists>cfg. parse_config (JObj [(''camera'', JObj [(''type'', JStr ''pcap''), (''frame_rate'', JStr ''29.97'')]),
       (''pcap'', JObj [(''path'', JStr ''t.pcapng''), (''colour'', JInt 3)]),
       (''health'', JObj [(''limits'', JObj [(''temp.sensor_c'', JObj [(''warn_above'', JInt 65)])])])]) = Inr cfg
     \<and> config_ok cfg \<and> get_key (ac_usb cfg) ''frame_rate'' = JNum (2997 / 100)"
proof -
  define doc where "doc = JObj [(''camera'', JObj [(''type'', JStr ''pcap''), (''frame_rate'', JStr ''29.97'')]),
       (''pcap'', JObj [(''path'', JStr ''t.pcapng''), (''colour'', JInt 3)]),
       (''health'', JObj [(''limits'', JObj [(''temp.sensor_c'', JObj [(''warn_above'', JInt 65)])])])]"
  have "case parse_config doc of Inr cfg \<Rightarrow> get_key (ac_usb cfg) ''frame_rate'' = JNum (2997 / 100) | Inl _ \<Rightarrow> False"
    unfolding doc_def by code_simp
  then obtain cfg where c: "parse_config doc = Inr cfg" "get_key (ac_usb cfg) ''frame_rate'' = JNum (2997 / 100)"
    by (auto split: sum.splits)
  show ?thesis using c config_typed[OF c(1)] unfolding doc_def by blast
qed

text \<open>unknown keys change nothing: a document gives the same configuration, or the same error, as
  the document with every unknown section and every unknown key of a section removed.\<close>

theorem unknown_keys_ignored: "parse_config (JObj (prune raw)) = parse_config (JObj raw)"
proof -
  have usb: "parse_usb (prune raw) = parse_usb raw" and shm: "parse_shm (prune raw) = parse_shm raw"
    and control: "parse_control (prune raw) = parse_control raw"
    and pb: "parse_playback (prune raw) = parse_playback raw" and health: "parse_health (prune raw) = parse_health raw"
    by (simp_all only: parse_usb_def parse_shm_def parse_control_def parse_playback_def parse_health_def
        get_prune sections_known build_prune)
  have top: "(if \<not> truthy (JObj d) then Inr [] else case JObj d of JObj d \<Rightarrow> Inr d | _ \<Rightarrow> Inl Attribute_Error)
     = (Inr d :: cfg_error + fields)" for d by simp
  show ?thesis
    unfolding parse_config_def top ebind.simps
    by (simp only: parse_gige_prune usb shm control pb health get_prune sections_known build_prune get_prune_rest)
qed



text \<open>a run never overwrites another.  The search for a prefix ends, and what it returns is the
  first of \<open>base\<close>, \<open>base.2\<close>, \<open>base.3\<close>, ... that no entry of the directory starts with.\<close>

theorem unique_prefix_free:
  "(\<exists>n \<ge> 1. unique_run_prefix (Some existing) name stamp = candidate (name @ ''-'' @ stamp) n
      \<and> (\<forall>m. 1 \<le> m \<and> m < n \<longrightarrow> taken existing (candidate (name @ ''-'' @ stamp) m)))
   \<and> (\<forall>e \<in> set existing. \<not> starts_with (unique_run_prefix (Some existing) name stamp) e)"
proof -
  have "\<exists>n \<ge> k. free_prefix existing base k = candidate base n \<and> \<not> taken existing (candidate base n)
      \<and> (\<forall>m. k \<le> m \<and> m < n \<longrightarrow> taken existing (candidate base m))" for base k
  proof (induction existing base k rule: free_prefix.induct)
    case (1 existing base k)
    show ?case
    proof (cases "taken existing (candidate base k)")
      case True
      with 1 obtain n where n: "n \<ge> k + 1" "free_prefix existing base (k + 1) = candidate base n"
          "\<not> taken existing (candidate base n)" "\<forall>m. k + 1 \<le> m \<and> m < n \<longrightarrow> taken existing (candidate base m)"
        by blast
      have "\<forall>m. k \<le> m \<and> m < n \<longrightarrow> taken existing (candidate base m)"
        using n(4) True by (metis Suc_eq_plus1 Suc_leI le_neq_implies_less)
      then show ?thesis using n True by (subst free_prefix.simps) (auto intro: exI[of _ n])
    qed (subst free_prefix.simps, auto)
  qed
  from this[of 1 "name @ ''-'' @ stamp"] obtain n where n: "n \<ge> 1"
      "free_prefix existing (name @ ''-'' @ stamp) 1 = candidate (name @ ''-'' @ stamp) n"
      "\<not> taken existing (candidate (name @ ''-'' @ stamp) n)"
      "\<forall>m. 1 \<le> m \<and> m < n \<longrightarrow> taken existing (candidate (name @ ''-'' @ stamp) m)" by blast
  have u: "unique_run_prefix (Some existing) name stamp = candidate (name @ ''-'' @ stamp) n"
    using n(2) by (simp add: unique_run_prefix_def Let_def)
  have "\<forall>e \<in> set existing. \<not> starts_with (candidate (name @ ''-'' @ stamp) n) e"
    using n(3) unfolding taken_def list_ex_iff by blast
  then show ?thesis unfolding u using n(1,4) by blast
qed

theorem unique_prefix_free_witness:
  "unique_run_prefix (Some [''cam-1.csv'', ''cam-1.2.csv'']) ''cam'' ''1'' = ''cam-1.3''
   \<and> \<not> starts_with (unique_run_prefix (Some [''cam-1.csv'', ''cam-1.2.csv'']) ''cam'' ''1'') ''cam-1.csv''"
proof -
  have "unique_run_prefix (Some [''cam-1.csv'', ''cam-1.2.csv'']) ''cam'' ''1'' = ''cam-1.3''" by code_simp
  then show ?thesis using unique_prefix_free[of "[''cam-1.csv'', ''cam-1.2.csv'']" "''cam''" "''1''"] by simp
qed

end
