(* ===== verification/Playback_Control.thy ===== *)
theory Playback_Control
  imports Config
begin

text \<open>
  \<open>core-driver/cam_driver/playback.py\<close>, the runtime half: the pacer that releases frames against the data's own
  timeline, and \<open>PlaybackState\<close>, the policy behind the playback controls.  Clock readings are arguments: \<open>mns\<close> is
  \<open>time.monotonic_ns()\<close>, \<open>clock\<close> the wall clock.  A speed is a float, \<open>JNum\<close> or one of the three non-finite
  values.  Each critical section is one function; \<open>play_run\<close> interleaves the feeder, the timer and the control
  surface.
\<close>

section \<open>The pacer\<close>

record pacer =
  pa_speed :: json
  pa_anchor :: "int option"
  pa_t0_src :: "int option"
  pa_t0_wall :: int
  pa_last_src :: "int option"

definition new_pacer :: "json \<Rightarrow> int option \<Rightarrow> pacer" where
  "new_pacer speed anchor = \<lparr>pa_speed = speed, pa_anchor = anchor, pa_t0_src = None, pa_t0_wall = 0, pa_last_src = None\<rparr>"

definition pacer_reset :: "int option \<Rightarrow> pacer \<Rightarrow> pacer" where
  "pacer_reset anchor p = p\<lparr>pa_anchor := anchor, pa_t0_src := None, pa_last_src := None\<rparr>"

definition anchor_now :: "int \<Rightarrow> pacer \<Rightarrow> pacer" where
  "anchor_now mns p =
     (case pa_anchor p of None \<Rightarrow> p | Some a \<Rightarrow> p\<lparr>pa_t0_src := Some a, pa_t0_wall := mns\<rparr>)"

definition rebase :: "int \<Rightarrow> pacer \<Rightarrow> pacer" where
  "rebase mns p = (case pa_last_src p of None \<Rightarrow> p | Some l \<Rightarrow> p\<lparr>pa_t0_src := Some l, pa_t0_wall := mns\<rparr>)"

definition set_speed :: "json \<Rightarrow> int \<Rightarrow> pacer \<Rightarrow> pacer" where
  "set_speed speed mns p = rebase mns (p\<lparr>pa_speed := speed\<rparr>)"

text \<open>\<open>int(x / speed)\<close> for \<open>speed\<close> not \<open>\<le> 0\<close>; \<open>None\<close>: \<open>int\<close> of a NaN raises.\<close>

definition over_speed :: "int \<Rightarrow> json \<Rightarrow> int option" where
  "over_speed x speed = (case speed of JNum s \<Rightarrow> Some (trunc_rat (of_int x / s))
     | JNonfinite t \<Rightarrow> if t = ''nan'' then None else Some 0 | _ \<Rightarrow> None)"

definition unpaced :: "json \<Rightarrow> bool" where
  "unpaced speed \<longleftrightarrow> (case speed of JNum s \<Rightarrow> s \<le> 0 | JNonfinite t \<Rightarrow> t = ''-inf'' | _ \<Rightarrow> False)"

text \<open>\<open>wait\<close>: how long the feeder sleeps, in nanoseconds; \<open>None\<close>: it raised.\<close>

definition until_due :: "int \<Rightarrow> int \<Rightarrow> pacer \<Rightarrow> int option" where
  "until_due ts mns p =
     (case pa_t0_src p of None \<Rightarrow> None
      | Some t0 \<Rightarrow> map_option (\<lambda>d. max 0 (pa_t0_wall p + d - mns)) (over_speed (ts - t0) (pa_speed p)))"

definition pacer_wait :: "int \<Rightarrow> int \<Rightarrow> pacer \<Rightarrow> int option \<times> pacer" where
  "pacer_wait ts mns p =
     (let p = p\<lparr>pa_last_src := Some ts\<rparr> in
      if unpaced (pa_speed p) then (Some 0, p)
      else case pa_t0_src p of
        Some _ \<Rightarrow> (until_due ts mns p, p)
      | None \<Rightarrow>
          let p' = p\<lparr>pa_t0_src := Some (case pa_anchor p of Some a \<Rightarrow> a | None \<Rightarrow> ts), pa_t0_wall := mns\<rparr>
          in if pa_anchor p = None then (Some 0, p') else (until_due ts mns p', p'))"

section \<open>The state\<close>

datatype pb_mode = Playing | Paused | Finished

datatype pb_verdict = Stop | Resume | Restart

record playback =
  pb_pacer :: pacer
  pb_loop :: bool
  pb_duration_s :: "rat option"
  pb_state :: pb_mode
  pb_cycle :: int
  pb_frames :: nat
  pb_position_ns :: int
  pb_cycle_base_ns :: "int option"
  pb_restart_pending :: bool
  pb_restartable :: bool
  pb_preroll_pending :: bool
  pb_since :: rat
  pb_last_error :: "string option"
  pb_gate_armed :: bool
  pb_source_path :: "string option"
  pb_session :: "nat option"
  pb_sessions :: "nat option"
  pb_epoch_unix_ns :: "int option"
  pb_notified :: nat              \<comment> \<open>how often the observers were called\<close>

definition release :: "rat \<Rightarrow> int \<Rightarrow> playback \<Rightarrow> playback" where
  "release clock mns ps =
     ps\<lparr>pb_state := Playing, pb_since := clock,
        pb_pacer := anchor_now mns (pacer_reset (pa_anchor (pb_pacer ps)) (pb_pacer ps))\<rparr>"

text \<open>\<open>arm_start_gate\<close>: ignored unless paused, released at once when the instant is past, else the timer is set.\<close>

definition arm_start_gate :: "rat \<Rightarrow> rat \<Rightarrow> int \<Rightarrow> playback \<Rightarrow> playback" where
  "arm_start_gate at_s clock mns ps =
     (if pb_state ps \<noteq> Paused then ps
      else if at_s - clock \<le> 0 then release clock mns ps
      else ps\<lparr>pb_gate_armed := True\<rparr>)"

definition new_playback :: "json \<Rightarrow> bool \<Rightarrow> string \<Rightarrow> rat option \<Rightarrow> bool \<Rightarrow> rat \<Rightarrow> int \<Rightarrow> playback" where
  "new_playback speed loop initial_state start_at restartable clock mns =
     (let paused = (initial_state = ''paused'');
          ps = \<lparr>pb_pacer = new_pacer speed None, pb_loop = loop, pb_duration_s = None,
                pb_state = (if paused then Paused else Playing), pb_cycle = 0, pb_frames = 0, pb_position_ns = 0,
                pb_cycle_base_ns = None, pb_restart_pending = False, pb_restartable = restartable,
                pb_preroll_pending = paused, pb_since = clock, pb_last_error = None, pb_gate_armed = False,
                pb_source_path = None, pb_session = None, pb_sessions = None, pb_epoch_unix_ns = None, pb_notified = 0\<rparr>
      in case start_at of None \<Rightarrow> ps | Some t \<Rightarrow> arm_start_gate t clock mns ps)"

definition cancel_start_gate :: "playback \<Rightarrow> playback" where
  "cancel_start_gate ps = ps\<lparr>pb_gate_armed := False\<rparr>"

definition pb_notify :: "playback \<Rightarrow> playback" where
  "pb_notify ps = ps\<lparr>pb_notified := pb_notified ps + 1\<rparr>"

definition controls :: "playback \<Rightarrow> string list" where
  "controls ps =
     (if pb_state ps = Finished then (if pb_restartable ps then [''restart''] else [])
      else [if pb_state ps = Playing then ''pause'' else ''resume'', ''set_speed'', ''set_loop'', ''restart''])"

text \<open>\<open>int((now - t0_wall) * speed)\<close>, when the speed is positive: it raises for an infinite speed.\<close>

definition times_speed :: "int \<Rightarrow> json \<Rightarrow> int option" where
  "times_speed x speed = (case speed of JNum s \<Rightarrow> Some (trunc_rat (of_int x * s)) | _ \<Rightarrow> None)"

definition positive :: "json \<Rightarrow> bool" where
  "positive speed \<longleftrightarrow> (case speed of JNum s \<Rightarrow> s > 0 | JNonfinite t \<Rightarrow> t = ''inf'' | _ \<Rightarrow> False)"

definition clip_duration :: "rat option \<Rightarrow> int \<Rightarrow> int" where
  "clip_duration duration pos = (case duration of None \<Rightarrow> pos | Some d \<Rightarrow> min pos (trunc_rat (d * 1000000000)))"

definition timeline_position_ns :: "int \<Rightarrow> playback \<Rightarrow> int option" where
  "timeline_position_ns mns ps =
     (case pa_t0_src (pb_pacer ps) of
        Some t0 \<Rightarrow>
          if pb_state ps = Playing \<and> positive (pa_speed (pb_pacer ps))
          then map_option (\<lambda>wall.
                 let base = (case pb_cycle_base_ns ps of Some b \<Rightarrow> b | None \<Rightarrow> t0)
                 in max 0 (clip_duration (pb_duration_s ps) (max (pb_position_ns ps) (wall + (t0 - base)))))
               (times_speed (mns - pa_t0_wall (pb_pacer ps)) (pa_speed (pb_pacer ps)))
          else Some (max 0 (pb_position_ns ps))
      | None \<Rightarrow> Some (max 0 (pb_position_ns ps)))"

record play_descriptor =
  pd_state :: pb_mode
  pd_controls :: "string list"
  pd_speed :: json
  pd_loop :: bool
  pd_cycle :: int
  pd_position_ns :: int          \<comment> \<open>reported in seconds with three decimals\<close>
  pd_duration_s :: "rat option"
  pd_frames :: nat
  pd_since :: rat
  pd_last_error :: "string option"
  pd_source_path :: "string option"
  pd_session :: "nat option"
  pd_sessions :: "nat option"
  pd_epoch_unix_ns :: "int option"

definition play_descriptor :: "int \<Rightarrow> playback \<Rightarrow> play_descriptor option" where
  "play_descriptor mns ps =
     map_option (\<lambda>pos. \<lparr>pd_state = pb_state ps, pd_controls = controls ps, pd_speed = pa_speed (pb_pacer ps), pd_loop = pb_loop ps,
       pd_cycle = pb_cycle ps, pd_position_ns = pos, pd_duration_s = pb_duration_s ps, pd_frames = pb_frames ps,
       pd_since = pb_since ps, pd_last_error = pb_last_error ps, pd_source_path = pb_source_path ps,
       pd_session = pb_session ps, pd_sessions = pb_sessions ps, pd_epoch_unix_ns = pb_epoch_unix_ns ps\<rparr>)
     (timeline_position_ns mns ps)"

section \<open>The feeder\<close>

definition note_frame :: "int \<Rightarrow> int option \<Rightarrow> playback \<Rightarrow> playback" where
  "note_frame data_ts cycle_base ps =
     (let base = (case cycle_base of Some b \<Rightarrow> b | None \<Rightarrow> (case pb_cycle_base_ns ps of Some b \<Rightarrow> b | None \<Rightarrow> data_ts))
      in ps\<lparr>pb_cycle_base_ns := Some base, pb_position_ns := max 0 (data_ts - base), pb_frames := pb_frames ps + 1\<rparr>)"

definition mark_cycle :: "int \<Rightarrow> playback \<Rightarrow> playback" where
  "mark_cycle c ps = ps\<lparr>pb_cycle := c, pb_frames := 0, pb_position_ns := 0, pb_cycle_base_ns := None\<rparr>"

definition take_restart :: "playback \<Rightarrow> bool \<times> playback" where
  "take_restart ps = (pb_restart_pending ps, ps\<lparr>pb_restart_pending := False\<rparr>)"

definition take_preroll :: "playback \<Rightarrow> bool \<times> playback" where
  "take_preroll ps = (pb_preroll_pending ps, ps\<lparr>pb_preroll_pending := False\<rparr>)"

text \<open>\<open>wait_if_paused\<close>, one turn of its loop: \<open>None\<close> keeps waiting.\<close>

definition paused_turn :: "bool \<Rightarrow> playback \<Rightarrow> pb_verdict option \<times> playback" where
  "paused_turn cancelled ps =
     (if pb_state ps = Paused \<and> \<not> cancelled \<and> \<not> pb_restart_pending ps then (None, ps)
      else if cancelled then (Some Stop, ps)
      else if pb_restart_pending ps then (Some Restart, ps\<lparr>pb_restart_pending := False\<rparr>)
      else (Some Resume, ps))"

definition mark_finished :: "rat \<Rightarrow> string option \<Rightarrow> playback \<Rightarrow> playback" where
  "mark_finished clock error ps =
     (if pb_state ps = Finished then ps
      else pb_notify (ps\<lparr>pb_state := Finished, pb_since := clock, pb_last_error := error\<rparr>))"

section \<open>Requests\<close>

definition OPS :: "string list" where
  "OPS = [''pause'', ''resume'', ''set_speed'', ''set_loop'', ''restart'']"

text \<open>\<open>float(v)\<close>; \<open>None\<close>: \<open>TypeError\<close> or \<open>ValueError\<close>.\<close>

definition float_value :: "json \<Rightarrow> json option" where
  "float_value v = (case v of JBool b \<Rightarrow> Some (JNum (if b then 1 else 0)) | JInt i \<Rightarrow> Some (JNum (of_int i))
     | JNum x \<Rightarrow> Some v | JNonfinite t \<Rightarrow> Some v | JStr s \<Rightarrow> float_of_str s | _ \<Rightarrow> None)"

definition negative :: "json \<Rightarrow> bool" where
  "negative speed \<longleftrightarrow> (case speed of JNum s \<Rightarrow> s < 0 | JNonfinite t \<Rightarrow> t = ''-inf'' | _ \<Rightarrow> False)"

definition same_float :: "json \<Rightarrow> json \<Rightarrow> bool" where
  "same_float a b \<longleftrightarrow> a = b \<and> a \<noteq> JNonfinite ''nan''"

record play_reply =
  pr_ok :: bool
  pr_error :: "string option"
  pr_noop :: bool
  pr_pending :: bool

definition play_error :: "string \<Rightarrow> play_reply" where
  "play_error e = \<lparr>pr_ok = False, pr_error = Some e, pr_noop = False, pr_pending = False\<rparr>"

definition play_noop :: play_reply where
  "play_noop = \<lparr>pr_ok = True, pr_error = None, pr_noop = True, pr_pending = False\<rparr>"

definition play_ok :: "bool \<Rightarrow> play_reply" where
  "play_ok pending = \<lparr>pr_ok = True, pr_error = None, pr_noop = False, pr_pending = pending\<rparr>"

text \<open>The locked half of \<open>request\<close>: an early reply, or the change.\<close>

definition change :: "string \<Rightarrow> fields \<Rightarrow> rat \<Rightarrow> int \<Rightarrow> pb_mode \<Rightarrow> playback \<Rightarrow> play_reply + playback" where
  "change op params clock mns cur ps =
     (if op = ''pause''
      then (if cur = Paused then Inl play_noop else Inr (ps\<lparr>pb_state := Paused\<rparr>))
      else if op = ''resume''
      then (if cur = Playing then Inl play_noop
            else if pb_frames ps = 0 \<and> pa_anchor (pb_pacer ps) \<noteq> None then Inr (release clock mns ps)
            else Inr (ps\<lparr>pb_state := Playing, pb_pacer := rebase mns (pb_pacer ps)\<rparr>))
      else if op = ''set_speed''
      then (case float_value (get_key params ''speed'') of
              None \<Rightarrow> Inl (play_error ([CHR 39] @ ''speed'' @ [CHR 39] @ '' must be a number >= 0''))
            | Some speed \<Rightarrow>
                if negative speed then Inl (play_error ([CHR 39] @ ''speed'' @ [CHR 39] @ '' must be >= 0''))
                else if same_float speed (pa_speed (pb_pacer ps)) then Inl play_noop
                else Inr (ps\<lparr>pb_pacer := set_speed speed mns (pb_pacer ps)\<rparr>))
      else if op = ''set_loop''
      then (case get_key params ''loop'' of
              JBool b \<Rightarrow> if b = pb_loop ps then Inl play_noop else Inr (ps\<lparr>pb_loop := b\<rparr>)
            | _ \<Rightarrow> Inl (play_error ([CHR 39] @ ''loop'' @ [CHR 39] @ '' must be true or false'')))
      else Inr (ps\<lparr>pb_restart_pending := True\<rparr>))"

definition request_locked :: "string \<Rightarrow> fields \<Rightarrow> rat \<Rightarrow> int \<Rightarrow> playback \<Rightarrow> play_reply option \<times> playback" where
  "request_locked op params clock mns ps =
     (let ps = ps\<lparr>pb_gate_armed := False\<rparr>; cur = pb_state ps in
      if op \<notin> set OPS then (Some (play_error (''unknown op '' @ op)), ps)
      else if cur = Finished \<and> \<not> (op = ''restart'' \<and> pb_restartable ps) then (Some (play_error ''playback has finished''), ps)
      else let ps = (if cur = Finished then ps\<lparr>pb_state := Playing\<rparr> else ps) in
           case change op params clock mns cur ps of
             Inl r \<Rightarrow> (Some r, ps)
           | Inr ps \<Rightarrow> (None, ps\<lparr>pb_since := clock, pb_last_error := None\<rparr>))"

text \<open>The rest of a restart: the source's hook (an exception is \<open>Inl\<close>), then the bounded wait, in which the feeder
  may take the flag.\<close>

definition restart_finish :: "(playback \<Rightarrow> (string + unit) \<times> playback) option \<Rightarrow> bool \<Rightarrow> playback \<Rightarrow> play_reply \<times> playback" where
  "restart_finish hook took ps =
     (case (case hook of None \<Rightarrow> (Inr (), ps) | Some f \<Rightarrow> f ps) of
        (Inl e, ps) \<Rightarrow>
          (play_error (''restart failed: '' @ e), ps\<lparr>pb_restart_pending := False, pb_last_error := Some (''restart failed: '' @ e)\<rparr>)
      | (Inr _, ps) \<Rightarrow>
          let ps = (if took then snd (take_restart ps) else ps)
          in (play_ok (pb_restart_pending ps), pb_notify ps))"

definition play_request ::
  "(playback \<Rightarrow> (string + unit) \<times> playback) option \<Rightarrow> bool \<Rightarrow> string \<Rightarrow> fields \<Rightarrow> rat \<Rightarrow> int \<Rightarrow> playback \<Rightarrow> play_reply \<times> playback" where
  "play_request hook took op params clock mns ps =
     (case request_locked op params clock mns ps of
        (Some r, ps) \<Rightarrow> (r, ps)
      | (None, ps) \<Rightarrow> if op = ''restart'' then restart_finish hook took ps else (play_ok False, pb_notify ps))"

text \<open>The timer: the request it makes is a resume.\<close>

definition fire_gate :: "rat \<Rightarrow> int \<Rightarrow> playback \<Rightarrow> playback" where
  "fire_gate clock mns ps =
     (if \<not> pb_gate_armed ps then ps
      else let ps = ps\<lparr>pb_gate_armed := False\<rparr>
           in if pb_state ps = Paused then snd (play_request None False ''resume'' [] clock mns ps) else ps)"

section \<open>What a request does\<close>

text \<open>The request names a change, not the value already there or one that is no value.\<close>

definition changes :: "string \<Rightarrow> fields \<Rightarrow> playback \<Rightarrow> bool" where
  "changes op params ps \<longleftrightarrow>
     (if op = ''set_speed''
      then (case float_value (get_key params ''speed'') of None \<Rightarrow> False
            | Some v \<Rightarrow> \<not> negative v \<and> \<not> same_float v (pa_speed (pb_pacer ps)))
      else if op = ''set_loop'' then get_key params ''loop'' = JBool (\<not> pb_loop ps)
      else True)"

lemma release_state [simp]: "pb_state (release c m ps) = Playing"
  by (simp add: release_def)

lemma change_None: "op \<in> set OPS \<Longrightarrow> cur = pb_state ps \<Longrightarrow> cur \<noteq> Finished \<Longrightarrow>
    (\<exists>ps'. change op params c m cur ps = Inr ps') \<longleftrightarrow> op \<in> set (controls ps) \<and> changes op params ps"
  by (cases cur) (auto simp: change_def controls_def changes_def OPS_def split: option.splits json.splits)

lemma change_restart: "change ''restart'' params c m cur ps = Inr (ps\<lparr>pb_restart_pending := True\<rparr>)"
  by (simp add: change_def)

lemma request_locked_cases:
  assumes "request_locked op params c m ps = (r, ps')"
  obtains (refused) reply where "r = Some reply" "ps' = ps\<lparr>pb_gate_armed := False\<rparr>" "op \<notin> set (controls ps) \<or> \<not> changes op params ps"
  | (carried) q where "r = None" "ps' = q\<lparr>pb_since := c, pb_last_error := None\<rparr>" "op \<in> set (controls ps)" "changes op params ps"
      "change op params c m (pb_state ps)
        (if pb_state ps = Finished then ps\<lparr>pb_gate_armed := False, pb_state := Playing\<rparr> else ps\<lparr>pb_gate_armed := False\<rparr>) = Inr q"
proof -
  let ?g = "ps\<lparr>pb_gate_armed := False\<rparr>"
  have ctl: "controls ?g = controls ps" "changes op params ?g = changes op params ps" by (simp_all add: controls_def changes_def split: option.split)
  consider "op \<notin> set OPS" | "op \<in> set OPS" "pb_state ps = Finished" "\<not> (op = ''restart'' \<and> pb_restartable ps)"
    | "op \<in> set OPS" "pb_state ps = Finished" "op = ''restart''" "pb_restartable ps" | "op \<in> set OPS" "pb_state ps \<noteq> Finished" by blast
  then show ?thesis
  proof cases
    case 1
    then have "op \<notin> set (controls ps)" by (auto simp: controls_def OPS_def split: if_splits)
    then show ?thesis using assms 1 by (intro refused) (auto simp: request_locked_def Let_def)
  next
    case 2
    then have "op \<notin> set (controls ps)" by (auto simp: controls_def)
    then show ?thesis using assms 2 by (intro refused) (auto simp: request_locked_def Let_def)
  next
    case 3
    then show ?thesis using assms
      by (intro carried) (auto simp: request_locked_def Let_def change_restart controls_def changes_def OPS_def)
  next
    case 4
    show ?thesis
    proof (cases "change op params c m (pb_state ps) ?g")
      case (Inl x)
      then have "\<not> (op \<in> set (controls ?g) \<and> changes op params ?g)"
        using change_None[OF 4(1), of "pb_state ps" ?g params c m] 4(2) by simp
      then show ?thesis using assms Inl 4 unfolding ctl by (intro refused) (auto simp: request_locked_def Let_def)
    next
      case (Inr q)
      then have "op \<in> set (controls ?g) \<and> changes op params ?g"
        using change_None[OF 4(1), of "pb_state ps" ?g params c m] 4(2) by simp
      then show ?thesis using assms Inr 4 unfolding ctl by (intro carried) (auto simp: request_locked_def Let_def)
    qed
  qed
qed


definition held :: playback where
  "held = new_playback (JNum 1) False ''paused'' None True 0 0"


section \<open>Restarts\<close>

text \<open>The threads, with ghost counters: restarts accepted, restarts taken.  A take is a true \<open>take_restart\<close> or a
  \<open>Restart\<close> verdict.\<close>

inductive play_run :: "nat \<Rightarrow> nat \<Rightarrow> playback \<Rightarrow> bool" where
  Boot: "play_run 0 0 (new_playback speed loop initial at_s restartable clock mns)"
| Refused: "play_run a t ps \<Longrightarrow> request_locked op params clock mns ps = (Some r, ps') \<Longrightarrow> play_run a t ps'"
| Changed: "play_run a t ps \<Longrightarrow> request_locked op params clock mns ps = (None, ps') \<Longrightarrow> op \<noteq> ''restart'' \<Longrightarrow> play_run a t (pb_notify ps')"
| Restarted: "play_run a t ps \<Longrightarrow> request_locked ''restart'' params clock mns ps = (None, ps') \<Longrightarrow> play_run (a + 1) t ps'"
| Hook_failed: "play_run a t ps \<Longrightarrow> play_run a t (ps\<lparr>pb_restart_pending := False, pb_last_error := Some e\<rparr>)"
| Replied: "play_run a t ps \<Longrightarrow> play_run a t (pb_notify ps)"
| Took: "play_run a t ps \<Longrightarrow> take_restart ps = (True, ps') \<Longrightarrow> play_run a (t + 1) ps'"
| Took_none: "play_run a t ps \<Longrightarrow> take_restart ps = (False, ps') \<Longrightarrow> play_run a t ps'"
| Verdict_restart: "play_run a t ps \<Longrightarrow> paused_turn cancelled ps = (Some Restart, ps') \<Longrightarrow> play_run a (t + 1) ps'"
| Verdict: "play_run a t ps \<Longrightarrow> paused_turn cancelled ps = (v, ps') \<Longrightarrow> v \<noteq> Some Restart \<Longrightarrow> play_run a t ps'"
| Preroll: "play_run a t ps \<Longrightarrow> play_run a t (snd (take_preroll ps))"
| Frame: "play_run a t ps \<Longrightarrow> play_run a t (note_frame ts base ps)"
| Cycle: "play_run a t ps \<Longrightarrow> play_run a t (mark_cycle c ps)"
| Finish: "play_run a t ps \<Longrightarrow> play_run a t (mark_finished clock e ps)"
| Gate: "play_run a t ps \<Longrightarrow> play_run a t (fire_gate clock mns ps)"
| Pacer: "play_run a t ps \<Longrightarrow> play_run a t (ps\<lparr>pb_pacer := p\<rparr>)"

text \<open>The state owes at most what was accepted and not yet taken; a position is never negative.\<close>

definition play_inv :: "nat \<Rightarrow> nat \<Rightarrow> playback \<Rightarrow> bool" where
  "play_inv a t ps \<longleftrightarrow> t + (if pb_restart_pending ps then 1 else 0) \<le> a \<and> 0 \<le> pb_position_ns ps"

lemma release_fields [simp]:
  "pb_restart_pending (release c m ps) = pb_restart_pending ps" "pb_position_ns (release c m ps) = pb_position_ns ps"
  by (simp_all add: release_def)

lemma change_fields:
  "change op params c m cur ps = Inr ps' \<Longrightarrow> pb_position_ns ps' = pb_position_ns ps \<and>
   (op \<noteq> ''restart'' \<and> op \<in> set OPS \<longrightarrow> pb_restart_pending ps' = pb_restart_pending ps)"
  by (auto simp: change_def OPS_def split: if_splits option.splits json.splits)

lemma request_locked_fields:
  assumes "request_locked op params c m ps = (r, ps')"
  shows "pb_position_ns ps' = pb_position_ns ps" "op \<noteq> ''restart'' \<or> r \<noteq> None \<Longrightarrow> pb_restart_pending ps' = pb_restart_pending ps"
proof -
  have "pb_position_ns ps' = pb_position_ns ps \<and> (op \<noteq> ''restart'' \<or> r \<noteq> None \<longrightarrow> pb_restart_pending ps' = pb_restart_pending ps)"
    using assms
  proof (cases rule: request_locked_cases)
    case (carried q)
    then have "op \<in> set OPS" by (auto simp: controls_def OPS_def split: if_splits)
    then show ?thesis using carried change_fields[OF carried(5)] by (auto split: if_splits)
  qed simp
  then show "pb_position_ns ps' = pb_position_ns ps" "op \<noteq> ''restart'' \<or> r \<noteq> None \<Longrightarrow> pb_restart_pending ps' = pb_restart_pending ps"
    by blast+
qed

lemma fire_gate_fields: "pb_restart_pending (fire_gate c m ps) = pb_restart_pending ps \<and> pb_position_ns (fire_gate c m ps) = pb_position_ns ps"
proof -
  let ?ps = "ps\<lparr>pb_gate_armed := False\<rparr>"
  obtain r q where r: "request_locked ''resume'' [] c m ?ps = (r, q)" by fastforce
  have "pb_restart_pending q = pb_restart_pending ps" "pb_position_ns q = pb_position_ns ps"
    using request_locked_fields[OF r] by simp_all
  then show ?thesis
    by (auto simp: fire_gate_def Let_def play_request_def r pb_notify_def split: option.splits)
qed

lemma arm_fields: "pb_restart_pending (arm_start_gate x c m ps) = pb_restart_pending ps \<and> pb_position_ns (arm_start_gate x c m ps) = pb_position_ns ps"
  by (simp add: arm_start_gate_def)

lemma play_run_ok: "play_run a t ps \<Longrightarrow> play_inv a t ps"
proof (induction rule: play_run.induct)
  case (Boot speed loop initial at_s restartable clock mns)
  then show ?case by (simp add: play_inv_def new_playback_def Let_def arm_fields split: option.split)
next
  case (Refused a t ps op params clock mns r ps')
  then show ?case using request_locked_fields[OF Refused(2)] by (simp add: play_inv_def)
next
  case (Changed a t ps op params clock mns ps')
  then show ?case using request_locked_fields[OF Changed(2)] by (simp add: play_inv_def pb_notify_def)
next
  case (Restarted a t ps params clock mns ps')
  then show ?case using request_locked_fields(1)[OF Restarted(2)] by (auto simp: play_inv_def split: if_splits)
next
  case (Gate a t ps clock mns)
  then show ?case using fire_gate_fields[of clock mns ps] by (simp add: play_inv_def)
qed (auto simp: play_inv_def pb_notify_def take_restart_def paused_turn_def take_preroll_def note_frame_def mark_cycle_def
    mark_finished_def Let_def split: if_splits)

text \<open>C24: a restart is honoured once.  In every interleaving of the feeder, the timer and the controls, no more restarts are
  taken than were accepted, and when all were taken none is pending, so no cycle restarts on its first frame
  for ever; and the position never goes below the start.\<close>

theorem restart_honoured_once:
  assumes "play_run accepted took ps"
  shows "took \<le> accepted \<and> (took = accepted \<longrightarrow> \<not> fst (take_restart ps) \<and> fst (paused_turn cancelled ps) \<noteq> Some Restart)
    \<and> 0 \<le> pb_position_ns ps"
  using play_run_ok[OF assms] by (auto simp: play_inv_def take_restart_def paused_turn_def split: if_splits)

theorem restart_honoured_once_witness:
  "\<exists>ps. play_run 1 1 ps \<and> \<not> fst (take_restart ps) \<and> fst (paused_turn False ps) \<noteq> Some Restart \<and> pb_state ps = Paused"
proof -
  have r: "request_locked ''restart'' [] 1 1 held = (None, held\<lparr>pb_gate_armed := False, pb_restart_pending := True, pb_since := 1\<rparr>)"
    by (simp add: held_def new_playback_def request_locked_def OPS_def change_def)
  define ps where "ps = held\<lparr>pb_gate_armed := False, pb_restart_pending := False, pb_since := 1\<rparr>"
  have "play_run 1 1 ps"
    using play_run.Took[OF play_run.Restarted[OF play_run.Boot r[unfolded held_def]], of ps]
    by (simp add: take_restart_def ps_def held_def)
  moreover have "pb_state ps = Paused" by (simp add: ps_def held_def new_playback_def)
  ultimately show ?thesis using restart_honoured_once[of 1 1 ps False] by blast
qed

section \<open>Pacing\<close>

text \<open>The instants at which the feeder leaves \<open>wait\<close> (a sleep that is not cancelled lasts as long as asked), for
  frames of given data time and arrival.\<close>

fun wakes :: "(int \<times> int) list \<Rightarrow> pacer \<Rightarrow> int option list" where
  "wakes [] p = []"
| "wakes ((ts, arrival) # fs) p =
     (case pacer_wait ts arrival p of (d, p) \<Rightarrow> map_option ((+) arrival) d # wakes fs p)"

lemma trunc_rat_nonneg: "0 \<le> x \<Longrightarrow> 0 \<le> trunc_rat x"
  using trunc_rat_mono[of 0 x] trunc_rat_int[of 0] by simp

lemma wait_anchored:
  assumes "pa_speed p = JNum s" "s > 0" "pa_t0_src p = Some t0"
  shows "pacer_wait ts now p = (Some (max 0 (pa_t0_wall p + trunc_rat (of_int (ts - t0) / s) - now)), p\<lparr>pa_last_src := Some ts\<rparr>)"
  using assms by (simp add: pacer_wait_def Let_def unpaced_def until_due_def over_speed_def)

lemma wakes_anchored:
  assumes "pa_speed p = JNum s" "s > 0" "pa_t0_src p = Some t0"
  shows "wakes fs p = map (\<lambda>(ts, arrival). Some (max arrival (pa_t0_wall p + trunc_rat (of_int (ts - t0) / s)))) fs"
  using assms
proof (induction fs arbitrary: p)
  case (Cons f fs)
  obtain ts arrival where f: "f = (ts, arrival)" by (cases f)
  show ?case using Cons.IH[of "p\<lparr>pa_last_src := Some ts\<rparr>"] Cons.prems
    by (simp add: f wait_anchored[OF Cons.prems])
qed simp

text \<open>C36: pacing.  From the first frame on, and again from any resume or change of speed at an instant
  \<open>u\<close>, a frame is released exactly at its arrival or at its due time on the data's own timeline, whichever is
  later; so after a change nothing is caught up: frames not older than the last one are due no earlier than \<open>u\<close>.\<close>

theorem pacing_exact:
  assumes "s > 0"
  shows "(pa_t0_src p = None \<and> pa_anchor p = None \<and> pa_speed p = JNum s \<longrightarrow>
      wakes ((ts0, a0) # fs) p = Some a0 # map (\<lambda>(ts, a). Some (max a (a0 + trunc_rat (of_int (ts - ts0) / s)))) fs)
    \<and> (pa_last_src p = Some l \<longrightarrow>
      wakes fs (set_speed (JNum s) u p) = map (\<lambda>(ts, a). Some (max a (u + trunc_rat (of_int (ts - l) / s)))) fs
      \<and> (\<forall>(ts, a) \<in> set fs. l \<le> ts \<longrightarrow> u \<le> max a (u + trunc_rat (of_int (ts - l) / s))))"
proof
  show "pa_t0_src p = None \<and> pa_anchor p = None \<and> pa_speed p = JNum s \<longrightarrow>
      wakes ((ts0, a0) # fs) p = Some a0 # map (\<lambda>(ts, a). Some (max a (a0 + trunc_rat (of_int (ts - ts0) / s)))) fs"
  proof
    assume p: "pa_t0_src p = None \<and> pa_anchor p = None \<and> pa_speed p = JNum s"
    let ?q = "p\<lparr>pa_last_src := Some ts0, pa_t0_src := Some ts0, pa_t0_wall := a0\<rparr>"
    have "pacer_wait ts0 a0 p = (Some 0, ?q)" using p assms by (simp add: pacer_wait_def Let_def unpaced_def)
    then show "wakes ((ts0, a0) # fs) p = Some a0 # map (\<lambda>(ts, a). Some (max a (a0 + trunc_rat (of_int (ts - ts0) / s)))) fs"
      using wakes_anchored[of ?q s ts0 fs] p assms by simp
  qed
  have "u \<le> u + trunc_rat (of_int (ts - l) / s)" if "l \<le> ts" for ts
    using trunc_rat_nonneg[of "of_int (ts - l) / s"] that assms by simp
  then show "pa_last_src p = Some l \<longrightarrow>
      wakes fs (set_speed (JNum s) u p) = map (\<lambda>(ts, a). Some (max a (u + trunc_rat (of_int (ts - l) / s)))) fs
      \<and> (\<forall>(ts, a) \<in> set fs. l \<le> ts \<longrightarrow> u \<le> max a (u + trunc_rat (of_int (ts - l) / s)))"
    using wakes_anchored[of "set_speed (JNum s) u p" s l fs] assms
    by (fastforce simp: set_speed_def rebase_def le_max_iff_disj)
qed

theorem pacing_exact_witness:
  "wakes [(100, 7), (300, 8), (500, 400)] (new_pacer (JNum 2) None) = [Some 7, Some 107, Some 400]
   \<and> wakes [(600, 1000)] (set_speed (JNum (1 / 2)) 900 ((new_pacer (JNum 2) None)\<lparr>pa_last_src := Some 500\<rparr>)) = [Some 1100]"
proof -
  have t: "trunc_rat 100 = 100" "trunc_rat 200 = 200" using trunc_rat_int[of 100] trunc_rat_int[of 200] by simp_all
  show ?thesis
    using pacing_exact[of 2 "new_pacer (JNum 2) None" 100 7 "[(300, 8), (500, 400)]"]
      pacing_exact[of "1 / 2" "(new_pacer (JNum 2) None)\<lparr>pa_last_src := Some 500\<rparr>" 0 0 "[(600, 1000)]" 500 900]
    by (simp add: new_pacer_def t)
qed

section \<open>The position\<close>

text \<open>the reported position.  For a finite speed the descriptor always has one, and it lies between the
  start and the duration.\<close>

theorem position_bounded:
  assumes "pa_speed (pb_pacer ps) = JNum s"
  shows "\<exists>pos. timeline_position_ns mns ps = Some pos \<and> 0 \<le> pos
    \<and> (\<forall>d t0. pb_duration_s ps = Some d \<and> 0 \<le> d \<and> pb_state ps = Playing \<and> pa_t0_src (pb_pacer ps) = Some t0 \<and> s > 0
         \<longrightarrow> of_int pos \<le> d * 1000000000)"
proof -
  have trunc: "0 \<le> x \<Longrightarrow> of_int (trunc_rat x) \<le> x" for x :: rat by (simp add: trunc_rat_def of_int_floor_le)
  have clip: "of_int (max 0 (clip_duration (Some d) x)) \<le> d * 1000000000" if "0 \<le> d" for d :: rat and x
  proof -
    have "0 \<le> d * 1000000000" using that by simp
    then have "of_int (trunc_rat (d * 1000000000)) \<le> d * 1000000000" by (rule trunc)
    moreover have "of_int (clip_duration (Some d) x) \<le> (of_int (trunc_rat (d * 1000000000)) :: rat)"
      by (simp add: clip_duration_def)
    ultimately show ?thesis using \<open>0 \<le> d * 1000000000\<close> by (simp add: max_def)
  qed
  show ?thesis
  proof (cases "\<exists>t0. pa_t0_src (pb_pacer ps) = Some t0 \<and> pb_state ps = Playing \<and> s > 0")
    case True
    then obtain t0 where t0: "pa_t0_src (pb_pacer ps) = Some t0" "pb_state ps = Playing" "s > 0" by blast
    then obtain x where x: "timeline_position_ns mns ps = Some (max 0 (clip_duration (pb_duration_s ps) x))"
      using assms by (simp add: timeline_position_ns_def positive_def times_speed_def Let_def)
    show ?thesis unfolding x using clip by auto
  next
    case False
    then have "timeline_position_ns mns ps = Some (max 0 (pb_position_ns ps))"
      using assms by (auto simp: timeline_position_ns_def positive_def split: option.split)
    then show ?thesis using False by auto
  qed
qed

definition playing_at :: "json \<Rightarrow> playback" where
  "playing_at speed = (new_playback (JNum 1) False ''playing'' None True 0 0)
     \<lparr>pb_duration_s := Some 60, pb_pacer := (new_pacer speed None)\<lparr>pa_t0_src := Some 0, pa_t0_wall := 0, pa_last_src := Some 0\<rparr>\<rparr>"

theorem position_bounded_witness:
  "\<exists>pos. timeline_position_ns 90000000000 (playing_at (JNum 2)) = Some pos \<and> 0 \<le> pos \<and> of_int pos \<le> (60 :: rat) * 1000000000"
  using position_bounded[of "playing_at (JNum 2)" 2 90000000000]
  by (simp add: playing_at_def new_playback_def new_pacer_def)

text \<open>a speed that is no finite number.  The check accepts what \<open>float\<close> reads as not a number or as infinite:
  after such a \<open>set_speed\<close> during playback the feeder's wait raises for the first, and
  the descriptor - with it every reply and every notification - for the second.\<close>

theorem nonfinite_speed_accepted:
  "(let r = request_locked ''set_speed'' [(''speed'', JStr ''nan'')] 1 5 (playing_at (JNum 1)) in
      fst r = None \<and> fst (pacer_wait 7 9 (pb_pacer (snd r))) = None)
   \<and> (let r = request_locked ''set_speed'' [(''speed'', JStr ''inf'')] 1 5 (playing_at (JNum 1)) in
      fst r = None \<and> play_descriptor 9 (snd r) = None)"
  by code_simp

end
