(* ===== verification/Drop_Stats.thy ===== *)
theory Drop_Stats
  imports Cam_Prelude
begin

text \<open>
  \<open>core-driver/cam_driver/dropstats.py\<close>: the frame-drop accounting of the capture process.
  The class is the record \<open>drop_stats\<close>, one operation per method; \<open>summary\<close> is the dict the
  sidecar stores and \<open>delta\<close> a session's share of it.  The lemmas relate the counters to the
  sequence of observed frame ids.
\<close>

record drop_stats =
  ds_frames :: int
  ds_source_gaps :: int
  ds_frames_missing :: int
  ds_enqueue_failures :: int
  ds_publish_drops :: int
  ds_pts_rebases :: int
  ds_last_fid :: "int option"

definition new_drop_stats :: drop_stats where
  "new_drop_stats = \<lparr>ds_frames = 0, ds_source_gaps = 0, ds_frames_missing = 0,
     ds_enqueue_failures = 0, ds_publish_drops = 0, ds_pts_rebases = 0, ds_last_fid = None\<rparr>"

definition observe_frame :: "int \<Rightarrow> drop_stats \<Rightarrow> int \<times> drop_stats" where
  "observe_frame frame_id s =
     (let s1 = s\<lparr>ds_frames := ds_frames s + 1\<rparr>;
          (gap, s2) =
            (case ds_last_fid s1 of
               None \<Rightarrow> (0, s1)
             | Some l \<Rightarrow>
                 if frame_id > l + 1 then
                   let gap = frame_id - l - 1 in
                   (gap, s1\<lparr>ds_source_gaps := ds_source_gaps s1 + 1,
                            ds_frames_missing := ds_frames_missing s1 + gap\<rparr>)
                 else (0, s1))
      in (gap, s2\<lparr>ds_last_fid := Some frame_id\<rparr>))"

definition resync :: "drop_stats \<Rightarrow> drop_stats" where
  "resync s = s\<lparr>ds_last_fid := None\<rparr>"

definition note_enqueue_failure :: "drop_stats \<Rightarrow> drop_stats" where
  "note_enqueue_failure s = s\<lparr>ds_enqueue_failures := ds_enqueue_failures s + 1\<rparr>"

definition note_publish_drop :: "drop_stats \<Rightarrow> drop_stats" where
  "note_publish_drop s = s\<lparr>ds_publish_drops := ds_publish_drops s + 1\<rparr>"

definition note_pts_rebase :: "drop_stats \<Rightarrow> drop_stats" where
  "note_pts_rebase s = s\<lparr>ds_pts_rebases := ds_pts_rebases s + 1\<rparr>"

text \<open>The dict, in the code's key order.\<close>

definition summary :: "drop_stats \<Rightarrow> (string \<times> int) list" where
  "summary s =
     [(''frames'', ds_frames s), (''source_gaps'', ds_source_gaps s),
      (''frames_missing'', ds_frames_missing s), (''enqueue_failures'', ds_enqueue_failures s),
      (''publish_drops'', ds_publish_drops s), (''pts_rebases'', ds_pts_rebases s)]"

definition delta :: "(string \<times> int) list \<Rightarrow> (string \<times> int) list \<Rightarrow> (string \<times> int) list" where
  "delta now start =
     map (\<lambda>(k, v). (k, v - (case map_of start k of None \<Rightarrow> 0 | Some w \<Rightarrow> w))) now"

section \<open>Runs\<close>

datatype drop_event =
  Observe int | Resync | Enqueue_Failure | Publish_Drop | Pts_Rebase

fun drop_step :: "drop_event \<Rightarrow> drop_stats \<Rightarrow> drop_stats" where
  "drop_step (Observe f) s = snd (observe_frame f s)"
| "drop_step Resync s = resync s"
| "drop_step Enqueue_Failure s = note_enqueue_failure s"
| "drop_step Publish_Drop s = note_publish_drop s"
| "drop_step Pts_Rebase s = note_pts_rebase s"

definition drop_run :: "drop_event list \<Rightarrow> drop_stats \<Rightarrow> drop_stats" where
  "drop_run es s = fold drop_step es s"

lemma drop_run_Nil [simp]: "drop_run [] s = s"
  and drop_run_Cons [simp]: "drop_run (e # es) s = drop_run es (drop_step e s)"
  and drop_run_append [simp]: "drop_run (es @ fs) s = drop_run fs (drop_run es s)"
  by (simp_all add: drop_run_def)

text \<open>What a stream of ids should be charged: the ids skipped going forward, pair by pair.\<close>

fun skipped :: "int list \<Rightarrow> int list" where
  "skipped (a # b # xs) = max 0 (b - a - 1) # skipped (b # xs)"
| "skipped _ = []"

lemmas drop_defs = observe_frame_def resync_def note_enqueue_failure_def note_publish_drop_def
  note_pts_rebase_def Let_def

lemma observe_frame_gap:
  "fst (observe_frame f s) =
     (case ds_last_fid s of None \<Rightarrow> 0 | Some l \<Rightarrow> max 0 (f - l - 1))"
  by (auto simp: drop_defs split: option.splits)

lemma observe_frame_state:
  "snd (observe_frame f s) =
     s\<lparr>ds_frames := ds_frames s + 1,
       ds_source_gaps := ds_source_gaps s + (if fst (observe_frame f s) > 0 then 1 else 0),
       ds_frames_missing := ds_frames_missing s + fst (observe_frame f s),
       ds_last_fid := Some f\<rparr>"
  by (auto simp: drop_defs split: option.splits)

lemma observe_run:
  "ds_last_fid s = Some l \<Longrightarrow>
     ds_frames (drop_run (map Observe fids) s) = ds_frames s + int (length fids)
   \<and> ds_frames_missing (drop_run (map Observe fids) s) = ds_frames_missing s + sum_list (skipped (l # fids))
   \<and> ds_source_gaps (drop_run (map Observe fids) s)
       = ds_source_gaps s + int (length (filter (\<lambda>g. g > 0) (skipped (l # fids))))"
proof (induction fids arbitrary: s l)
  case (Cons f fids)
  let ?s' = "snd (observe_frame f s)"
  have "ds_last_fid ?s' = Some f" by (simp add: observe_frame_state)
  from Cons.IH [OF this] Cons.prems show ?case
    by (simp add: observe_frame_state observe_frame_gap)
qed simp

lemma drop_counters:
  "ds_frames (drop_run (map Observe fids) new_drop_stats) = int (length fids)"
  "ds_frames_missing (drop_run (map Observe fids) new_drop_stats) = sum_list (skipped fids)"
  "ds_source_gaps (drop_run (map Observe fids) new_drop_stats)
     = int (length (filter (\<lambda>g. g > 0) (skipped fids)))"
proof -
  have "ds_frames (drop_run (map Observe fids) new_drop_stats) = int (length fids)
   \<and> ds_frames_missing (drop_run (map Observe fids) new_drop_stats) = sum_list (skipped fids)
   \<and> ds_source_gaps (drop_run (map Observe fids) new_drop_stats)
       = int (length (filter (\<lambda>g. g > 0) (skipped fids)))"
  proof (cases fids)
    case (Cons f fs)
    let ?s = "snd (observe_frame f new_drop_stats)"
    have "ds_last_fid ?s = Some f" by (simp add: observe_frame_state)
    from observe_run [OF this, of fs] Cons show ?thesis
      by (simp add: observe_frame_state observe_frame_gap new_drop_stats_def)
  qed (simp add: new_drop_stats_def)
  then show "ds_frames (drop_run (map Observe fids) new_drop_stats) = int (length fids)"
    "ds_frames_missing (drop_run (map Observe fids) new_drop_stats) = sum_list (skipped fids)"
    "ds_source_gaps (drop_run (map Observe fids) new_drop_stats)
       = int (length (filter (\<lambda>g. g > 0) (skipped fids)))"
    by blast+
qed

text \<open>on any sequence of frame ids the process counts every frame received, charges as
  missing exactly the forward id jumps (backward or repeated ids resync without a charge), and
  counts one source gap per positive jump.\<close>

theorem drop_accounting_exact:
  "ds_frames (drop_run (map Observe fids) new_drop_stats) = int (length fids)
   \<and> ds_frames_missing (drop_run (map Observe fids) new_drop_stats) = sum_list (skipped fids)
   \<and> ds_source_gaps (drop_run (map Observe fids) new_drop_stats)
       = int (length (filter (\<lambda>g. g > 0) (skipped fids)))"
by (simp add: drop_counters)

lemma sum_skipped_sorted:
  "sorted_wrt (<) (a # xs) \<Longrightarrow> int (length (a # xs)) + sum_list (skipped (a # xs)) = last (a # xs) - a + 1"
proof (induction xs arbitrary: a)
  case (Cons b xs)
  then have "sorted_wrt (<) (b # xs)" "a < b" by auto
  with Cons.IH [of b] show ?case by (cases xs) auto
qed simp

text \<open>conservation.  While ids only move forward, frames received plus frames charged as
  missing is exactly the span of ids the source emitted.\<close>

theorem drop_conservation:
  assumes "sorted_wrt (<) fids" "fids \<noteq> []"
  shows "ds_frames (drop_run (map Observe fids) new_drop_stats)
       + ds_frames_missing (drop_run (map Observe fids) new_drop_stats) = last fids - hd fids + 1"
proof -
  obtain a xs where "fids = a # xs" using assms(2) by (cases fids) auto
  with sum_skipped_sorted [of a xs] assms(1) show ?thesis
    by (simp only: drop_counters list.sel)
qed

theorem drop_conservation_witness:
  "ds_frames (drop_run (map Observe [3, 4, 9]) new_drop_stats)
   + ds_frames_missing (drop_run (map Observe [3, 4, 9]) new_drop_stats) = (7::int)"
  using drop_conservation [of "[3, 4, 9]"] by simp

section \<open>Session shares\<close>

lemma delta_summary:
  "delta (summary t) (summary s) =
     [(''frames'', ds_frames t - ds_frames s), (''source_gaps'', ds_source_gaps t - ds_source_gaps s),
      (''frames_missing'', ds_frames_missing t - ds_frames_missing s),
      (''enqueue_failures'', ds_enqueue_failures t - ds_enqueue_failures s),
      (''publish_drops'', ds_publish_drops t - ds_publish_drops s),
      (''pts_rebases'', ds_pts_rebases t - ds_pts_rebases s)]"
  by (simp add: delta_def summary_def)

text \<open>Two histories that agree on the last id charge the same amounts from there on.\<close>

definition same_charge :: "drop_stats \<Rightarrow> drop_stats \<Rightarrow> drop_stats \<Rightarrow> drop_stats \<Rightarrow> bool" where
  "same_charge s t s' t' \<longleftrightarrow> ds_last_fid s' = ds_last_fid t'
     \<and> delta (summary s') (summary s) = delta (summary t') (summary t)"

lemma drop_run_same_charge:
  "same_charge s t s' t' \<Longrightarrow> same_charge s t (drop_run es s') (drop_run es t')"
proof (induction es arbitrary: s' t')
  case (Cons e es)
  have "same_charge s t (drop_step e s') (drop_step e t')"
  proof (cases e)
    case (Observe f)
    then show ?thesis using Cons.prems
      by (simp add: same_charge_def delta_summary observe_frame_state observe_frame_gap)
  qed (use Cons.prems in \<open>auto simp: same_charge_def delta_summary drop_defs\<close>)
  from Cons.IH [OF this] show ?case by simp
qed simp

text \<open>a session's share is history-independent.  The counters accumulated between a session's
  opening and closing snapshots are those of a fresh process that starts at the same last id and
  sees only the session's events.\<close>

theorem session_share_history_independent:
  "delta (summary (drop_run es s)) (summary s)
   = summary (drop_run es (new_drop_stats\<lparr>ds_last_fid := ds_last_fid s\<rparr>))"
proof -
  let ?n = "new_drop_stats\<lparr>ds_last_fid := ds_last_fid s\<rparr>"
  have "same_charge s ?n s ?n"
    by (simp add: same_charge_def delta_summary)
  from drop_run_same_charge [OF this, of es]
  have "delta (summary (drop_run es s)) (summary s) = delta (summary (drop_run es ?n)) (summary ?n)"
    by (simp add: same_charge_def)
  also have "\<dots> = summary (drop_run es ?n)"
    unfolding delta_summary by (simp add: summary_def new_drop_stats_def)
  finally show ?thesis .
qed

lemma delta_empty_start: "delta (summary t) [] = summary t"
  by (simp add: delta_def summary_def)

end
