(* ===== verification/Timestamps.thy ===== *)
theory Timestamps
  imports Cam_Prelude
begin

text \<open>
  \<open>core-driver/cam_driver/timestamps.py\<close>: the per-frame timestamp ladder (PTP chunk, camera
  clock, host arrival).  An Aravis buffer is third-party data: the record \<open>abuf\<close> holds the four
  getters the code calls, and a chunk parser is a function from a node name and a buffer to the
  integer read, \<open>None\<close> where Aravis raises \<open>GLib.Error\<close>.
\<close>

datatype timestamp_source = PTP_CHUNK | CAMERA | SOF | RTP_NTP | SYSTEM

fun ts_value :: "timestamp_source \<Rightarrow> string" where
  "ts_value PTP_CHUNK = ''ptp_chunk''"
| "ts_value CAMERA = ''camera''"
| "ts_value SOF = ''sof''"
| "ts_value RTP_NTP = ''rtp_ntp''"
| "ts_value SYSTEM = ''system''"

text \<open>\<open>TimestampSource(s)\<close>: \<open>None\<close> is the \<open>ValueError\<close> of an unknown value.\<close>

definition ts_of_value :: "string \<Rightarrow> timestamp_source option" where
  "ts_of_value s =
     (if s = ''ptp_chunk'' then Some PTP_CHUNK
      else if s = ''camera'' then Some CAMERA
      else if s = ''sof'' then Some SOF
      else if s = ''rtp_ntp'' then Some RTP_NTP
      else if s = ''system'' then Some SYSTEM
      else None)"

record frame_stamp =
  fs_frame_id :: int
  fs_timestamp_ns :: int
  fs_source :: timestamp_source
  fs_system_ns :: int
  fs_camera_ns :: int
  fs_chunk_ns :: "int option"

record abuf =
  ab_system_timestamp :: int
  ab_timestamp :: int
  ab_frame_id :: int
  ab_has_chunks :: "bool option"  \<comment> \<open>\<open>None\<close>: the buffer has no \<open>has_chunks\<close> method\<close>

type_synonym chunk_parser = "string \<Rightarrow> abuf \<Rightarrow> int option"

record ts_extractor =
  te_parser :: "chunk_parser option"
  te_chunk_ts :: string
  te_chunk_fid :: string
  te_prefer :: timestamp_source
  te_tick_hz :: int
  te_active :: "timestamp_source option"
  te_ptp_locked :: bool

definition new_extractor ::
  "chunk_parser option \<Rightarrow> timestamp_source \<Rightarrow> int \<Rightarrow> ts_extractor" where
  "new_extractor parser prefer hz =
     \<lparr>te_parser = parser, te_chunk_ts = ''ChunkTimestamp'', te_chunk_fid = ''ChunkFrameID'',
      te_prefer = prefer, te_tick_hz = hz, te_active = None, te_ptp_locked = False\<rparr>"

definition set_chunk_parser :: "chunk_parser option \<Rightarrow> int option \<Rightarrow> ts_extractor \<Rightarrow> ts_extractor" where
  "set_chunk_parser parser hz te =
     (let te = te\<lparr>te_parser := parser\<rparr>
      in case hz of None \<Rightarrow> te | Some h \<Rightarrow> te\<lparr>te_tick_hz := h\<rparr>)"

definition active_source :: "ts_extractor \<Rightarrow> timestamp_source" where
  "active_source te = (case te_active te of None \<Rightarrow> SYSTEM | Some a \<Rightarrow> a)"

text \<open>The ladder dict has keys for the three GigE preferences only; another key is a KeyError.\<close>

datatype ts_error = Ladder_KeyError timestamp_source

fun ts_ladder :: "timestamp_source \<Rightarrow> ts_error + timestamp_source list" where
  "ts_ladder PTP_CHUNK = Inr [PTP_CHUNK, CAMERA, SYSTEM]"
| "ts_ladder CAMERA = Inr [CAMERA, SYSTEM]"
| "ts_ladder SYSTEM = Inr [SYSTEM]"
| "ts_ladder p = Inl (Ladder_KeyError p)"

fun first_usable :: "bool \<Rightarrow> timestamp_source list \<Rightarrow> timestamp_source" where
  "first_usable chunks_ok [] = SYSTEM"
| "first_usable chunks_ok (c # cs) =
     (if c = PTP_CHUNK \<and> \<not> chunks_ok then first_usable chunks_ok cs else c)"

text \<open>The state is updated (\<open>_ptp_locked\<close>) before the ladder lookup can raise.\<close>

definition resolve_active_source ::
  "bool \<Rightarrow> bool \<Rightarrow> ts_extractor \<Rightarrow> (ts_error + timestamp_source) \<times> ts_extractor" where
  "resolve_active_source ptp_locked chunks_enabled te =
     (let te = te\<lparr>te_ptp_locked := ptp_locked\<rparr>
      in case ts_ladder (te_prefer te) of
           Inl e \<Rightarrow> (Inl e, te)
         | Inr ladder \<Rightarrow>
             let chosen = first_usable (chunks_enabled \<and> te_parser te \<noteq> None) ladder
             in (Inr chosen, te\<lparr>te_active := Some chosen\<rparr>))"

definition ticks_to_ns :: "ts_extractor \<Rightarrow> int \<Rightarrow> int" where
  "ticks_to_ns te raw =
     (if te_tick_hz te \<noteq> 0 \<and> te_tick_hz te \<noteq> 1000000000
      then raw * 1000000000 div te_tick_hz te else raw)"

definition read_chunk_int :: "ts_extractor \<Rightarrow> string \<Rightarrow> abuf \<Rightarrow> int option" where
  "read_chunk_int te name buf =
     (case te_parser te of
        None \<Rightarrow> None
      | Some p \<Rightarrow> if ab_has_chunks buf = Some False then None else p name buf)"

definition extract_stamp :: "ts_extractor \<Rightarrow> abuf \<Rightarrow> frame_stamp" where
  "extract_stamp te buf =
     (let system_ns = ab_system_timestamp buf;
          camera_ns = ab_timestamp buf;
          gvsp_fid = ab_frame_id buf;
          chunk_ns = (case te_parser te of None \<Rightarrow> None
                      | Some _ \<Rightarrow> map_option (ticks_to_ns te) (read_chunk_int te (te_chunk_ts te) buf));
          chunk_fid = (case te_parser te of None \<Rightarrow> None
                       | Some _ \<Rightarrow> read_chunk_int te (te_chunk_fid te) buf);
          frame_id = (case chunk_fid of Some f \<Rightarrow> f | None \<Rightarrow> gvsp_fid);
          active = active_source te;
          (ts, used) =
            (if active = PTP_CHUNK \<and> chunk_ns \<noteq> None then (the chunk_ns, PTP_CHUNK)
             else if (active = PTP_CHUNK \<or> active = CAMERA) \<and> camera_ns > 0 then (camera_ns, CAMERA)
             else (system_ns, SYSTEM))
      in \<lparr>fs_frame_id = frame_id, fs_timestamp_ns = ts, fs_source = used,
          fs_system_ns = system_ns, fs_camera_ns = camera_ns, fs_chunk_ns = chunk_ns\<rparr>)"

section \<open>Properties\<close>

lemma ts_of_value_value [simp]: "ts_of_value (ts_value s) = Some s"
  by (cases s) (simp_all add: ts_of_value_def)

lemma ts_of_value_Some: "ts_of_value v = Some s \<Longrightarrow> ts_value s = v"
  by (auto simp: ts_of_value_def split: if_splits)

text \<open>The field a provenance names.\<close>

definition stamp_candidate :: "frame_stamp \<Rightarrow> int option" where
  "stamp_candidate st =
     (case fs_source st of
        PTP_CHUNK \<Rightarrow> fs_chunk_ns st
      | CAMERA \<Rightarrow> (if fs_camera_ns st > 0 then Some (fs_camera_ns st) else None)
      | SYSTEM \<Rightarrow> Some (fs_system_ns st)
      | _ \<Rightarrow> None)"

text \<open>How good a source is: a per-frame degrade only goes down.\<close>

fun ts_rank :: "timestamp_source \<Rightarrow> nat" where
  "ts_rank PTP_CHUNK = 2"
| "ts_rank CAMERA = 1"
| "ts_rank _ = 0"

lemmas extract_simps = extract_stamp_def active_source_def Let_def

lemma extract_rank: "ts_rank (fs_source (extract_stamp te buf)) \<le> ts_rank (active_source te)"
  by (auto simp: extract_simps split: option.splits)

lemma extract_candidate: "stamp_candidate (extract_stamp te buf) = Some (fs_timestamp_ns (extract_stamp te buf))"
  by (auto simp: extract_simps stamp_candidate_def split: option.splits)

text \<open>A frame degrades from the resolved source only because that source's reading is missing.\<close>

lemma extract_degrade:
  "active_source te = PTP_CHUNK \<Longrightarrow> fs_source (extract_stamp te buf) \<noteq> PTP_CHUNK \<Longrightarrow> fs_chunk_ns (extract_stamp te buf) = None"
  "active_source te \<in> {PTP_CHUNK, CAMERA} \<Longrightarrow> fs_source (extract_stamp te buf) = SYSTEM \<Longrightarrow> ab_timestamp buf \<le> 0"
  by (auto simp: extract_stamp_def Let_def split: if_splits)

text \<open>provenance is honest.  The timestamp a frame carries is the reading its recorded source
  names, that source never outranks the resolved time base, and a frame leaves the PTP chunk (or
  the camera clock) only when that reading is missing.\<close>

theorem extract_provenance:
  "stamp_candidate (extract_stamp te buf) = Some (fs_timestamp_ns (extract_stamp te buf))
   \<and> ts_rank (fs_source (extract_stamp te buf)) \<le> ts_rank (active_source te)
   \<and> (active_source te = PTP_CHUNK \<and> fs_source (extract_stamp te buf) \<noteq> PTP_CHUNK
        \<longrightarrow> fs_chunk_ns (extract_stamp te buf) = None)
   \<and> (active_source te \<in> {PTP_CHUNK, CAMERA} \<and> fs_source (extract_stamp te buf) = SYSTEM
        \<longrightarrow> ab_timestamp buf \<le> 0)"
  using extract_rank extract_candidate extract_degrade by blast

theorem extract_provenance_witness:
  "fs_source (extract_stamp (new_extractor (Some (\<lambda>n b. None)) PTP_CHUNK 0\<lparr>te_active := Some PTP_CHUNK\<rparr>)
     \<lparr>ab_system_timestamp = 9, ab_timestamp = 5, ab_frame_id = 1, ab_has_chunks = Some True\<rparr>) = CAMERA
   \<and> fs_chunk_ns (extract_stamp (new_extractor (Some (\<lambda>n b. None)) PTP_CHUNK 0\<lparr>te_active := Some PTP_CHUNK\<rparr>)
     \<lparr>ab_system_timestamp = 9, ab_timestamp = 5, ab_frame_id = 1, ab_has_chunks = Some True\<rparr>) = None"
proof -
  let ?te = "new_extractor (Some (\<lambda>n b. None)) PTP_CHUNK 0\<lparr>te_active := Some PTP_CHUNK\<rparr>"
  let ?buf = "\<lparr>ab_system_timestamp = 9, ab_timestamp = 5, ab_frame_id = 1, ab_has_chunks = Some True\<rparr>"
  have a: "active_source ?te = PTP_CHUNK" by (simp add: active_source_def)
  have s: "fs_source (extract_stamp ?te ?buf) = CAMERA"
    by (simp add: extract_simps new_extractor_def read_chunk_int_def)
  from extract_provenance [of ?te ?buf] a s show ?thesis by simp
qed

text \<open>Every preference the configuration offers resolves, to a source its ladder allows.\<close>

lemma resolve_result:
  "te_prefer te \<in> {PTP_CHUNK, CAMERA, SYSTEM} \<Longrightarrow>
     \<exists>c. resolve_active_source l ce te = (Inr c, te\<lparr>te_ptp_locked := l, te_active := Some c\<rparr>)
       \<and> ts_rank c \<le> ts_rank (te_prefer te)
       \<and> (c = PTP_CHUNK \<longrightarrow> ce \<and> te_parser te \<noteq> None)"
  by (cases "te_prefer te") (auto simp: resolve_active_source_def Let_def)

text \<open>a resolved chunk time base implies a chunk parser, and on a clock ticking at 1 GHz (PTP)
  the recorded chunk value is the raw tick count; at any other positive rate it is the rounded-down
  conversion, within one nanosecond-tick of the exact ratio.\<close>

theorem chunk_time_base:
  assumes "resolve_active_source l ce te = (Inr PTP_CHUNK, te')" "read_chunk_int te' (te_chunk_ts te') buf = Some raw"
  shows "te_parser te \<noteq> None \<and> fs_source (extract_stamp te' buf) = PTP_CHUNK
     \<and> (te_tick_hz te \<in> {0, 1000000000} \<longrightarrow> fs_timestamp_ns (extract_stamp te' buf) = raw)
     \<and> (te_tick_hz te > 0 \<and> te_tick_hz te \<noteq> 1000000000 \<longrightarrow>
          fs_timestamp_ns (extract_stamp te' buf) * te_tick_hz te \<le> raw * 1000000000
        \<and> raw * 1000000000 < (fs_timestamp_ns (extract_stamp te' buf) + 1) * te_tick_hz te)"
proof -
  from assms(1) have te': "te' = te\<lparr>te_ptp_locked := l, te_active := Some PTP_CHUNK\<rparr>"
    and p: "te_parser te \<noteq> None"
    by (cases "te_prefer te"; auto simp: resolve_active_source_def Let_def split: if_splits)+
  let ?hz = "te_tick_hz te"
  from p assms(2) te' have ext: "fs_source (extract_stamp te' buf) = PTP_CHUNK"
    "fs_timestamp_ns (extract_stamp te' buf) = ticks_to_ns te raw"
    by (auto simp: extract_simps ticks_to_ns_def)
  have "?hz > 0 \<Longrightarrow> raw * 1000000000 div ?hz * ?hz \<le> raw * 1000000000
      \<and> raw * 1000000000 < (raw * 1000000000 div ?hz + 1) * ?hz"
    using floor_div_bounds [of ?hz "raw * 1000000000"] by blast
  with ext p show ?thesis by (auto simp: ticks_to_ns_def)
qed

theorem chunk_time_base_witness:
  "fs_timestamp_ns (extract_stamp (snd (resolve_active_source True True
      (new_extractor (Some (\<lambda>n b. if n = ''ChunkTimestamp'' then Some 250 else None)) PTP_CHUNK 125000000)))
      \<lparr>ab_system_timestamp = 9, ab_timestamp = 5, ab_frame_id = 1, ab_has_chunks = Some True\<rparr>) * 125000000
    \<le> 250 * 1000000000"
proof -
  let ?te = "new_extractor (Some (\<lambda>n b. if n = ''ChunkTimestamp'' then Some 250 else None)) PTP_CHUNK 125000000"
  let ?buf = "\<lparr>ab_system_timestamp = 9, ab_timestamp = 5, ab_frame_id = 1, ab_has_chunks = Some True\<rparr>"
  let ?te' = "snd (resolve_active_source True True ?te)"
  have r: "resolve_active_source True True ?te = (Inr PTP_CHUNK, ?te')"
    by (simp add: resolve_active_source_def new_extractor_def)
  have c: "read_chunk_int ?te' (te_chunk_ts ?te') ?buf = Some 250"
    by (simp add: resolve_active_source_def new_extractor_def read_chunk_int_def)
  from chunk_time_base [OF r c] show ?thesis by (simp add: new_extractor_def)
qed

end
