(* ===== verification/Sidecar.thy ===== *)
theory Sidecar
  imports Drop_Stats Timestamps "HOL-Library.Sublist"
begin

text \<open>
  \<open>core-driver/cam_driver/sidecar.py\<close>: the per-recording CSV of frame stamps with its background
  writer thread, and the JSON header and summary.  The queue, the file and the two threads are one
  state; each thread's atomic actions are functions on it, and \<open>sidecar_run\<close> interleaves them.  I/O
  outcomes are arguments.  The lemmas show that no row is lost, reordered or duplicated silently.
\<close>

section \<open>Rows and header\<close>

type_synonym csv_row = "int \<times> int \<times> int \<times> string \<times> int option \<times> int \<times> int"

definition CSV_FIELDS :: "string list" where
  "CSV_FIELDS = [''frame_id'', ''pts_ns'', ''timestamp_ns'', ''source'', ''chunk_ns'', ''camera_ns'', ''system_ns'']"

definition csv_row :: "frame_stamp \<Rightarrow> int \<Rightarrow> csv_row" where
  "csv_row stamp pts_ns =
     (fs_frame_id stamp, pts_ns, fs_timestamp_ns stamp, ts_value (fs_source stamp),
      fs_chunk_ns stamp, fs_camera_ns stamp, fs_system_ns stamp)"

record sidecar_header =
  sh_created_unix_s :: rat
  sh_base_timestamp_ns :: int
  sh_timestamp_source :: string
  sh_ptp_synced :: bool
  sh_pixel_format :: string
  sh_bayer_pattern :: "string option"
  sh_bits_per_pixel :: int
  sh_width :: int
  sh_height :: int
  sh_tick_frequency_hz :: int
  sh_cfa_tile_mode :: string
  sh_session_index :: int
  sh_session_prefix :: string
  sh_first_pts_ns :: int
  sh_first_frame_id :: int
  sh_first_timestamp_ns :: int
  sh_pts_offset_ns :: int
  sh_replay_of :: "string list option"
  sh_replay_epoch_unix_ns :: "int option"
  sh_recording_encoder :: "string option"
  sh_recording_lossy :: "bool option"
  sh_recording_settings :: "json option"
  sh_recording_settings_file :: "string option"

definition json_opt :: "('a \<Rightarrow> json) \<Rightarrow> 'a option \<Rightarrow> json" where
  "json_opt f x = (case x of None \<Rightarrow> JNull | Some v \<Rightarrow> f v)"

text \<open>\<open>asdict(header)\<close>\<close>

definition header_json :: "sidecar_header \<Rightarrow> (string \<times> json) list" where
  "header_json h =
     [(''created_unix_s'', JNum (sh_created_unix_s h)),
      (''base_timestamp_ns'', JInt (sh_base_timestamp_ns h)),
      (''timestamp_source'', JStr (sh_timestamp_source h)),
      (''ptp_synced'', JBool (sh_ptp_synced h)),
      (''pixel_format'', JStr (sh_pixel_format h)),
      (''bayer_pattern'', json_opt JStr (sh_bayer_pattern h)),
      (''bits_per_pixel'', JInt (sh_bits_per_pixel h)),
      (''width'', JInt (sh_width h)), (''height'', JInt (sh_height h)),
      (''tick_frequency_hz'', JInt (sh_tick_frequency_hz h)),
      (''cfa_tile_mode'', JStr (sh_cfa_tile_mode h)),
      (''pts_convention'', JStr ''pts_ns = timestamp_ns - base_timestamp_ns''),
      (''absolute_time'', JStr ''absolute_ns = pts_ns + base_timestamp_ns (epoch per timestamp_source)''),
      (''session_index'', JInt (sh_session_index h)),
      (''session_prefix'', JStr (sh_session_prefix h)),
      (''first_pts_ns'', JInt (sh_first_pts_ns h)),
      (''first_frame_id'', JInt (sh_first_frame_id h)),
      (''first_timestamp_ns'', JInt (sh_first_timestamp_ns h)),
      (''pts_offset_ns'', JInt (sh_pts_offset_ns h)),
      (''replay_of'', json_opt (\<lambda>xs. JList (map JStr xs)) (sh_replay_of h)),
      (''replay_epoch_unix_ns'', json_opt JInt (sh_replay_epoch_unix_ns h)),
      (''recording_encoder'', json_opt JStr (sh_recording_encoder h)),
      (''recording_lossy'', json_opt JBool (sh_recording_lossy h)),
      (''recording_settings'', json_opt id (sh_recording_settings h)),
      (''recording_settings_file'', json_opt JStr (sh_recording_settings_file h))]"

section \<open>The writer\<close>

definition QUEUE_MAX :: nat where
  "QUEUE_MAX = 20000"

text \<open>\<open>sw_adding\<close>: a row past \<open>add\<close>'s check and not yet in the queue.  In the queue, \<open>None\<close> is the
  stop sentinel.  \<open>sw_draining\<close>: the writer failed and has not yet emptied the queue.\<close>

record sidecar_writer =
  sw_started :: bool
  sw_failed :: bool
  sw_dropped :: nat
  sw_q :: "csv_row option list"
  sw_adding :: "csv_row option"
  sw_alive :: bool
  sw_draining :: bool
  sw_csv :: "csv_row list"

definition new_sidecar :: sidecar_writer where
  "new_sidecar = \<lparr>sw_started = False, sw_failed = False, sw_dropped = 0, sw_q = [], sw_adding = None,
     sw_alive = False, sw_draining = False, sw_csv = []\<rparr>"

definition sidecar_start :: "sidecar_writer \<Rightarrow> sidecar_writer" where
  "sidecar_start s = s\<lparr>sw_started := True, sw_alive := True\<rparr>"

definition add_check :: "csv_row \<Rightarrow> sidecar_writer \<Rightarrow> sidecar_writer" where
  "add_check row s = (if \<not> sw_started s \<or> sw_failed s then s else s\<lparr>sw_adding := Some row\<rparr>)"

definition put_row :: "csv_row \<Rightarrow> sidecar_writer \<Rightarrow> sidecar_writer" where
  "put_row row s =
     (if length (sw_q s) \<ge> QUEUE_MAX then s\<lparr>sw_dropped := sw_dropped s + 1\<rparr>
      else s\<lparr>sw_q := sw_q s @ [Some row]\<rparr>)"

definition add_put :: "sidecar_writer \<Rightarrow> sidecar_writer" where
  "add_put s = (case sw_adding s of None \<Rightarrow> s | Some row \<Rightarrow> put_row row (s\<lparr>sw_adding := None\<rparr>))"

definition sidecar_add :: "frame_stamp \<Rightarrow> int \<Rightarrow> sidecar_writer \<Rightarrow> sidecar_writer" where
  "sidecar_add stamp pts_ns s =
     (if \<not> sw_started s \<or> sw_failed s then s else put_row (csv_row stamp pts_ns) s)"

text \<open>One turn of \<open>_run\<close>: take an item and write it; an \<open>OSError\<close> (\<open>io_ok = False\<close>) marks the
  writer failed first and drains the queue after.\<close>

definition writer_fail :: "sidecar_writer \<Rightarrow> sidecar_writer" where
  "writer_fail s = s\<lparr>sw_failed := True, sw_draining := True, sw_alive := False\<rparr>"

definition writer_step :: "bool \<Rightarrow> sidecar_writer \<Rightarrow> sidecar_writer" where
  "writer_step io_ok s =
     (if \<not> sw_alive s then s
      else case sw_q s of
        [] \<Rightarrow> s
      | None # q \<Rightarrow>
          if io_ok then s\<lparr>sw_q := q, sw_alive := False\<rparr> else writer_fail (s\<lparr>sw_q := q\<rparr>)
      | Some row # q \<Rightarrow>
          if io_ok then s\<lparr>sw_q := q, sw_csv := sw_csv s @ [row]\<rparr> else writer_fail (s\<lparr>sw_q := q\<rparr>))"

text \<open>Opening the file or writing its header row can fail before anything is taken.\<close>

definition writer_open_fail :: "sidecar_writer \<Rightarrow> sidecar_writer" where
  "writer_open_fail s = (if sw_alive s \<and> sw_csv s = [] then writer_fail s else s)"

definition writer_drain :: "sidecar_writer \<Rightarrow> sidecar_writer" where
  "writer_drain s = (if sw_failed s \<and> sw_draining s then s\<lparr>sw_q := [], sw_draining := False\<rparr> else s)"

text \<open>\<open>stop\<close>: the sentinel (given up after a second on a full queue), then the bounded join.\<close>

definition stop_put :: "sidecar_writer \<Rightarrow> sidecar_writer" where
  "stop_put s =
     (if \<not> sw_started s \<or> length (sw_q s) \<ge> QUEUE_MAX then s else s\<lparr>sw_q := sw_q s @ [None]\<rparr>)"

definition stop_join :: "sidecar_writer \<Rightarrow> sidecar_writer" where
  "stop_join s = s\<lparr>sw_started := False\<rparr>"

section \<open>The JSON file\<close>

datatype json_file = No_File | Unreadable | Json_File "(string \<times> json) list"

definition write_header :: "bool \<Rightarrow> sidecar_header \<Rightarrow> json_file \<Rightarrow> json_file option" where
  "write_header io_ok h f = (if io_ok then Some (Json_File (header_json h)) else None)"

text \<open>\<open>write_summary\<close>: merged into what is on disk; an unreadable file or a failed write is logged
  and leaves the file as it was.\<close>

definition write_summary ::
  "bool \<Rightarrow> bool \<Rightarrow> (string \<times> int) list \<Rightarrow> (string \<times> json) list \<Rightarrow> json_file \<Rightarrow> json_file" where
  "write_summary io_ok failed drops extra f =
     (case (case f of No_File \<Rightarrow> Some [] | Unreadable \<Rightarrow> None | Json_File d \<Rightarrow> Some d) of
        None \<Rightarrow> f
      | Some data \<Rightarrow>
          let data = upd_key ''drops'' (JObj (map (\<lambda>(k, v). (k, JInt v)) drops)) data;
              data = merge_dict data extra;
              data = (if failed then upd_key ''sidecar_csv_failed'' (JBool True) data else data)
          in if io_ok then Json_File data else f)"

section \<open>Every interleaving\<close>

definition queued :: "sidecar_writer \<Rightarrow> csv_row list" where
  "queued s = List.map_filter id (sw_q s)"

definition adding :: "sidecar_writer \<Rightarrow> csv_row list" where
  "adding s = (case sw_adding s of None \<Rightarrow> [] | Some r \<Rightarrow> [r])"

text \<open>The reachable states, with the rows that \<open>add\<close> let past its check, in order.\<close>

inductive sidecar_run :: "csv_row list \<Rightarrow> sidecar_writer \<Rightarrow> bool" where
  Init: "sidecar_run [] new_sidecar"
| Start: "sidecar_run rows s \<Longrightarrow> sw_csv s = [] \<Longrightarrow> \<not> sw_failed s \<Longrightarrow> sidecar_run rows (sidecar_start s)"
| Check: "sidecar_run rows s \<Longrightarrow> sw_adding s = None \<Longrightarrow> sw_started s \<Longrightarrow> \<not> sw_failed s \<Longrightarrow>
    sidecar_run (rows @ [r]) (add_check r s)"
| Check_refused: "sidecar_run rows s \<Longrightarrow> \<not> sw_started s \<or> sw_failed s \<Longrightarrow> sidecar_run rows (add_check r s)"
| Put: "sidecar_run rows s \<Longrightarrow> sidecar_run rows (add_put s)"
| Write: "sidecar_run rows s \<Longrightarrow> sidecar_run rows (writer_step io_ok s)"
| Open_fail: "sidecar_run rows s \<Longrightarrow> sidecar_run rows (writer_open_fail s)"
| Drain: "sidecar_run rows s \<Longrightarrow> sidecar_run rows (writer_drain s)"
| Stop_put: "sidecar_run rows s \<Longrightarrow> sidecar_run rows (stop_put s)"
| Stop_join: "sidecar_run rows s \<Longrightarrow> sidecar_run rows (stop_join s)"

lemma map_filter_id_simps [simp]:
  "List.map_filter id [] = []" "List.map_filter id (None # q) = List.map_filter id q"
  "List.map_filter id (Some r # q) = r # List.map_filter id q"
  "List.map_filter id (xs @ ys) = List.map_filter id xs @ List.map_filter id ys"
  by (simp_all add: map_filter_def)

text \<open>The accounting: until the writer fails every row is in the file, in the queue, in the hands of
  \<open>add\<close> or counted as dropped; what is in the file and queue keeps the order of the calls.\<close>

definition accounted :: "csv_row list \<Rightarrow> sidecar_writer \<Rightarrow> bool" where
  "accounted rows s \<longleftrightarrow> subseq (sw_csv s @ queued s @ adding s) rows
     \<and> (\<not> sw_failed s \<longrightarrow>
          length rows = length (sw_csv s) + length (queued s) + length (adding s) + sw_dropped s)"

lemmas writer_defs = sidecar_start_def add_check_def add_put_def put_row_def writer_fail_def writer_step_def
  writer_open_fail_def writer_drain_def stop_put_def stop_join_def queued_def adding_def

lemma subseq_shorten: "subseq xs rows \<Longrightarrow> subseq ys xs \<Longrightarrow> subseq ys rows"
  by (rule subseq_order.order_trans)

lemma subseq_drop_mid: "subseq (xs @ ys) (xs @ zs @ ys)"
  by (intro list_emb_append_mono list_emb_append2) auto

lemma accounted_step:
  assumes "accounted rows s"
  shows "accounted rows (writer_step io_ok s)" "accounted rows (add_put s)" "accounted rows (writer_drain s)"
    "accounted rows (writer_open_fail s)" "accounted rows (stop_put s)" "accounted rows (stop_join s)"
    "accounted rows (sidecar_start s)"
proof -
  show "accounted rows (writer_step io_ok s)"
  proof (cases "sw_alive s \<and> sw_q s \<noteq> []")
    case True
    then obtain x q where q: "sw_q s = x # q" by (cases "sw_q s") auto
    with assms True show ?thesis
      using subseq_shorten [of "sw_csv s @ the x # List.map_filter id q @ adding s" rows
          "sw_csv s @ List.map_filter id q @ adding s"]
      by (cases x) (auto simp: accounted_def writer_defs intro: list_emb_append_mono)
  qed (use assms in \<open>auto simp: accounted_def writer_defs split: list.split\<close>)
  have tail: "subseq (sw_csv s @ queued s) rows" "subseq (sw_csv s @ adding s) rows"
    using assms subseq_drop_mid [of "sw_csv s @ queued s" "[]" "adding s"] subseq_drop_mid [of "sw_csv s" "adding s" "queued s"]
    by (auto simp: accounted_def elim!: subseq_shorten)
  then show "accounted rows (add_put s)" "accounted rows (writer_drain s)" "accounted rows (stop_put s)"
    "accounted rows (writer_open_fail s)" "accounted rows (stop_join s)" "accounted rows (sidecar_start s)"
    using assms by (auto simp: accounted_def writer_defs split: option.splits)
qed

lemma sidecar_accounted: "sidecar_run rows s \<Longrightarrow> accounted rows s"
proof (induction rule: sidecar_run.induct)
  case Init
  show ?case by (simp add: accounted_def new_sidecar_def queued_def adding_def)
next
  case (Check rows s r)
  then have "subseq ((sw_csv s @ queued s) @ [r]) (rows @ [r])"
    by (intro list_emb_append_mono) (auto simp: accounted_def adding_def)
  with Check show ?case by (auto simp: accounted_def writer_defs)
next
  case (Check_refused rows s r)
  then show ?case by (simp add: add_check_def)
qed (auto intro: accounted_step)


text \<open>C8: the sidecar loses no row silently.  In every interleaving of the feed thread, the writer
  thread and the stop, what is in the CSV is a subsequence, in order, of the rows accepted; unless
  the writer failed (which the summary attests) every accepted row is in the file, still queued, or
  counted as dropped - so with nothing queued and nothing dropped the file is exactly the rows.\<close>

theorem sidecar_rows_faithful:
  assumes "sidecar_run rows s"
  shows "subseq (sw_csv s) rows
    \<and> (\<not> sw_failed s \<longrightarrow> length rows = length (sw_csv s) + length (queued s) + length (adding s) + sw_dropped s)
    \<and> (\<not> sw_failed s \<and> sw_dropped s = 0 \<and> queued s = [] \<and> adding s = [] \<longrightarrow> sw_csv s = rows)"
proof -
  have acc: "accounted rows s" using assms by (rule sidecar_accounted)
  then have "subseq (sw_csv s) rows"
    using subseq_drop_mid [of "sw_csv s" "[]" "queued s @ adding s"]
    by (auto simp: accounted_def elim!: subseq_shorten)
  with acc show ?thesis unfolding accounted_def by (auto dest: subseq_same_length)
qed

definition demo_row :: csv_row where
  "demo_row = (7, 0, 500, ''system'', None, 0, 500)"

theorem sidecar_rows_faithful_witness:
  "sw_csv (writer_step True (writer_step True (stop_put (add_put (add_check demo_row (sidecar_start new_sidecar))))))
     = [demo_row]"
proof -
  let ?s = "writer_step True (writer_step True (stop_put (add_put (add_check demo_row (sidecar_start new_sidecar)))))"
  have "sidecar_run ([] @ [demo_row]) (add_check demo_row (sidecar_start new_sidecar))"
    by (intro Check Start Init) (simp_all add: sidecar_start_def new_sidecar_def)
  then have "sidecar_run [demo_row] ?s" by (intro Write Stop_put Put) simp
  from sidecar_rows_faithful [OF this] show ?thesis
    by (simp add: writer_defs new_sidecar_def QUEUE_MAX_def demo_row_def)
qed

text \<open>the summary attests the truth.  After a successful merge the JSON carries the session's
  drop counters, the marker of a truncated CSV exactly when the writer failed, and every other entry
  of the header that the attestation does not name.\<close>

theorem summary_attests:
  assumes "f = Json_File d" "distinct (map fst extra)" "''drops'' \<notin> fst ` set extra"
    "''sidecar_csv_failed'' \<notin> fst ` set d" "''sidecar_csv_failed'' \<notin> fst ` set extra"
  shows "\<exists>out. write_summary True failed drops extra f = Json_File out
    \<and> map_of out ''drops'' = Some (JObj (map (\<lambda>(k, v). (k, JInt v)) drops))
    \<and> (map_of out ''sidecar_csv_failed'' = (if failed then Some (JBool True) else None))
    \<and> (\<forall>k v. map_of extra k = Some v \<longrightarrow> map_of out k = Some v)
    \<and> (\<forall>k. k \<noteq> ''drops'' \<and> k \<noteq> ''sidecar_csv_failed'' \<and> k \<notin> fst ` set extra \<longrightarrow> map_of out k = map_of d k)"
proof -
  let ?drops = "JObj (map (\<lambda>(k, v). (k, JInt v)) drops)"
  let ?m = "merge_dict (upd_key ''drops'' ?drops d) extra"
  let ?out = "if failed then upd_key ''sidecar_csv_failed'' (JBool True) ?m else ?m"
  have m: "map_of ?m k = (case map_of extra k of None \<Rightarrow> ((map_of d)(''drops'' \<mapsto> ?drops)) k | Some v \<Rightarrow> Some v)" for k
    using map_of_merge_dict [OF assms(2)] by (simp split: option.split)
  have none: "map_of extra ''drops'' = None" "map_of d ''sidecar_csv_failed'' = None"
    "map_of extra ''sidecar_csv_failed'' = None" using assms by (simp_all add: map_of_eq_None_iff)
  have keys: "k \<notin> fst ` set extra \<Longrightarrow> map_of extra k = None" for k by (simp add: map_of_eq_None_iff)
  have "write_summary True failed drops extra f = Json_File ?out"
    using assms(1) by (simp add: write_summary_def)
  moreover have "map_of ?out ''drops'' = Some ?drops" using none by (simp add: m)
  moreover have "map_of ?out ''sidecar_csv_failed'' = (if failed then Some (JBool True) else None)"
    using none by (simp add: m)
  moreover have "\<forall>k v. map_of extra k = Some v \<longrightarrow> map_of ?out k = Some v" using none by (auto simp: m)
  moreover have "\<forall>k. k \<noteq> ''drops'' \<and> k \<noteq> ''sidecar_csv_failed'' \<and> k \<notin> fst ` set extra \<longrightarrow> map_of ?out k = map_of d k"
    using keys by (auto simp: m)
  ultimately show ?thesis by blast
qed

theorem summary_attests_witness:
  "\<exists>out. write_summary True True [(''frames'', 3)] [(''session'', JNull)] (Json_File [(''width'', JInt 4)]) = Json_File out
    \<and> map_of out ''sidecar_csv_failed'' = Some (JBool True) \<and> map_of out ''width'' = Some (JInt 4)"
  using summary_attests [of "Json_File [(''width'', JInt 4)]" "[(''width'', JInt 4)]" "[(''session'', JNull)]" True
      "[(''frames'', 3)]"] by auto

section \<open>The sidecar as a sink of rows\<close>

text \<open>What a recording session relies on: while the sink is ready and has not failed every offer
  counts once, and nothing the background thread does changes the count.\<close>

locale row_sink =
  fixes offer :: "'r \<Rightarrow> 's \<Rightarrow> 's"
    and background :: "'b \<Rightarrow> 's \<Rightarrow> 's"
    and count :: "'s \<Rightarrow> nat"
    and ready :: "'s \<Rightarrow> bool"
    and failed :: "'s \<Rightarrow> bool"
  assumes offer_counts: "ready s \<Longrightarrow> \<not> failed s \<Longrightarrow> count (offer r s) = Suc (count s)"
    and offer_ready: "ready (offer r s) \<longleftrightarrow> ready s"
    and offer_failed: "failed (offer r s) \<longleftrightarrow> failed s"
    and background_ready: "ready (background b s) \<longleftrightarrow> ready s"
    and background_counts: "\<not> failed (background b s) \<Longrightarrow> count (background b s) = count s"
    and failure_sticks: "failed s \<Longrightarrow> failed (background b s)"
begin

text \<open>The client's invariant: either the sink failed, or it counted every offer.\<close>

definition in_step :: "nat \<Rightarrow> 's \<Rightarrow> bool" where
  "in_step n s \<longleftrightarrow> failed s \<or> count s = n"

lemma in_step_offer: "ready s \<Longrightarrow> in_step n s \<Longrightarrow> in_step (Suc n) (offer r s)"
  using offer_counts [of s r] by (cases "failed s") (auto simp: in_step_def offer_failed)

lemma in_step_background: "in_step n s \<Longrightarrow> in_step n (background b s)"
  using background_counts failure_sticks by (auto simp: in_step_def)

end

datatype writer_action = Take bool | Open_Fail | Drain_Queue

fun writer_act :: "writer_action \<Rightarrow> sidecar_writer \<Rightarrow> sidecar_writer" where
  "writer_act (Take io_ok) s = writer_step io_ok s"
| "writer_act Open_Fail s = writer_open_fail s"
| "writer_act Drain_Queue s = writer_drain s"

definition rows_taken :: "sidecar_writer \<Rightarrow> nat" where
  "rows_taken s = length (sw_csv s) + length (queued s) + sw_dropped s"

interpretation csv_sink: row_sink "\<lambda>(stamp, pts). sidecar_add stamp pts" writer_act rows_taken sw_started sw_failed
proof
  fix s :: sidecar_writer and r :: "frame_stamp \<times> int" and b :: writer_action
  show "sw_started s \<Longrightarrow> \<not> sw_failed s \<Longrightarrow> rows_taken ((\<lambda>(stamp, pts). sidecar_add stamp pts) r s) = Suc (rows_taken s)"
    by (cases r) (auto simp: rows_taken_def sidecar_add_def writer_defs)
  show "sw_started ((\<lambda>(stamp, pts). sidecar_add stamp pts) r s) = sw_started s"
    by (cases r) (simp add: sidecar_add_def put_row_def)
  show "sw_failed ((\<lambda>(stamp, pts). sidecar_add stamp pts) r s) = sw_failed s"
    by (cases r) (simp add: sidecar_add_def put_row_def)
  show "sw_started (writer_act b s) = sw_started s"
    by (cases b) (auto simp: writer_defs split: list.splits option.splits)
  show "\<not> sw_failed (writer_act b s) \<Longrightarrow> rows_taken (writer_act b s) = rows_taken s"
    by (cases b) (auto simp: rows_taken_def writer_defs split: list.splits option.splits if_splits)
  show "sw_failed s \<Longrightarrow> sw_failed (writer_act b s)"
    by (cases b) (auto simp: writer_defs split: list.splits option.splits)
qed

end
