(* ===== verification/Playback_Runs.thy ===== *)
theory Playback_Runs
  imports Playback_Control Sidecar
begin

text \<open>
  \<open>core-driver/cam_driver/playback.py\<close>, the recorded half: finding a run's sessions on disk and reading back the
  stamps of its sidecar CSV.  The file system is what the code asks of it.  The lemmas show that only recordings
  whose frames and rows correspond are played, and that the CSV the sidecar wrote reads back to the stamps it was given.
\<close>

section \<open>Sessions on disk\<close>

text \<open>\<open>pf_json\<close>: the parsed document, \<open>None\<close> when it cannot be opened or is no JSON object.\<close>

record play_fs =
  pf_isdir :: "string \<Rightarrow> bool"
  pf_files :: "string list"              \<comment> \<open>the files, as \<open>glob\<close> lists them\<close>
  pf_json :: "string \<Rightarrow> fields option"
  pf_text :: "string \<Rightarrow> string"
  pf_mtime :: "string \<Rightarrow> rat"

record run_info =
  ri_base :: string
  ri_header :: fields
  ri_csv_path :: string
  ri_mkv_paths :: "string list"

datatype run_error = Path_Empty | Run_Not_Found | No_Runs | Only_Empty_Sessions | No_Such_Run
  | Unreadable_Header | Empty_Session | Incomplete_Recording | Not_A_Header | Csv_Missing | No_Parts | Missing_Segments
  | Segments_Short | Run_Type_Error

definition is_file :: "play_fs \<Rightarrow> string \<Rightarrow> bool" where
  "is_file fs p \<longleftrightarrow> p \<in> set (pf_files fs)"

definition basename :: "string \<Rightarrow> string" where
  "basename p = rev (takeWhile (\<lambda>c. c \<noteq> CHR ''/'') (rev p))"

definition chop :: "nat \<Rightarrow> string \<Rightarrow> string" where
  "chop n s = take (length s - n) s"

text \<open>\<open>glob(dir + "/*.json")\<close>: not the hidden ones.\<close>

definition json_in :: "string \<Rightarrow> string \<Rightarrow> bool" where
  "json_in dir p \<longleftrightarrow> starts_with (path_join dir []) p
     \<and> (let rest = drop (length (path_join dir [])) p
        in CHR ''/'' \<notin> set rest \<and> ends_with ''.json'' rest \<and> \<not> starts_with ''.'' rest)"

definition run_names :: "play_fs \<Rightarrow> string \<Rightarrow> string list" where
  "run_names fs dir =
     map (\<lambda>p. chop 5 (basename p))
       (sort_key (pf_mtime fs) (filter (\<lambda>p. json_in dir p \<and> is_file fs (chop 5 p @ ''.csv'')) (pf_files fs)))"

text \<open>The parts: \<open>base-NNNNN.mkv\<close>; of names of one length that differ in the digits only the order of strings is that
  of the numbers.\<close>

definition part_of :: "string \<Rightarrow> string \<Rightarrow> bool" where
  "part_of base p \<longleftrightarrow> starts_with (base @ ''-'') p
     \<and> (let rest = drop (length base + 1) p in length rest = 9 \<and> list_all is_digit (take 5 rest) \<and> drop 5 rest = ''.mkv'')"

definition part_index :: "string \<Rightarrow> nat" where
  "part_index p = nat_of_str (take 5 (drop (length p - 9) p))"

definition parts :: "play_fs \<Rightarrow> string \<Rightarrow> string list" where
  "parts fs base = sort_key part_index (filter (part_of base) (pf_files fs))"

section \<open>CSV\<close>

text \<open>The dialect of \<open>csv\<close> without quoting: the sidecar's fields are numbers and plain words.\<close>

definition CR :: char where "CR = char_of (13 :: nat)"
definition LF :: char where "LF = char_of (10 :: nat)"

definition csv_lines :: "string \<Rightarrow> string list" where
  "csv_lines text =
     (let ls = split_on LF text in map (filter (\<lambda>c. c \<noteq> CR)) (if last ls = [] then butlast ls else ls))"

definition csv_rows :: "string \<Rightarrow> string list list" where
  "csv_rows text = map (\<lambda>l. if l = [] then [] else split_on (CHR '','') l) (csv_lines text)"

definition csv_line :: "string list \<Rightarrow> string" where
  "csv_line fs = join_with '','' fs @ [CR, LF]"

definition opt_int_text :: "int option \<Rightarrow> string" where
  "opt_int_text x = (case x of None \<Rightarrow> [] | Some i \<Rightarrow> str_int i)"

definition row_fields :: "csv_row \<Rightarrow> string list" where
  "row_fields r = (case r of (fid, pts, ts, src, chunk, cam, sys) \<Rightarrow>
     [str_int fid, str_int pts, str_int ts, src, opt_int_text chunk, str_int cam, str_int sys])"

definition csv_text :: "csv_row list \<Rightarrow> string" where
  "csv_text rows = concat (map csv_line (CSV_FIELDS # map row_fields rows))"

section \<open>One session\<close>

definition json_int_zero :: "json \<Rightarrow> bool" where
  "json_int_zero v \<longleftrightarrow> v = JInt 0"

definition session_of :: "fields \<Rightarrow> fields option" where
  "session_of header = (case get_key header ''session'' of JObj s \<Rightarrow> Some s | _ \<Rightarrow> None)"

text \<open>The summary and the CSV both attest that nothing was recorded.\<close>

definition attests_empty :: "play_fs \<Rightarrow> fields \<Rightarrow> string \<Rightarrow> bool" where
  "attests_empty fs header csv_path \<longleftrightarrow>
     (case session_of header of None \<Rightarrow> False
      | Some s \<Rightarrow> json_int_zero (get_key s ''frames_recorded'') \<and> get_key s ''truncated'' = JBool False
          \<and> \<not> truthy (get_key s ''error'') \<and> \<not> truthy (get_key header ''sidecar_csv_failed'') \<and> is_file fs csv_path)"

definition csv_empty :: "string \<Rightarrow> bool" where
  "csv_empty text =
     (case csv_rows text of [] \<Rightarrow> False
      | columns # rows \<Rightarrow> ''frame_id'' \<in> set columns \<and> ''timestamp_ns'' \<in> set columns \<and> \<not> list_ex (\<lambda>r. r \<noteq> []) rows)"

definition attests_incomplete :: "fields \<Rightarrow> bool" where
  "attests_incomplete header \<longleftrightarrow> truthy (get_key header ''sidecar_csv_failed'')
     \<or> (case session_of header of None \<Rightarrow> False | Some s \<Rightarrow> truthy (get_key s ''truncated'') \<or> truthy (get_key s ''error''))"

text \<open>\<open>expected > n\<close>\<close>

definition json_gt :: "json \<Rightarrow> nat \<Rightarrow> bool option" where
  "json_gt v n = (case widen v of JNum x \<Rightarrow> Some (x > of_nat n) | JNonfinite t \<Rightarrow> Some (t = ''inf'') | _ \<Rightarrow> None)"

definition check_run :: "bool \<Rightarrow> run_error \<Rightarrow> run_error + unit" where
  "check_run bad e = (if bad then Inl e else Inr ())"

definition REQUIRED_KEYS :: "string list" where
  "REQUIRED_KEYS = [''pixel_format'', ''width'', ''height'']"

definition check_segments :: "fields \<Rightarrow> nat \<Rightarrow> run_error + unit" where
  "check_segments header n =
     (case session_of header of None \<Rightarrow> Inr ()
      | Some s \<Rightarrow>
          if get_key s ''segments'' = JNull then Inr ()
          else (case json_gt (get_key s ''segments'') n of None \<Rightarrow> Inl Run_Type_Error | Some b \<Rightarrow> check_run b Segments_Short))"

text \<open>\<open>_load_run\<close>: \<open>Inr None\<close> is a finalized empty session that is skipped.\<close>

definition load_run :: "play_fs \<Rightarrow> bool \<Rightarrow> string \<Rightarrow> run_error + run_info option" where
  "load_run fs skip_empty base =
     (case pf_json fs (base @ ''.json'') of
        None \<Rightarrow> Inl Unreadable_Header
      | Some header \<Rightarrow>
          let csv_path = base @ ''.csv'' in
          if attests_empty fs header csv_path \<and> csv_empty (pf_text fs csv_path)
          then (if skip_empty then Inr None else Inl Empty_Session)
          else ebind (check_run (attests_incomplete header) Incomplete_Recording) (\<lambda>_.
               ebind (check_run (\<not> list_all (\<lambda>k. truthy (get_key header k)) REQUIRED_KEYS) Not_A_Header) (\<lambda>_.
               ebind (check_run (\<not> is_file fs csv_path) Csv_Missing) (\<lambda>_.
               let mkvs = parts fs base in
               ebind (check_run (mkvs = []) No_Parts) (\<lambda>_.
               ebind (check_run (map part_index mkvs \<noteq> [0..<length mkvs]) Missing_Segments) (\<lambda>_.
               ebind (check_segments header (length mkvs)) (\<lambda>_.
               Inr (Some \<lparr>ri_base = base, ri_header = header, ri_csv_path = csv_path, ri_mkv_paths = mkvs\<rparr>))))))))"

fun load_all :: "play_fs \<Rightarrow> bool \<Rightarrow> string list \<Rightarrow> run_error + run_info list" where
  "load_all fs skip [] = Inr []"
| "load_all fs skip (b # bs) =
     ebind (load_run fs skip b) (\<lambda>r. ebind (load_all fs skip bs) (\<lambda>rs.
       Inr (case r of None \<Rightarrow> rs | Some i \<Rightarrow> i # rs)))"

text \<open>\<open>int(header.get("first_timestamp_ns") or 0)\<close>; \<open>None\<close>: it raised.\<close>

definition first_ts :: "fields \<Rightarrow> int option" where
  "first_ts header =
     (let v = get_key header ''first_timestamp_ns'' in
      if \<not> truthy v then Some 0
      else case v of JInt i \<Rightarrow> Some i | JBool b \<Rightarrow> Some 1 | JNum x \<Rightarrow> Some (trunc_rat x) | JStr s \<Rightarrow> int_of_str s | _ \<Rightarrow> None)"

definition session_key :: "play_fs \<Rightarrow> run_info \<Rightarrow> int \<times> rat" where
  "session_key fs r = ((case first_ts (ri_header r) of Some i \<Rightarrow> i | None \<Rightarrow> 0), pf_mtime fs (ri_base r @ ''.json''))"

text \<open>Sorting by a pair: a stable sort by the second key, then by the first.\<close>

definition sort_sessions :: "play_fs \<Rightarrow> run_info list \<Rightarrow> run_info list" where
  "sort_sessions fs rs = sort_key (fst \<circ> session_key fs) (sort_key (snd \<circ> session_key fs) rs)"

definition discover_sessions :: "play_fs \<Rightarrow> string \<Rightarrow> string \<Rightarrow> run_error + run_info list" where
  "discover_sessions fs path run =
     (if path = [] then Inl Path_Empty else
      let path = rstrip_slash path in
      if pf_isdir fs path
      then ebind (if run \<noteq> []
                  then (if is_file fs (path_join path run @ ''.json'') then Inr [run] else Inl Run_Not_Found)
                  else (if run_names fs path = [] then Inl No_Runs else Inr (run_names fs path))) (\<lambda>names.
           ebind (load_all fs (run = []) (map (path_join path) names)) (\<lambda>infos.
           if infos = [] then Inl Only_Empty_Sessions
           else if list_ex (\<lambda>r. first_ts (ri_header r) = None) infos then Inl Run_Type_Error
           else Inr (sort_sessions fs infos)))
      else let base = (if ends_with ''.json'' path then chop 5 path else path) in
           if \<not> is_file fs (base @ ''.json'') then Inl No_Such_Run
           else ebind (load_run fs False base) (\<lambda>r. Inr (case r of Some i \<Rightarrow> [i] | None \<Rightarrow> [])))"

definition discover_run :: "play_fs \<Rightarrow> string \<Rightarrow> string \<Rightarrow> run_error + run_info" where
  "discover_run fs path run = ebind (discover_sessions fs path run) (\<lambda>infos. Inr (last infos))"

section \<open>Stamps\<close>

datatype stamp_error = Column_Missing string | Not_An_Int string

definition column :: "string list \<Rightarrow> string list \<Rightarrow> string \<Rightarrow> string option" where
  "column header row k = map_of (rev (zip header row)) k"

definition int_field :: "string list \<Rightarrow> string list \<Rightarrow> string \<Rightarrow> bool \<Rightarrow> stamp_error + int" where
  "int_field header row k zero_if_empty =
     (case column header row k of
        None \<Rightarrow> if zero_if_empty \<and> k \<in> set header then Inr 0 else Inl (Column_Missing k)
      | Some s \<Rightarrow> if s = [] \<and> zero_if_empty then Inr 0
                  else (case int_of_str s of Some i \<Rightarrow> Inr i | None \<Rightarrow> Inl (Not_An_Int s)))"

definition source_field :: "string list \<Rightarrow> string list \<Rightarrow> stamp_error + timestamp_source" where
  "source_field header row =
     (case column header row ''source'' of
        None \<Rightarrow> if ''source'' \<in> set header then Inr SYSTEM else Inl (Column_Missing ''source'')
      | Some s \<Rightarrow> Inr (case ts_of_value s of Some src \<Rightarrow> src | None \<Rightarrow> SYSTEM))"

definition chunk_field :: "string list \<Rightarrow> string list \<Rightarrow> stamp_error + int option" where
  "chunk_field header row =
     (case column header row ''chunk_ns'' of
        None \<Rightarrow> Inr None
      | Some s \<Rightarrow> if s = [] then Inr None
                  else (case int_of_str s of Some i \<Rightarrow> Inr (Some i) | None \<Rightarrow> Inl (Not_An_Int s)))"

definition row_stamp :: "string list \<Rightarrow> string list \<Rightarrow> stamp_error + frame_stamp" where
  "row_stamp header row =
     ebind (source_field header row) (\<lambda>src.
     ebind (int_field header row ''frame_id'' False) (\<lambda>fid.
     ebind (int_field header row ''timestamp_ns'' False) (\<lambda>ts.
     ebind (int_field header row ''system_ns'' True) (\<lambda>sys.
     ebind (int_field header row ''camera_ns'' True) (\<lambda>cam.
     ebind (chunk_field header row) (\<lambda>chunk.
     Inr \<lparr>fs_frame_id = fid, fs_timestamp_ns = ts, fs_source = src, fs_system_ns = sys, fs_camera_ns = cam, fs_chunk_ns = chunk\<rparr>))))))"

fun row_stamps :: "string list \<Rightarrow> string list list \<Rightarrow> stamp_error + frame_stamp list" where
  "row_stamps header [] = Inr []"
| "row_stamps header (r # rs) =
     (if r = [] then row_stamps header rs
      else ebind (row_stamp header r) (\<lambda>st. ebind (row_stamps header rs) (\<lambda>sts. Inr (st # sts))))"

definition load_stamps :: "string \<Rightarrow> stamp_error + frame_stamp list" where
  "load_stamps text = (case csv_rows text of [] \<Rightarrow> Inr [] | header # rows \<Rightarrow> row_stamps header rows)"

section \<open>Intervals and shifts\<close>

definition DEFAULT_INTERVAL_NS :: int where "DEFAULT_INTERVAL_NS = 33333333"

fun diffs :: "int list \<Rightarrow> int list" where
  "diffs (a # b # ts) = (if b > a then [b - a] else []) @ diffs (b # ts)"
| "diffs _ = []"

text \<open>\<open>statistics.median\<close>\<close>

definition median :: "int list \<Rightarrow> rat" where
  "median xs =
     (let s = sort xs; n = length s
      in if odd n then of_int (s ! (n div 2)) else (of_int (s ! (n div 2 - 1)) + of_int (s ! (n div 2))) / 2)"

definition median_interval_ns :: "int list \<Rightarrow> int" where
  "median_interval_ns ts =
     (if length ts < 2 then DEFAULT_INTERVAL_NS
      else if diffs ts \<noteq> [] then trunc_rat (median (diffs ts)) else DEFAULT_INTERVAL_NS)"

definition shift_stamp :: "frame_stamp \<Rightarrow> int \<Rightarrow> frame_stamp" where
  "shift_stamp st offset =
     (if offset = 0 then st
      else st\<lparr>fs_timestamp_ns := fs_timestamp_ns st + offset, fs_system_ns := fs_system_ns st + offset,
              fs_camera_ns := fs_camera_ns st + offset, fs_chunk_ns := map_option (\<lambda>c. c + offset) (fs_chunk_ns st)\<rparr>)"

section \<open>Reading the sidecar back\<close>

lemma str_nat_digits: "list_all is_digit (str_nat n)"
proof (induction n rule: str_nat.induct)
  case (1 n)
  have d: "is_digit (char_of (48 + k))" if "k < 10" for k :: nat using that by (simp add: is_digit_def Let_def)
  show ?case
  proof (cases "n < 10")
    case True
    then show ?thesis by (simp add: str_nat_small d)
  next
    case False
    then show ?thesis using 1 by (subst str_nat.simps) (simp add: d)
  qed
qed

lemma us_ok_digits: "list_all is_digit s \<Longrightarrow> us_ok b s = (b \<or> s \<noteq> [])"
  by (induction s arbitrary: b) auto

lemma digits_val_str: "digits_val (str_nat n) = Some n"
  using str_nat_digits[of n] str_nat_nonempty[of n]
  by (simp add: digits_val_def us_ok_digits filter_True list_all_iff)

lemma digit_facts: "is_digit c \<Longrightarrow> \<not> is_space c \<and> c \<noteq> CHR '','' \<and> c \<noteq> CHR ''-'' \<and> c \<noteq> CHR ''+'' \<and> c \<noteq> CR \<and> c \<noteq> LF"
  by (auto simp: is_digit_def is_space_def Let_def CR_def LF_def)

lemma digits_strip: "list_all (\<lambda>c. \<not> is_space c) s \<Longrightarrow> strip_space s = s"
proof -
  assume a: "list_all (\<lambda>c. \<not> is_space c) s"
  have d: "list_all (\<lambda>c. \<not> is_space c) t \<Longrightarrow> dropWhile is_space t = t" for t by (cases t) auto
  show ?thesis using d[OF a] d[of "rev s"] a by (simp add: strip_space_def strip_by_def)
qed

lemma sign_split_digits: "list_all is_digit s \<Longrightarrow> sign_split s = (False, s)"
  using digit_facts by (cases s) (auto simp: sign_split_def)

lemma signed_str_int: "signed_digits (str_int i) = Some i"
proof (cases "i < 0")
  case True
  then show ?thesis by (simp add: str_int_def signed_digits_def sign_split_def digits_val_str)
next
  case False
  then show ?thesis
    by (simp add: str_int_def signed_digits_def sign_split_digits[OF str_nat_digits] digits_val_str)
qed

definition plain :: "string \<Rightarrow> bool" where
  "plain s \<longleftrightarrow> list_all (\<lambda>c. \<not> is_space c \<and> c \<noteq> CHR '','' \<and> c \<noteq> CR \<and> c \<noteq> LF) s"

lemma plain_str_int: "plain (str_int i)"
proof -
  have "plain (str_nat n)" for n
    using str_nat_digits[of n] digit_facts by (auto simp: plain_def list_all_iff)
  moreover have "plain [CHR ''-'']" by code_simp
  ultimately show ?thesis by (simp add: plain_def str_int_def)
qed

lemma int_of_str_str_int [simp]: "int_of_str (str_int i) = Some i"
proof -
  have "strip_space (str_int i) = str_int i"
    using plain_str_int[of i] by (intro digits_strip) (auto simp: plain_def list_all_iff)
  then show ?thesis by (simp add: int_of_str_def signed_str_int)
qed

lemma str_int_nonempty [simp]: "str_int i \<noteq> []"
  by (simp add: str_int_def str_nat_nonempty)

lemma plain_fields: "\<forall>f \<in> set CSV_FIELDS. plain f" "\<forall>f \<in> set (row_fields (csv_row st pts)). plain f"
proof -
  show "\<forall>f \<in> set CSV_FIELDS. plain f" by code_simp
  have "plain (ts_value s)" for s by (cases s; simp only: ts_value.simps; code_simp)
  then show "\<forall>f \<in> set (row_fields (csv_row st pts)). plain f"
    by (auto simp: row_fields_def csv_row_def plain_str_int opt_int_text_def split: option.splits) (simp_all add: plain_def)
qed

text \<open>A file of plain lines reads back to them.\<close>

lemma plain_not: "plain f \<Longrightarrow> LF \<notin> set f \<and> CR \<notin> set f \<and> CHR '','' \<notin> set f"
  by (auto simp: plain_def list_all_iff)

lemma separators: "LF \<notin> set '','' \<and> CR \<notin> set '','' \<and> LF \<noteq> CR"
  by code_simp

lemma join_chars: "c \<in> set (join_with sep xs) \<Longrightarrow> c \<in> set sep \<or> (\<exists>x \<in> set xs. c \<in> set x)"
  by (induction sep xs rule: join_with.induct) auto

lemma split_lines:
  assumes "\<forall>fs \<in> set rows. \<forall>f \<in> set fs. plain f"
  shows "split_on LF (concat (map csv_line rows)) = map (\<lambda>fs. join_with '','' fs @ [CR]) rows @ [[]]"
  using assms
proof (induction rows)
  case (Cons fs rows)
  have "LF \<notin> set (join_with '','' fs)"
    using join_chars[of LF "'',''" fs] separators plain_not Cons.prems by (metis list.set_intros(1))
  then have "LF \<notin> set (join_with '','' fs @ [CR])" using separators by simp
  from split_on_append[OF this] Cons show ?case by (simp add: csv_line_def)
qed simp

lemma split_fields: "fs \<noteq> [] \<Longrightarrow> \<forall>f \<in> set fs. plain f \<Longrightarrow> split_on (CHR '','') (join_with '','' fs) = fs"
  by (rule split_join) (auto simp: plain_def list_all_iff)

lemma csv_rows_lines:
  assumes "\<forall>fs \<in> set rows. \<forall>f \<in> set fs. plain f" "\<forall>fs \<in> set rows. fs \<noteq> [] \<and> hd fs \<noteq> []"
  shows "csv_rows (concat (map csv_line rows)) = rows"
proof -
  have "filter (\<lambda>c. c \<noteq> CR) (join_with '','' fs @ [CR]) = join_with '','' fs" if "fs \<in> set rows" for fs
  proof -
    have "CR \<notin> set (join_with '','' fs)"
      using join_chars[of CR "'',''" fs] that assms(1) separators plain_not by metis
    then show ?thesis by (auto simp: filter_id_conv)
  qed
  then have l: "csv_lines (concat (map csv_line rows)) = map (join_with '','') rows"
    unfolding csv_lines_def Let_def split_lines[OF assms(1)] by (simp add: butlast_append)
  have "(if join_with '','' fs = [] then [] else split_on (CHR '','') (join_with '','' fs)) = fs" if "fs \<in> set rows" for fs
  proof -
    have "join_with '','' fs \<noteq> []" using assms(2) that by (cases fs rule: remdups_adj.cases) auto
    then show ?thesis using split_fields assms that by auto
  qed
  then show ?thesis unfolding csv_rows_def l by (simp add: map_idI)
qed

lemma column_header: "map_of (rev (zip CSV_FIELDS row)) k = column CSV_FIELDS row k"
  by (simp add: column_def)

lemma row_stamp_row: "row_stamp CSV_FIELDS (row_fields (csv_row st pts)) = Inr st"
proof -
  have c: "column CSV_FIELDS (row_fields (csv_row st pts)) ''frame_id'' = Some (str_int (fs_frame_id st))"
    "column CSV_FIELDS (row_fields (csv_row st pts)) ''timestamp_ns'' = Some (str_int (fs_timestamp_ns st))"
    "column CSV_FIELDS (row_fields (csv_row st pts)) ''source'' = Some (ts_value (fs_source st))"
    "column CSV_FIELDS (row_fields (csv_row st pts)) ''system_ns'' = Some (str_int (fs_system_ns st))"
    "column CSV_FIELDS (row_fields (csv_row st pts)) ''camera_ns'' = Some (str_int (fs_camera_ns st))"
    "column CSV_FIELDS (row_fields (csv_row st pts)) ''chunk_ns'' = Some (opt_int_text (fs_chunk_ns st))"
    by (simp_all add: column_def CSV_FIELDS_def row_fields_def csv_row_def)
  have "chunk_field CSV_FIELDS (row_fields (csv_row st pts)) = Inr (fs_chunk_ns st)"
    by (cases "fs_chunk_ns st") (simp_all add: chunk_field_def c opt_int_text_def)
  then show ?thesis by (simp add: row_stamp_def source_field_def int_field_def c)
qed

lemma row_stamps_rows: "row_stamps CSV_FIELDS (map (\<lambda>(st, pts). row_fields (csv_row st pts)) xs) = Inr (map fst xs)"
proof (induction xs)
  case (Cons x xs)
  have "row_fields (csv_row (fst x) (snd x)) \<noteq> []" by (simp add: row_fields_def csv_row_def)
  then show ?case using Cons by (simp add: case_prod_beta row_stamp_row)
qed simp

text \<open>C9: record, then replay.  The CSV text of the rows the sidecar was given reads back to exactly their stamps - id, chosen time,
  provenance and the three clocks - in order.\<close>

theorem stamps_roundtrip:
  "load_stamps (csv_text (map (\<lambda>(st, pts). csv_row st pts) xs)) = Inr (map fst xs)"
proof -
  let ?rows = "CSV_FIELDS # map row_fields (map (\<lambda>(st, pts). csv_row st pts) xs)"
  have "csv_rows (csv_text (map (\<lambda>(st, pts). csv_row st pts) xs)) = ?rows"
    unfolding csv_text_def
  proof (rule csv_rows_lines)
    show "\<forall>fs \<in> set ?rows. \<forall>f \<in> set fs. plain f" using plain_fields by auto
    show "\<forall>fs \<in> set ?rows. fs \<noteq> [] \<and> hd fs \<noteq> []" by (auto simp: CSV_FIELDS_def row_fields_def csv_row_def)
  qed
  moreover have "map row_fields (map (\<lambda>(st, pts). csv_row st pts) xs) = map (\<lambda>(st, pts). row_fields (csv_row st pts)) xs" by auto
  ultimately show ?thesis by (simp only: load_stamps_def list.case row_stamps_rows)
qed

section \<open>What is played\<close>

definition trustworthy :: "play_fs \<Rightarrow> run_info \<Rightarrow> bool" where
  "trustworthy fs r \<longleftrightarrow>
     pf_json fs (ri_base r @ ''.json'') = Some (ri_header r)
     \<and> \<not> attests_incomplete (ri_header r)
     \<and> (\<forall>k \<in> set REQUIRED_KEYS. truthy (get_key (ri_header r) k))
     \<and> ri_csv_path r = ri_base r @ ''.csv'' \<and> is_file fs (ri_csv_path r)
     \<and> ri_mkv_paths r \<noteq> [] \<and> (\<forall>p \<in> set (ri_mkv_paths r). p \<in> set (pf_files fs) \<and> part_of (ri_base r) p)
     \<and> map part_index (ri_mkv_paths r) = [0..<length (ri_mkv_paths r)]
     \<and> (\<forall>s n. session_of (ri_header r) = Some s \<and> get_key s ''segments'' = JInt n \<longrightarrow> n \<le> int (length (ri_mkv_paths r)))"

lemma check_run_Inr [simp]: "check_run b e = Inr u \<longleftrightarrow> \<not> b"
  by (auto simp: check_run_def)

lemma check_segments_Inr: "check_segments h n = Inr u \<Longrightarrow> session_of h = Some s \<Longrightarrow> get_key s ''segments'' = JInt k \<Longrightarrow> k \<le> int n"
proof -
  assume a: "check_segments h n = Inr u" "session_of h = Some s" "get_key s ''segments'' = JInt k"
  then have "\<not> (of_int k > (of_nat n :: rat))" by (simp add: check_segments_def json_gt_def widen_def)
  then show ?thesis by (metis linorder_not_less of_int_less_iff of_int_of_nat_eq)
qed

lemma load_run_trustworthy: "load_run fs skip base = Inr (Some r) \<Longrightarrow> trustworthy fs r \<and> ri_base r = base"
proof -
  assume l: "load_run fs skip base = Inr (Some r)"
  obtain h where h: "pf_json fs (base @ ''.json'') = Some h" using l by (auto simp: load_run_def split: option.splits)
  from l h have r: "r = \<lparr>ri_base = base, ri_header = h, ri_csv_path = base @ ''.csv'', ri_mkv_paths = parts fs base\<rparr>"
    "\<not> attests_incomplete h" "list_all (\<lambda>k. truthy (get_key h k)) REQUIRED_KEYS" "is_file fs (base @ ''.csv'')"
    "parts fs base \<noteq> []" "map part_index (parts fs base) = [0..<length (parts fs base)]"
    "\<exists>u. check_segments h (length (parts fs base)) = Inr u"
    by (auto simp: load_run_def Let_def split: if_splits)
  have "p \<in> set (pf_files fs) \<and> part_of base p" if "p \<in> set (parts fs base)" for p using that by (auto simp: parts_def)
  then show ?thesis using h r check_segments_Inr unfolding trustworthy_def by (auto simp: list_all_iff)
qed

lemma load_all_trustworthy: "load_all fs skip bs = Inr rs \<Longrightarrow> r \<in> set rs \<Longrightarrow> trustworthy fs r"
proof (induction bs arbitrary: rs)
  case (Cons b bs)
  then show ?case using load_run_trustworthy by (auto split: option.splits)
qed simp

lemma sort_sessions_set [simp]: "set (sort_sessions fs rs) = set rs" "sort_sessions fs rs = [] \<longleftrightarrow> rs = []"
  by (simp_all add: sort_sessions_def flip: set_empty)

lemma discover_cases:
  assumes "discover_sessions fs path run = Inr rs"
  shows "(\<forall>r \<in> set rs. trustworthy fs r) \<and> (pf_isdir fs (rstrip_slash path) \<longrightarrow> (\<exists>infos. rs = sort_sessions fs infos) \<and> rs \<noteq> [])"
  using assms load_all_trustworthy load_run_trustworthy
  by (auto simp: discover_sessions_def Let_def split: if_splits option.splits)

text \<open>C39: only trustworthy recordings are played.  Every session a path yields has a header that attests neither truncation
  nor an error nor a failed sidecar, names format and geometry, has its CSV, and parts numbered from zero
  without a hole, at least as many as it attests; and a directory's sessions come in the order of their first
  timestamps, at least one.\<close>

theorem sessions_trustworthy:
  assumes "discover_sessions fs path run = Inr rs"
  shows "(\<forall>r \<in> set rs. trustworthy fs r)
    \<and> (pf_isdir fs (rstrip_slash path) \<longrightarrow> rs \<noteq> [] \<and> sorted (map (fst \<circ> session_key fs) rs))"
  using discover_cases[OF assms] by (auto simp: sort_sessions_def)

definition demo_fs :: play_fs where
  "demo_fs = \<lparr>pf_isdir = (\<lambda>p. p = ''/r''),
     pf_files = [''/r/b.json'', ''/r/b.csv'', ''/r/b-00001.mkv'', ''/r/b-00000.mkv'', ''/r/a.json'', ''/r/a.csv'', ''/r/note.json''],
     pf_json = (\<lambda>p. if p = ''/r/b.json''
        then Some [(''pixel_format'', JStr ''Mono8''), (''width'', JInt 640), (''height'', JInt 480), (''first_timestamp_ns'', JInt 9),
                   (''session'', JObj [(''segments'', JInt 2)])]
        else if p = ''/r/a.json''
        then Some [(''session'', JObj [(''frames_recorded'', JInt 0), (''truncated'', JBool False)])] else None),
     pf_text = (\<lambda>p. csv_text []), pf_mtime = (\<lambda>p. 0)\<rparr>"

theorem sessions_trustworthy_witness:
  "\<exists>r. discover_sessions demo_fs ''/r/'' [] = Inr [r] \<and> ri_base r = ''/r/b''
     \<and> ri_mkv_paths r = [''/r/b-00000.mkv'', ''/r/b-00001.mkv''] \<and> trustworthy demo_fs r"
proof -
  have "(case discover_sessions demo_fs ''/r/'' [] of
      Inr [r] \<Rightarrow> ri_base r = ''/r/b'' \<and> ri_mkv_paths r = [''/r/b-00000.mkv'', ''/r/b-00001.mkv''] | _ \<Rightarrow> False) = True"
    by code_simp
  then obtain r where r: "discover_sessions demo_fs ''/r/'' [] = Inr [r]" "ri_base r = ''/r/b''"
      "ri_mkv_paths r = [''/r/b-00000.mkv'', ''/r/b-00001.mkv'']"
    by (simp split: sum.splits list.splits)
  then show ?thesis using sessions_trustworthy[OF r(1)] by simp
qed

section \<open>Shifts and intervals\<close>

lemma shift_fields [simp]:
  "fs_timestamp_ns (shift_stamp st d) = fs_timestamp_ns st + d" "fs_system_ns (shift_stamp st d) = fs_system_ns st + d"
  "fs_camera_ns (shift_stamp st d) = fs_camera_ns st + d" "fs_frame_id (shift_stamp st d) = fs_frame_id st"
  "fs_source (shift_stamp st d) = fs_source st" "fs_chunk_ns (shift_stamp st d) = map_option (\<lambda>c. c + d) (fs_chunk_ns st)"
  by (simp_all add: shift_stamp_def option.map_ident)

lemma shift_shift: "shift_stamp (shift_stamp st d) e = shift_stamp st (d + e)"
  by (cases "fs_chunk_ns st") (auto simp: shift_stamp_def)

lemma diffs_positive: "d \<in> set (diffs ts) \<Longrightarrow> d \<ge> 1"
  by (induction ts rule: diffs.induct) (auto split: if_splits)

lemma median_ge: "xs \<noteq> [] \<Longrightarrow> \<forall>x \<in> set xs. x \<ge> 1 \<Longrightarrow> median xs \<ge> 1"
proof -
  assume ne: "xs \<noteq> []" and ge: "\<forall>x \<in> set xs. x \<ge> 1"
  let ?s = "sort xs" and ?n = "length xs"
  have nth: "?s ! i \<ge> 1" if "i < ?n" for i using ge nth_mem[of i ?s] that by simp
  have n: "?n div 2 < ?n" "?n div 2 - 1 < ?n" using ne by (cases xs; simp)+
  have "(of_int (?s ! (?n div 2)) :: rat) \<ge> 1" "(of_int (?s ! (?n div 2 - 1)) :: rat) \<ge> 1"
    using nth[OF n(1)] nth[OF n(2)] by simp_all
  then show ?thesis by (simp add: median_def Let_def)
qed

text \<open>The interval a loop adds between two cycles is positive.\<close>

lemma median_interval_positive: "median_interval_ns ts \<ge> 1"
proof (cases "length ts < 2 \<or> diffs ts = []")
  case False
  then have "median (diffs ts) \<ge> 1" using diffs_positive by (intro median_ge) auto
  then have "trunc_rat 1 \<le> trunc_rat (median (diffs ts))" by (rule trunc_rat_mono)
  then show ?thesis using False trunc_rat_int[of 1] by (simp add: median_interval_ns_def)
qed (auto simp: median_interval_ns_def DEFAULT_INTERVAL_NS_def)

end
