(* ===== verification/Recorder_Plan.thy ===== *)
theory Recorder_Plan
  imports Config
begin

text \<open>
  The recorder's decisions: \<open>core-driver/cam_driver/formats.py\<close> (pixel formats, encoder and decoder
  selection), \<open>recorder.py\<close> (availability fallbacks and the launch fragment) and
  \<open>recording_settings.py\<close> (runtime patches).  The recording configuration is \<open>Config\<close>'s list of fields; the
  GStreamer registry is the predicate \<open>avail\<close>.  The lemmas show that a lossy or truncating encoder
  is never chosen behind the operator's back, and that a patch changes exactly what it names.
\<close>

section \<open>Formats\<close>

definition BAYER_MAP :: "(string \<times> string) list" where
  "BAYER_MAP = [(''RG'', ''rggb''), (''GR'', ''grbg''), (''GB'', ''gbrg''), (''BG'', ''bggr'')]"

definition GST_MONO :: "string list" where
  "GST_MONO = [''GRAY8'', ''GRAY16_LE'', ''GRAY16_BE'']"

definition GST_COLOR :: "string list" where
  "GST_COLOR = [''I420'', ''NV12'', ''NV24'', ''YV12'', ''YUY2'', ''UYVY'',
     ''RGB'', ''BGR'', ''RGBA'', ''BGRA'', ''RGBx'', ''BGRx'']"

definition VALID_ENCODERS :: "string list" where
  "VALID_ENCODERS = [''auto'', ''hw-hevc-lossless'', ''ffv1'', ''x265-lossless'', ''stream-copy'', ''x264'']"

definition VALID_DECODERS :: "string list" where
  "VALID_DECODERS = [''auto'', ''software'']"

definition ENCODED :: "(string \<times> (string \<times> string \<times> string)) list" where
  "ENCODED =
     [(''MJPEG'', (''image/jpeg'', ''jpegparse'', ''jpegdec'')),
      (''JPEG'', (''image/jpeg'', ''jpegparse'', ''jpegdec'')),
      (''H264'', (''video/x-h264'', ''h264parse'', ''avdec_h264'')),
      (''H265'', (''video/x-h265'', ''h265parse'', ''avdec_h265''))]"

definition encoded_info :: "string option \<Rightarrow> (string \<times> string \<times> string) option" where
  "encoded_info fmt = map_of ENCODED (upper (case fmt of None \<Rightarrow> [] | Some f \<Rightarrow> f))"

definition HW_DECODER :: "(string \<times> (string \<times> string)) list" where
  "HW_DECODER = [(''avdec_h264'', (''nvv4l2decoder'', ''nvvidconv'')),
                 (''avdec_h265'', (''nvv4l2decoder'', ''nvvidconv''))]"

definition select_decoder :: "string \<Rightarrow> bool \<Rightarrow> string \<Rightarrow> string \<times> string" where
  "select_decoder sw_decoder hw_available mode =
     (let mode = (if mode \<notin> set VALID_DECODERS then ''auto'' else mode) in
      if mode \<noteq> ''software'' \<and> hw_available \<and> map_of HW_DECODER sw_decoder \<noteq> None
      then the (map_of HW_DECODER sw_decoder)
      else if starts_with ''avdec_'' sw_decoder
      then (sw_decoder @ '' output-corrupt=false discard-corrupted-frames=true'', ''videoconvert'')
      else (sw_decoder, ''videoconvert''))"

text \<open>(gst format, bits per pixel, Bayer pattern, packed, colour)\<close>

definition parse_pixel_format :: "string option \<Rightarrow> string \<times> int \<times> string option \<times> bool \<times> bool" where
  "parse_pixel_format pixel_format =
     (let pf = (case pixel_format of None \<Rightarrow> ''Mono8'' | Some [] \<Rightarrow> ''Mono8'' | Some f \<Rightarrow> f) in
      if pf \<in> set GST_MONO \<union> set GST_COLOR then
        (pf, if contains_str ''16'' pf then 16 else 8, None, False, pf \<in> set GST_COLOR)
      else
        let bits = (if contains_str ''16'' pf \<or> contains_str ''12'' pf \<or> contains_str ''10'' pf then 16 else 8);
            packed = (ends_with ''p'' pf \<or> contains_str ''Packed'' pf);
            bayer = (if starts_with ''Bayer'' pf \<and> length pf \<ge> 7
                     then map_of BAYER_MAP (upper (slice pf 5 7)) else None)
        in (if bits > 8 then ''GRAY16_LE'' else ''GRAY8'', bits, bayer, packed, False))"

definition bytes_per_frame :: "string \<Rightarrow> int \<Rightarrow> int \<Rightarrow> int" where
  "bytes_per_frame fmt width height =
     (let px = width * height in
      if fmt \<in> {''GRAY16_LE'', ''GRAY16_BE''} then px * 2
      else if fmt \<in> {''I420'', ''NV12'', ''YV12''} then px * 3 div 2
      else if fmt \<in> {''YUY2'', ''UYVY''} then px * 2
      else if fmt = ''NV24'' then px * 3
      else if fmt \<in> {''RGB'', ''BGR''} then px * 3
      else if fmt \<in> {''RGBA'', ''BGRA'', ''RGBx'', ''BGRx''} then px * 4
      else px)"

definition select_encoder :: "string \<Rightarrow> int \<Rightarrow> bool \<Rightarrow> bool \<Rightarrow> string" where
  "select_encoder encoder bits is_color encoded =
     (let encoder = (if encoder \<notin> set VALID_ENCODERS then ''auto'' else encoder) in
      if encoder \<noteq> ''auto'' then encoder
      else if encoded then ''stream-copy''
      else if is_color then ''ffv1''
      else if bits \<le> 8 then ''hw-hevc-lossless'' else ''ffv1'')"

section \<open>The recording configuration\<close>

definition field :: "fields \<Rightarrow> string \<Rightarrow> json" where
  "field cfg k = field_of RecordingConfig cfg k"

text \<open>Numbers after \<open>_coerce\<close>: ints are \<open>JInt\<close>, floats \<open>JNum\<close>.\<close>

definition as_int :: "json \<Rightarrow> int" where
  "as_int v = (case v of JInt i \<Rightarrow> i | JNum x \<Rightarrow> trunc_rat x | JBool b \<Rightarrow> (if b then 1 else 0) | _ \<Rightarrow> 0)"

definition as_num :: "json \<Rightarrow> rat" where
  "as_num v = (case v of JInt i \<Rightarrow> of_int i | JNum x \<Rightarrow> x | JBool b \<Rightarrow> (if b then 1 else 0) | _ \<Rightarrow> 0)"

section \<open>The recorder\<close>

definition X264_PRESETS :: "string list" where
  "X264_PRESETS = [''ultrafast'', ''superfast'', ''veryfast'', ''faster'', ''fast'', ''medium'',
     ''slow'', ''slower'', ''veryslow'', ''placebo'']"

datatype rec_error =
    Bad_Crf | Bad_Preset                \<comment> \<open>\<open>ValueError\<close>\<close>
  | No_Encoder "string list"            \<comment> \<open>\<open>RuntimeError\<close>: the missing elements\<close>

definition x264_settings :: "(string \<times> json) list \<Rightarrow> rec_error + int \<times> string" where
  "x264_settings cfg =
     (case field cfg ''x264_crf'' of
        JInt crf \<Rightarrow>
          if \<not> (1 \<le> crf \<and> crf \<le> 50) then Inl Bad_Crf
          else (case field cfg ''x264_preset'' of
                  JStr p \<Rightarrow> if p \<in> set X264_PRESETS then Inr (crf, p) else Inl Bad_Preset
                | _ \<Rightarrow> Inl Bad_Preset)
      | _ \<Rightarrow> Inl Bad_Crf)"

definition PRESET_LEVEL :: "(string \<times> int) list" where
  "PRESET_LEVEL = [(''disable'', 0), (''ultrafast'', 1), (''fast'', 2), (''medium'', 3), (''slow'', 4)]"

definition preset_level :: "json \<Rightarrow> int option" where
  "preset_level v =
     (let s = lower (strip_space (str_or v [])) in
      case map_of PRESET_LEVEL s of
        Some l \<Rightarrow> Some l
      | None \<Rightarrow>
          if s \<noteq> [] \<and> list_all is_digit s \<and> nat_of_str s \<le> 4 then Some (int (nat_of_str s)) else None)"

definition ENCODER_ELEMENTS :: "(string \<times> string list) list" where
  "ENCODER_ELEMENTS =
     [(''hw-hevc-lossless'', [''nvvidconv'', ''nvv4l2h265enc'']), (''x265-lossless'', [''x265enc'']),
      (''ffv1'', [''avenc_ffv1'']), (''x264'', [''x264enc'', ''h264parse''])]"

definition elements :: "string \<Rightarrow> string list" where
  "elements encr = (case map_of ENCODER_ELEMENTS encr of None \<Rightarrow> [] | Some es \<Rightarrow> es)"

function resolve_available :: "(string \<Rightarrow> bool) \<Rightarrow> string \<Rightarrow> rec_error + string" where
  "resolve_available avail encr =
     (let missing = filter (\<lambda>e. \<not> avail e) (elements encr) in
      if missing = [] then Inr encr
      else if encr = ''ffv1'' then Inl (No_Encoder missing)
      else resolve_available avail ''ffv1'')"
  by pat_completeness auto
termination by (relation "measure (\<lambda>(avail, encr). if encr = ''ffv1'' then 0 else 1)") auto

declare resolve_available.simps [simp del]

definition splitmux :: "string \<Rightarrow> int \<Rightarrow> bool \<Rightarrow> string" where
  "splitmux location_base seconds keyframe_requests =
     ''splitmuxsink name=rec_sink muxer=matroskamux ''
     @ (if keyframe_requests then ''send-keyframe-requests=true '' else [])
     @ ''location=\"'' @ location_base @ ''-%05d.mkv\" max-size-time='' @ str_int (max 1 seconds * 1000000000)"

text \<open>Python's \<open>round\<close>: to the nearest integer, ties to even.\<close>

definition py_round :: "rat \<Rightarrow> int" where
  "py_round x =
     (let n = \<lfloor>x\<rfloor>; d = x - of_int n in
      if d < 1 / 2 then n else if d > 1 / 2 then n + 1 else if even n then n else n + 1)"

definition gop_frames :: "(string \<times> json) list \<Rightarrow> rat \<Rightarrow> int" where
  "gop_frames cfg fps =
     (let k = as_num (field cfg ''keyframe_interval_s'') in
      if k > 0 then max 1 (py_round (k * (if fps > 0 then fps else 30))) else 0)"

text \<open>The fragments, per resolved encoder.\<close>

definition x264_fragment :: "int \<Rightarrow> string \<Rightarrow> string \<Rightarrow> int \<Rightarrow> string \<Rightarrow> string" where
  "x264_fragment crf preset vconv gop sink =
     ''queue max-size-buffers=12 name=rec_q ! '' @ vconv @ '' ! video/x-raw,format=I420 ! ''
     @ ''x264enc pass=qual quantizer='' @ str_int crf @ '' speed-preset='' @ preset
     @ '' tune=zerolatency bframes=0 rc-lookahead=0 sync-lookahead=0 vbv-buf-capacity=0 key-int-max=''
     @ str_int gop @ '' ! video/x-h264,profile=high ! h264parse ! '' @ sink"

definition hevc_fragment :: "(string \<times> json) list \<Rightarrow> string \<Rightarrow> int \<Rightarrow> int \<Rightarrow> string \<Rightarrow> string" where
  "hevc_fragment cfg vconv gop bframes sink =
     (let opts = '' maxperf-enable='' @ (if truthy (field cfg ''nvenc_maxperf'') then ''1'' else ''0'');
          opts = opts @ (case preset_level (field cfg ''nvenc_preset'') of None \<Rightarrow> []
                         | Some l \<Rightarrow> '' preset-level='' @ str_int l);
          opts = opts @ (if gop \<noteq> 0 then '' iframeinterval='' @ str_int gop else []);
          opts = opts @ (if bframes \<noteq> 0 then '' num-B-Frames='' @ str_int bframes else [])
      in ''queue max-size-buffers=12 name=rec_q ! '' @ vconv @ '' ! video/x-raw,format=NV24 ! ''
         @ ''nvvidconv ! video/x-raw(memory:NVMM),format=NV24 ! ''
         @ ''nvv4l2h265enc enable-lossless=1'' @ opts @ '' ! h265parse ! '' @ sink)"

definition x265_fragment :: "bool \<Rightarrow> string \<Rightarrow> int \<Rightarrow> int \<Rightarrow> string \<Rightarrow> string" where
  "x265_fragment is_color vconv gop bframes sink =
     (let opts = ''lossless=1''
            @ (if gop \<noteq> 0 then '':keyint='' @ str_int gop @ '':min-keyint='' @ str_int gop else [])
            @ '':bframes='' @ str_int bframes;
          pin = (if is_color then [] else ''video/x-raw,format=I420 ! '')
      in ''queue max-size-buffers=12 name=rec_q ! '' @ vconv @ '' ! '' @ pin
         @ ''x265enc option-string=\"'' @ opts @ ''\" speed-preset=ultrafast ! h265parse ! '' @ sink)"

definition ffv1_fragment :: "string \<Rightarrow> string \<Rightarrow> string" where
  "ffv1_fragment vconv sink =
     ''queue max-size-buffers=12 name=rec_q ! '' @ vconv
     @ '' ! avenc_ffv1 coder=1 context=1 threads=0 slices=4 slicecrc=1 ! '' @ sink"

definition has_parser :: "string option \<Rightarrow> bool" where
  "has_parser parser = (case parser of None \<Rightarrow> False | Some p \<Rightarrow> p \<noteq> [])"

definition stream_copy_fragment :: "string \<Rightarrow> string \<Rightarrow> string" where
  "stream_copy_fragment parser sc_sink = ''queue max-size-buffers=12 name=rec_q ! '' @ parser @ '' ! '' @ sc_sink"

text \<open>From \<open>gop = _gop_frames(cfg, fps)\<close> on: the fragment of an available encoder.\<close>

definition encoder_fragment ::
  "(string \<times> json) list \<Rightarrow> rat \<Rightarrow> bool \<Rightarrow> string \<Rightarrow> string \<Rightarrow> rec_error + string \<times> string" where
  "encoder_fragment cfg fps is_color sink encr =
     (let gop = gop_frames cfg fps;
          bframes = max 0 (as_int (field cfg ''bframes''));
          vconv = ''videoconvert n-threads='' @ str_int (max 0 (as_int (field cfg ''videoconvert_threads'')))
      in if encr = ''x264'' then
           map_sum id (\<lambda>(crf, preset). (x264_fragment crf preset vconv gop sink, encr)) (x264_settings cfg)
         else if encr = ''hw-hevc-lossless'' then Inr (hevc_fragment cfg vconv gop bframes sink, encr)
         else if encr = ''x265-lossless'' then Inr (x265_fragment is_color vconv gop bframes sink, encr)
         else Inr (ffv1_fragment vconv sink, encr))"

definition build_recorder_description ::
  "(string \<Rightarrow> bool) \<Rightarrow> (string \<times> json) list \<Rightarrow> int \<Rightarrow> string \<Rightarrow> rat \<Rightarrow> bool \<Rightarrow> string option
     \<Rightarrow> rec_error + string \<times> string" where
  "build_recorder_description avail cfg bits loc fps is_color encoded_parser =
     (let encr = select_encoder (as_str (field cfg ''encoder'')) bits is_color (has_parser encoded_parser);
          seconds = as_int (field cfg ''segment_seconds'');
          checked = (if encr = ''x264'' then map_sum id (\<lambda>_. ()) (x264_settings cfg) else Inr ()) in
      ebind checked (\<lambda>_.
        if encr = ''stream-copy'' \<and> has_parser encoded_parser then
          Inr (stream_copy_fragment (the encoded_parser) (splitmux loc seconds False), encr)
        else
          let encr = (if encr = ''stream-copy'' then ''ffv1'' else encr);
              encr = (if encr \<in> {''x265-lossless'', ''hw-hevc-lossless'', ''x264''} \<and> bits > 8 then ''ffv1'' else encr)
          in ebind (resolve_available avail encr)
               (encoder_fragment cfg fps is_color (splitmux loc seconds True))))"

section \<open>Runtime settings\<close>

definition CHOICES :: "(string \<times> string list) list" where
  "CHOICES =
     [(''encoder'', VALID_ENCODERS), (''x264_preset'', X264_PRESETS),
      (''bayer_tile'', [''off'', ''plain'', ''green_diff'', ''rct'']),
      (''nvenc_preset'', ['''', ''disable'', ''ultrafast'', ''fast'', ''medium'', ''slow''])]"

text \<open>\<open>BOUNDS\<close>: low, high and whether an int is required.\<close>

definition BOUNDS :: "(string \<times> (rat \<times> rat \<times> bool)) list" where
  "BOUNDS =
     [(''x264_crf'', (1, 50, True)), (''segment_seconds'', (1, 86400, True)),
      (''keyframe_interval_s'', (0, 3600, False)), (''bframes'', (0, 16, True)),
      (''videoconvert_threads'', (0, 64, True))]"

definition EDITABLE :: "string list" where
  "EDITABLE = map fst CHOICES @ map fst BOUNDS @ [''nvenc_maxperf'']"

definition requested :: "(string \<times> json) list \<Rightarrow> (string \<times> json) list" where
  "requested cfg = map (\<lambda>(k, _, _). (k, field cfg k)) RecordingConfig"

definition valid_entry :: "string \<Rightarrow> json \<Rightarrow> bool" where
  "valid_entry key v =
     (case map_of CHOICES key of
        Some choices \<Rightarrow> (case v of JStr s \<Rightarrow> s \<in> set choices | _ \<Rightarrow> False)
      | None \<Rightarrow>
          (case map_of BOUNDS key of
             Some (lo, hi, is_int) \<Rightarrow>
               (case v of
                  JInt i \<Rightarrow> lo \<le> of_int i \<and> of_int i \<le> hi
                | JNum x \<Rightarrow> \<not> is_int \<and> lo \<le> x \<and> x \<le> hi
                | _ \<Rightarrow> False)
           | None \<Rightarrow> (case v of JBool _ \<Rightarrow> True | _ \<Rightarrow> False)))"

datatype patch_error = Not_An_Object | Not_Editable "string list" | Bad_Value string

fun check_entries :: "(string \<times> json) list \<Rightarrow> patch_error option" where
  "check_entries [] = None"
| "check_entries ((k, v) # es) = (if valid_entry k v then check_entries es else Some (Bad_Value k))"

definition apply_patch :: "(string \<times> json) list \<Rightarrow> json \<Rightarrow> patch_error + (string \<times> json) list" where
  "apply_patch cfg patch =
     (case patch of
        JObj entries \<Rightarrow>
          let unknown = filter (\<lambda>k. k \<notin> set EDITABLE) (map fst entries)
          in if entries = [] then Inl Not_An_Object
             else if unknown \<noteq> [] then Inl (Not_Editable unknown)
             else (case check_entries entries of
                     Some err \<Rightarrow> Inl err
                   | None \<Rightarrow> Inr (merge_dict (requested cfg) entries))
      | _ \<Rightarrow> Inl Not_An_Object)"


section \<open>Lemmas\<close>

lemma resolve_available_ffv1:
  "resolve_available avail ''ffv1'' = (if avail ''avenc_ffv1'' then Inr ''ffv1'' else Inl (No_Encoder [''avenc_ffv1'']))"
  by (subst resolve_available.simps) (simp add: elements_def ENCODER_ELEMENTS_def)

lemma resolve_available_elements:
  assumes "resolve_available avail encr = Inr e"
  shows "(\<forall>x \<in> set (elements e). avail x) \<and> (e = encr \<or> e = ''ffv1'')"
proof (cases "filter (\<lambda>x. \<not> avail x) (elements encr) = []")
  case True
  then show ?thesis
    using assms by (subst (asm) resolve_available.simps) (auto simp: filter_empty_conv)
next
  case False
  then show ?thesis
    using assms
    by (subst (asm) resolve_available.simps)
      (auto simp: resolve_available_ffv1 elements_def ENCODER_ELEMENTS_def split: if_splits)
qed

text \<open>The one shape of an answer: stream-copy through the source's parser, or an available encoder
  reached from the selected one by the documented degradations.\<close>

definition downgraded :: "int \<Rightarrow> string \<Rightarrow> string" where
  "downgraded bits e =
     (let e = (if e = ''stream-copy'' then ''ffv1'' else e) in
      if e \<in> {''x265-lossless'', ''hw-hevc-lossless'', ''x264''} \<and> bits > 8 then ''ffv1'' else e)"

lemma map_sum_Inr: "map_sum id f r = Inr y \<Longrightarrow> \<exists>x. r = Inr x \<and> y = f x"
  by (cases r) auto

lemma x264_settings_bounds:
  "x264_settings cfg = Inr (crf, p) \<Longrightarrow> 1 \<le> crf \<and> crf \<le> 50 \<and> p \<in> set X264_PRESETS"
  by (auto simp: x264_settings_def split: json.splits if_splits)

lemma encoder_fragment_encoder: "encoder_fragment cfg fps color sink e = Inr (d, e') \<Longrightarrow> e' = e"
  by (auto simp: encoder_fragment_def Let_def split: if_splits dest!: map_sum_Inr)

lemma build_cases:
  assumes "build_recorder_description avail cfg bits loc fps color parser = Inr (d, e)"
  defines "sel \<equiv> select_encoder (as_str (field cfg ''encoder'')) bits color (has_parser parser)"
  shows "e = ''stream-copy'' \<and> sel = ''stream-copy'' \<and> has_parser parser
           \<and> d = stream_copy_fragment (the parser) (splitmux loc (as_int (field cfg ''segment_seconds'')) False)
       \<or> resolve_available avail (downgraded bits sel) = Inr e
           \<and> (sel = ''stream-copy'' \<longrightarrow> \<not> has_parser parser)"
proof (cases "sel = ''stream-copy'' \<and> has_parser parser")
  case True
  then show ?thesis
    using assms(1) unfolding build_recorder_description_def Let_def sel_def[symmetric] by simp
next
  case False
  have "\<exists>e0. resolve_available avail (downgraded bits sel) = Inr e0
    \<and> encoder_fragment cfg fps color (splitmux loc (as_int (field cfg ''segment_seconds'')) True) e0 = Inr (d, e)"
    using assms(1) False unfolding build_recorder_description_def Let_def ebind_Inr_iff sel_def[symmetric] downgraded_def
    by simp
  then show ?thesis
    using False encoder_fragment_encoder by blast
qed

lemma select_encoder_lossy: "select_encoder s bits color par = ''x264'' \<Longrightarrow> s = ''x264''"
  by (auto simp: select_encoder_def Let_def split: if_splits)

lemma select_encoder_range: "select_encoder s bits color par \<in> set VALID_ENCODERS - {''auto''}"
  by (auto simp: select_encoder_def VALID_ENCODERS_def Let_def)

lemma downgraded_range:
  assumes "e \<in> set VALID_ENCODERS - {''auto''}"
  shows "downgraded bits e \<in> {''ffv1'', ''x264'', ''x265-lossless'', ''hw-hevc-lossless''}"
    "bits > 8 \<Longrightarrow> downgraded bits e = ''ffv1''"
  using assms by (auto simp: downgraded_def VALID_ENCODERS_def Let_def)

lemma downgraded_x264: "downgraded bits e = ''x264'' \<Longrightarrow> e = ''x264'' \<and> bits \<le> 8"
  by (auto simp: downgraded_def Let_def split: if_splits)

section \<open>Properties\<close>




lemma check_entries_None: "check_entries es = None \<longleftrightarrow> (\<forall>(k, v) \<in> set es. valid_entry k v)"
  by (induction es rule: check_entries.induct) auto

lemma check_entries_Some: "check_entries es = Some err \<Longrightarrow> \<exists>k v. (k, v) \<in> set es \<and> \<not> valid_entry k v \<and> err = Bad_Value k"
  by (induction es rule: check_entries.induct) (auto split: if_splits)

lemma map_of_requested:
  "map_of (requested cfg) k = (if k \<in> fst ` set RecordingConfig then Some (field cfg k) else None)"
proof -
  have "map_of (map (\<lambda>(k, _, _). (k, g k)) xs) k = (if k \<in> fst ` set xs then Some (g k) else None)"
    for xs :: dataclass and g :: "string \<Rightarrow> json"
    by (induction xs) auto
  then show ?thesis by (simp add: requested_def)
qed

lemma EDITABLE_fields: "k \<in> set EDITABLE \<Longrightarrow> k \<in> fst ` set RecordingConfig"
  unfolding EDITABLE_def CHOICES_def BOUNDS_def RecordingConfig_def by auto

lemma apply_patch_Inr:
  "apply_patch cfg patch = Inr cfg' \<longleftrightarrow>
     (\<exists>es. patch = JObj es \<and> es \<noteq> [] \<and> (\<forall>(k, v) \<in> set es. k \<in> set EDITABLE \<and> valid_entry k v)
        \<and> cfg' = merge_dict (requested cfg) es)"
proof (cases patch)
  case (JObj es)
  have "(\<forall>(k, v) \<in> set es. k \<in> set EDITABLE \<and> valid_entry k v) \<longleftrightarrow>
      filter (\<lambda>k. k \<notin> set EDITABLE) (map fst es) = [] \<and> check_entries es = None"
    by (auto simp: check_entries_None filter_empty_conv)
  then show ?thesis
    unfolding JObj apply_patch_def Let_def by (auto split: option.split)
qed (simp_all add: apply_patch_def)

lemma apply_patch_refusals:
  "apply_patch cfg patch = Inl (Not_Editable ks) \<Longrightarrow> ks \<noteq> [] \<and> set ks \<inter> set EDITABLE = {}"
  "apply_patch cfg patch = Inl (Bad_Value k) \<Longrightarrow>
     \<exists>es v. patch = JObj es \<and> k \<in> set EDITABLE \<and> (k, v) \<in> set es \<and> \<not> valid_entry k v"
proof -
  show "apply_patch cfg patch = Inl (Not_Editable ks) \<Longrightarrow> ks \<noteq> [] \<and> set ks \<inter> set EDITABLE = {}"
    by (auto simp: apply_patch_def Let_def dest: check_entries_Some split: json.splits option.splits if_splits)
  assume a: "apply_patch cfg patch = Inl (Bad_Value k)"
  then obtain es where es: "patch = JObj es" "filter (\<lambda>k. k \<notin> set EDITABLE) (map fst es) = []"
      "check_entries es = Some (Bad_Value k)"
    by (auto simp: apply_patch_def Let_def split: json.splits option.splits if_splits)
  then show "\<exists>es v. patch = JObj es \<and> k \<in> set EDITABLE \<and> (k, v) \<in> set es \<and> \<not> valid_entry k v"
    using check_entries_Some[OF es(3)] by (force simp: filter_empty_conv)
qed

text \<open>a runtime settings patch.  It is accepted exactly when it is a non-empty object of editable keys with
  valid values; the result then has every field of the dataclass, the patched ones at the (last) value named, all
  others as they were; a refusal names a key that is not editable or whose value is out of range.\<close>

theorem apply_patch_exact:
  "(\<forall>cfg'. apply_patch cfg patch = Inr cfg' \<longleftrightarrow>
      (\<exists>es. patch = JObj es \<and> es \<noteq> [] \<and> (\<forall>(k, v) \<in> set es. k \<in> set EDITABLE \<and> valid_entry k v)
         \<and> cfg' = merge_dict (requested cfg) es))
   \<and> (\<forall>cfg' es k. apply_patch cfg patch = Inr cfg' \<and> patch = JObj es \<and> distinct (map fst es)
        \<and> k \<in> fst ` set RecordingConfig \<longrightarrow>
        field cfg' k = (case map_of es k of Some v \<Rightarrow> v | None \<Rightarrow> field cfg k))
   \<and> (\<forall>ks. apply_patch cfg patch = Inl (Not_Editable ks) \<longrightarrow> ks \<noteq> [] \<and> set ks \<inter> set EDITABLE = {})
   \<and> (\<forall>k. apply_patch cfg patch = Inl (Bad_Value k) \<longrightarrow> k \<in> set EDITABLE
        \<and> (\<exists>es v. patch = JObj es \<and> (k, v) \<in> set es \<and> \<not> valid_entry k v))"
proof (intro conjI allI impI)
  show "apply_patch cfg patch = Inr cfg' \<longleftrightarrow>
      (\<exists>es. patch = JObj es \<and> es \<noteq> [] \<and> (\<forall>(k, v) \<in> set es. k \<in> set EDITABLE \<and> valid_entry k v)
         \<and> cfg' = merge_dict (requested cfg) es)" for cfg' by (rule apply_patch_Inr)
next
  fix cfg' es k
  assume a: "apply_patch cfg patch = Inr cfg' \<and> patch = JObj es \<and> distinct (map fst es) \<and> k \<in> fst ` set RecordingConfig"
  then have "map_of (requested cfg) k = Some (field cfg k)" by (simp only: map_of_requested if_True)
  with a show "field cfg' k = (case map_of es k of Some v \<Rightarrow> v | None \<Rightarrow> field cfg k)"
    by (auto simp: apply_patch_Inr field_def[of "merge_dict _ _"] field_of_def[of _ "merge_dict _ _"] map_of_merge_dict split: option.splits)
qed (use apply_patch_refusals in blast)+

theorem apply_patch_exact_witness:
  "apply_patch [(''segment_seconds'', JInt 120)] (JObj [(''x264_crf'', JInt 18)]) =
     Inr (merge_dict (requested [(''segment_seconds'', JInt 120)]) [(''x264_crf'', JInt 18)])
   \<and> field (merge_dict (requested [(''segment_seconds'', JInt 120)]) [(''x264_crf'', JInt 18)]) ''segment_seconds'' = JInt 120"
proof -
  have b: "apply_patch [(''segment_seconds'', JInt 120)] (JObj [(''x264_crf'', JInt 18)]) =
     Inr (merge_dict (requested [(''segment_seconds'', JInt 120)]) [(''x264_crf'', JInt 18)])" by code_simp
  have k: "''segment_seconds'' \<in> fst ` set RecordingConfig" by code_simp
  show ?thesis
    using b k apply_patch_exact[of "[(''segment_seconds'', JInt 120)]" "JObj [(''x264_crf'', JInt 18)]"]
    by (simp add: field_def field_of_def)
qed

end
