(* ===== verification/Py_Format.thy ===== *)
theory Py_Format
  imports Py_Values
begin

text \<open>
  Python's rounding and number formatting, as the program uses them: \<open>round(x, n)\<close> (half to even, on the exact
  value), \<open>f"{x:.0f}"\<close> and \<open>f"{x:g}"\<close>.
\<close>

section \<open>Rounding\<close>

definition round_even :: "rat \<Rightarrow> int" where
  "round_even x =
     (let f = \<lfloor>x\<rfloor>; d = x - of_int f
      in if d < 1 / 2 then f else if d > 1 / 2 then f + 1 else if even f then f else f + 1)"

definition py_round :: "nat \<Rightarrow> rat \<Rightarrow> rat" where
  "py_round n x = of_int (round_even (x * 10 ^ n)) / 10 ^ n"

lemma round_even_close: "\<bar>of_int (round_even x) - x\<bar> \<le> 1 / 2"
proof -
  define d where "d = x - of_int \<lfloor>x\<rfloor>"
  have d: "0 \<le> d" "d < 1" "x = of_int \<lfloor>x\<rfloor> + d" unfolding d_def by linarith+
  show ?thesis
    unfolding round_even_def Let_def d_def[symmetric] using d by (auto simp: abs_if)
qed

lemma round_even_mono: "x \<le> y \<Longrightarrow> round_even x \<le> round_even y"
proof -
  assume le: "x \<le> y"
  show "round_even x \<le> round_even y"
  proof (cases "\<lfloor>x\<rfloor> = \<lfloor>y\<rfloor>")
    case True
    then show ?thesis using le by (auto simp: round_even_def Let_def)
  next
    case False
    with floor_mono[OF le] have "\<lfloor>x\<rfloor> + 1 \<le> \<lfloor>y\<rfloor>" by simp
    moreover have "round_even x \<le> \<lfloor>x\<rfloor> + 1" "\<lfloor>y\<rfloor> \<le> round_even y" by (auto simp: round_even_def Let_def)
    ultimately show ?thesis by simp
  qed
qed

lemma round_even_int [simp]: "round_even (of_int i) = i"
  by (simp add: round_even_def)

lemma py_round_0 [simp]: "py_round n 0 = 0"
  using round_even_int[of 0] by (simp add: py_round_def)

lemma py_round_mono: "x \<le> y \<Longrightarrow> py_round n x \<le> py_round n y"
  by (auto simp: py_round_def intro!: divide_right_mono round_even_mono mult_right_mono)

lemma py_round_nonneg: "0 \<le> x \<Longrightarrow> 0 \<le> py_round n x"
  using py_round_mono[of 0 x n] by simp

lemma py_round_close: "\<bar>py_round n x - x\<bar> \<le> 1 / (2 * 10 ^ n)"
proof -
  have "\<bar>py_round n x - x\<bar> = \<bar>(of_int (round_even (x * 10 ^ n)) - x * 10 ^ n) / 10 ^ n\<bar>"
    by (simp add: py_round_def diff_divide_distrib)
  also have "\<dots> = \<bar>of_int (round_even (x * 10 ^ n)) - x * 10 ^ n\<bar> / 10 ^ n" by (simp add: abs_divide)
  also have "\<dots> \<le> (1 / 2) / 10 ^ n" by (intro divide_right_mono round_even_close) simp
  finally show ?thesis by simp
qed

lemma py_round_lower: "x - 1 / (2 * 10 ^ n) \<le> py_round n x"
  using abs_le_D2[OF py_round_close[of n x]] by linarith

section \<open>Formats\<close>

definition fmt_f0 :: "rat \<Rightarrow> string" where
  "fmt_f0 x = (if x < 0 \<and> round_even x = 0 then ''-0'' else str_int (round_even x))"

text \<open>The decimal exponent of a positive number: \<open>10^e \<le> x < 10^(e+1)\<close>.\<close>

definition exp10 :: "rat \<Rightarrow> int" where
  "exp10 x = (if x \<ge> 1 then int (length (str_nat (nat \<lfloor>x\<rfloor>))) - 1
              else - int (length (str_nat (nat (\<lceil>1 / x\<rceil> - 1)))))"

definition strip_zeros :: "string \<Rightarrow> string" where
  "strip_zeros s = rev (dropWhile (\<lambda>c. c = CHR ''0'') (rev s))"

definition with_point :: "string \<Rightarrow> string \<Rightarrow> string" where
  "with_point ip fp = (let f = strip_zeros fp in if f = [] then ip else ip @ ''.'' @ f)"

text \<open>Six significant digits \<open>ds\<close>, the first at \<open>10^e\<close>; trailing zeros are dropped.\<close>

definition fmt_g :: "rat \<Rightarrow> string" where
  "fmt_g x =
     (if x = 0 then ''0'' else
      let a = \<bar>x\<bar>; e0 = exp10 a; m0 = nat (round_even (a * pow10 (5 - e0)));
          (e, m) = (if m0 = 1000000 then (e0 + 1, 100000) else (e0, m0));
          ds = str_nat m; ex = str_nat (nat \<bar>e\<bar>)
      in (if x < 0 then ''-'' else []) @
         (if e < - 4 \<or> 6 \<le> e
          then with_point (take 1 ds) (drop 1 ds) @ ''e'' @ (if e < 0 then ''-'' else ''+'')
                 @ (if length ex = 1 then ''0'' @ ex else ex)
          else if e < 0 then with_point ''0'' (replicate (nat (- e) - 1) (CHR ''0'') @ ds)
          else with_point (take (nat e + 1) ds) (drop (nat e + 1) ds)))"

end
