(* ===== verification/Pcap_Source.thy ===== *)
theory Pcap_Source
  imports Uvc_Probe Playback_Control Playback_Runs Recorder_Plan Py_Format
begin

text \<open>
  \<open>core-driver/cam_driver/sources/pcapsrc.py\<close>: playing a usbmon capture - opening it, the feeder thread that
  re-stamps, paces and delivers the reassembled frames pass after pass, and the MJPEG path through a
  mini-pipeline.  A pass is what the extractor yields (\<open>Uvc_Frames.iter_extractor\<close>): frames, the statistics it leaves
  and the error that ended it.  What the feeder meets - the stop event, clocks, the verdicts of the playback
  control, what the mini-pipeline answers - is one \<open>turn\<close> per frame.
\<close>

section \<open>Opening a capture\<close>

datatype pcap_source_error = Frame_Based_Payloads | Bad_Pcap_Retime | Unreadable probe_error

record pcap_conf =
  pf_pixel_format :: "string option"
  pf_width :: int
  pf_height :: int
  pf_bus :: "nat option"
  pf_device :: "nat option"
  pf_endpoint :: "nat option"
  pf_retime :: "string option"

definition conf_format :: "pcap_conf \<Rightarrow> string" where
  "conf_format cf = upper (case pf_pixel_format cf of Some f \<Rightarrow> f | None \<Rightarrow> [])"

definition conf_mjpeg :: "pcap_conf \<Rightarrow> bool" where
  "conf_mjpeg cf \<longleftrightarrow> conf_format cf \<in> {''MJPEG'', ''JPEG''}"

definition expected_size :: "pcap_conf \<Rightarrow> int option" where
  "expected_size cf =
     (if conf_mjpeg cf then None
      else Some (bytes_per_frame (fst (parse_pixel_format (pf_pixel_format cf))) (pf_width cf) (pf_height cf)))"

definition retime_mode :: "pcap_conf \<Rightarrow> string" where
  "retime_mode cf = (case pf_retime cf of Some r \<Rightarrow> if r = [] then ''original'' else r | None \<Rightarrow> ''original'')"

text \<open>The extractor of the stream chosen.\<close>

definition open_pcap :: "bytes \<Rightarrow> pcap_conf \<Rightarrow> pcap_source_error + uvc_cfg" where
  "open_pcap file cf =
     (if conf_format cf \<in> {''H264'', ''H265''} then Inl Frame_Based_Payloads
      else case ebind (probe file None) (\<lambda>pr. select_stream pr (pf_bus cf) (pf_device cf) (pf_endpoint cf)) of
        Inl e \<Rightarrow> Inl (Unreadable e)
      | Inr s \<Rightarrow>
          if retime_mode cf \<notin> {''original'', ''wall''} then Inl Bad_Pcap_Retime
          else Inr (new_extractor_cfg (si_bus s) (si_dev s) (si_ep s) (map_option nat (expected_size cf)) (conf_mjpeg cf)
                      (Option.bind (si_negotiated s) ng_max_payload_size) False))"

section \<open>The feeder\<close>

type_synonym pass = "(nat \<times> bytes) list \<times> extractor_stats \<times> capture_error option"

record turn =
  tn_request :: "playback \<Rightarrow> playback"      \<comment> \<open>what the controls did since the last frame\<close>
  tn_halted :: bool                         \<comment> \<open>the stop event, or a failure of the mini-pipeline\<close>
  tn_now_ns :: int
  tn_verdict1 :: pb_verdict
  tn_restart :: bool                        \<comment> \<open>what \<open>take_restart\<close> returned after a \<open>Resume\<close>\<close>
  tn_mono_ns :: int
  tn_stopped :: bool
  tn_verdict2 :: pb_verdict
  tn_push_ok :: bool
  tn_stats :: extractor_stats               \<comment> \<open>the statistics when this frame was yielded\<close>

record feeder =
  fd_mjpeg :: bool
  fd_wall :: bool
  fd_cycle :: nat
  fd_offset :: int
  fd_span :: int
  fd_retime :: int
  fd_finished :: bool
  fd_failed :: bool
  fd_playback :: playback
  fd_base_src_ts :: "int option"
  fd_stamp_q :: "frame_stamp list"
  fd_pushed :: "int list"                   \<comment> \<open>the PTS of the buffers pushed\<close>
  fd_out :: "(frame_stamp \<times> bytes) list"    \<comment> \<open>handed on, to \<open>on_frame\<close> or the mini-pipeline\<close>

definition new_feeder :: "pcap_conf \<Rightarrow> playback \<Rightarrow> feeder" where
  "new_feeder cf ps =
     \<lparr>fd_mjpeg = conf_mjpeg cf, fd_wall = (retime_mode cf = ''wall''), fd_cycle = 0, fd_offset = 0, fd_span = 0, fd_retime = 0,
      fd_finished = False, fd_failed = False, fd_playback = ps, fd_base_src_ts = None, fd_stamp_q = [], fd_pushed = [], fd_out = []\<rparr>"

definition capture_stamp :: "nat \<Rightarrow> int \<Rightarrow> frame_stamp" where
  "capture_stamp idx ts = \<lparr>fs_frame_id = int idx, fs_timestamp_ns = ts, fs_source = SYSTEM, fs_system_ns = ts, fs_camera_ns = ts, fs_chunk_ns = None\<rparr>"

text \<open>\<open>_push_encoded\<close>: the stamp waits for the probe; a rejected buffer takes its stamp out again.\<close>

definition push_encoded :: "bool \<Rightarrow> frame_stamp \<Rightarrow> feeder \<Rightarrow> feeder" where
  "push_encoded ok st fd =
     (let base = (case fd_base_src_ts fd of Some b \<Rightarrow> b | None \<Rightarrow> fs_timestamp_ns st)
      in fd\<lparr>fd_base_src_ts := Some base, fd_stamp_q := (if ok then fd_stamp_q fd @ [st] else fd_stamp_q fd),
            fd_pushed := (if ok then fd_pushed fd @ [fs_timestamp_ns st - base] else fd_pushed fd)\<rparr>)"

text \<open>\<open>_new_stamp\<close> of the pre-tee probe: the oldest stamp that waits.\<close>

definition probe_stamp :: "feeder \<Rightarrow> frame_stamp option \<times> feeder" where
  "probe_stamp fd = (case fd_stamp_q fd of [] \<Rightarrow> (None, fd) | st # q \<Rightarrow> (Some st, fd\<lparr>fd_stamp_q := q\<rparr>))"

definition hand_on :: "turn \<Rightarrow> frame_stamp \<Rightarrow> bytes \<Rightarrow> feeder \<Rightarrow> feeder" where
  "hand_on e st frame fd =
     (let fd = (if fd_mjpeg fd then push_encoded (tn_push_ok e) st fd else fd)
      in fd\<lparr>fd_out := fd_out fd @ [(st, frame)], fd_playback := note_frame (fs_timestamp_ns st) None (fd_playback fd)\<rparr>)"

datatype fed = Returned | Abandoned | Delivered | Threw

text \<open>The pacer's wait; the first part is whether it returned (a speed that is no number makes it raise).\<close>

definition wait_due :: "int \<Rightarrow> int \<Rightarrow> feeder \<Rightarrow> bool \<times> feeder" where
  "wait_due ts mns fd =
     (let (delay, pc) = pacer_wait ts mns (pb_pacer (fd_playback fd))
      in (delay \<noteq> None, fd\<lparr>fd_playback := (fd_playback fd)\<lparr>pb_pacer := pc\<rparr>\<rparr>))"

definition no_restart :: "feeder \<Rightarrow> feeder" where
  "no_restart fd = fd\<lparr>fd_playback := (fd_playback fd)\<lparr>pb_restart_pending := False\<rparr>\<rparr>"

text \<open>One frame.\<close>

definition retime_first :: "turn \<Rightarrow> nat \<Rightarrow> feeder \<Rightarrow> feeder" where
  "retime_first e ts fd =
     (if fd_retime fd = 0 \<and> fd_cycle fd = 0 \<and> fd_wall fd then fd\<lparr>fd_retime := tn_now_ns e - int ts\<rparr> else fd)"

definition paced :: "turn \<Rightarrow> frame_stamp \<Rightarrow> bytes \<Rightarrow> feeder \<Rightarrow> fed \<times> feeder" where
  "paced e st frame fd =
     (case tn_verdict1 e of
        Stop \<Rightarrow> (Returned, fd)
      | Restart \<Rightarrow> (Abandoned, no_restart fd)
      | Resume \<Rightarrow>
          if tn_restart e then (Abandoned, no_restart fd)
          else let (due, fd) = wait_due (fs_timestamp_ns st) (tn_mono_ns e) fd in
               if \<not> due then (Threw, fd)
               else if tn_stopped e then (Returned, fd)
               else (case tn_verdict2 e of
                       Stop \<Rightarrow> (Returned, fd)
                     | Restart \<Rightarrow> (Abandoned, no_restart fd)
                     | Resume \<Rightarrow> (Delivered, hand_on e st frame fd)))"

definition feed_frame :: "turn \<Rightarrow> nat \<Rightarrow> nat \<times> bytes \<Rightarrow> feeder \<Rightarrow> fed \<times> feeder" where
  "feed_frame e idx fr fd =
     (let fd = fd\<lparr>fd_playback := tn_request e (fd_playback fd)\<rparr> in
      if tn_halted e \<or> fd_failed fd then (Returned, fd)
      else let fd = retime_first e (fst fr) fd;
               st = capture_stamp idx (int (fst fr) + (fd_retime fd + fd_offset fd));
               (preroll, ps) = take_preroll (fd_playback fd);
               fd = fd\<lparr>fd_playback := ps\<rparr>
           in if preroll then (Delivered, hand_on e st (snd fr) fd) else paced e st (snd fr) fd)"

text \<open>The frames of a pass from the \<open>idx\<close>th on; the second part is the number delivered, the third the turn it was
  abandoned in.\<close>

fun feed_pass :: "(nat \<Rightarrow> turn) \<Rightarrow> nat \<Rightarrow> (nat \<times> bytes) list \<Rightarrow> feeder \<Rightarrow> fed \<times> nat \<times> nat \<times> feeder" where
  "feed_pass turns idx [] fd = (Delivered, 0, idx, fd)"
| "feed_pass turns idx (fr # frs) fd =
     (case feed_frame (turns idx) idx fr fd of
        (Delivered, fd) \<Rightarrow> (case feed_pass turns (idx + 1) frs fd of (r, n, i, fd) \<Rightarrow> (r, n + 1, i, fd))
      | (r, fd) \<Rightarrow> (r, 0, idx, fd))"

text \<open>The length of a cycle, measured once: from the statistics as they are then.\<close>

definition measure_span :: "extractor_stats \<Rightarrow> feeder \<Rightarrow> feeder" where
  "measure_span st fd =
     (case (es_first_ts_ns st, es_last_ts_ns st) of
        (Some first, Some lst) \<Rightarrow>
          if fd_span fd = 0 \<and> lst \<noteq> 0
          then let d = int lst - int first;
                   interval = (if es_frames_ok st > 1 then d div max 1 (int (es_frames_ok st) - 1) else DEFAULT_INTERVAL_NS);
                   span = d + interval
               in fd\<lparr>fd_span := span,
                     fd_playback := (fd_playback fd)\<lparr>pb_duration_s := Some (py_round 3 (of_int span / 1000000000))\<rparr>\<rparr>
          else fd
      | _ \<Rightarrow> fd)"

text \<open>After a pass; whether another follows.\<close>

definition after_pass :: "bool \<Rightarrow> nat \<Rightarrow> extractor_stats \<Rightarrow> feeder \<Rightarrow> bool \<times> feeder" where
  "after_pass restarted delivered st fd =
     (let fd = measure_span st fd in
      if delivered = 0 \<and> \<not> restarted then (False, fd\<lparr>fd_failed := True\<rparr>)
      else if \<not> restarted \<and> \<not> pb_loop (fd_playback fd) then (False, fd)
      else let c = fd_cycle fd + 1
           in (True, fd\<lparr>fd_cycle := c, fd_offset := int c * fd_span fd, fd_playback := mark_cycle (int c) (fd_playback fd)\<rparr>))"

datatype feed_end = Fed_All | Left_Early | Raised

text \<open>One pass and what follows it: \<open>None\<close> is another pass.\<close>

definition feed_cycle :: "(nat \<Rightarrow> turn) \<Rightarrow> pass \<Rightarrow> feeder \<Rightarrow> feed_end option \<times> feeder" where
  "feed_cycle turns p fd =
     (case p of (frames, st, err) \<Rightarrow>
        (case feed_pass turns 0 frames fd of
           (Returned, _, _, fd) \<Rightarrow> (Some Left_Early, fd)
         | (Threw, _, _, fd) \<Rightarrow> (Some Raised, fd\<lparr>fd_failed := True\<rparr>)
         | (Abandoned, n, i, fd) \<Rightarrow>
             (case after_pass True n (tn_stats (turns i)) fd of (_, fd) \<Rightarrow> (None, fd))
         | (Delivered, n, _, fd) \<Rightarrow>
             if err \<noteq> None then (Some Raised, fd\<lparr>fd_failed := True\<rparr>)
             else (case after_pass False n st fd of (again, fd) \<Rightarrow> (if again then None else Some Fed_All, fd))))"

text \<open>The loop over the passes; \<open>n\<close> bounds the passes looked at, \<open>halt\<close> is the stop event before each.\<close>

fun feed_loop :: "nat \<Rightarrow> (nat \<Rightarrow> bool) \<Rightarrow> (nat \<Rightarrow> nat \<Rightarrow> turn) \<Rightarrow> pass \<Rightarrow> feeder \<Rightarrow> feed_end option \<times> feeder" where
  "feed_loop 0 halt turns p fd = (None, fd)"
| "feed_loop (Suc n) halt turns p fd =
     (if halt (fd_cycle fd) \<or> fd_failed fd then (Some Fed_All, fd)
      else case feed_cycle (turns (fd_cycle fd)) p fd of
             (None, fd) \<Rightarrow> feed_loop n halt turns p fd
           | (Some r, fd) \<Rightarrow> (Some r, fd))"

section \<open>The end of the feed\<close>

record drain_env =
  dr_stopped :: bool        \<comment> \<open>the stop event when the feed ended\<close>
  dr_eos_ok :: bool         \<comment> \<open>the mini-pipeline took the end of stream\<close>
  dr_drained :: bool        \<comment> \<open>it posted it within the wait\<close>
  dr_stop_later :: bool     \<comment> \<open>the stop event was set during the wait\<close>
  dr_clock :: rat

definition on_mini_eos :: "feeder \<Rightarrow> feeder" where
  "on_mini_eos fd = fd\<lparr>fd_finished := True\<rparr>"

definition on_mini_error :: "feeder \<Rightarrow> feeder" where
  "on_mini_error fd = fd\<lparr>fd_failed := True, fd_finished := True\<rparr>"

definition drain :: "drain_env \<Rightarrow> feeder \<Rightarrow> bool \<times> feeder" where
  "drain e fd =
     (if fd_mjpeg fd \<and> \<not> dr_stopped e \<and> \<not> fd_failed fd \<and> dr_eos_ok e
      then let fd = (if dr_drained e then on_mini_eos fd else fd) in
           if fd_finished fd \<or> dr_stop_later e then (True, fd) else (False, fd\<lparr>fd_failed := True\<rparr>)
      else (False, fd))"

definition end_feed :: "drain_env \<Rightarrow> feed_end \<Rightarrow> feeder \<Rightarrow> feeder" where
  "end_feed e r fd =
     (let (eos_sent, fd) = (if r = Fed_All then drain e fd else (False, fd));
          fd = (if eos_sent then fd else fd\<lparr>fd_finished := True\<rparr>)
      in if fd_finished fd \<or> fd_failed fd
         then fd\<lparr>fd_playback := mark_finished (dr_clock e) (if fd_failed fd then Some ''playback failed'' else None) (fd_playback fd)\<rparr>
         else fd)"

text \<open>Stopping releases a start gate; the stop event it sets is what later turns (and the drain) see.\<close>

definition stop_pcap :: "feeder \<Rightarrow> feeder" where
  "stop_pcap fd = fd\<lparr>fd_playback := cancel_start_gate (fd_playback fd)\<rparr>"

section \<open>Time goes forward\<close>

definition same_timeline :: "feeder \<Rightarrow> feeder \<Rightarrow> bool" where
  "same_timeline a b \<longleftrightarrow> fd_cycle b = fd_cycle a \<and> fd_offset b = fd_offset a \<and> fd_span b = fd_span a \<and> fd_retime b = fd_retime a
     \<and> fd_wall b = fd_wall a \<and> fd_failed b = fd_failed a"

text \<open>The re-timing offset will not change any more.\<close>

definition settled :: "feeder \<Rightarrow> bool" where
  "settled fd \<longleftrightarrow> \<not> (fd_retime fd = 0 \<and> fd_cycle fd = 0 \<and> fd_wall fd)"

definition restarts :: "turn \<Rightarrow> bool" where
  "restarts e \<longleftrightarrow> tn_verdict1 e = Restart \<or> tn_restart e \<or> tn_verdict2 e = Restart"

lemma same_timeline_refl [simp]: "same_timeline fd fd"
  by (simp add: same_timeline_def)

lemma same_timeline_trans: "same_timeline a b \<Longrightarrow> same_timeline b c \<Longrightarrow> same_timeline a c"
  by (simp add: same_timeline_def)

lemma hand_on_facts [simp]:
  "same_timeline a (hand_on e st frame fd) = same_timeline a fd" "fd_out (hand_on e st frame fd) = fd_out fd @ [(st, frame)]"
  by (simp_all add: hand_on_def push_encoded_def Let_def same_timeline_def)

lemma small_steps [simp]:
  "same_timeline a (no_restart fd) = same_timeline a fd" "fd_out (no_restart fd) = fd_out fd"
  "same_timeline a (fd\<lparr>fd_playback := ps\<rparr>) = same_timeline a fd"
  by (simp_all add: no_restart_def same_timeline_def)

lemma wait_due_facts: "wait_due ts mns fd = (due, fd') \<Longrightarrow> same_timeline fd fd' \<and> fd_out fd' = fd_out fd"
  by (auto simp: wait_due_def case_prod_unfold Let_def)

lemma paced_facts:
  assumes "paced e st frame fd = (r, fd')"
  shows "same_timeline fd fd'" "fd_out fd' = fd_out fd @ (if r = Delivered then [(st, frame)] else [])" "r = Abandoned \<longrightarrow> restarts e"
proof -
  obtain due fd1 where w: "wait_due (fs_timestamp_ns st) (tn_mono_ns e) fd = (due, fd1)" by force
  note wd = wait_due_facts[OF w]
  show "same_timeline fd fd'" "fd_out fd' = fd_out fd @ (if r = Delivered then [(st, frame)] else [])" "r = Abandoned \<longrightarrow> restarts e"
    using assms w wd by (auto simp: paced_def restarts_def Let_def split: pb_verdict.splits if_splits)
qed

lemma retime_settled: "settled fd \<Longrightarrow> retime_first e ts fd = fd"
  by (auto simp: retime_first_def settled_def)

lemma feed_frame_facts:
  assumes "feed_frame e idx fr fd = (r, fd')" "settled fd"
  shows "same_timeline fd fd'"
    "fd_out fd' = fd_out fd @ (if r = Delivered then [(capture_stamp idx (int (fst fr) + (fd_retime fd + fd_offset fd)), snd fr)] else [])"
    "r = Abandoned \<longrightarrow> restarts e"
proof -
  let ?st = "capture_stamp idx (int (fst fr) + (fd_retime fd + fd_offset fd))"
  let ?at = "\<lambda>ps. fd\<lparr>fd_playback := ps\<rparr>"
  have s: "settled (?at ps)" for ps using assms(2) by (simp add: settled_def)
  consider ps where "(r, fd') = (Returned, ?at ps)" | ps where "(r, fd') = (Delivered, hand_on e ?st (snd fr) (?at ps))"
    | ps where "paced e ?st (snd fr) (?at ps) = (r, fd')"
    using assms(1) by (simp add: feed_frame_def Let_def retime_settled[OF s] take_preroll_def split: if_splits) metis+
  then show "same_timeline fd fd'" "fd_out fd' = fd_out fd @ (if r = Delivered then [(?st, snd fr)] else [])"
    "r = Abandoned \<longrightarrow> restarts e"
  proof (atomize(full), cases)
    case (3 ps)
    then show "same_timeline fd fd' \<and> fd_out fd' = fd_out fd @ (if r = Delivered then [(?st, snd fr)] else []) \<and> (r = Abandoned \<longrightarrow> restarts e)"
      using paced_facts[OF 3] by (simp add: same_timeline_def)
  qed simp_all
qed

definition shifted :: "nat \<Rightarrow> int \<Rightarrow> (nat \<times> bytes) list \<Rightarrow> nat \<Rightarrow> (frame_stamp \<times> bytes) list" where
  "shifted idx base frs n = map (\<lambda>k. (capture_stamp (idx + k) (int (fst (frs ! k)) + base), snd (frs ! k))) [0..<n]"

lemma shifted_member:
  assumes "x \<in> set (shifted idx base frs n)"
  obtains k where "k < n" "x = (capture_stamp (idx + k) (int (fst (frs ! k)) + base), snd (frs ! k))"
  using assms by (auto simp: shifted_def)

lemma shifted_Cons:
  "shifted idx base (fr # frs) (Suc n) = (capture_stamp idx (int (fst fr) + base), snd fr) # shifted (Suc idx) base frs n"
  by (simp add: shifted_def map_upt_Suc del: upt_Suc)

lemma feed_pass_facts:
  assumes "feed_pass turns idx frs fd = (r, n, i, fd')" "settled fd"
  shows "same_timeline fd fd' \<and> n \<le> length frs \<and> fd_out fd' = fd_out fd @ shifted idx (fd_retime fd + fd_offset fd) frs n
     \<and> (r = Delivered \<longrightarrow> n = length frs) \<and> (r = Abandoned \<longrightarrow> (\<exists>j. restarts (turns j)))"
  using assms
proof (induction turns idx frs fd arbitrary: r n i fd' rule: feed_pass.induct)
  case (2 turns idx fr frs fd)
  obtain q fd1 where q: "feed_frame (turns idx) idx fr fd = (q, fd1)" by force
  note f = feed_frame_facts[OF q "2.prems"(2)]
  show ?case
  proof (cases "q = Delivered")
    case True
    obtain r1 n1 i1 fd2 where p: "feed_pass turns (idx + 1) frs fd1 = (r1, n1, i1, fd2)" by (metis surj_pair)
    have res: "r = r1" "n = n1 + 1" "fd' = fd2" using "2.prems"(1) q p True by simp_all
    have "settled fd1" using f(1) "2.prems"(2) by (simp add: settled_def same_timeline_def)
    from "2.IH"[OF q[symmetric] True p this]
    have ih: "same_timeline fd1 fd2 \<and> n1 \<le> length frs \<and> fd_out fd2 = fd_out fd1 @ shifted (idx + 1) (fd_retime fd1 + fd_offset fd1) frs n1
       \<and> (r1 = Delivered \<longrightarrow> n1 = length frs) \<and> (r1 = Abandoned \<longrightarrow> (\<exists>j. restarts (turns j)))" by simp
    have b: "fd_retime fd1 = fd_retime fd" "fd_offset fd1 = fd_offset fd" using f(1) by (simp_all add: same_timeline_def)
    show ?thesis using ih f(2) True same_timeline_trans[OF f(1)] unfolding res b by (simp add: shifted_Cons)
  next
    case False
    then show ?thesis using "2.prems"(1) q f by (cases q) (auto simp: shifted_def)
  qed
qed (simp add: shifted_def)

text \<open>The first frame of a wall-clock replay settles the offset.\<close>

lemma feed_pass_wall:
  assumes "\<not> tn_halted (turns 0)" "\<not> fd_failed fd" "frs \<noteq> []" "fd_retime fd = 0" "fd_cycle fd = 0" "fd_wall fd"
    "tn_now_ns (turns 0) \<noteq> int (fst (hd frs))"
  shows "feed_pass turns 0 frs fd = feed_pass turns 0 frs (fd\<lparr>fd_retime := tn_now_ns (turns 0) - int (fst (hd frs))\<rparr>)"
proof -
  obtain fr rest where frs: "frs = fr # rest" using assms(3) by (cases frs) auto
  have "feed_frame (turns 0) 0 fr fd = feed_frame (turns 0) 0 fr (fd\<lparr>fd_retime := tn_now_ns (turns 0) - int (fst fr)\<rparr>)"
    using assms frs by (cases fd) (simp add: feed_frame_def retime_first_def Let_def)
  then show ?thesis by (simp add: frs)
qed


text \<open>A complete capture: its frames in order, and statistics that span them.\<close>

definition in_order :: "(nat \<times> bytes) list \<Rightarrow> extractor_stats \<Rightarrow> bool" where
  "in_order frs st \<longleftrightarrow> frs \<noteq> [] \<and> sorted_wrt (<) (map fst frs) \<and> es_frames_ok st = length frs
     \<and> (case (es_first_ts_ns st, es_last_ts_ns st) of
          (Some a, Some b) \<Rightarrow> 0 < b \<and> a \<le> fst (hd frs) \<and> fst (last frs) \<le> b | _ \<Rightarrow> False)"

definition cycle_span :: "extractor_stats \<Rightarrow> int" where
  "cycle_span st =
     (let d = int (the (es_last_ts_ns st)) - int (the (es_first_ts_ns st))
      in d + (if es_frames_ok st > 1 then d div max 1 (int (es_frames_ok st) - 1) else DEFAULT_INTERVAL_NS))"

lemma sorted_spread: "sorted_wrt (<) (xs :: nat list) \<Longrightarrow> xs \<noteq> [] \<Longrightarrow> hd xs + (length xs - 1) \<le> last xs"
proof (induction xs)
  case (Cons x xs)
  then show ?case by (cases xs) auto
qed simp

lemma sorted_within: "sorted_wrt (<) (xs :: nat list) \<Longrightarrow> x \<in> set xs \<Longrightarrow> hd xs \<le> x \<and> x \<le> last xs"
  by (induction xs) (auto simp: less_imp_le split: if_splits)

lemma span_covers:
  assumes "in_order frs st" "fr \<in> set frs" "fr' \<in> set frs"
  shows "int (fst fr) < int (fst fr') + cycle_span st"
proof -
  obtain a b where ab: "es_first_ts_ns st = Some a" "es_last_ts_ns st = Some b" "a \<le> fst (hd frs)" "fst (last frs) \<le> b"
    and s: "sorted_wrt (<) (map fst frs)" "frs \<noteq> []" "es_frames_ok st = length frs"
    using assms(1) by (auto simp: in_order_def split: option.splits)
  have w: "fst fr \<le> b" "a \<le> fst fr'"
    using sorted_within[OF s(1), of "fst fr"] sorted_within[OF s(1), of "fst fr'"] assms(2,3) ab s(2)
    by (auto simp: hd_map last_map)
  have sp: "a + (length frs - 1) \<le> b"
    using sorted_spread[OF s(1)] s(2) ab by (simp add: hd_map last_map)
  have "0 < (if length frs > 1 then (int b - int a) div max 1 (int (length frs) - 1) else DEFAULT_INTERVAL_NS)"
  proof (cases "length frs > 1")
    case True
    then have "int (length frs) - 1 \<le> int b - int a" "0 < int (length frs) - 1" using sp by linarith+
    then have "0 < (int b - int a) div (int (length frs) - 1)" by (simp add: pos_imp_zdiv_pos_iff)
    then show ?thesis using True by (simp add: max_def)
  qed (simp add: DEFAULT_INTERVAL_NS_def)
  moreover have "cycle_span st = (int b - int a) + (if length frs > 1 then (int b - int a) div max 1 (int (length frs) - 1) else DEFAULT_INTERVAL_NS)"
    using ab s(3) by (simp add: cycle_span_def Let_def)
  ultimately have "int b - int a < cycle_span st" by linarith
  then show ?thesis using w by linarith
qed

lemma measure_span_facts:
  assumes "in_order frs st"
  shows "measure_span st fd = (if fd_span fd = 0 then measure_span st fd else fd)"
    "fd_span (measure_span st fd) = (if fd_span fd = 0 then cycle_span st else fd_span fd)"
    "fd_out (measure_span st fd) = fd_out fd" "fd_retime (measure_span st fd) = fd_retime fd"
    "fd_cycle (measure_span st fd) = fd_cycle fd" "fd_wall (measure_span st fd) = fd_wall fd"
    "fd_offset (measure_span st fd) = fd_offset fd"
  using assms by (auto simp: in_order_def measure_span_def cycle_span_def Let_def split: option.splits)

text \<open>Statistics of any kind leave a measured length alone.\<close>

lemma measured_keeps: "fd_span fd \<noteq> 0 \<Longrightarrow> measure_span st fd = fd"
  by (auto simp: measure_span_def split: option.splits)

definition origin :: "(nat \<times> bytes) list \<Rightarrow> feeder \<Rightarrow> frame_stamp \<times> bytes \<Rightarrow> bool" where
  "origin frs fd x \<longleftrightarrow> (\<exists>k c. k < length frs \<and> c \<le> fd_cycle fd
     \<and> x = (capture_stamp k (int (fst (frs ! k)) + (fd_retime fd + int c * fd_span fd)), snd (frs ! k)))"

definition before :: "int \<Rightarrow> (frame_stamp \<times> bytes) list \<Rightarrow> bool" where
  "before t out \<longleftrightarrow> sorted_wrt (<) (map (fs_timestamp_ns \<circ> fst) out) \<and> (\<forall>x \<in> set out. fs_timestamp_ns (fst x) < t)"

text \<open>At the start of a pass, once the length of a cycle is known.\<close>

definition pass_start :: "(nat \<times> bytes) list \<Rightarrow> extractor_stats \<Rightarrow> feeder \<Rightarrow> bool" where
  "pass_start frs st fd \<longleftrightarrow> settled fd \<and> 0 < fd_cycle fd \<and> fd_span fd = cycle_span st \<and> fd_offset fd = int (fd_cycle fd) * fd_span fd
     \<and> before (int (fst (hd frs)) + fd_retime fd + fd_offset fd) (fd_out fd) \<and> (\<forall>x \<in> set (fd_out fd). origin frs fd x)"

lemma shifted_before:
  assumes "in_order frs st" "n \<le> length frs" "before (int (fst (hd frs)) + base) out"
  shows "before (int (fst (hd frs)) + base + cycle_span st) (out @ shifted 0 base frs n)"
proof -
  have ne: "hd frs \<in> set frs" "frs \<noteq> []" using assms(1) by (simp_all add: in_order_def)
  have s: "sorted_wrt (<) (map fst frs)" using assms(1) by (simp add: in_order_def)
  have at_k: "frs ! k \<in> set frs" "int (fst (hd frs)) \<le> int (fst (frs ! k))" if "k < n" for k
  proof -
    show "frs ! k \<in> set frs" using that assms(2) by simp
    then show "int (fst (hd frs)) \<le> int (fst (frs ! k))"
      using sorted_within[OF s, of "fst (frs ! k)"] ne by (auto simp: hd_map[OF ne(2)])
  qed
  have inc: "fst (frs ! j) < fst (frs ! k)" if "j < k" "k < n" for j k
    using sorted_wrt_nth_less[OF s, of j k] that assms(2) by simp
  have new: "fs_timestamp_ns (fst x) < int (fst (hd frs)) + base + cycle_span st" "int (fst (hd frs)) + base \<le> fs_timestamp_ns (fst x)"
    if x: "x \<in> set (shifted 0 base frs n)" for x
  proof -
    obtain k where k: "k < n" "fs_timestamp_ns (fst x) = int (fst (frs ! k)) + base"
      by (rule shifted_member[OF x]) (simp add: capture_stamp_def)
    show "fs_timestamp_ns (fst x) < int (fst (hd frs)) + base + cycle_span st"
      using span_covers[OF assms(1) at_k(1)[OF k(1)] ne(1)] k(2) by linarith
    show "int (fst (hd frs)) + base \<le> fs_timestamp_ns (fst x)" using at_k(2)[OF k(1)] k(2) by linarith
  qed
  have "sorted_wrt (<) (map (fs_timestamp_ns \<circ> fst) (shifted 0 base frs n))"
    by (auto simp: shifted_def sorted_wrt_iff_nth_less capture_stamp_def inc)
  moreover have "0 < cycle_span st" using span_covers[OF assms(1) ne(1) ne(1)] by linarith
  moreover have "fs_timestamp_ns (fst x) < fs_timestamp_ns (fst y)" if "x \<in> set out" "y \<in> set (shifted 0 base frs n)" for x y
    using assms(3) new(2)[OF that(2)] that(1) unfolding before_def by fastforce
  moreover have "fs_timestamp_ns (fst x) < int (fst (hd frs)) + base + cycle_span st" if "x \<in> set out" for x
    using assms(3) calculation(2) that unfolding before_def by fastforce
  ultimately show ?thesis using assms(3) new(1) unfolding before_def by (simp add: sorted_wrt_append) blast
qed


definition out_ok :: "(nat \<times> bytes) list \<Rightarrow> feeder \<Rightarrow> bool" where
  "out_ok frs fd \<longleftrightarrow> sorted_wrt (<) (map (fs_timestamp_ns \<circ> fst) (fd_out fd)) \<and> (\<forall>x \<in> set (fd_out fd). origin frs fd x)"

lemma after_pass_next:
  assumes "after_pass restarted n s fd = (again, fd')" "fd_span fd \<noteq> 0"
  shows "fd_out fd' = fd_out fd \<and> fd_retime fd' = fd_retime fd \<and> fd_span fd' = fd_span fd \<and> fd_wall fd' = fd_wall fd
    \<and> (if again then fd_cycle fd' = fd_cycle fd + 1 \<and> fd_offset fd' = int (fd_cycle fd + 1) * fd_span fd else fd_cycle fd' = fd_cycle fd)
    \<and> (restarted \<longrightarrow> again)"
  using assms by (auto simp: after_pass_def Let_def measured_keeps split: if_splits)

lemma shifted_origin:
  assumes "n \<le> length frs" "x \<in> set (shifted 0 (fd_retime fd + int c * fd_span fd) frs n)" "c \<le> fd_cycle fd"
  shows "origin frs fd x"
proof -
  obtain k where "k < n" "x = (capture_stamp k (int (fst (frs ! k)) + (fd_retime fd + int c * fd_span fd)), snd (frs ! k))"
    by (rule shifted_member[OF assms(2)]) simp
  then show ?thesis unfolding origin_def using assms(1,3) by (intro exI[of _ k] exI[of _ c]) simp
qed

lemma origin_mono:
  "origin frs fd x \<Longrightarrow> fd_cycle fd \<le> fd_cycle fd' \<Longrightarrow> fd_retime fd' = fd_retime fd \<Longrightarrow> fd_span fd' = fd_span fd \<Longrightarrow> origin frs fd' x"
  unfolding origin_def by (metis le_trans)

text \<open>What every outcome of a pass shares: the frames it delivered are appended, the timeline stays or moves on by a cycle.\<close>

lemma feed_cycle_cases:
  assumes "feed_cycle turns (frs, st, err) fd = (q, fd')" "settled fd" "fd_span fd \<noteq> 0 \<or> (\<forall>j. \<not> restarts (turns j)) \<and> in_order frs st"
  obtains n where "n \<le> length frs" "fd_out fd' = fd_out fd @ shifted 0 (fd_retime fd + fd_offset fd) frs n"
    "fd_retime fd' = fd_retime fd" "fd_wall fd' = fd_wall fd"
    "fd_span fd' = fd_span fd \<or> fd_span fd = 0 \<and> fd_span fd' = cycle_span st"
    "if q = None then fd_cycle fd' = fd_cycle fd + 1 \<and> fd_offset fd' = int (fd_cycle fd + 1) * fd_span fd'
       \<and> (fd_span fd = 0 \<longrightarrow> fd_span fd' = cycle_span st)
     else fd_cycle fd' = fd_cycle fd"
proof -
  obtain r n i fd1 where p: "feed_pass turns 0 frs fd = (r, n, i, fd1)" by (metis surj_pair)
  note f = feed_pass_facts[OF p assms(2)]
  have tl: "fd_cycle fd1 = fd_cycle fd" "fd_span fd1 = fd_span fd" "fd_retime fd1 = fd_retime fd" "fd_wall fd1 = fd_wall fd"
    using f by (simp_all add: same_timeline_def)
  have restart: "fd_span fd \<noteq> 0" if "r = Abandoned" using assms(3) f that by blast
  obtain again1 fa1 where a1: "after_pass True n (tn_stats (turns i)) fd1 = (again1, fa1)" by force
  obtain again2 fa2 where a2: "after_pass False n st fd1 = (again2, fa2)" by force
  have spanned: "fd_out fa2 = fd_out fd1 \<and> fd_retime fa2 = fd_retime fd1 \<and> fd_wall fa2 = fd_wall fd1
    \<and> (fd_span fa2 = fd_span fd1 \<or> fd_span fd1 = 0 \<and> fd_span fa2 = cycle_span st)
    \<and> (if again2 then fd_cycle fa2 = fd_cycle fd1 + 1 \<and> fd_offset fa2 = int (fd_cycle fd1 + 1) * fd_span fa2
         \<and> (fd_span fd1 = 0 \<longrightarrow> fd_span fa2 = cycle_span st) else fd_cycle fa2 = fd_cycle fd1)"
  proof (cases "fd_span fd = 0")
    case True
    then have "in_order frs st" using assms(3) by simp
    note m = measure_span_facts(2-7)[OF this, of fd1]
    show ?thesis using a2 m by (auto simp: after_pass_def Let_def split: if_splits)
  next
    case False
    then show ?thesis using after_pass_next[OF a2] tl by simp
  qed
  show ?thesis
  proof (rule that[of n])
    show "n \<le> length frs" using f by simp
  next
    show "fd_out fd' = fd_out fd @ shifted 0 (fd_retime fd + fd_offset fd) frs n"
      using assms(1) p a1 a2 f after_pass_next[OF a1] spanned restart tl
      by (auto simp: feed_cycle_def split: fed.splits if_splits)
  next
    show "fd_retime fd' = fd_retime fd"
      using assms(1) p a1 a2 after_pass_next[OF a1] spanned restart tl by (auto simp: feed_cycle_def split: fed.splits if_splits)
  next
    show "fd_wall fd' = fd_wall fd"
      using assms(1) p a1 a2 after_pass_next[OF a1] spanned restart tl by (auto simp: feed_cycle_def split: fed.splits if_splits)
  next
    show "fd_span fd' = fd_span fd \<or> fd_span fd = 0 \<and> fd_span fd' = cycle_span st"
      using assms(1) p a1 a2 after_pass_next[OF a1] spanned restart tl by (auto simp: feed_cycle_def split: fed.splits if_splits)
  next
    show "if q = None then fd_cycle fd' = fd_cycle fd + 1 \<and> fd_offset fd' = int (fd_cycle fd + 1) * fd_span fd'
       \<and> (fd_span fd = 0 \<longrightarrow> fd_span fd' = cycle_span st)
     else fd_cycle fd' = fd_cycle fd"
      using assms(1) p a1 a2 after_pass_next[OF a1] spanned restart tl by (auto simp: feed_cycle_def split: fed.splits if_splits)
  qed
qed

lemma cycle_pass_start:
  assumes "pass_start frs st fd" "in_order frs st" "feed_cycle turns (frs, st, err) fd = (q, fd')"
  shows "out_ok frs fd' \<and> (q = None \<longrightarrow> pass_start frs st fd')"
proof -
  have ne: "hd frs \<in> set frs" using assms(2) by (simp add: in_order_def)
  have pos: "0 < cycle_span st" using span_covers[OF assms(2) ne ne] by linarith
  have st: "settled fd" "fd_span fd = cycle_span st" "0 < fd_cycle fd" "fd_offset fd = int (fd_cycle fd) * fd_span fd"
    and b: "before (int (fst (hd frs)) + fd_retime fd + fd_offset fd) (fd_out fd)" and og: "\<forall>x \<in> set (fd_out fd). origin frs fd x"
    using assms(1) unfolding pass_start_def by blast+
  have "fd_span fd \<noteq> 0 \<or> (\<forall>j. \<not> restarts (turns j)) \<and> in_order frs st" using st pos by simp
  from feed_cycle_cases[OF assms(3) st(1) this] obtain n where n: "n \<le> length frs"
    "fd_out fd' = fd_out fd @ shifted 0 (fd_retime fd + fd_offset fd) frs n" "fd_retime fd' = fd_retime fd" "fd_wall fd' = fd_wall fd"
    and sp: "fd_span fd' = fd_span fd" and cy: "if q = None then fd_cycle fd' = fd_cycle fd + 1 \<and> fd_offset fd' = int (fd_cycle fd + 1) * fd_span fd'
     else fd_cycle fd' = fd_cycle fd"
    using st pos by (metis less_irrefl)
  have le: "fd_cycle fd \<le> fd_cycle fd'" using cy by (auto split: if_splits)
  have bf: "before (int (fst (hd frs)) + (fd_retime fd + fd_offset fd) + cycle_span st) (fd_out fd')"
    unfolding n(2) by (rule shifted_before[OF assms(2) n(1)]) (use b in \<open>simp add: add.assoc\<close>)
  have og': "\<forall>x \<in> set (fd_out fd'). origin frs fd' x"
  proof
    fix x assume "x \<in> set (fd_out fd')"
    then consider "x \<in> set (fd_out fd)" | "x \<in> set (shifted 0 (fd_retime fd' + int (fd_cycle fd) * fd_span fd') frs n)"
      using n(2,3) st(4) sp by auto
    then show "origin frs fd' x" using og origin_mono[OF _ le n(3) sp] shifted_origin[OF n(1) _ le] by cases auto
  qed
  have "pass_start frs st fd'" if "q = None"
  proof -
    have off: "fd_offset fd' = fd_offset fd + cycle_span st" using cy that st(2,4) sp by (simp add: distrib_right)
    have "before (int (fst (hd frs)) + fd_retime fd' + fd_offset fd') (fd_out fd')"
      using bf off n(3) by (simp add: add.assoc)
    then show ?thesis using cy that og' sp st by (simp add: pass_start_def settled_def)
  qed
  then show ?thesis using bf og' by (simp add: out_ok_def before_def)
qed

lemma feed_loop_ok:
  assumes "pass_start frs st fd" "in_order frs st" "feed_loop n halt turns (frs, st, err) fd = (r, fd')"
  shows "out_ok frs fd'"
  using assms(1,3)
proof (induction n arbitrary: fd)
  case 0
  then show ?case by (simp add: pass_start_def out_ok_def before_def)
next
  case (Suc n)
  obtain q fd1 where q: "feed_cycle (turns (fd_cycle fd)) (frs, st, err) fd = (q, fd1)" by force
  note c = cycle_pass_start[OF Suc.prems(1) assms(2) q]
  show ?case
  proof (cases "halt (fd_cycle fd) \<or> fd_failed fd")
    case True
    then show ?thesis using Suc.prems by (simp add: pass_start_def out_ok_def before_def)
  next
    case False
    then show ?thesis using Suc.prems(2) q c Suc.IH by (cases q) auto
  qed
qed


text \<open>The first pass, when nothing restarts it.\<close>

lemma first_pass_start:
  assumes "settled fd" "fd_cycle fd = 0" "fd_span fd = 0" "fd_offset fd = 0" "fd_out fd = []" "in_order frs st"
    "\<forall>j. \<not> restarts (turns j)" "feed_cycle turns (frs, st, err) fd = (q, fd')"
  shows "out_ok frs fd' \<and> (q = None \<longrightarrow> pass_start frs st fd')"
proof -
  have "fd_span fd \<noteq> 0 \<or> (\<forall>j. \<not> restarts (turns j)) \<and> in_order frs st" using assms by simp
  then obtain n where n0: "n \<le> length frs" "fd_out fd' = fd_out fd @ shifted 0 (fd_retime fd + fd_offset fd) frs n"
      "fd_retime fd' = fd_retime fd"
    and cy0: "if q = None then fd_cycle fd' = fd_cycle fd + 1 \<and> fd_offset fd' = int (fd_cycle fd + 1) * fd_span fd'
       \<and> (fd_span fd = 0 \<longrightarrow> fd_span fd' = cycle_span st) else fd_cycle fd' = fd_cycle fd"
    by (rule feed_cycle_cases[OF assms(8,1)])
  have n: "n \<le> length frs" "fd_out fd' = shifted 0 (fd_retime fd') frs n" using n0 assms(4,5) by simp_all
  have cy: "if q = None then fd_cycle fd' = 1 \<and> fd_offset fd' = fd_span fd' \<and> fd_span fd' = cycle_span st else fd_cycle fd' = 0"
    using cy0 assms(2,3) by (cases "q = None") simp_all
  have bf: "before (int (fst (hd frs)) + fd_retime fd' + cycle_span st) (fd_out fd')"
    using shifted_before[OF assms(6) n(1), of "fd_retime fd'" "[]"] n(2) by (simp add: before_def)
  have og: "\<forall>x \<in> set (fd_out fd'). origin frs fd' x"
    using shifted_origin[OF n(1), where c = 0 and fd = fd'] n(2) by simp
  have "pass_start frs st fd'" if "q = None"
    unfolding pass_start_def
  proof (intro conjI og)
    have c: "fd_cycle fd' = 1" "fd_offset fd' = fd_span fd'" "fd_span fd' = cycle_span st" using cy that by simp_all
    then show "settled fd'" "0 < fd_cycle fd'" "fd_span fd' = cycle_span st" "fd_offset fd' = int (fd_cycle fd') * fd_span fd'"
      by (simp_all add: settled_def)
    show "before (int (fst (hd frs)) + fd_retime fd' + fd_offset fd') (fd_out fd')" using bf c by simp
  qed
  then show ?thesis using bf og by (simp add: out_ok_def before_def)
qed

lemma feed_cycle_wall:
  assumes "\<not> tn_halted (turns 0)" "\<not> fd_failed fd" "frs \<noteq> []" "fd_retime fd = 0" "fd_cycle fd = 0" "fd_wall fd"
    "tn_now_ns (turns 0) \<noteq> int (fst (hd frs))"
  shows "feed_cycle turns (frs, st, err) fd = feed_cycle turns (frs, st, err) (fd\<lparr>fd_retime := tn_now_ns (turns 0) - int (fst (hd frs))\<rparr>)"
  by (simp add: feed_cycle_def feed_pass_wall[of turns fd frs, OF assms])

lemma first_pass:
  assumes "in_order frs st" "\<forall>j. \<not> restarts (turns j)" "retime_mode cf = ''wall'' \<longrightarrow> tn_now_ns (turns 0) \<noteq> int (fst (hd frs))"
    "feed_cycle turns (frs, st, err) (new_feeder cf ps) = (q, fd')"
  shows "out_ok frs fd' \<and> (q = None \<longrightarrow> pass_start frs st fd')"
proof (cases "retime_mode cf = ''wall''")
  case False
  then have "settled (new_feeder cf ps)" by (simp add: settled_def new_feeder_def)
  from first_pass_start[OF this _ _ _ _ assms(1,2,4)] show ?thesis by (simp add: new_feeder_def)
next
  case True
  obtain fr rest where frs: "frs = fr # rest" using assms(1) by (cases frs) (auto simp: in_order_def)
  show ?thesis
  proof (cases "tn_halted (turns 0)")
    case True
    then show ?thesis using assms(4) by (auto simp: feed_cycle_def frs feed_frame_def Let_def new_feeder_def out_ok_def)
  next
    case False
    let ?R = "tn_now_ns (turns 0) - int (fst (hd frs))"
    have R: "tn_now_ns (turns 0) \<noteq> int (fst (hd frs))" using assms(3) True by simp
    have "feed_cycle turns (frs, st, err) ((new_feeder cf ps)\<lparr>fd_retime := ?R\<rparr>) = (q, fd')"
      using feed_cycle_wall[of turns "new_feeder cf ps" frs st err] False R assms(4) True frs by (simp add: new_feeder_def)
    from first_pass_start[OF _ _ _ _ _ assms(1,2) this] show ?thesis using R by (simp add: settled_def new_feeder_def)
  qed
qed


section \<open>A restart in the first pass\<close>

text \<open>A capture of three frames, played in a loop at full speed.\<close>

definition demo_turn :: turn where
  "demo_turn = \<lparr>tn_request = id, tn_halted = False, tn_now_ns = 0, tn_verdict1 = Resume, tn_restart = False, tn_mono_ns = 0,
     tn_stopped = False, tn_verdict2 = Resume, tn_push_ok = True,
     tn_stats = new_stats\<lparr>es_frames_ok := 2, es_first_ts_ns := Some 100, es_last_ts_ns := Some 110\<rparr>\<rparr>"

definition demo_pass :: "(nat \<times> bytes) list" where
  "demo_pass = [(100, [1]), (110, [2]), (300, [3])]"

definition demo_stats :: extractor_stats where
  "demo_stats = new_stats\<lparr>es_frames_ok := 3, es_first_ts_ns := Some 100, es_last_ts_ns := Some 300\<rparr>"

definition demo_capture_conf :: pcap_conf where
  "demo_capture_conf = \<lparr>pf_pixel_format = Some ''GRAY8'', pf_width = 1, pf_height = 1, pf_bus = None, pf_device = None,
     pf_endpoint = None, pf_retime = None\<rparr>"

definition demo_feeder :: feeder where
  "demo_feeder = new_feeder demo_capture_conf (new_playback (JNum 0) True ''playing'' None False 0 0)"


text \<open>a restart during the first pass breaks the order.  The length of a cycle is then measured from the part
  played so far and kept: here two of three frames, so the pass after the next starts before the end of the last.\<close>

theorem restart_reverses_time:
  "\<exists>fd. feed_loop 3 (\<lambda>_. False) (\<lambda>c i. if c = 0 \<and> i = 1 then demo_turn\<lparr>tn_restart := True\<rparr> else demo_turn)
        (demo_pass, demo_stats, None) demo_feeder = (None, fd)
     \<and> fd_span fd = 20 \<and> map (fs_timestamp_ns \<circ> fst) (fd_out fd) = [100, 120, 130, 320, 140, 150, 340]"
proof -
  have "(case feed_loop 3 (\<lambda>_. False) (\<lambda>c i. if c = 0 \<and> i = 1 then demo_turn\<lparr>tn_restart := True\<rparr> else demo_turn)
        (demo_pass, demo_stats, None) demo_feeder of
      (r, fd) \<Rightarrow> r = None \<and> fd_span fd = 20 \<and> map (fs_timestamp_ns \<circ> fst) (fd_out fd) = [100, 120, 130, 320, 140, 150, 340]) = True"
    by code_simp
  then show ?thesis by auto
qed

end
