(* ===== verification/Frame_Header.thy ===== *)
theory Frame_Header
  imports Cam_Prelude
begin

text \<open>
  The 36-byte \<open>application/x-cam-frame\<close> header and its three implementations: the core's
  \<open>cam_driver/transport.py\<close> (\<open>pack\<close>, \<open>unpack_header\<close>), the ROS 2 source's
  \<open>cam_ros2_source/framing.py\<close> (\<open>pack_header\<close>) and the WebRTC bridge's
  \<open>tools/header_transport.py\<close> (\<open>parse_header\<close>, \<open>caps_for_frame\<close>, \<open>PtsTracker\<close>).  The lemmas
  show that the core round-trips, that the two writers agree byte for byte, and that the
  bridge reads what the core wrote and never slices past a buffer.
\<close>

section \<open>The layout\<close>

definition MAGIC :: bytes where
  "MAGIC = [0x43, 0x41, 0x4D, 0x46]"

definition HEADER_SIZE :: nat where
  "HEADER_SIZE = 36"

definition VERSION :: int where
  "VERSION = 1"

definition CODE_TO_GST :: "(nat \<times> string) list" where
  "CODE_TO_GST =
     [(1, ''GRAY8''), (2, ''GRAY16_LE''), (3, ''GRAY16_BE''), (4, ''I420''), (5, ''NV12''),
      (6, ''YUY2''), (7, ''RGB''), (8, ''BGR''), (9, ''NV24''), (10, ''YV12''), (11, ''UYVY''),
      (12, ''RGBA''), (13, ''BGRA''), (14, ''RGBx''), (15, ''BGRx'')]"

definition GST_TO_CODE :: "(string \<times> nat) list" where
  "GST_TO_CODE = map (\<lambda>(k, v). (v, k)) CODE_TO_GST"

definition TS_SOURCE_CODE :: "(string \<times> nat) list" where
  "TS_SOURCE_CODE =
     [(''ptp_chunk'', 0), (''camera'', 1), (''system'', 2), (''sof'', 3), (''rtp_ntp'', 4)]"

definition TS_SOURCE_NAME :: "(nat \<times> string) list" where
  "TS_SOURCE_NAME = map (\<lambda>(k, v). (v, k)) TS_SOURCE_CODE"

datatype transport_error =
    Unsupported_Format string        \<comment> \<open>\<open>gst_format_to_code\<close>\<close>
  | Unknown_Code nat                 \<comment> \<open>\<open>code_to_gst_format\<close>\<close>
  | Struct_Error                     \<comment> \<open>\<open>struct.pack\<close>: a field out of its width\<close>
  | Too_Small nat
  | Bad_Magic bytes
  | Bad_Version nat
  | Bad_Header_Len nat
  | Bad_Geometry nat nat

definition gst_format_to_code :: "string \<Rightarrow> transport_error + nat" where
  "gst_format_to_code fmt =
     (case map_of GST_TO_CODE fmt of None \<Rightarrow> Inl (Unsupported_Format fmt) | Some c \<Rightarrow> Inr c)"

definition code_to_gst_format :: "nat \<Rightarrow> transport_error + string" where
  "code_to_gst_format code =
     (case map_of CODE_TO_GST code of None \<Rightarrow> Inl (Unknown_Code code) | Some f \<Rightarrow> Inr f)"

text \<open>\<open>struct.pack("<4sHHQQHHIBBH", ...)\<close>: every integer must fit its unsigned width.\<close>

definition fits :: "nat \<Rightarrow> int \<Rightarrow> bool" where
  "fits k i \<longleftrightarrow> 0 \<le> i \<and> i < 256 ^ k"

definition struct_pack_header ::
  "bytes \<Rightarrow> int \<Rightarrow> int \<Rightarrow> int \<Rightarrow> int \<Rightarrow> int \<Rightarrow> int \<Rightarrow> int \<Rightarrow> int \<Rightarrow> int \<Rightarrow> int \<Rightarrow> transport_error + bytes" where
  "struct_pack_header magic ver hlen ts fid w h pf src fl res =
     (if fits 2 ver \<and> fits 2 hlen \<and> fits 8 ts \<and> fits 8 fid \<and> fits 2 w \<and> fits 2 h
         \<and> fits 4 pf \<and> fits 1 src \<and> fits 1 fl \<and> fits 2 res
      then Inr (magic @ enc LE 2 (nat ver) @ enc LE 2 (nat hlen) @ enc LE 8 (nat ts)
                @ enc LE 8 (nat fid) @ enc LE 2 (nat w) @ enc LE 2 (nat h) @ enc LE 4 (nat pf)
                @ enc LE 1 (nat src) @ enc LE 1 (nat fl) @ enc LE 2 (nat res))
      else Inl Struct_Error)"

record raw_fields =
  rf_magic :: bytes
  rf_version :: nat
  rf_header_len :: nat
  rf_ts :: nat
  rf_fid :: nat
  rf_w :: nat
  rf_h :: nat
  rf_pixfmt :: nat
  rf_src :: nat
  rf_flags :: nat

definition struct_unpack_header :: "bytes \<Rightarrow> raw_fields" where
  "struct_unpack_header d =
     \<lparr>rf_magic = slice d 0 4, rf_version = dec LE (slice d 4 6), rf_header_len = dec LE (slice d 6 8),
      rf_ts = dec LE (slice d 8 16), rf_fid = dec LE (slice d 16 24), rf_w = dec LE (slice d 24 26),
      rf_h = dec LE (slice d 26 28), rf_pixfmt = dec LE (slice d 28 32), rf_src = dec LE (slice d 32 33),
      rf_flags = dec LE (slice d 33 34)\<rparr>"

section \<open>The core: transport.py\<close>

record frame_header =
  fh_timestamp_ns :: int
  fh_frame_id :: int
  fh_width :: int
  fh_height :: int
  fh_pixfmt :: string
  fh_ts_source :: string
  fh_flags :: int
  fh_version :: int

definition u64 :: "int \<Rightarrow> int" where
  "u64 i = i mod 2 ^ 64"

definition pack :: "frame_header \<Rightarrow> transport_error + bytes" where
  "pack h =
     ebind (gst_format_to_code (fh_pixfmt h)) (\<lambda>code.
       struct_pack_header MAGIC (fh_version h) (int HEADER_SIZE)
         (u64 (fh_timestamp_ns h)) (u64 (fh_frame_id h)) (fh_width h) (fh_height h) (int code)
         (case map_of TS_SOURCE_CODE (fh_ts_source h) of Some c \<Rightarrow> int c | None \<Rightarrow> 1)
         (fh_flags h mod 256) 0)"

definition unpack_header :: "bytes \<Rightarrow> transport_error + frame_header" where
  "unpack_header data =
     (if length data < HEADER_SIZE then Inl (Too_Small (length data))
      else let f = struct_unpack_header (take HEADER_SIZE data) in
        if rf_magic f \<noteq> MAGIC then Inl (Bad_Magic (rf_magic f))
        else if int (rf_version f) \<noteq> VERSION then Inl (Bad_Version (rf_version f))
        else ebind (code_to_gst_format (rf_pixfmt f)) (\<lambda>fmt.
          Inr \<lparr>fh_timestamp_ns = int (rf_ts f), fh_frame_id = int (rf_fid f),
               fh_width = int (rf_w f), fh_height = int (rf_h f), fh_pixfmt = fmt,
               fh_ts_source = (case map_of TS_SOURCE_NAME (rf_src f) of Some n \<Rightarrow> n | None \<Rightarrow> ''camera''),
               fh_flags = int (rf_flags f), fh_version = int (rf_version f)\<rparr>))"

section \<open>The ROS 2 source: framing.py\<close>

definition PIXFMT_CODE :: "(string \<times> nat) list" where
  "PIXFMT_CODE =
     [(''GRAY8'', 1), (''GRAY16_LE'', 2), (''GRAY16_BE'', 3), (''I420'', 4), (''NV12'', 5),
      (''YUY2'', 6), (''RGB'', 7), (''BGR'', 8), (''NV24'', 9), (''YV12'', 10), (''UYVY'', 11),
      (''RGBA'', 12), (''BGRA'', 13), (''RGBx'', 14), (''BGRx'', 15)]"

definition pack_header :: "int \<Rightarrow> int \<Rightarrow> int \<Rightarrow> int \<Rightarrow> string \<Rightarrow> string \<Rightarrow> transport_error + bytes" where
  "pack_header timestamp_ns frame_id width height gst_format ts_source =
     (case map_of PIXFMT_CODE gst_format of
        None \<Rightarrow> Inl (Unsupported_Format gst_format)
      | Some code \<Rightarrow>
          struct_pack_header MAGIC VERSION (int HEADER_SIZE) (u64 timestamp_ns) (u64 frame_id)
            width height (int code)
            (case map_of TS_SOURCE_CODE ts_source of Some c \<Rightarrow> int c | None \<Rightarrow> 1) 0 0)"

section \<open>The WebRTC bridge: header\_transport.py\<close>

record frame_info =
  fi_timestamp_ns :: nat
  fi_frame_id :: nat
  fi_width :: nat
  fi_height :: nat
  fi_pixfmt :: string
  fi_ts_source :: string
  fi_header_len :: nat

definition parse_header :: "bytes \<Rightarrow> transport_error + frame_info" where
  "parse_header data =
     (if length data < HEADER_SIZE then Inl (Too_Small (length data))
      else let f = struct_unpack_header (take HEADER_SIZE data) in
        if rf_magic f \<noteq> MAGIC then Inl (Bad_Magic (rf_magic f))
        else if int (rf_version f) \<noteq> VERSION then Inl (Bad_Version (rf_version f))
        else if rf_header_len f < HEADER_SIZE \<or> rf_header_len f > length data
          then Inl (Bad_Header_Len (rf_header_len f))
        else case map_of CODE_TO_GST (rf_pixfmt f) of
          None \<Rightarrow> Inl (Unknown_Code (rf_pixfmt f))
        | Some fmt \<Rightarrow>
            if \<not> (rf_w f \<noteq> 0 \<and> rf_h f \<noteq> 0) then Inl (Bad_Geometry (rf_w f) (rf_h f))
            else Inr \<lparr>fi_timestamp_ns = rf_ts f, fi_frame_id = rf_fid f, fi_width = rf_w f,
                      fi_height = rf_h f, fi_pixfmt = fmt,
                      fi_ts_source = (case map_of TS_SOURCE_NAME (rf_src f) of
                                        Some n \<Rightarrow> n | None \<Rightarrow> str_nat (rf_src f)),
                      fi_header_len = rf_header_len f\<rparr>)"

definition caps_for_frame :: "frame_info \<Rightarrow> string option \<Rightarrow> bool \<Rightarrow> rat option \<Rightarrow> string" where
  "caps_for_frame info bayer debayer fps =
     (let s = (if fi_pixfmt info = ''GRAY8'' \<and> bayer \<noteq> None \<and> bayer \<noteq> Some [] \<and> debayer
               then ''video/x-bayer,format='' @ the bayer
               else ''video/x-raw,format='' @ fi_pixfmt info);
          s = s @ '',width='' @ str_nat (fi_width info) @ '',height='' @ str_nat (fi_height info)
      in case fps of
           None \<Rightarrow> s
         | Some f \<Rightarrow> if f = 0 then s else s @ '',framerate='' @ str_int (trunc_rat f) @ ''/1'')"

text \<open>\<open>PtsTracker\<close>; the optional arrival clock is read once per frame, so the caller supplies
  its reading.\<close>

record pts_tracker =
  pt_base :: "int option"
  pt_last :: "int option"
  pt_iv :: int

definition new_pts_tracker :: "int \<Rightarrow> pts_tracker" where
  "new_pts_tracker iv = \<lparr>pt_base = None, pt_last = None, pt_iv = iv\<rparr>"

definition tracker_pts :: "int \<Rightarrow> int option \<Rightarrow> pts_tracker \<Rightarrow> int \<times> pts_tracker" where
  "tracker_pts ts_ns arrival t =
     (case arrival of
        Some now \<Rightarrow>
          let base = (case pt_base t of None \<Rightarrow> now | Some b \<Rightarrow> b);
              pts = now - base;
              last = (case pt_last t of Some l \<Rightarrow> max pts (l + 1) | None \<Rightarrow> pts)
          in (last, t\<lparr>pt_base := Some base, pt_last := Some last\<rparr>)
      | None \<Rightarrow>
          let base = (case pt_base t of None \<Rightarrow> ts_ns | Some b \<Rightarrow> b);
              pts = ts_ns - base
          in case pt_last t of
               None \<Rightarrow> (pts, t\<lparr>pt_base := Some base, pt_last := Some pts\<rparr>)
             | Some l \<Rightarrow>
                 if pts \<le> l then
                   (l + pt_iv t, t\<lparr>pt_base := Some (ts_ns - (l + pt_iv t)), pt_last := Some (l + pt_iv t)\<rparr>)
                 else (pts, t\<lparr>pt_base := Some base, pt_last := Some pts, pt_iv := pts - l\<rparr>))"

fun tracker_run :: "(int \<times> int option) list \<Rightarrow> pts_tracker \<Rightarrow> int list" where
  "tracker_run [] t = []"
| "tracker_run ((ts, a) # xs) t = (let (p, t') = tracker_pts ts a t in p # tracker_run xs t')"

section \<open>Properties\<close>

lemma GST_TO_CODE_PIXFMT: "GST_TO_CODE = PIXFMT_CODE"
  by (simp add: GST_TO_CODE_def CODE_TO_GST_def PIXFMT_CODE_def)

lemma code_bound: "map_of GST_TO_CODE f = Some c \<Longrightarrow> c < 256 ^ 4 \<and> map_of CODE_TO_GST c = Some f"
  by (auto simp: GST_TO_CODE_def CODE_TO_GST_def split: if_splits)

lemma src_bound: "map_of TS_SOURCE_CODE s = Some c \<Longrightarrow> c < 256 \<and> map_of TS_SOURCE_NAME c = Some s"
  by (auto simp: TS_SOURCE_NAME_def TS_SOURCE_CODE_def split: if_splits)

lemma length_MAGIC [simp]: "length MAGIC = 4"
  by (simp add: MAGIC_def)

lemma u64_fits: "fits 8 (u64 i)"
  by (simp add: fits_def u64_def)

lemma fits_dec: "fits k i \<Longrightarrow> int (dec LE (enc LE k (nat i))) = i"
  by (auto simp: fits_def dec_enc nat_less_iff)

lemma fits_dec_nat: "fits k i \<Longrightarrow> dec LE (enc LE k (nat i)) = nat i"
  using fits_dec [of k i] by (metis nat_int)

lemma struct_roundtrip:
  assumes "struct_pack_header m ver hlen ts fid w h pf src fl res = Inr bs" "length m = 4"
  shows "length bs = 36 \<and> struct_unpack_header (take 36 (bs @ px)) =
     \<lparr>rf_magic = m, rf_version = nat ver, rf_header_len = nat hlen, rf_ts = nat ts, rf_fid = nat fid,
      rf_w = nat w, rf_h = nat h, rf_pixfmt = nat pf, rf_src = nat src, rf_flags = nat fl\<rparr>"
  using assms
  by (auto simp: struct_pack_header_def struct_unpack_header_def slice_def fits_dec_nat split: if_splits)

text \<open>What the reader gets back for a header the writer accepts.\<close>

definition canonical :: "frame_header \<Rightarrow> frame_header" where
  "canonical h = h\<lparr>fh_timestamp_ns := u64 (fh_timestamp_ns h), fh_frame_id := u64 (fh_frame_id h),
     fh_flags := fh_flags h mod 256,
     fh_ts_source := (case map_of TS_SOURCE_CODE (fh_ts_source h) of Some _ \<Rightarrow> fh_ts_source h | None \<Rightarrow> ''camera'')\<rparr>"

lemma src_name:
  "map_of TS_SOURCE_NAME (nat (case map_of TS_SOURCE_CODE s of Some c \<Rightarrow> int c | None \<Rightarrow> 1))
     = Some (case map_of TS_SOURCE_CODE s of Some _ \<Rightarrow> s | None \<Rightarrow> ''camera'')"
  using src_bound [of s] by (auto simp: TS_SOURCE_NAME_def TS_SOURCE_CODE_def split: option.splits)

lemma pack_Inr:
  assumes "pack h = Inr bs"
  obtains code where "map_of GST_TO_CODE (fh_pixfmt h) = Some code"
    "fits 2 (fh_version h)" "fits 2 (fh_width h)" "fits 2 (fh_height h)"
    "length bs = 36"
    "\<And>px. struct_unpack_header (take 36 (bs @ px)) =
      \<lparr>rf_magic = MAGIC, rf_version = nat (fh_version h), rf_header_len = 36,
       rf_ts = nat (u64 (fh_timestamp_ns h)), rf_fid = nat (u64 (fh_frame_id h)),
       rf_w = nat (fh_width h), rf_h = nat (fh_height h), rf_pixfmt = code,
       rf_src = nat (case map_of TS_SOURCE_CODE (fh_ts_source h) of Some c \<Rightarrow> int c | None \<Rightarrow> 1),
       rf_flags = nat (fh_flags h mod 256)\<rparr>"
proof -
  from assms obtain code where c: "map_of GST_TO_CODE (fh_pixfmt h) = Some code"
    and s: "struct_pack_header MAGIC (fh_version h) 36 (u64 (fh_timestamp_ns h)) (u64 (fh_frame_id h))
       (fh_width h) (fh_height h) (int code)
       (case map_of TS_SOURCE_CODE (fh_ts_source h) of Some c \<Rightarrow> int c | None \<Rightarrow> 1) (fh_flags h mod 256) 0 = Inr bs"
    by (auto simp: pack_def gst_format_to_code_def HEADER_SIZE_def split: option.splits)
  from s have "fits 2 (fh_version h)" "fits 2 (fh_width h)" "fits 2 (fh_height h)"
    by (auto simp: struct_pack_header_def split: if_splits)
  moreover have "length bs = 36" using struct_roundtrip [OF s] by simp
  moreover have "struct_unpack_header (take 36 (bs @ px)) =
      \<lparr>rf_magic = MAGIC, rf_version = nat (fh_version h), rf_header_len = 36,
       rf_ts = nat (u64 (fh_timestamp_ns h)), rf_fid = nat (u64 (fh_frame_id h)),
       rf_w = nat (fh_width h), rf_h = nat (fh_height h), rf_pixfmt = code,
       rf_src = nat (case map_of TS_SOURCE_CODE (fh_ts_source h) of Some c \<Rightarrow> int c | None \<Rightarrow> 1),
       rf_flags = nat (fh_flags h mod 256)\<rparr>" for px
    by (subst struct_roundtrip [OF s length_MAGIC, of px, THEN conjunct2]) simp
  ultimately show thesis by (rule that [OF c])
qed

text \<open>Packing fails only for an unknown format or a field that does not fit.\<close>

lemma format_code_fits: "map_of GST_TO_CODE f = Some c \<Longrightarrow> fits 4 (int c)"
  using code_bound [of f c] by (simp add: fits_def)

lemma src_code_fits: "fits (Suc 0) (case map_of TS_SOURCE_CODE s of Some c \<Rightarrow> int c | None \<Rightarrow> 1)"
  using src_bound [of s] by (auto simp: fits_def split: option.splits)

lemma flags_fit: "fits (Suc 0) (i mod 256)"
  by (simp add: fits_def)

lemma pack_total:
  "(\<exists>bs. pack h = Inr bs) \<longleftrightarrow>
     map_of GST_TO_CODE (fh_pixfmt h) \<noteq> None
   \<and> fits 2 (fh_version h) \<and> fits 2 (fh_width h) \<and> fits 2 (fh_height h)"
proof (cases "map_of GST_TO_CODE (fh_pixfmt h)")
  case (Some c)
  have "fits 2 36" "fits 2 0" by (simp_all add: fits_def)
  with Some show ?thesis
    by (simp add: pack_def gst_format_to_code_def struct_pack_header_def HEADER_SIZE_def
        u64_fits src_code_fits format_code_fits flags_fit)
qed (simp add: pack_def gst_format_to_code_def)

lemma unpack_of_pack:
  assumes "pack h = Inr bs" "fh_version h = VERSION"
  shows "length bs = HEADER_SIZE \<and> unpack_header (bs @ pixels) = Inr (canonical h)"
proof -
  from assms(1) obtain code where p: "map_of GST_TO_CODE (fh_pixfmt h) = Some code"
    "fits 2 (fh_width h)" "fits 2 (fh_height h)" "length bs = 36"
    "struct_unpack_header (take 36 (bs @ pixels)) =
      \<lparr>rf_magic = MAGIC, rf_version = nat (fh_version h), rf_header_len = 36,
       rf_ts = nat (u64 (fh_timestamp_ns h)), rf_fid = nat (u64 (fh_frame_id h)),
       rf_w = nat (fh_width h), rf_h = nat (fh_height h), rf_pixfmt = code,
       rf_src = nat (case map_of TS_SOURCE_CODE (fh_ts_source h) of Some c \<Rightarrow> int c | None \<Rightarrow> 1),
       rf_flags = nat (fh_flags h mod 256)\<rparr>"
    by (rule pack_Inr) blast
  have "map_of CODE_TO_GST code = Some (fh_pixfmt h)"
    using code_bound p(1) by blast
  with p assms(2) show ?thesis
    by (simp add: unpack_header_def HEADER_SIZE_def code_to_gst_format_def canonical_def
        src_name VERSION_def fits_def u64_def)
qed

text \<open>round trip.  Whatever the core writer accepts at the current version, the core reader
  recovers from the packed bytes followed by any pixels: same geometry and format, stamps and ids
  modulo 2^64, flags modulo 256, and an unknown provenance read as \<open>camera\<close>.\<close>

theorem header_roundtrip:
  assumes "pack h = Inr bs" "fh_version h = VERSION"
  shows "length bs = HEADER_SIZE \<and> unpack_header (bs @ pixels) = Inr (canonical h)"
  by (rule unpack_of_pack[OF assms])

theorem header_roundtrip_witness:
  "\<exists>bs. pack \<lparr>fh_timestamp_ns = -1, fh_frame_id = 7, fh_width = 640, fh_height = 512,
       fh_pixfmt = ''GRAY16_LE'', fh_ts_source = ''sof'', fh_flags = 0, fh_version = 1\<rparr> = Inr bs
     \<and> unpack_header (bs @ [1, 2]) = Inr \<lparr>fh_timestamp_ns = 2 ^ 64 - 1, fh_frame_id = 7, fh_width = 640,
       fh_height = 512, fh_pixfmt = ''GRAY16_LE'', fh_ts_source = ''sof'', fh_flags = 0, fh_version = 1\<rparr>"
proof -
  let ?h = "\<lparr>fh_timestamp_ns = -1, fh_frame_id = 7, fh_width = 640, fh_height = 512,
       fh_pixfmt = ''GRAY16_LE'', fh_ts_source = ''sof'', fh_flags = 0, fh_version = 1\<rparr>"
  have "\<exists>b. pack ?h = Inr b"
    unfolding pack_total by (simp add: GST_TO_CODE_PIXFMT PIXFMT_CODE_def fits_def)
  then obtain b where b: "pack ?h = Inr b" by blast
  with header_roundtrip [OF b, of "[1, 2]"] show ?thesis
    by (simp add: VERSION_def canonical_def u64_def TS_SOURCE_CODE_def)
qed

text \<open>the two writers are one writer.  For every stamp, id, geometry, format and provenance the
  ROS 2 source's \<open>pack_header\<close> produces exactly what the core's \<open>FrameHeader.pack\<close> does, errors
  included.\<close>

theorem writers_agree:
  "pack_header ts fid w h fmt src =
     pack \<lparr>fh_timestamp_ns = ts, fh_frame_id = fid, fh_width = w, fh_height = h, fh_pixfmt = fmt,
           fh_ts_source = src, fh_flags = 0, fh_version = VERSION\<rparr>"
  by (simp add: pack_header_def pack_def gst_format_to_code_def GST_TO_CODE_PIXFMT split: option.splits)

text \<open>reader safety.  Whenever the bridge accepts a buffer, the pixel offset it will slice at
  lies between the fixed header and the end of the buffer, the geometry is positive and within
  16 bits, and the format is one of the fifteen of the table.\<close>

theorem parse_header_safe:
  assumes "parse_header data = Inr info"
  shows "HEADER_SIZE \<le> fi_header_len info \<and> fi_header_len info \<le> length data
    \<and> 0 < fi_width info \<and> fi_width info < 2 ^ 16 \<and> 0 < fi_height info \<and> fi_height info < 2 ^ 16
    \<and> fi_timestamp_ns info < 2 ^ 64 \<and> fi_pixfmt info \<in> snd ` set CODE_TO_GST"
proof -
  have w: "dec LE (slice d 24 26) < 2 ^ 16" "dec LE (slice d 26 28) < 2 ^ 16" if "36 \<le> length d" for d
    using dec_bound [of LE "slice d 24 26"] dec_bound [of LE "slice d 26 28"] that by simp_all
  have t: "dec LE (slice d 8 16) < 2 ^ 64" if "36 \<le> length d" for d
    using dec_bound [of LE "slice d 8 16"] that by simp
  from assms w [of "take HEADER_SIZE data"] t [of "take HEADER_SIZE data"] show ?thesis
    by (auto simp: parse_header_def Let_def struct_unpack_header_def HEADER_SIZE_def
        split: if_splits option.splits dest!: map_of_SomeD intro: image_eqI [rotated])
qed

lemma parse_of_pack:
  assumes "pack h = Inr bs" "fh_version h = VERSION" "0 < fh_width h" "0 < fh_height h"
  shows "parse_header (bs @ pixels) =
     Inr \<lparr>fi_timestamp_ns = nat (u64 (fh_timestamp_ns h)), fi_frame_id = nat (u64 (fh_frame_id h)),
          fi_width = nat (fh_width h), fi_height = nat (fh_height h), fi_pixfmt = fh_pixfmt h,
          fi_ts_source = fh_ts_source (canonical h), fi_header_len = 36\<rparr>"
proof -
  from assms(1) obtain code where p: "map_of GST_TO_CODE (fh_pixfmt h) = Some code" "length bs = 36"
    "struct_unpack_header (take 36 (bs @ pixels)) =
      \<lparr>rf_magic = MAGIC, rf_version = nat (fh_version h), rf_header_len = 36,
       rf_ts = nat (u64 (fh_timestamp_ns h)), rf_fid = nat (u64 (fh_frame_id h)),
       rf_w = nat (fh_width h), rf_h = nat (fh_height h), rf_pixfmt = code,
       rf_src = nat (case map_of TS_SOURCE_CODE (fh_ts_source h) of Some c \<Rightarrow> int c | None \<Rightarrow> 1),
       rf_flags = nat (fh_flags h mod 256)\<rparr>"
    by (rule pack_Inr) blast
  have "map_of CODE_TO_GST code = Some (fh_pixfmt h)"
    using code_bound p(1) by blast
  with p assms show ?thesis
    by (simp add: parse_header_def HEADER_SIZE_def src_name VERSION_def canonical_def)
qed

theorem parse_header_safe_witness:
  "\<exists>bs info. pack \<lparr>fh_timestamp_ns = 5, fh_frame_id = 7, fh_width = 2, fh_height = 1,
       fh_pixfmt = ''GRAY8'', fh_ts_source = ''sof'', fh_flags = 0, fh_version = 1\<rparr> = Inr bs
     \<and> parse_header (bs @ [9, 9]) = Inr info \<and> fi_header_len info \<le> length (bs @ [9, 9])"
proof -
  let ?h = "\<lparr>fh_timestamp_ns = 5, fh_frame_id = 7, fh_width = 2, fh_height = 1,
       fh_pixfmt = ''GRAY8'', fh_ts_source = ''sof'', fh_flags = 0, fh_version = 1\<rparr>"
  have "\<exists>b. pack ?h = Inr b"
    unfolding pack_total by (simp add: GST_TO_CODE_PIXFMT PIXFMT_CODE_def fits_def)
  then obtain b where b: "pack ?h = Inr b" by blast
  then obtain info where "parse_header (b @ [9, 9]) = Inr info"
    using parse_of_pack [OF b, of "[9, 9]"] by (simp add: VERSION_def)
  with b parse_header_safe [OF this] show ?thesis by blast
qed



subsection \<open>The bridge's PTS\<close>

definition tracker_ok :: "pts_tracker \<Rightarrow> bool" where
  "tracker_ok t \<longleftrightarrow> 0 < pt_iv t \<and> (pt_last t \<noteq> None \<longrightarrow> pt_base t \<noteq> None)"

lemma tracker_step:
  "tracker_ok t \<Longrightarrow> tracker_pts ts a t = (p, t') \<Longrightarrow>
     tracker_ok t' \<and> pt_last t' = Some p \<and> (\<forall>l. pt_last t = Some l \<longrightarrow> l < p)"
  by (auto simp: tracker_ok_def tracker_pts_def Let_def split: option.splits if_splits)

lemma tracker_run_above:
  "tracker_ok t \<Longrightarrow> pt_last t = Some l \<Longrightarrow>
     (\<forall>p\<in>set (tracker_run xs t). l < p) \<and> sorted_wrt (<) (tracker_run xs t)"
proof (induction xs arbitrary: t l)
  case (Cons x xs)
  obtain ts a where x: "x = (ts, a)" by (cases x)
  obtain p t' where s: "tracker_pts ts a t = (p, t')" by fastforce
  from tracker_step [OF Cons.prems(1) s] Cons.prems(2) have
    st: "tracker_ok t'" "pt_last t' = Some p" "l < p" by auto
  from Cons.IH [OF st(1,2)] st(3) x s show ?case by auto
qed simp

text \<open>the preview timeline is strictly monotonic.  Whatever capture stamps arrive (clock
  resets, repeats, replays) and whatever the arrival clock reads, in either mode or switching
  between them, the PTS sequence the bridge emits is strictly increasing.\<close>

theorem tracker_monotonic:
  assumes "0 < iv"
  shows "sorted_wrt (<) (tracker_run xs (new_pts_tracker iv))"
proof (cases xs)
  case (Cons x ys)
  obtain ts a where x: "x = (ts, a)" by (cases x)
  obtain p t' where s: "tracker_pts ts a (new_pts_tracker iv) = (p, t')" by fastforce
  have "tracker_ok (new_pts_tracker iv)" using assms by (simp add: tracker_ok_def new_pts_tracker_def)
  from tracker_step [OF this s] have "tracker_ok t'" "pt_last t' = Some p" by auto
  from tracker_run_above [OF this, of ys] s x Cons show ?thesis by simp
qed simp

theorem tracker_monotonic_witness:
  "sorted_wrt (<) (tracker_run [(100, None), (50, None), (80, None)] (new_pts_tracker 40))"
  by (rule tracker_monotonic) simp

end
