(* ===== verification/Gst_Source.thy ===== *)
theory Gst_Source
  imports Timestamps Recorder_Plan
begin

text \<open>
  The sources with a mini-pipeline of their own, under \<open>core-driver/cam_driver/sources/\<close>: the shared stamping, the
  correlation of the two branches and the starvation watchdog (\<open>gstbase.py\<close>), and what RTSP (\<open>rtsp.py\<close>) and USB
  (\<open>usb.py\<close>) add - capture timestamps and reopening.  Buffers are their PTS and what was read off them; clocks, probes and
  whether a pipeline parsed are arguments.
\<close>

section \<open>Stamps and the two branches\<close>

record gst_source =
  gs_encoded :: bool
  gs_frame_id :: int
  gs_stamps :: "(int \<times> frame_stamp) list"    \<comment> \<open>by PTS, in insertion order\<close>
  gs_reconnect :: bool
  gs_reconnect_timeout_s :: rat
  gs_first_frame_grace_s :: rat
  gs_last_data_ns :: int
  gs_start_ns :: int
  gs_started :: bool
  gs_raw_delivered :: int
  gs_reopen_frame_mark :: int
  gs_reopen_raw_mark :: int
  gs_decode_dead_cycles :: nat

definition new_source :: "bool \<Rightarrow> bool \<Rightarrow> rat \<Rightarrow> gst_source" where
  "new_source encoded reconnect timeout_s =
     \<lparr>gs_encoded = encoded, gs_frame_id = 0, gs_stamps = [], gs_reconnect = reconnect, gs_reconnect_timeout_s = timeout_s,
      gs_first_frame_grace_s = 12, gs_last_data_ns = 0, gs_start_ns = 0, gs_started = False, gs_raw_delivered = 0,
      gs_reopen_frame_mark = 0, gs_reopen_raw_mark = 0, gs_decode_dead_cycles = 0\<rparr>"

text \<open>\<open>_new_stamp\<close>: the capture time when one was read, else arrival.\<close>

definition mint_stamp :: "int \<Rightarrow> (int \<times> timestamp_source) option \<Rightarrow> int option \<Rightarrow> gst_source \<Rightarrow> frame_stamp \<times> gst_source" where
  "mint_stamp now capture pts gs =
     (let (ts, src, cam) = (case capture of Some (c, prov) \<Rightarrow> (c, prov, c)
                            | None \<Rightarrow> (now, SYSTEM, case pts of Some p \<Rightarrow> p | None \<Rightarrow> now))
      in (\<lparr>fs_frame_id = gs_frame_id gs, fs_timestamp_ns = ts, fs_source = src, fs_system_ns = now, fs_camera_ns = cam, fs_chunk_ns = None\<rparr>,
          gs\<lparr>gs_last_data_ns := now, gs_frame_id := gs_frame_id gs + 1\<rparr>))"

text \<open>Assignment in an ordered dict keeps the place of a key that is there.\<close>

fun od_put :: "'k \<Rightarrow> 'v \<Rightarrow> ('k \<times> 'v) list \<Rightarrow> ('k \<times> 'v) list" where
  "od_put k v [] = [(k, v)]"
| "od_put k v ((x, w) # d) = (if x = k then (k, v) # d else (x, w) # od_put k v d)"

definition STAMPS_KEPT :: nat where "STAMPS_KEPT = 240"

definition stamp_probe :: "int \<Rightarrow> int \<Rightarrow> (int \<times> timestamp_source) option \<Rightarrow> int option \<Rightarrow> gst_source \<Rightarrow> frame_stamp \<times> gst_source" where
  "stamp_probe clock now capture pts gs =
     (let (st, gs) = mint_stamp now capture pts gs;
          d = od_put (case pts of Some p \<Rightarrow> p | None \<Rightarrow> clock) st (gs_stamps gs)
      in (st, gs\<lparr>gs_stamps := drop (length d - STAMPS_KEPT) d\<rparr>))"

definition stamp_for :: "int \<Rightarrow> (int \<times> timestamp_source) option \<Rightarrow> int option \<Rightarrow> gst_source \<Rightarrow> frame_stamp \<times> gst_source" where
  "stamp_for now capture pts gs =
     (case Option.bind pts (map_of (gs_stamps gs)) of
        Some st \<Rightarrow> (st, gs)
      | None \<Rightarrow> if gs_stamps gs \<noteq> [] then (snd (last (gs_stamps gs)), gs) else mint_stamp now capture pts gs)"

text \<open>A sample of either branch, when one was pulled and the branch has a consumer: the stamp it is delivered with.\<close>

definition on_raw :: "int \<Rightarrow> (int \<times> timestamp_source) option \<Rightarrow> int option \<Rightarrow> gst_source \<Rightarrow> frame_stamp \<times> gst_source" where
  "on_raw now capture pts gs =
     (let (st, gs) = (if gs_encoded gs then stamp_for now capture pts gs else mint_stamp now capture pts gs)
      in (st, gs\<lparr>gs_raw_delivered := gs_raw_delivered gs + 1\<rparr>))"

definition on_enc :: "int \<Rightarrow> (int \<times> timestamp_source) option \<Rightarrow> int option \<Rightarrow> gst_source \<Rightarrow> frame_stamp \<times> gst_source" where
  "on_enc now capture pts gs = stamp_for now capture pts gs"

section \<open>Liveness and reopening\<close>

text \<open>What starting and stopping change here; the state of the GStreamer pipeline goes with \<open>gs_started\<close>.\<close>

definition start_source :: "int \<Rightarrow> gst_source \<Rightarrow> gst_source" where
  "start_source now gs = gs\<lparr>gs_start_ns := now, gs_last_data_ns := 0, gs_started := True\<rparr>"

definition stop_source :: "gst_source \<Rightarrow> gst_source" where
  "stop_source gs = gs\<lparr>gs_started := False\<rparr>"

definition is_disconnected :: "int \<Rightarrow> gst_source \<Rightarrow> bool" where
  "is_disconnected now gs \<longleftrightarrow>
     gs_reconnect gs \<and> gs_started gs
     \<and> (if gs_last_data_ns gs = 0 then now - gs_start_ns gs > trunc_rat (gs_first_frame_grace_s gs * 1000000000)
        else now - gs_last_data_ns gs > trunc_rat (gs_reconnect_timeout_s gs * 1000000000))"

text \<open>\<open>_note_decode_health\<close>: compressed frames in, nothing decoded out, over a whole attempt; the third in a row is reported.\<close>

definition note_decode_health :: "gst_source \<Rightarrow> gst_source" where
  "note_decode_health gs =
     (if \<not> gs_encoded gs then gs
      else let frames_in = gs_frame_id gs - gs_reopen_frame_mark gs; raw_out = gs_raw_delivered gs - gs_reopen_raw_mark gs
           in gs\<lparr>gs_reopen_frame_mark := gs_frame_id gs, gs_reopen_raw_mark := gs_raw_delivered gs,
                 gs_decode_dead_cycles := (if frames_in > 0 \<and> raw_out = 0 then gs_decode_dead_cycles gs + 1
                                           else if raw_out > 0 then 0 else gs_decode_dead_cycles gs)\<rparr>)"

definition decoder_wedged :: "gst_source \<Rightarrow> bool" where
  "decoder_wedged gs \<longleftrightarrow> gs_decode_dead_cycles gs \<ge> 3"

definition reopen_source :: "gst_source \<Rightarrow> gst_source" where
  "reopen_source gs = stop_source (note_decode_health gs)"

section \<open>RTSP\<close>

definition RTP_DEPAY :: "(string \<times> string) list" where
  "RTP_DEPAY = [(''H264'', ''rtph264depay''), (''H265'', ''rtph265depay''), (''MJPEG'', ''rtpjpegdepay''), (''JPEG'', ''rtpjpegdepay'')]"

definition NTP_EPOCH_OFFSET_NS :: int where "NTP_EPOCH_OFFSET_NS = 2208988800 * 1000000000"

definition CAPS_CODEC :: "(string \<times> string) list" where
  "CAPS_CODEC = [(''video/x-h264'', ''h264''), (''video/x-h265'', ''h265''), (''image/jpeg'', ''mjpeg''), (''video/x-jpeg'', ''mjpeg'')]"

text \<open>\<open>read_caps\<close>: what the probe takes from parsed caps; caps with a codec and a size end it.\<close>

record parsed_caps =
  pc_name :: string
  pc_width :: "int option"
  pc_height :: "int option"
  pc_framerate :: "(int \<times> int) option"

definition read_caps :: "parsed_caps option \<Rightarrow> (string \<times> int \<times> int \<times> rat) option" where
  "read_caps caps =
     (case caps of None \<Rightarrow> None
      | Some s \<Rightarrow>
          (case (map_of CAPS_CODEC (pc_name s), pc_width s, pc_height s) of
             (Some codec, Some w, Some h) \<Rightarrow>
               if w > 0 \<and> h > 0
               then Some (codec, w, h, case pc_framerate s of Some (fn, fd) \<Rightarrow> if fd \<noteq> 0 then of_int fn / of_int fd else 0 | None \<Rightarrow> 0)
               else None
           | _ \<Rightarrow> None))"

record rtsp_source =
  rt_codec :: string
  rt_width :: int
  rt_height :: int
  rt_fps :: rat
  rt_frame_rate :: rat                      \<comment> \<open>configured\<close>
  rt_ntp_anchor :: "(int \<times> int) option"     \<comment> \<open>PTS and time of the last frame with a meta\<close>

datatype rtsp_error = Unsupported_Codec_Rtsp string | Config_Changed

text \<open>What a probe read: codec, width, height, rate (0 when the parser exposes none).  \<open>None\<close> is no probe or a failed one.\<close>

definition open_rtsp :: "(string \<times> int \<times> int \<times> rat) option \<Rightarrow> rtsp_source \<Rightarrow> rtsp_error + rtsp_source" where
  "open_rtsp probed rt =
     (let rt = (case probed of Some (c, w, h, fps) \<Rightarrow> rt\<lparr>rt_codec := c, rt_width := w, rt_height := h,
                                                           rt_fps := (if fps \<noteq> 0 then fps else rt_frame_rate rt)\<rparr>
               | None \<Rightarrow> rt) in
      if encoded_info (Some (rt_codec rt)) = None \<or> map_of RTP_DEPAY (upper (rt_codec rt)) = None
      then Inl (Unsupported_Codec_Rtsp (rt_codec rt)) else Inr rt)"

definition reopen_rtsp :: "(string \<times> int \<times> int \<times> rat) option \<Rightarrow> rtsp_source \<times> gst_source \<Rightarrow> rtsp_error + (rtsp_source \<times> gst_source)" where
  "reopen_rtsp probed s =
     (case s of (rt, gs) \<Rightarrow>
        if (case probed of Some (c, w, h, _) \<Rightarrow> (c, w, h) \<noteq> (rt_codec rt, rt_width rt, rt_height rt) | None \<Rightarrow> False) then Inl Config_Changed
        else Inr (rt\<lparr>rt_ntp_anchor := None\<rparr>, reopen_source gs))"

text \<open>\<open>_extract_capture\<close>: \<open>meta\<close> is the reference timestamp and whether it counts from the NTP epoch.\<close>

definition ntp_capture :: "int option \<Rightarrow> (int \<times> bool) option \<Rightarrow> rtsp_source \<Rightarrow> (int \<times> timestamp_source) option \<times> rtsp_source" where
  "ntp_capture pts meta rt =
     (case meta of
        Some (t, ntp) \<Rightarrow>
          let ts = (if ntp then t - NTP_EPOCH_OFFSET_NS else t)
          in (Some (ts, RTP_NTP), case pts of Some p \<Rightarrow> rt\<lparr>rt_ntp_anchor := Some (p, ts)\<rparr> | None \<Rightarrow> rt)
      | None \<Rightarrow>
          (case (rt_ntp_anchor rt, pts) of
             (Some (a_pts, a_ts), Some p) \<Rightarrow> (Some (a_ts + (p - a_pts), RTP_NTP), rt)
           | _ \<Rightarrow> (None, rt)))"

section \<open>USB\<close>

text \<open>The v4l2 driver's timestamp, lifted to the wall clock, when it is plausible.\<close>

definition sof_capture :: "bool \<Rightarrow> int option \<Rightarrow> int \<Rightarrow> (int \<times> timestamp_source) option" where
  "sof_capture enabled sof now =
     (if \<not> enabled then None
      else case sof of Some s \<Rightarrow> if - 50000000 \<le> now - s \<and> now - s \<le> 2000000000 then Some (s, SOF) else None | None \<Rightarrow> None)"

text \<open>\<open>_pts_to_realtime\<close>: \<open>run_now\<close> is the pipeline's running time, \<open>None\<close> when its clock is not ready.\<close>

definition pts_to_realtime :: "int option \<Rightarrow> int \<Rightarrow> int \<Rightarrow> int option" where
  "pts_to_realtime run_now now pts = map_option (\<lambda>r. now - (r - pts)) run_now"

definition reopen_usb :: "bool \<Rightarrow> bool \<Rightarrow> gst_source \<Rightarrow> gst_source option" where
  "reopen_usb fake present gs = (if \<not> fake \<and> \<not> present then None else Some (reopen_source gs))"

section \<open>Both branches carry the same stamp\<close>

text \<open>A run of an encoded source; the second part is what the probe stamped, by key.  A branch delivers only what passed
  the probe in front of the tee.\<close>

inductive gst_run :: "gst_source \<Rightarrow> (int \<times> frame_stamp) list \<Rightarrow> bool" where
  New: "gst_run (new_source True reconnect timeout_s) []"
| Probe: "gst_run gs ms \<Longrightarrow> stamp_probe clock now capture pts gs = (st, gs') \<Longrightarrow>
    gst_run gs' (ms @ [(case pts of Some p \<Rightarrow> p | None \<Rightarrow> clock, st)])"
| Raw: "gst_run gs ms \<Longrightarrow> ms \<noteq> [] \<Longrightarrow> gst_run (snd (on_raw now capture pts gs)) ms"
| Enc: "gst_run gs ms \<Longrightarrow> ms \<noteq> [] \<Longrightarrow> gst_run (snd (on_enc now capture pts gs)) ms"
| Start: "gst_run gs ms \<Longrightarrow> gst_run (start_source now gs) ms"
| Stop: "gst_run gs ms \<Longrightarrow> gst_run (stop_source gs) ms"
| Reopen: "gst_run gs ms \<Longrightarrow> gst_run (reopen_source gs) ms"

definition kept_stamps :: "(int \<times> frame_stamp) list \<Rightarrow> (int \<times> frame_stamp) list" where
  "kept_stamps ms = drop (length ms - STAMPS_KEPT) ms"

lemma od_put_fresh: "k \<notin> fst ` set d \<Longrightarrow> od_put k v d = d @ [(k, v)]"
  by (induction k v d rule: od_put.induct) auto

lemma od_put_nonempty [simp]: "od_put k v d \<noteq> []"
  by (induction k v d rule: od_put.induct) auto

lemma newest_kept: "d \<noteq> [] \<Longrightarrow> drop (length d - STAMPS_KEPT) d \<noteq> [] \<and> last (drop (length d - STAMPS_KEPT) d) = last d"
  by (cases d) (auto simp: STAMPS_KEPT_def last_drop)

lemma kept_stamps_snoc: "length (kept_stamps ms) \<le> STAMPS_KEPT \<and>
    drop (length (kept_stamps ms @ [x]) - STAMPS_KEPT) (kept_stamps ms @ [x]) = kept_stamps (ms @ [x])"
proof (cases "length ms < STAMPS_KEPT")
  case False
  let ?k = "length ms - STAMPS_KEPT"
  have app: "kept_stamps ms @ [x] = drop ?k (ms @ [x])" by (simp add: kept_stamps_def)
  have len: "length (kept_stamps ms) = STAMPS_KEPT" using False by (simp add: kept_stamps_def)
  have "drop (Suc STAMPS_KEPT - STAMPS_KEPT) (drop ?k (ms @ [x])) = drop (Suc ?k) (ms @ [x])" by (simp add: drop_drop)
  moreover have "Suc ?k = length (ms @ [x]) - STAMPS_KEPT" using False by simp
  ultimately show ?thesis using len unfolding app by (simp add: kept_stamps_def)
qed (simp add: kept_stamps_def)

lemma gst_run_stamps:
  "gst_run gs ms \<Longrightarrow> gs_encoded gs \<and> gs_frame_id gs = int (length ms) \<and> (ms \<noteq> [] \<longrightarrow> gs_stamps gs \<noteq> [])
     \<and> (\<forall>i < length ms. fs_frame_id (snd (ms ! i)) = int i)
     \<and> (distinct (map fst ms) \<longrightarrow> gs_stamps gs = kept_stamps ms)"
proof (induction rule: gst_run.induct)
  case (New reconnect timeout_s)
  then show ?case by (simp add: new_source_def kept_stamps_def)
next
  case (Probe gs ms clock now capture pts st gs')
  let ?k = "case pts of Some p \<Rightarrow> p | None \<Rightarrow> clock"
  have eq: "st = fst (mint_stamp now capture pts gs)"
      "gs' = (snd (mint_stamp now capture pts gs))\<lparr>gs_stamps := (let d = od_put ?k st (gs_stamps gs) in drop (length d - STAMPS_KEPT) d)\<rparr>"
    using Probe.hyps(2) by (simp_all add: stamp_probe_def Let_def mint_stamp_def split: prod.splits option.splits)
  have id: "fs_frame_id st = int (length ms)" "gs_frame_id gs' = int (length ms) + 1" "gs_encoded gs'"
    using Probe.IH unfolding eq(2) eq(1) by (simp_all add: mint_stamp_def Let_def split: prod.splits option.splits)
  have stamps: "gs_stamps gs' = (let d = od_put ?k st (gs_stamps gs) in drop (length d - STAMPS_KEPT) d)" unfolding eq(2) by simp
  then have "gs_stamps gs' \<noteq> []" using newest_kept[OF od_put_nonempty[of ?k st "gs_stamps gs"]] unfolding Let_def by argo
  moreover have "gs_stamps gs' = kept_stamps (ms @ [(?k, st)])" if "distinct (map fst (ms @ [(?k, st)]))"
  proof -
    have old: "gs_stamps gs = kept_stamps ms" using Probe.IH that by simp
    have "?k \<notin> fst ` set ms" using that by simp
    then have "?k \<notin> fst ` set (kept_stamps ms)" unfolding kept_stamps_def using set_drop_subset by fast
    then show ?thesis using kept_stamps_snoc[of ms "(?k, st)"] unfolding stamps old by (simp add: od_put_fresh Let_def)
  qed
  ultimately show ?case using Probe.IH id by (auto simp: nth_append less_Suc_eq)
next
  case (Raw gs ms now capture pts)
  then show ?case by (auto simp: on_raw_def stamp_for_def split: option.splits)
next
  case (Enc gs ms now capture pts)
  then show ?case by (auto simp: on_enc_def stamp_for_def split: option.splits)
qed (simp_all add: start_source_def stop_source_def reopen_source_def note_decode_health_def Let_def)

lemma kept_nth: "i < length ms \<Longrightarrow> length ms - i \<le> STAMPS_KEPT \<Longrightarrow> ms ! i \<in> set (kept_stamps ms)"
proof -
  assume i: "i < length ms" "length ms - i \<le> STAMPS_KEPT"
  let ?s = "length ms - STAMPS_KEPT"
  have "?s \<le> i" using i by linarith
  then have "kept_stamps ms ! (i - ?s) = ms ! i" "i - ?s < length (kept_stamps ms)" using i by (simp_all add: kept_stamps_def)
  then show ?thesis by (metis nth_mem)
qed

text \<open>C21: one stamp per frame.  While PTS do not repeat, frame ids count the frames that passed the probe, whatever the
  branches deliver; a buffer of either branch gets exactly the stamp of the frame with its PTS while that
  frame is among the last 240, and a buffer whose PTS the decoder changed gets the newest one; no delivery consumes an id.\<close>

theorem branches_share_stamps:
  assumes "gst_run gs ms" "distinct (map fst ms)" "ms \<noteq> []"
  shows "gs_frame_id gs = int (length ms)
    \<and> (\<forall>i < length ms. fs_frame_id (snd (ms ! i)) = int i
         \<and> (length ms - i \<le> 240 \<longrightarrow> stamp_for now capture (Some (fst (ms ! i))) gs = (snd (ms ! i), gs)))
    \<and> ((\<forall>p \<in> set_option pts. p \<notin> fst ` set ms) \<longrightarrow> stamp_for now capture pts gs = (snd (last ms), gs))"
proof -
  have r: "gs_frame_id gs = int (length ms)" "\<forall>i < length ms. fs_frame_id (snd (ms ! i)) = int i" "gs_stamps gs = kept_stamps ms"
    using gst_run_stamps[OF assms(1)] assms(2) by simp_all
  have ne: "kept_stamps ms \<noteq> []" and l: "last (kept_stamps ms) = last ms"
    using newest_kept[OF assms(3)] by (simp_all add: kept_stamps_def)
  have d: "distinct (map fst (kept_stamps ms))"
    using assms(2) by (simp add: kept_stamps_def drop_map[symmetric])
  have "stamp_for now capture (Some (fst (ms ! i))) gs = (snd (ms ! i), gs)" if "i < length ms" "length ms - i \<le> 240" for i
  proof -
    have "(fst (ms ! i), snd (ms ! i)) \<in> set (kept_stamps ms)" using kept_nth[OF that(1)] that(2) by (simp add: STAMPS_KEPT_def)
    then have "map_of (kept_stamps ms) (fst (ms ! i)) = Some (snd (ms ! i))" by (rule map_of_is_SomeI[OF d])
    then show ?thesis by (simp add: stamp_for_def r(3))
  qed
  moreover have "stamp_for now capture pts gs = (snd (last ms), gs)" if "\<forall>p \<in> set_option pts. p \<notin> fst ` set ms"
  proof -
    have "map_of (kept_stamps ms) p = None" if "pts = Some p" for p
    proof -
      have "p \<notin> fst ` set ms" using \<open>\<forall>p \<in> set_option pts. p \<notin> fst ` set ms\<close> that by simp
      then have "p \<notin> fst ` set (kept_stamps ms)" unfolding kept_stamps_def using set_drop_subset by fast
      then show ?thesis by (simp add: map_of_eq_None_iff)
    qed
    then have "Option.bind pts (map_of (gs_stamps gs)) = None" by (cases pts) (simp_all add: r(3))
    then show ?thesis using ne l by (simp add: stamp_for_def r(3))
  qed
  ultimately show ?thesis using r by simp
qed

theorem branches_share_stamps_witness:
  "\<exists>gs ms. gst_run gs ms \<and> map fst ms = [40, 80] \<and> fs_frame_id (fst (stamp_for 9 None (Some 40) gs)) = 0
     \<and> fs_frame_id (fst (stamp_for 9 None (Some 41) gs)) = 1"
proof -
  obtain a g1 where a: "stamp_probe 0 1000 None (Some 40) (new_source True True 5) = (a, g1)" by force
  obtain b g2 where b: "stamp_probe 0 1040 None (Some 80) g1 = (b, g2)" by force
  have run: "gst_run g2 [(40, a), (80, b)]"
    using gst_run.Probe[OF gst_run.Probe[OF gst_run.New a] b] by simp
  from branches_share_stamps[OF run, where now = 9 and capture = None and pts = "Some 41"]
  have "fs_frame_id a = 0 \<and> fs_frame_id b = 1 \<and> stamp_for 9 None (Some 40) g2 = (a, g2) \<and> stamp_for 9 None (Some 41) g2 = (b, g2)"
    by (auto simp: less_Suc_eq)
  then show ?thesis using run by (intro exI[of _ g2] exI[of _ "[(40, a), (80, b)]"]) simp
qed

section \<open>The sender's clock\<close>

text \<open>Once a frame carried the sender's clock, every later frame with a PTS stays on it, and a frame without the meta keeps
  its PTS distance from the last that had one.\<close>

lemma ntp_locked:
  assumes "rt_ntp_anchor rt = Some (a_pts, a_ts)"
  shows "\<exists>ts. ntp_capture (Some p) meta rt = (Some (ts, RTP_NTP), snd (ntp_capture (Some p) meta rt))
    \<and> rt_ntp_anchor (snd (ntp_capture (Some p) meta rt)) \<noteq> None \<and> (meta = None \<longrightarrow> ts - a_ts = p - a_pts)"
  using assms by (auto simp: ntp_capture_def Let_def split: option.splits)

text \<open>A decoder that stays dead over three attempts with data is reported, and only one that stayed dead.\<close>

lemma dead_cycles_step:
  assumes "gs_encoded gs"
  shows "gs_decode_dead_cycles (reopen_source gs) =
    (if gs_frame_id gs > gs_reopen_frame_mark gs \<and> gs_raw_delivered gs = gs_reopen_raw_mark gs then gs_decode_dead_cycles gs + 1
     else if gs_raw_delivered gs > gs_reopen_raw_mark gs then 0 else gs_decode_dead_cycles gs)"
  using assms by (simp add: reopen_source_def stop_source_def note_decode_health_def Let_def)

end
