(* ===== verification/Shm_Source.thy ===== *)
theory Shm_Source
  imports Frame_Header Gst_Source
begin

text \<open>
  \<open>core-driver/cam_driver/sources/shmsrc.py\<close>: frames from another process's socket, in three framings - bare pixels, the
  service's own header, or buffers that describe themselves - checked against the pinned configuration.  A sample is
  its bytes, PTS, offsets and caps; the socket and the clock are arguments.
\<close>

section \<open>The source\<close>

datatype framing = Raw_Framing | Header_Framing | Unixfd_Framing

record shm_conf =
  sc_framing :: framing
  sc_pixel_format :: string
  sc_width :: int
  sc_height :: int

definition pinned_format :: "shm_conf \<Rightarrow> string" where
  "pinned_format sc = fst (parse_pixel_format (Some (sc_pixel_format sc)))"

definition pinned_bayer :: "shm_conf \<Rightarrow> string option" where
  "pinned_bayer sc = fst (snd (snd (parse_pixel_format (Some (sc_pixel_format sc)))))"

definition pinned_bytes :: "shm_conf \<Rightarrow> int" where
  "pinned_bytes sc = bytes_per_frame (pinned_format sc) (sc_width sc) (sc_height sc)"

text \<open>What did not match, for the message of the fatal stop.\<close>

datatype mismatch = Wrong_Format string int int | Wrong_Size nat | Wrong_Caps string string int int | Wrong_Media string

record shm_source =
  sm_gst :: gst_source
  sm_mismatch :: "mismatch option"
  sm_errored :: bool
  sm_bad_headers :: nat
  sm_last_source :: timestamp_source
  sm_delivered :: nat

definition new_shm :: "bool \<Rightarrow> rat \<Rightarrow> shm_source" where
  "new_shm reconnect timeout_s =
     \<lparr>sm_gst = new_source False reconnect timeout_s, sm_mismatch = None, sm_errored = False, sm_bad_headers = 0,
      sm_last_source = SYSTEM, sm_delivered = 0\<rparr>"

definition configure_shm :: "shm_source \<Rightarrow> shm_source" where
  "configure_shm sm = sm\<lparr>sm_errored := False\<rparr>"

text \<open>\<open>_on_bus_error\<close> and \<open>_on_bus_eos\<close>: the writer is gone.\<close>

definition writer_gone :: "shm_source \<Rightarrow> shm_source" where
  "writer_gone sm = sm\<lparr>sm_errored := True\<rparr>"

datatype shm_error = Shm_Config_Changed mismatch | Socket_Absent

definition reopen_shm :: "bool \<Rightarrow> shm_source \<Rightarrow> shm_error + shm_source" where
  "reopen_shm present sm =
     (case sm_mismatch sm of
        Some m \<Rightarrow> Inl (Shm_Config_Changed m)
      | None \<Rightarrow> if \<not> present then Inl Socket_Absent else Inr (configure_shm (sm\<lparr>sm_gst := reopen_source (sm_gst sm)\<rparr>)))"

definition shm_disconnected :: "int \<Rightarrow> shm_source \<Rightarrow> bool" where
  "shm_disconnected now sm \<longleftrightarrow>
     sm_mismatch sm \<noteq> None \<or> sm_errored sm \<and> gs_started (sm_gst sm) \<or> is_disconnected now (sm_gst sm)"

text \<open>The first mismatch stays.\<close>

definition fail_config :: "mismatch \<Rightarrow> shm_source \<Rightarrow> shm_source" where
  "fail_config m sm = (if sm_mismatch sm = None then sm\<lparr>sm_mismatch := Some m\<rparr> else sm)"

section \<open>Delivery\<close>

record sample_caps =
  sp_name :: string
  sp_format :: "string option"
  sp_width :: "int option"
  sp_height :: "int option"

record sample =
  sb_data :: bytes
  sb_pts :: "int option"
  sb_offset :: nat
  sb_offset_end :: nat
  sb_caps :: "sample_caps option"

definition OFFSET_NONE :: nat where "OFFSET_NONE = 0xFFFFFFFFFFFFFFFF"

text \<open>\<open>_unixfd_mismatch\<close>: \<open>Inl\<close> is a sample without caps.\<close>

definition unixfd_mismatch :: "shm_conf \<Rightarrow> sample \<Rightarrow> unit + mismatch option" where
  "unixfd_mismatch sc b =
     (case sb_caps b of
        None \<Rightarrow> Inl ()
      | Some st \<Rightarrow>
          let fmt = (case sp_format st of Some f \<Rightarrow> if f = [] then ''?'' else f | None \<Rightarrow> ''?'');
              w = (case sp_width st of Some n \<Rightarrow> n | None \<Rightarrow> 0); h = (case sp_height st of Some n \<Rightarrow> n | None \<Rightarrow> 0);
              wrong = Some (Wrong_Caps (sp_name st) fmt w h)
          in Inr (if sp_name st = ''video/x-bayer''
                  then if pinned_bayer sc \<noteq> Some fmt then wrong else if (w, h) \<noteq> (sc_width sc, sc_height sc) then wrong else None
                  else if sp_name st = ''video/x-raw''
                  then if pinned_bayer sc \<noteq> None \<or> fmt \<noteq> pinned_format sc then wrong
                       else if (w, h) \<noteq> (sc_width sc, sc_height sc) then wrong else None
                  else Some (Wrong_Media (sp_name st))))"

text \<open>A stamp of the writer's.\<close>

definition writer_stamp :: "int \<Rightarrow> int \<Rightarrow> int \<Rightarrow> timestamp_source \<Rightarrow> frame_stamp" where
  "writer_stamp now fid ts src =
     \<lparr>fs_frame_id = fid, fs_timestamp_ns = ts, fs_source = src, fs_system_ns = now, fs_camera_ns = ts, fs_chunk_ns = None\<rparr>"

definition seen_data :: "int \<Rightarrow> shm_source \<Rightarrow> shm_source" where
  "seen_data now sm = sm\<lparr>sm_gst := (sm_gst sm)\<lparr>gs_last_data_ns := now\<rparr>\<rparr>"

definition minted :: "int \<Rightarrow> int option \<Rightarrow> shm_source \<Rightarrow> frame_stamp \<times> shm_source" where
  "minted now pts sm = (case mint_stamp now None pts (sm_gst sm) of (st, gs) \<Rightarrow> (st, sm\<lparr>sm_gst := gs\<rparr>))"

text \<open>The stamp and the pixels of a sample, when it is one to deliver.\<close>

definition header_frame :: "shm_conf \<Rightarrow> int \<Rightarrow> sample \<Rightarrow> shm_source \<Rightarrow> (frame_stamp \<times> bytes) option \<times> shm_source" where
  "header_frame sc now b sm =
     (case unpack_header (sb_data b) of
        Inl _ \<Rightarrow> (None, sm\<lparr>sm_bad_headers := sm_bad_headers sm + 1\<rparr>)
      | Inr h \<Rightarrow>
          let pixels = drop HEADER_SIZE (sb_data b) in
          if (fh_width h, fh_height h) \<noteq> (sc_width sc, sc_height sc) \<or> fh_pixfmt h \<noteq> pinned_format sc
          then (None, fail_config (Wrong_Format (fh_pixfmt h) (fh_width h) (fh_height h)) sm)
          else if int (length pixels) \<noteq> pinned_bytes sc then (None, fail_config (Wrong_Size (length pixels)) sm)
          else let src = (case ts_of_value (fh_ts_source h) of Some s \<Rightarrow> s | None \<Rightarrow> SYSTEM)
               in (Some (writer_stamp now (fh_frame_id h) (fh_timestamp_ns h) src, pixels),
                   seen_data now (sm\<lparr>sm_last_source := src\<rparr>)))"

definition unixfd_frame :: "shm_conf \<Rightarrow> int \<Rightarrow> sample \<Rightarrow> shm_source \<Rightarrow> (frame_stamp \<times> bytes) option \<times> shm_source" where
  "unixfd_frame sc now b sm =
     (case unixfd_mismatch sc b of
        Inl _ \<Rightarrow> (None, sm\<lparr>sm_bad_headers := sm_bad_headers sm + 1\<rparr>)
      | Inr (Some m) \<Rightarrow> (None, fail_config m sm)
      | Inr None \<Rightarrow>
          if int (length (sb_data b)) \<noteq> pinned_bytes sc then (None, fail_config (Wrong_Size (length (sb_data b))) sm)
          else if sb_offset b \<noteq> OFFSET_NONE \<and> sb_offset_end b \<notin> {0, OFFSET_NONE}
          then (Some (writer_stamp now (int (sb_offset b)) (int (sb_offset_end b)) CAMERA, sb_data b),
                seen_data now (sm\<lparr>sm_last_source := CAMERA\<rparr>))
          else (case minted now (sb_pts b) (sm\<lparr>sm_last_source := SYSTEM\<rparr>) of (st, sm) \<Rightarrow> (Some (st, sb_data b), sm)))"

definition raw_frame :: "shm_conf \<Rightarrow> int \<Rightarrow> sample \<Rightarrow> shm_source \<Rightarrow> (frame_stamp \<times> bytes) option \<times> shm_source" where
  "raw_frame sc now b sm =
     (if int (length (sb_data b)) \<noteq> pinned_bytes sc then (None, fail_config (Wrong_Size (length (sb_data b))) sm)
      else case minted now (sb_pts b) sm of (st, sm) \<Rightarrow> (Some (st, sb_data b), sm))"

definition on_shm_sample :: "shm_conf \<Rightarrow> int \<Rightarrow> sample \<Rightarrow> shm_source \<Rightarrow> (frame_stamp \<times> bytes) option \<times> shm_source" where
  "on_shm_sample sc now b sm =
     (if sm_mismatch sm \<noteq> None then (None, sm)
      else case (case sc_framing sc of Header_Framing \<Rightarrow> header_frame sc now b sm | Unixfd_Framing \<Rightarrow> unixfd_frame sc now b sm
                 | Raw_Framing \<Rightarrow> raw_frame sc now b sm) of
        (None, sm) \<Rightarrow> (None, sm)
      | (Some x, sm) \<Rightarrow>
          (Some x, sm\<lparr>sm_delivered := sm_delivered sm + 1, sm_gst := (sm_gst sm)\<lparr>gs_raw_delivered := gs_raw_delivered (sm_gst sm) + 1\<rparr>\<rparr>))"

section \<open>Only the pinned format gets in\<close>

text \<open>The source at work; the second part is what it delivered.\<close>

inductive shm_run :: "shm_conf \<Rightarrow> shm_source \<Rightarrow> (frame_stamp \<times> bytes) list \<Rightarrow> bool" for sc where
  New: "shm_run sc (new_shm reconnect timeout_s) []"
| Sample: "shm_run sc sm out \<Longrightarrow> on_shm_sample sc now b sm = (r, sm') \<Longrightarrow> shm_run sc sm' (out @ (case r of Some x \<Rightarrow> [x] | None \<Rightarrow> []))"
| Gone: "shm_run sc sm out \<Longrightarrow> shm_run sc (writer_gone sm) out"
| Start: "shm_run sc sm out \<Longrightarrow> shm_run sc (sm\<lparr>sm_gst := start_source now (sm_gst sm)\<rparr>) out"
| Stop: "shm_run sc sm out \<Longrightarrow> shm_run sc (sm\<lparr>sm_gst := stop_source (sm_gst sm)\<rparr>) out"
| Reopen: "shm_run sc sm out \<Longrightarrow> reopen_shm present sm = Inr sm' \<Longrightarrow> shm_run sc sm' out"

lemma frame_pinned:
  assumes "on_shm_sample sc now b sm = (Some (st, px), sm')"
  shows "int (length px) = pinned_bytes sc \<and> sm_mismatch sm' = None \<and> sm_delivered sm' = sm_delivered sm + 1"
  using assms
  by (auto simp: on_shm_sample_def header_frame_def unixfd_frame_def raw_frame_def minted_def seen_data_def Let_def
      split: if_splits framing.splits sum.splits option.splits prod.splits)

lemma nothing_counts:
  assumes "on_shm_sample sc now b sm = (None, sm')"
  shows "sm_delivered sm' = sm_delivered sm"
  using assms
  by (auto simp: on_shm_sample_def header_frame_def unixfd_frame_def raw_frame_def minted_def fail_config_def Let_def
      split: if_splits framing.splits sum.splits option.splits prod.splits)


definition demo_conf :: shm_conf where
  "demo_conf = \<lparr>sc_framing = Raw_Framing, sc_pixel_format = ''GRAY8'', sc_width = 2, sc_height = 1\<rparr>"

definition demo_sample :: "bytes \<Rightarrow> sample" where
  "demo_sample d = \<lparr>sb_data = d, sb_pts = None, sb_offset = 0, sb_offset_end = 0, sb_caps = None\<rparr>"

lemma demo_bytes: "pinned_bytes demo_conf = 2"
  by code_simp


text \<open>A mismatch is fatal: nothing is delivered any more, and no reopen succeeds.\<close>

lemma mismatch_final:
  assumes "sm_mismatch sm = Some m"
  shows "on_shm_sample sc now b sm = (None, sm)" "reopen_shm present sm = Inl (Shm_Config_Changed m)" "shm_disconnected now sm"
  using assms by (simp_all add: on_shm_sample_def reopen_shm_def shm_disconnected_def)

end
