(* ===== verification/Ros2_Source.thy ===== *)
theory Ros2_Source
  imports Shm_Source Py_Format
begin

text \<open>
  The writer of \<open>plugins/ros2-source\<close>: \<open>framing.py\<close> (ROS encodings, the pinned format, row unpadding; its header
  writer is \<open>pack_header\<close> of \<open>Frame_Header\<close>) and \<open>node.py\<close>'s settings and \<open>Feeder\<close>, which sends each message on as it is,
  or through a convert pipeline that hands it back later.  What GStreamer, the clock and the operating system answer is
  an argument; what \<open>Shm_Source\<close> makes of the buffers is proved at the end.
\<close>

section \<open>Encodings and the pinned format\<close>

datatype ros_error = Unsupported_Encoding string | Bad_Pinned string | No_Topic | Bad_Transport string | Bad_Number string
  | Rate_Not_Finite | Needs_Unixfd | Output_Failed | Bad_Caps | Convert_Failed | Memory_Failed | Not_Packed transport_error

text \<open>(media type, format or Bayer pattern, bytes per pixel; planar formats have none)\<close>

definition ENCODINGS :: "(string \<times> string \<times> string \<times> nat option) list" where
  "ENCODINGS =
     [(''rgb8'', ''video/x-raw'', ''RGB'', Some 3), (''bgr8'', ''video/x-raw'', ''BGR'', Some 3),
      (''rgba8'', ''video/x-raw'', ''RGBA'', Some 4), (''bgra8'', ''video/x-raw'', ''BGRA'', Some 4),
      (''mono8'', ''video/x-raw'', ''GRAY8'', Some 1), (''8UC1'', ''video/x-raw'', ''GRAY8'', Some 1),
      (''mono16'', ''video/x-raw'', ''GRAY16_LE'', Some 2), (''16UC1'', ''video/x-raw'', ''GRAY16_LE'', Some 2),
      (''yuv422_yuy2'', ''video/x-raw'', ''YUY2'', Some 2), (''yuyv'', ''video/x-raw'', ''YUY2'', Some 2),
      (''yuv422'', ''video/x-raw'', ''UYVY'', Some 2), (''uyvy'', ''video/x-raw'', ''UYVY'', Some 2),
      (''nv12'', ''video/x-raw'', ''NV12'', None), (''nv24'', ''video/x-raw'', ''NV24'', None),
      (''bayer_rggb8'', ''video/x-bayer'', ''rggb'', Some 1), (''bayer_bggr8'', ''video/x-bayer'', ''bggr'', Some 1),
      (''bayer_gbrg8'', ''video/x-bayer'', ''gbrg'', Some 1), (''bayer_grbg8'', ''video/x-bayer'', ''grbg'', Some 1)]"

definition BAYER_PATTERN :: "(string \<times> string) list" where
  "BAYER_PATTERN = [(''RG'', ''rggb''), (''GR'', ''grbg''), (''GB'', ''gbrg''), (''BG'', ''bggr'')]"

definition GST_RAW :: "string set" where
  "GST_RAW = fst ` set PIXFMT_CODE"

definition frame_bytes :: "string \<Rightarrow> int \<Rightarrow> int \<Rightarrow> int" where
  "frame_bytes gst_format width height =
     (let px = width * height in
      if gst_format \<in> {''GRAY16_LE'', ''GRAY16_BE''} then px * 2
      else if gst_format \<in> {''I420'', ''NV12'', ''YV12''} then px * 3 div 2
      else if gst_format \<in> {''YUY2'', ''UYVY''} then px * 2
      else if gst_format \<in> {''NV24'', ''RGB'', ''BGR''} then px * 3
      else if gst_format \<in> {''RGBA'', ''BGRA'', ''RGBx'', ''BGRx''} then px * 4
      else px)"

record encoding =
  en_media :: string
  en_format :: string
  en_bytes_per_pixel :: "nat option"
  en_bayer :: bool

text \<open>\<open>Encoding(encoding, is_bigendian)\<close>\<close>

definition encoding_of :: "string \<Rightarrow> bool \<Rightarrow> ros_error + encoding" where
  "encoding_of name is_bigendian =
     (let n = strip_space name; key = (if map_of ENCODINGS (lower n) \<noteq> None then lower n else n) in
      case map_of ENCODINGS key of
        None \<Rightarrow> Inl (Unsupported_Encoding n)
      | Some (media, fmt, bpp) \<Rightarrow>
          Inr \<lparr>en_media = media, en_format = (if fmt = ''GRAY16_LE'' \<and> is_bigendian then ''GRAY16_BE'' else fmt),
               en_bytes_per_pixel = bpp, en_bayer = (media = ''video/x-bayer'')\<rparr>)"

definition raw_format :: "encoding \<Rightarrow> string" where
  "raw_format e = (if en_bayer e then ''GRAY8'' else en_format e)"

definition fps_text :: "rat \<Rightarrow> string" where
  "fps_text fps =
     (let f = (if fps = 0 then 10 else fps) in
      if \<bar>f - of_int (round_even f)\<bar> < 1 / 10 ^ 6 then str_int (round_even f) @ ''/1''
      else str_int (round_even (f * 1000)) @ ''/1000'')"

definition caps_text :: "string \<Rightarrow> string \<Rightarrow> int \<Rightarrow> int \<Rightarrow> rat \<Rightarrow> string" where
  "caps_text media fmt width height fps =
     media @ '',format='' @ fmt @ '',width='' @ str_int width @ '',height='' @ str_int height @ '',framerate='' @ fps_text fps"

definition encoding_caps :: "encoding \<Rightarrow> int \<Rightarrow> int \<Rightarrow> rat \<Rightarrow> string" where
  "encoding_caps e width height fps = caps_text (en_media e) (en_format e) width height fps"

record pinned =
  pn_pixel_format :: string
  pn_width :: int
  pn_height :: int
  pn_fps :: rat
  pn_format :: string
  pn_bayer :: "string option"
  pn_frame_bytes :: int

text \<open>\<open>Pinned(pixel_format, width, height, fps)\<close>\<close>

definition pinned_kind :: "string \<Rightarrow> ros_error + string \<times> string option" where
  "pinned_kind pf =
     (if pf \<in> GST_RAW then Inr (pf, None)
      else if starts_with ''Bayer'' pf \<and> 7 \<le> length pf \<and> map_of BAYER_PATTERN (upper (slice pf 5 7)) \<noteq> None \<and> ends_with ''8'' pf
      then Inr (''GRAY8'', map_of BAYER_PATTERN (upper (slice pf 5 7)))
      else if starts_with ''Mono'' pf
      then Inr (if list_ex (\<lambda>t. contains_str t pf) [''16'', ''12'', ''10''] then ''GRAY16_LE'' else ''GRAY8'', None)
      else Inl (Bad_Pinned pf))"

definition new_pinned :: "string \<Rightarrow> int \<Rightarrow> int \<Rightarrow> rat \<Rightarrow> ros_error + pinned" where
  "new_pinned pixel_format width height fps =
     (let pf = strip_space (if pixel_format = [] then ''RGB'' else pixel_format) in
      ebind (pinned_kind pf) (\<lambda>(fmt, bayer).
        Inr \<lparr>pn_pixel_format = pf, pn_width = width, pn_height = height, pn_fps = (if fps = 0 then 10 else fps),
             pn_format = fmt, pn_bayer = bayer, pn_frame_bytes = frame_bytes fmt width height\<rparr>))"

definition raw_caps :: "pinned \<Rightarrow> string" where
  "raw_caps p = caps_text ''video/x-raw'' (pn_format p) (pn_width p) (pn_height p) (pn_fps p)"

definition unixfd_caps :: "pinned \<Rightarrow> string" where
  "unixfd_caps p =
     (case pn_bayer p of Some b \<Rightarrow> caps_text ''video/x-bayer'' b (pn_width p) (pn_height p) (pn_fps p) | None \<Rightarrow> raw_caps p)"

text \<open>\<open>Pinned.matches\<close>: the bytes of a message are the pinned frame.\<close>

definition matches :: "pinned \<Rightarrow> encoding \<Rightarrow> int \<Rightarrow> int \<Rightarrow> bool" where
  "matches p e width height \<longleftrightarrow>
     (width, height) = (pn_width p, pn_height p)
     \<and> (case pn_bayer p of Some b \<Rightarrow> en_bayer e \<and> en_format e = b | None \<Rightarrow> \<not> en_bayer e \<and> en_format e = pn_format p)"

definition unpad_rows :: "bytes \<Rightarrow> nat \<Rightarrow> nat \<Rightarrow> nat \<Rightarrow> bytes" where
  "unpad_rows data step row_bytes height =
     (if step \<le> row_bytes \<or> row_bytes = 0 then data
      else concat (map (\<lambda>r. slice data (r * step) (r * step + row_bytes)) [0..<height]))"

definition stamp_ns :: "int \<Rightarrow> int \<Rightarrow> int" where
  "stamp_ns sec nanosec = sec * 1000000000 + nanosec"

section \<open>Settings\<close>

record settings =
  se_topic :: string
  se_transport :: framing
  se_socket :: string
  se_pinned :: pinned
  se_compressed :: bool
  se_qos :: string
  se_shm_frames :: int

definition TRANSPORTS :: "(string \<times> framing) list" where
  "TRANSPORTS = [(''raw'', Raw_Framing), (''header'', Header_Framing), (''unixfd'', Unixfd_Framing)]"

definition env_get :: "(string \<rightharpoonup> string) \<Rightarrow> string \<Rightarrow> string \<Rightarrow> string" where
  "env_get env k d = (case env k of Some s \<Rightarrow> s | None \<Rightarrow> d)"

definition or_else :: "string \<Rightarrow> string \<Rightarrow> string" where
  "or_else s d = (if s = [] then d else s)"

definition env_int :: "(string \<rightharpoonup> string) \<Rightarrow> string \<Rightarrow> string \<Rightarrow> ros_error + int" where
  "env_int env k d =
     (let s = or_else (env_get env k d) d in case int_of_str s of Some n \<Rightarrow> Inr n | None \<Rightarrow> Inl (Bad_Number s))"

text \<open>A rate that is not finite is refused when the caps are printed; here it is refused at once.\<close>

definition env_rate :: "(string \<rightharpoonup> string) \<Rightarrow> string \<Rightarrow> string \<Rightarrow> ros_error + rat" where
  "env_rate env k d =
     (let s = or_else (env_get env k d) d in
      case float_of_str s of None \<Rightarrow> Inl (Bad_Number s) | Some (JNum x) \<Rightarrow> Inr x | Some _ \<Rightarrow> Inl Rate_Not_Finite)"

definition env_truthy :: "string \<Rightarrow> bool" where
  "env_truthy v \<longleftrightarrow> lower (strip_space v) \<in> {''1'', ''true'', ''yes'', ''on''}"

definition read_settings :: "(string \<rightharpoonup> string) \<Rightarrow> ros_error + settings" where
  "read_settings env =
     (let topic = strip_space (env_get env ''CAM_SOURCE_TOPIC'' []);
          tr = or_else (lower (strip_space (env_get env ''CAM_SOURCE_TRANSPORT'' ''raw''))) ''raw'' in
      if topic = [] then Inl No_Topic
      else case map_of TRANSPORTS tr of
        None \<Rightarrow> Inl (Bad_Transport tr)
      | Some fr \<Rightarrow>
          ebind (env_int env ''CAM_SOURCE_WIDTH'' ''640'') (\<lambda>w.
          ebind (env_int env ''CAM_SOURCE_HEIGHT'' ''480'') (\<lambda>h.
          ebind (env_rate env ''CAM_SOURCE_FPS'' ''10'') (\<lambda>fps.
          ebind (new_pinned (env_get env ''CAM_SOURCE_FORMAT'' ''RGB'') w h fps) (\<lambda>p.
          ebind (env_int env ''CAM_SOURCE_SHM_FRAMES'' ''8'') (\<lambda>n.
            Inr \<lparr>se_topic = topic, se_transport = fr,
                 se_socket = or_else (strip_space (env_get env ''CAM_SOURCE_SOCKET'' ''/tmp/cam/in'')) ''/tmp/cam/in'', se_pinned = p,
                 se_compressed = env_truthy (env_get env ''CAM_SOURCE_COMPRESSED'' ''false''),
                 se_qos = or_else (lower (strip_space (env_get env ''CAM_SOURCE_QOS'' ''sensor''))) ''sensor'',
                 se_shm_frames = max 2 n\<rparr>))))))"

text \<open>The ring of \<open>shmsink\<close>, in bytes.\<close>

definition shm_size :: "settings \<Rightarrow> int" where
  "shm_size s =
     (pn_frame_bytes (se_pinned s) + (if se_transport s = Header_Framing then int HEADER_SIZE else 0)) * se_shm_frames s + 4096"

section \<open>The feeder\<close>

text \<open>A buffer of the output pipeline, its PTS relative to the base.\<close>

record out_buffer =
  ob_data :: bytes
  ob_pts :: int
  ob_offset :: nat
  ob_offset_end :: nat

text \<open>\<open>fd_in_flight\<close> is what the present convert pipeline was given: payload and PTS.\<close>

record feeder =
  fd_transport :: framing
  fd_pinned :: pinned
  fd_convert :: bool
  fd_cv_caps :: string
  fd_in_flight :: "(bytes \<times> int) list"
  fd_pts_base :: int
  fd_emitted :: nat
  fd_converted :: nat
  fd_bypassed :: nat
  fd_dropped :: nat
  fd_failed :: bool
  fd_out :: "out_buffer list"

definition new_feeder_of :: "settings \<Rightarrow> feeder" where
  "new_feeder_of s =
     \<lparr>fd_transport = se_transport s, fd_pinned = se_pinned s, fd_convert = False, fd_cv_caps = [], fd_in_flight = [], fd_pts_base = 0,
      fd_emitted = 0, fd_converted = 0, fd_bypassed = 0, fd_dropped = 0, fd_failed = False, fd_out = []\<rparr>"

text \<open>\<open>start\<close>: whether \<open>unixfdsink\<close> exists and whether the output pipeline starts.\<close>

definition start_feeder :: "bool \<Rightarrow> bool \<Rightarrow> feeder \<Rightarrow> ros_error + feeder" where
  "start_feeder has_unixfd starts fd =
     (if fd_transport fd = Unixfd_Framing \<and> \<not> has_unixfd then Inl Needs_Unixfd
      else if \<not> starts then Inl Output_Failed else Inr fd)"

definition on_out_error :: "feeder \<Rightarrow> feeder" where
  "on_out_error fd = fd\<lparr>fd_failed := True\<rparr>"

definition stop_feeder :: "feeder \<Rightarrow> feeder" where
  "stop_feeder fd = fd\<lparr>fd_convert := False, fd_in_flight := []\<rparr>"

text \<open>What a push meets: the clock, the descriptor memory of a unixfd frame, the output's answer to \<open>push-buffer\<close>, how a new convert
  pipeline comes up, and its answer.\<close>

datatype bring_up = Playing | Not_Parsed | Not_Started

record push_env =
  pe_now :: int
  pe_memory :: bool
  pe_pushed :: bool
  pe_bring_up :: bring_up
  pe_cv_pushed :: bool

text \<open>\<open>_rel_pts\<close>: the base is the first stamp, and moves down with a stamp before it.\<close>

definition rel_pts :: "int \<Rightarrow> feeder \<Rightarrow> int \<times> feeder" where
  "rel_pts stamp fd =
     (let base = (if fd_pts_base fd = 0 then stamp else fd_pts_base fd); base = (if stamp < base then stamp else base)
      in (stamp - base, fd\<lparr>fd_pts_base := base\<rparr>))"

text \<open>The data and offsets of a buffer that carries a frame; a GStreamer buffer has no offsets unless they are set.\<close>

definition frame_buffer :: "bool \<Rightarrow> bytes \<Rightarrow> int \<Rightarrow> nat \<Rightarrow> feeder \<Rightarrow> ros_error + bytes \<times> nat \<times> nat" where
  "frame_buffer memory pixels stamp frame_id fd =
     (let p = fd_pinned fd in
      case fd_transport fd of
        Header_Framing \<Rightarrow>
          (case pack_header stamp (int frame_id) (pn_width p) (pn_height p) (pn_format p) ''camera'' of
             Inl e \<Rightarrow> Inl (Not_Packed e) | Inr h \<Rightarrow> Inr (h @ pixels, OFFSET_NONE, OFFSET_NONE))
      | Unixfd_Framing \<Rightarrow> if memory then Inr (pixels, frame_id, nat stamp) else Inl Memory_Failed
      | Raw_Framing \<Rightarrow> Inr (pixels, OFFSET_NONE, OFFSET_NONE))"

text \<open>\<open>_emit\<close>; the second part is what it raises.\<close>

definition emit :: "push_env \<Rightarrow> bytes \<Rightarrow> int \<Rightarrow> feeder \<Rightarrow> feeder \<times> ros_error option" where
  "emit pe pixels stamp fd =
     (let fd = fd\<lparr>fd_emitted := fd_emitted fd + 1\<rparr> in
      case frame_buffer (pe_memory pe) pixels stamp (fd_emitted fd) fd of
        Inl e \<Rightarrow> (fd, Some e)
      | Inr (data, off, off_end) \<Rightarrow>
          (case rel_pts stamp fd of
             (pts, fd) \<Rightarrow>
               (if pe_pushed pe then fd\<lparr>fd_out := fd_out fd @ [\<lparr>ob_data = data, ob_pts = pts, ob_offset = off, ob_offset_end = off_end\<rparr>]\<rparr>
                else fd\<lparr>fd_dropped := fd_dropped fd + 1\<rparr>, None)))"

text \<open>\<open>_on_converted\<close>: the convert pipeline hands back a frame.\<close>

definition on_converted :: "push_env \<Rightarrow> bytes \<Rightarrow> int option \<Rightarrow> feeder \<Rightarrow> feeder \<times> ros_error option" where
  "on_converted pe pixels pts fd =
     (case emit pe pixels (fd_pts_base fd + (case pts of Some n \<Rightarrow> n | None \<Rightarrow> 0)) fd of
        (fd, None) \<Rightarrow> (fd\<lparr>fd_converted := fd_converted fd + 1\<rparr>, None)
      | r \<Rightarrow> r)"

definition on_cv_error :: "feeder \<Rightarrow> feeder" where
  "on_cv_error fd = fd\<lparr>fd_cv_caps := []\<rparr>"

text \<open>\<open>_ensure_convert\<close>: a pipeline for these caps; the frames in flight in an old one are lost with it.\<close>

definition ensure_convert :: "bring_up \<Rightarrow> string \<Rightarrow> feeder \<Rightarrow> feeder \<times> ros_error option" where
  "ensure_convert bu in_caps fd =
     (if fd_convert fd \<and> fd_cv_caps fd = in_caps then (fd, None)
      else let fd = fd\<lparr>fd_in_flight := []\<rparr> in
        case bu of
          Not_Parsed \<Rightarrow> (fd, Some Bad_Caps)
        | Not_Started \<Rightarrow> (fd\<lparr>fd_convert := True, fd_cv_caps := in_caps\<rparr>, Some Convert_Failed)
        | Playing \<Rightarrow> (fd\<lparr>fd_convert := True, fd_cv_caps := in_caps\<rparr>, None))"

definition push_convert :: "push_env \<Rightarrow> bytes \<Rightarrow> int \<Rightarrow> feeder \<Rightarrow> feeder" where
  "push_convert pe payload stamp fd =
     (case rel_pts stamp fd of
        (pts, fd) \<Rightarrow>
          if pe_cv_pushed pe then fd\<lparr>fd_in_flight := fd_in_flight fd @ [(payload, pts)]\<rparr>
          else fd\<lparr>fd_dropped := fd_dropped fd + 1\<rparr>)"

definition converted_push :: "push_env \<Rightarrow> string \<Rightarrow> bytes \<Rightarrow> int \<Rightarrow> feeder \<Rightarrow> feeder \<times> ros_error option" where
  "converted_push pe in_caps payload stamp fd =
     (case ensure_convert (pe_bring_up pe) in_caps fd of
        (fd, Some e) \<Rightarrow> (fd, Some e)
      | (fd, None) \<Rightarrow> (push_convert pe payload stamp fd, None))"

definition drop_frame :: "feeder \<Rightarrow> feeder" where
  "drop_frame fd = fd\<lparr>fd_dropped := fd_dropped fd + 1\<rparr>"

text \<open>A stamp that is not set is the time of arrival.\<close>

definition arrival_stamp :: "push_env \<Rightarrow> int \<Rightarrow> int" where
  "arrival_stamp pe stamp = (if stamp \<le> 0 then pe_now pe else stamp)"

definition tight_pixels :: "encoding \<Rightarrow> nat \<Rightarrow> nat \<Rightarrow> nat \<Rightarrow> bytes \<Rightarrow> bytes" where
  "tight_pixels e width height step data =
     (let row = (case en_bytes_per_pixel e of Some n \<Rightarrow> n * width | None \<Rightarrow> 0)
      in if row \<noteq> 0 then unpad_rows data step row height else data)"

definition push_image :: "push_env \<Rightarrow> string \<Rightarrow> nat \<Rightarrow> nat \<Rightarrow> bool \<Rightarrow> nat \<Rightarrow> bytes \<Rightarrow> int \<Rightarrow> feeder \<Rightarrow> feeder \<times> ros_error option" where
  "push_image pe name width height is_bigendian step data stamp fd =
     (if fd_failed fd then (fd, None)
      else case encoding_of name is_bigendian of
        Inl _ \<Rightarrow> (drop_frame fd, None)
      | Inr e \<Rightarrow>
          let stamp = arrival_stamp pe stamp; p = fd_pinned fd; pixels = tight_pixels e width height step data in
          if matches p e (int width) (int height)
          then if int (length pixels) \<noteq> pn_frame_bytes p then (drop_frame fd, None)
               else emit pe pixels stamp (fd\<lparr>fd_bypassed := fd_bypassed fd + 1\<rparr>)
          else converted_push pe (encoding_caps e (int width) (int height) (pn_fps p)) pixels stamp fd)"

text \<open>The caps and decoder of a \<open>CompressedImage\<close> format.\<close>

definition compressed_caps :: "string \<Rightarrow> (string \<times> string) option" where
  "compressed_caps fmt =
     (let f = lower fmt in
      if contains_str ''png'' f then Some (''image/png'', ''pngdec'')
      else if contains_str ''jpeg'' f \<or> contains_str ''jpg'' f \<or> f = [] then Some (''image/jpeg'', ''jpegdec'')
      else None)"

definition push_compressed :: "push_env \<Rightarrow> string \<Rightarrow> bytes \<Rightarrow> int \<Rightarrow> feeder \<Rightarrow> feeder \<times> ros_error option" where
  "push_compressed pe fmt data stamp fd =
     (if fd_failed fd then (fd, None)
      else case compressed_caps fmt of
        None \<Rightarrow> (drop_frame fd, None)
      | Some (caps, _) \<Rightarrow> converted_push pe caps data (arrival_stamp pe stamp) fd)"

section \<open>The mirror of the core\<close>

lemma frame_bytes_mirror: "frame_bytes fmt w h = bytes_per_frame fmt w h"
  unfolding frame_bytes_def bytes_per_frame_def Let_def insert_iff empty_iff by (cases "fmt = ''NV24''") auto

lemma raw_formats: "pf \<in> GST_RAW \<longleftrightarrow> pf \<in> set GST_MONO \<union> set GST_COLOR"
  by (auto simp: GST_RAW_def PIXFMT_CODE_def GST_MONO_def GST_COLOR_def)

lemma char_is: "c = d \<longleftrightarrow> (of_char c :: nat) = of_char d"
  by simp

lemma upper_is:
  "upper_char c = d \<longleftrightarrow> (if 97 \<le> (of_char c :: nat) \<and> of_char c \<le> (122 :: nat) then of_char c = (of_char d + 32 :: nat) else c = d)"
  using nat_of_char_less_256[of c] by (auto simp: upper_char_def Let_def char_of_eq_iff take_bit_nat_eq_self)

lemma upper_char_letter:
  "upper_char c = CHR ''R'' \<longleftrightarrow> c \<in> {CHR ''R'', CHR ''r''}" "upper_char c = CHR ''G'' \<longleftrightarrow> c \<in> {CHR ''G'', CHR ''g''}"
  "upper_char c = CHR ''B'' \<longleftrightarrow> c \<in> {CHR ''B'', CHR ''b''}"
  unfolding upper_is char_is[of c] insert_iff empty_iff by auto

text \<open>A Bayer name of the usual length, taken apart.\<close>

lemma bayer_name:
  assumes "starts_with ''Bayer'' pf" "ends_with ''8'' pf" "length pf = 8"
  obtains c d where "pf = ''Bayer'' @ [c, d] @ ''8''"
proof -
  have "take 5 pf = ''Bayer''" "drop 7 pf = ''8''" using assms by (simp_all add: starts_with_def ends_with_def numeral_eq_Suc)
  moreover obtain c d where "take 2 (drop 5 pf) = [c, d]"
    using assms(3) length_Suc_conv[of "take 2 (drop 5 pf)" 1] by (auto simp: length_Suc_conv)
  moreover have "drop 7 pf = drop 2 (drop 5 pf)" by simp
  then have "pf = take 5 pf @ take 2 (drop 5 pf) @ drop 7 pf" by (metis append_take_drop_id)
  ultimately show thesis using that by simp
qed

definition plain_name :: "string \<Rightarrow> bool" where
  "plain_name pf \<longleftrightarrow> pf \<noteq> [] \<and> strip_space pf = pf \<and> (starts_with ''Bayer'' pf \<longrightarrow> length pf = 8)"

lemma pinned_kind_core:
  assumes "pinned_kind pf = Inr (fmt, bayer)" "plain_name pf"
  shows "fst (parse_pixel_format (Some pf)) = fmt \<and> fst (snd (snd (parse_pixel_format (Some pf)))) = bayer"
proof (cases "pf \<in> GST_RAW")
  case True
  with assms show ?thesis
    by (auto simp: pinned_kind_def parse_pixel_format_def raw_formats plain_name_def Let_def split: list.splits)
next
  case raw: False
  show ?thesis
  proof (cases "starts_with ''Mono'' pf")
    case True
    then obtain t where "pf = ''Mono'' @ t" by (metis append_take_drop_id starts_with_def)
    with raw assms show ?thesis
      by (auto simp: pinned_kind_def parse_pixel_format_def raw_formats starts_with_def Let_def split: if_splits)
  next
    case False
    with raw assms(1) have b: "starts_with ''Bayer'' pf" "ends_with ''8'' pf" "fmt = ''GRAY8''" "bayer = map_of BAYER_PATTERN (upper (slice pf 5 7))"
      "bayer \<noteq> None"
      by (auto simp: pinned_kind_def split: if_splits intro: sym)
    with assms(2) obtain c d where pf: "pf = ''Bayer'' @ [c, d] @ ''8''" by (auto simp: plain_name_def elim: bayer_name)
    have cd: "upper [c, d] \<in> {''RG'', ''GR'', ''GB'', ''BG''}" using b(4,5) by (auto simp: pf slice_def BAYER_PATTERN_def split: if_splits)
    then have "c \<in> {CHR ''R'', CHR ''r'', CHR ''G'', CHR ''g'', CHR ''B'', CHR ''b''}" "d \<in> {CHR ''R'', CHR ''r'', CHR ''G'', CHR ''g'', CHR ''B'', CHR ''b''}"
      by (auto simp: upper_def upper_char_letter)
    then have no: "\<not> contains_str ''16'' pf" "\<not> contains_str ''12'' pf" "\<not> contains_str ''10'' pf"
      by (auto simp: pf starts_with_def)
    have "BAYER_PATTERN = BAYER_MAP" by (simp add: BAYER_PATTERN_def BAYER_MAP_def)
    then show ?thesis using raw b no by (simp add: parse_pixel_format_def raw_formats Let_def pf)
  qed
qed

lemma core_format:
  assumes "new_pinned (sc_pixel_format sc) (sc_width sc) (sc_height sc) fps = Inr p" "plain_name (sc_pixel_format sc)"
  shows "pn_format p = pinned_format sc \<and> pn_bayer p = pinned_bayer sc \<and> pn_frame_bytes p = pinned_bytes sc
    \<and> pn_width p = sc_width sc \<and> pn_height p = sc_height sc"
proof -
  from assms obtain fmt bayer where k: "pinned_kind (sc_pixel_format sc) = Inr (fmt, bayer)" "pn_format p = fmt" "pn_bayer p = bayer"
    "pn_width p = sc_width sc" "pn_height p = sc_height sc" "pn_frame_bytes p = frame_bytes fmt (sc_width sc) (sc_height sc)"
    by (auto simp: new_pinned_def plain_name_def Let_def)
  with pinned_kind_core[OF k(1) assms(2)] show ?thesis
    by (simp add: pinned_format_def pinned_bayer_def pinned_bytes_def frame_bytes_mirror)
qed

section \<open>Rows\<close>

lemma concat_rows:
  assumes "\<forall>r < length rows. length (rows ! r) = row \<and> length (pads ! r) = step - row" "length pads = length rows" "row \<le> step" "k \<le> length rows"
  shows "concat (map (\<lambda>r. slice (concat (map2 (@) rows pads)) (r * step) (r * step + row)) [0..<k]) = concat (take k rows)"
proof -
  have "slice (concat (map2 (@) rows pads)) (r * step) (r * step + row) = rows ! r" if "r < length rows" for r
    using assms(1-3) that
  proof (induction r arbitrary: rows pads)
    case 0
    then show ?case by (cases rows; cases pads) (auto simp: slice_def)
  next
    case (Suc r)
    then obtain x xs y ys where [simp]: "rows = x # xs" "pads = y # ys" by (cases rows; cases pads) auto
    have "length (x @ y) = step" using Suc.prems(1,3) by force
    moreover have "slice (concat (map2 (@) xs ys)) (r * step) (r * step + row) = xs ! r"
      using Suc.prems by (intro Suc.IH) force+
    ultimately show ?case by (simp add: slice_def add.assoc)
  qed
  then show ?thesis using assms(4) by (induction k) (simp_all add: take_Suc_conv_app_nth)
qed

section \<open>A frame on its way into the core\<close>

lemma encodings_sized:
  "list_all (\<lambda>(_, media, fmt, bpp). case bpp of None \<Rightarrow> True | Some n \<Rightarrow>
     0 < n \<and> (\<forall>big w h. frame_bytes (if media = ''video/x-bayer'' then ''GRAY8'' else if fmt = ''GRAY16_LE'' \<and> big then ''GRAY16_BE'' else fmt) w h
       = int n * (w * h))) ENCODINGS"
  by (simp add: ENCODINGS_def frame_bytes_def)

lemma pinned_size:
  assumes "encoding_of name be = Inr e" "new_pinned pf w h fps = Inr p" "matches p e w' h'" "en_bytes_per_pixel e = Some n"
  shows "pn_frame_bytes p = int n * (w' * h') \<and> 0 < n"
proof -
  from assms(2) have geo: "pn_frame_bytes p = frame_bytes (pn_format p) (pn_width p) (pn_height p)"
    and bay: "pn_bayer p \<noteq> None \<Longrightarrow> pn_format p = ''GRAY8''"
    by (auto simp: new_pinned_def pinned_kind_def Let_def split: if_splits)
  from assms(3) have wh: "pn_width p = w'" "pn_height p = h'" by (auto simp: matches_def)
  have f: "raw_format e = pn_format p" using assms(3) bay by (auto simp: matches_def raw_format_def split: option.splits)
  from assms(1,4) obtain key media fmt where k: "map_of ENCODINGS key = Some (media, fmt, Some n)"
    and e: "en_format e = (if fmt = ''GRAY16_LE'' \<and> be then ''GRAY16_BE'' else fmt)" "en_bayer e \<longleftrightarrow> media = ''video/x-bayer''"
    by (auto simp: encoding_of_def Let_def split: option.splits)
  have "0 < n \<and> frame_bytes (raw_format e) w' h' = int n * (w' * h')"
    using encodings_sized[unfolded list_all_iff] map_of_SomeD[OF k] e unfolding raw_format_def by fastforce
  then show ?thesis using geo wh f by simp
qed

lemma pinned_kind_known: "pinned_kind pf = Inr (fmt, b) \<Longrightarrow> fmt \<in> GST_RAW \<and> (b = None \<or> b \<in> Some ` snd ` set BAYER_PATTERN)"
proof -
  assume k: "pinned_kind pf = Inr (fmt, b)"
  have raws: "''GRAY8'' \<in> GST_RAW" "''GRAY16_LE'' \<in> GST_RAW" by (simp_all add: raw_formats GST_MONO_def)
  have bay: "map_of BAYER_PATTERN x = None \<or> map_of BAYER_PATTERN x \<in> Some ` snd ` set BAYER_PATTERN" for x
    by (cases "map_of BAYER_PATTERN x") (auto dest!: map_of_SomeD intro: rev_image_eqI)
  show ?thesis
  proof (cases "pf \<in> GST_RAW")
    case True
    with k show ?thesis by (simp add: pinned_kind_def)
  next
    case raw: False
    show ?thesis
    proof (cases "starts_with ''Bayer'' pf \<and> 7 \<le> length pf \<and> map_of BAYER_PATTERN (upper (slice pf 5 7)) \<noteq> None \<and> ends_with ''8'' pf")
      case True
      with k raw raws bay[of "upper (slice pf 5 7)"] show ?thesis by (simp add: pinned_kind_def)
    next
      case False
      with k raw raws show ?thesis unfolding pinned_kind_def by (simp only: if_False) (auto split: if_splits)
    qed
  qed
qed

lemma pinned_known:
  assumes "new_pinned pf w h fps = Inr p"
  shows "map_of PIXFMT_CODE (pn_format p) \<noteq> None \<and> pn_format p \<noteq> [] \<and> pn_bayer p \<noteq> Some []"
proof -
  from assms have "pn_format p \<in> GST_RAW" "pn_bayer p = None \<or> pn_bayer p \<in> Some ` snd ` set BAYER_PATTERN"
    using pinned_kind_known by (auto simp: new_pinned_def Let_def) blast
  moreover have "[] \<notin> GST_RAW" "[] \<notin> snd ` set BAYER_PATTERN" by (simp_all add: raw_formats GST_MONO_def GST_COLOR_def BAYER_PATTERN_def)
  moreover have "map_of PIXFMT_CODE (pn_format p) \<noteq> None" using calculation(1) by (simp add: GST_RAW_def map_of_eq_None_iff)
  ultimately show ?thesis by (metis imageE option.distinct(1) option.inject)
qed

lemma tight_rows:
  assumes "en_bytes_per_pixel e = Some n" "0 < n" "0 < w" "length rows = h" "length pads = h" "n * w \<le> step"
    "\<forall>r < h. length (rows ! r) = n * w \<and> length (pads ! r) = step - n * w"
  shows "tight_pixels e w h step (concat (map2 (@) rows pads)) = concat rows"
proof (cases "step = n * w")
  case True
  then have "map2 (@) rows pads = rows" using assms(4,5,7) by (intro nth_equalityI) auto
  then show ?thesis using True assms(1) by (simp add: tight_pixels_def unpad_rows_def Let_def)
next
  case False
  then show ?thesis
    using assms concat_rows[of rows "n * w" pads step h] by (simp add: tight_pixels_def unpad_rows_def)
qed

lemma length_rows: "\<forall>r < length rows. length (rows ! r) = k \<Longrightarrow> length (concat rows) = length rows * k"
proof (induction rows)
  case (Cons x xs)
  then have "length x = k" "\<forall>r < length xs. length (xs ! r) = k" by force+
  then show ?case using Cons.IH by simp
qed simp

text \<open>What the socket keeps of a buffer: shared memory its bytes, unixfd also the offsets and the caps of the stream.\<close>

definition pinned_caps :: "pinned \<Rightarrow> sample_caps" where
  "pinned_caps p =
     \<lparr>sp_name = (if pn_bayer p = None then ''video/x-raw'' else ''video/x-bayer''),
      sp_format = Some (case pn_bayer p of Some b \<Rightarrow> b | None \<Rightarrow> pn_format p), sp_width = Some (pn_width p), sp_height = Some (pn_height p)\<rparr>"

definition carried :: "framing \<Rightarrow> pinned \<Rightarrow> out_buffer \<Rightarrow> sample \<Rightarrow> bool" where
  "carried fr p b s \<longleftrightarrow> sb_data s = ob_data b
     \<and> (fr = Unixfd_Framing \<longrightarrow> sb_offset s = ob_offset b \<and> sb_offset_end s = ob_offset_end b \<and> sb_caps s = Some (pinned_caps p))"

text \<open>What a source pinned to the same format makes of a buffer that carries a frame of it.\<close>

lemma frame_accepted:
  assumes "new_pinned (sc_pixel_format sc) (sc_width sc) (sc_height sc) fps = Inr (fd_pinned fd)" "plain_name (sc_pixel_format sc)"
    "sc_framing sc = fd_transport fd" "fd_transport fd \<noteq> Raw_Framing" "int (length pixels) = pn_frame_bytes (fd_pinned fd)"
    "0 \<le> sc_width sc" "sc_width sc < 2 ^ 16" "0 \<le> sc_height sc" "sc_height sc < 2 ^ 16"
    "0 < stamp" "stamp < 2 ^ 63" "k < 2 ^ 63" "sm_mismatch sm = None"
  shows "\<exists>data off off_end. frame_buffer True pixels stamp k fd = Inr (data, off, off_end)
    \<and> (\<forall>pts s. carried (fd_transport fd) (fd_pinned fd) \<lparr>ob_data = data, ob_pts = pts, ob_offset = off, ob_offset_end = off_end\<rparr> s
         \<longrightarrow> fst (on_shm_sample sc now s sm) = Some (writer_stamp now (int k) stamp CAMERA, pixels))"
proof -
  let ?p = "fd_pinned fd"
  note core = core_format[OF assms(1,2)]
  note cam = ts_of_value_value[of CAMERA]
  show ?thesis
  proof (cases "fd_transport fd = Header_Framing")
    case True
    let ?h = "\<lparr>fh_timestamp_ns = stamp, fh_frame_id = int k, fh_width = pn_width ?p, fh_height = pn_height ?p,
       fh_pixfmt = pn_format ?p, fh_ts_source = ''camera'', fh_flags = 0, fh_version = VERSION\<rparr>"
    have "\<exists>bs. pack ?h = Inr bs"
      unfolding pack_total using pinned_known[OF assms(1)] core assms(6-9) by (simp add: GST_TO_CODE_PIXFMT fits_def VERSION_def)
    then obtain bs where bs: "pack ?h = Inr bs" by blast
    have u: "length bs = HEADER_SIZE" "unpack_header (bs @ pixels) = Inr ?h"
      using unpack_of_pack[OF bs, of pixels] assms(10-12) by (simp_all add: canonical_def u64_def TS_SOURCE_CODE_def)
    have "fst (on_shm_sample sc now s sm) = Some (writer_stamp now (int k) stamp CAMERA, pixels)" if "sb_data s = bs @ pixels" for s
      using that True u core assms(3,5,13) cam by (simp add: on_shm_sample_def header_frame_def Let_def)
    with True bs show ?thesis by (simp add: frame_buffer_def Let_def writers_agree carried_def)
  next
    case False
    with assms(4) have fr: "fd_transport fd = Unixfd_Framing" by (cases "fd_transport fd") simp_all
    have "fst (on_shm_sample sc now s sm) = Some (writer_stamp now (int k) stamp CAMERA, pixels)"
      if s: "sb_data s = pixels" "sb_offset s = k" "sb_offset_end s = nat stamp" "sb_caps s = Some (pinned_caps ?p)" for s
    proof -
      have "unixfd_mismatch sc s = Inr None"
        using s(4) core pinned_known[OF assms(1)] by (auto simp: unixfd_mismatch_def pinned_caps_def Let_def split: option.splits)
      moreover have "k \<noteq> OFFSET_NONE" "nat stamp \<noteq> OFFSET_NONE" "nat stamp \<noteq> 0" using assms(10-12) by (auto simp: OFFSET_NONE_def)
      ultimately show ?thesis
        using s fr core assms(3,5,10,13) by (simp add: on_shm_sample_def unixfd_frame_def)
    qed
    with fr show ?thesis by (simp add: frame_buffer_def Let_def carried_def)
  qed
qed


definition demo_shm :: shm_conf where
  "demo_shm = \<lparr>sc_framing = Header_Framing, sc_pixel_format = ''GRAY8'', sc_width = 2, sc_height = 1\<rparr>"

definition demo_pin :: pinned where
  "demo_pin = \<lparr>pn_pixel_format = ''GRAY8'', pn_width = 2, pn_height = 1, pn_fps = 10, pn_format = ''GRAY8'', pn_bayer = None, pn_frame_bytes = 2\<rparr>"

definition demo_feeder :: "framing \<Rightarrow> feeder" where
  "demo_feeder fr = \<lparr>fd_transport = fr, fd_pinned = demo_pin, fd_convert = False, fd_cv_caps = [], fd_in_flight = [], fd_pts_base = 0,
     fd_emitted = 0, fd_converted = 0, fd_bypassed = 0, fd_dropped = 0, fd_failed = False, fd_out = []\<rparr>"

definition demo_env :: push_env where
  "demo_env = \<lparr>pe_now = 1, pe_memory = True, pe_pushed = True, pe_bring_up = Playing, pe_cv_pushed = True\<rparr>"

lemma demo_pinned: "new_pinned ''GRAY8'' 2 1 10 = Inr demo_pin" "plain_name ''GRAY8''"
  by (simp_all add: new_pinned_def pinned_kind_def raw_formats GST_MONO_def demo_pin_def frame_bytes_def plain_name_def starts_with_def
      strip_space_def strip_by_def is_space_def Let_def)

lemma demo_encoding:
  "encoding_of ''mono8'' False = Inr \<lparr>en_media = ''video/x-raw'', en_format = ''GRAY8'', en_bytes_per_pixel = Some 1, en_bayer = False\<rparr>"
  by code_simp


section \<open>Stamps through the convert pipeline\<close>

text \<open>The writer at work on self-describing buffers: messages with their stamps come in, the convert pipeline hands back
  frames it was given, with their PTS, in any order and not all of them.\<close>

inductive feeder_run :: "feeder \<Rightarrow> int list \<Rightarrow> bool" where
  New: "se_transport s = Unixfd_Framing \<Longrightarrow> feeder_run (new_feeder_of s) []"
| Image: "feeder_run fd S \<Longrightarrow> push_image pe name w h be step data stamp fd = (fd', r) \<Longrightarrow> 0 < arrival_stamp pe stamp
    \<Longrightarrow> feeder_run fd' (S @ [arrival_stamp pe stamp])"
| Compressed: "feeder_run fd S \<Longrightarrow> push_compressed pe fmt data stamp fd = (fd', r) \<Longrightarrow> 0 < arrival_stamp pe stamp
    \<Longrightarrow> feeder_run fd' (S @ [arrival_stamp pe stamp])"
| Converted: "feeder_run fd S \<Longrightarrow> (payload, pts) \<in> set (fd_in_flight fd) \<Longrightarrow> on_converted pe pixels (Some pts) fd = (fd', r) \<Longrightarrow> feeder_run fd' S"
| Convert_Error: "feeder_run fd S \<Longrightarrow> feeder_run (on_cv_error fd) S"
| Output_Error: "feeder_run fd S \<Longrightarrow> feeder_run (on_out_error fd) S"

definition travels :: "feeder \<Rightarrow> int list \<Rightarrow> bool" where
  "travels fd S \<longleftrightarrow> fd_transport fd = Unixfd_Framing \<and> 0 \<le> fd_pts_base fd
     \<and> (fd_pts_base fd = 0 \<longrightarrow> fd_in_flight fd = [] \<and> fd_out fd = [])
     \<and> (fd_pts_base fd \<noteq> 0 \<longrightarrow> S \<noteq> [] \<and> fd_pts_base fd \<le> last S)
     \<and> (\<forall>(d, pts) \<in> set (fd_in_flight fd). 0 \<le> pts \<and> fd_pts_base fd + pts \<in> set S)
     \<and> (\<forall>b \<in> set (fd_out fd). int (ob_offset_end b) = fd_pts_base fd + ob_pts b \<and> int (ob_offset_end b) \<in> set S \<and> ob_offset b \<le> fd_emitted fd)
     \<and> sorted_wrt (<) (map ob_offset (fd_out fd))"

lemma rel_pts_after:
  assumes "0 < stamp" "0 \<le> fd_pts_base fd" "fd_pts_base fd \<le> stamp"
  shows "rel_pts stamp fd =
    (let base = (if fd_pts_base fd = 0 then stamp else fd_pts_base fd) in (stamp - base, fd\<lparr>fd_pts_base := base\<rparr>))"
  using assms by (simp add: rel_pts_def Let_def)

lemma emit_travels:
  assumes "travels fd S" "0 < stamp" "fd_pts_base fd \<le> stamp" "stamp \<in> set S" "fd_pts_base fd = 0 \<Longrightarrow> stamp \<le> last S"
  shows "travels (fst (emit pe pixels stamp fd)) S"
proof -
  let ?fd = "fd\<lparr>fd_emitted := fd_emitted fd + 1\<rparr>"
  have base: "0 \<le> fd_pts_base ?fd" "fd_pts_base ?fd \<le> stamp" using assms(1,3) by (simp_all add: travels_def)
  have S: "S \<noteq> []" using assms(4) by auto
  have "fd_transport fd = Unixfd_Framing" using assms(1) by (simp add: travels_def)
  then show ?thesis
    using assms S base
    by (cases "pe_memory pe"; cases "pe_pushed pe"; cases "fd_pts_base fd = 0")
      (auto simp: emit_def frame_buffer_def Let_def rel_pts_after travels_def sorted_wrt_append less_Suc_eq_le)
qed

lemma travels_more:
  assumes "travels fd S" "sorted (S @ [t])"
  shows "travels fd (S @ [t]) \<and> fd_pts_base fd \<le> max 0 t"
proof -
  have "last S \<le> t" if "S \<noteq> []" using assms(2) that by (auto simp: sorted_append)
  then show ?thesis using assms(1) by (auto simp: travels_def)
qed

lemma convert_travels:
  assumes "travels fd S" "0 < t" "fd_pts_base fd \<le> t" "t \<in> set S" "fd_pts_base fd = 0 \<Longrightarrow> t \<le> last S"
  shows "travels (fst (converted_push pe in_caps payload t fd)) S"
proof -
  have ens: "travels (fst (ensure_convert bu in_caps fd)) S \<and> fd_pts_base (fst (ensure_convert bu in_caps fd)) = fd_pts_base fd" for bu
    using assms(1) by (cases bu) (auto simp: ensure_convert_def travels_def)
  have "travels (push_convert pe payload t fd') S" if "travels fd' S" "fd_pts_base fd' = fd_pts_base fd" for fd'
  proof -
    have "0 \<le> fd_pts_base fd'" "S \<noteq> []" using that(1) assms(4) by (auto simp: travels_def)
    then show ?thesis
      using that assms(2-5)
      by (cases "pe_cv_pushed pe"; cases "fd_pts_base fd = 0") (auto simp: push_convert_def rel_pts_after Let_def travels_def)
  qed
  with ens[of "pe_bring_up pe"] show ?thesis
    unfolding converted_push_def by (cases "ensure_convert (pe_bring_up pe) in_caps fd") (auto split: option.splits)
qed

lemma travels_counts [simp]:
  "travels (drop_frame fd) S = travels fd S" "travels (fd\<lparr>fd_bypassed := n\<rparr>) S = travels fd S" "travels (fd\<lparr>fd_converted := n\<rparr>) S = travels fd S"
  "travels (on_cv_error fd) S = travels fd S" "travels (on_out_error fd) S = travels fd S"
  by (simp_all add: travels_def drop_frame_def on_cv_error_def on_out_error_def)

lemma feeder_run_travels: "feeder_run fd S \<Longrightarrow> sorted S \<Longrightarrow> travels fd S"
proof (induction rule: feeder_run.induct)
  case (New s)
  then show ?case by (simp add: travels_def new_feeder_of_def)
next
  case (Image fd S pe name w h be step data stamp fd' r)
  let ?t = "arrival_stamp pe stamp"
  have "travels fd S" using Image by (simp add: sorted_append)
  with Image.prems Image.hyps(3) have t: "travels fd (S @ [?t])" "fd_pts_base fd \<le> ?t" "?t \<in> set (S @ [?t])" "?t \<le> last (S @ [?t])"
    using travels_more by fastforce+
  note em = emit_travels[OF _ Image.hyps(3) _ t(3), of "fd\<lparr>fd_bypassed := fd_bypassed fd + 1\<rparr>" pe]
  note cv = convert_travels[OF t(1) Image.hyps(3) t(2,3,4), of pe]
  have "fd' = fst (push_image pe name w h be step data stamp fd)" using Image.hyps(2) by simp
  then show ?case using t em cv by (auto simp: push_image_def Let_def split: sum.splits)
next
  case (Compressed fd S pe fmt data stamp fd' r)
  let ?t = "arrival_stamp pe stamp"
  have "travels fd S" using Compressed by (simp add: sorted_append)
  with Compressed.prems Compressed.hyps(3) have t: "travels fd (S @ [?t])" "fd_pts_base fd \<le> ?t" "?t \<in> set (S @ [?t])" "?t \<le> last (S @ [?t])"
    using travels_more by fastforce+
  note cv = convert_travels[OF t(1) Compressed.hyps(3) t(2,3,4), of pe]
  have "fd' = fst (push_compressed pe fmt data stamp fd)" using Compressed.hyps(2) by simp
  then show ?case using t cv by (auto simp: push_compressed_def split: option.splits)
next
  case (Converted fd S payload pts pe pixels fd' r)
  then have tr: "travels fd S" by simp
  with Converted.hyps(2) have base: "0 < fd_pts_base fd" "0 \<le> pts" "fd_pts_base fd + pts \<in> set S" by (auto simp: travels_def)
  then have "travels (fst (emit pe pixels (fd_pts_base fd + pts) fd)) S" using tr by (intro emit_travels) auto
  moreover have "fd' = fst (on_converted pe pixels (Some pts) fd)" using Converted.hyps(3) by simp
  ultimately show ?case by (auto simp: on_converted_def split: prod.splits option.splits)
qed (auto simp: sorted_append)


definition demo_settings :: settings where
  "demo_settings = \<lparr>se_topic = ''/front/image_raw'', se_transport = Unixfd_Framing, se_socket = ''/tmp/cam/in'', se_pinned = demo_pin,
     se_compressed = False, se_qos = ''sensor'', se_shm_frames = 8\<rparr>"


text \<open>When a stamp jumps back while a frame is in the convert pipeline, the base moves under it: the frame leaves with the
  later message's stamp.\<close>

lemma clock_jump_restamps:
  assumes "fd_transport fd = Unixfd_Framing" "fd_pts_base fd = 0" "0 < b" "b < a" "pe_cv_pushed pe" "pe_memory pe" "pe_pushed pe"
  shows "let fd' = push_convert pe p2 b (push_convert pe p1 a fd) in
    (p1, 0) \<in> set (fd_in_flight fd') \<and> map ob_offset_end (fd_out (fst (on_converted pe pixels (Some 0) fd'))) = map ob_offset_end (fd_out fd) @ [nat b]"
  using assms by (simp add: push_convert_def rel_pts_def on_converted_def emit_def frame_buffer_def Let_def)

end
