(* ===== verification/Control_Wire.thy ===== *)
theory Control_Wire
  imports Py_Values
begin

text \<open>
  The wire side of \<open>core-driver/cam_driver/control_zenoh.py\<close>: keys, endpoints, and what a query asks for.  A
  query's payload arrives parsed: no payload, or its length with what \<open>json.loads\<close>
  made of it.  The selector parameters are text.
\<close>

section \<open>Keys and endpoints\<close>

definition svc_key :: "string \<Rightarrow> string \<Rightarrow> string \<Rightarrow> string" where
  "svc_key vehicle inst kind = ''fleet/'' @ vehicle @ ''/svc/'' @ inst @ ''/'' @ kind"

definition lifecycle_key :: "string \<Rightarrow> string \<Rightarrow> string" where
  "lifecycle_key vehicle inst = svc_key vehicle inst ''lifecycle''"

definition playback_key :: "string \<Rightarrow> string \<Rightarrow> string" where
  "playback_key vehicle inst = svc_key vehicle inst ''playback''"

definition health_key :: "string \<Rightarrow> string \<Rightarrow> string" where
  "health_key vehicle inst = svc_key vehicle inst ''health''"

text \<open>\<open>key.rsplit("/", 2)[-2]\<close>: the last but one component; a key without a slash has none.\<close>

definition instance_of_key :: "string \<Rightarrow> string option" where
  "instance_of_key key =
     (let ws = split_on (CHR ''/'') key in if length ws < 2 then None else Some (ws ! (length ws - 2)))"

definition DEFAULT_CONNECT :: string where "DEFAULT_CONNECT = ''tcp/localhost:7447''"

definition zenoh_connect_endpoints :: "string option \<Rightarrow> string option \<Rightarrow> string list" where
  "zenoh_connect_endpoints configured env =
     (let raw = (case configured of Some c \<Rightarrow> c | None \<Rightarrow> (case env of Some e \<Rightarrow> e | None \<Rightarrow> DEFAULT_CONNECT))
      in filter (\<lambda>e. e \<noteq> []) (map strip_space (split_on (CHR '','') raw)))"

lemma split_on_app: "c \<notin> set w \<Longrightarrow> split_on c (s @ c # w) = split_on c s @ [w]"
proof (induction s)
  case Nil
  then show ?case by (simp add: split_on_single)
next
  case (Cons x s)
  then show ?case by (auto split: list.split)
qed

lemma instance_of_svc_key:
  assumes "CHR ''/'' \<notin> set i" "CHR ''/'' \<notin> set kind"
  shows "instance_of_key (svc_key v i kind) = Some i"
proof -
  let ?c = "CHR ''/''"
  have "svc_key v i kind = ((''fleet/'' @ v @ ''/svc'') @ ?c # i) @ ?c # kind" by (simp add: svc_key_def)
  then have "split_on ?c (svc_key v i kind) = (split_on ?c (''fleet/'' @ v @ ''/svc'') @ [i]) @ [kind]"
    using split_on_app[OF assms(1)] split_on_app[OF assms(2)] by presburger
  then show ?thesis by (simp add: instance_of_key_def Let_def nth_append)
qed

section \<open>Requests\<close>

datatype body = No_Body | Bytes nat "string + json"

text \<open>\<open>_split_parameters\<close>: \<open>k=v\<close> parts between \<open>;\<close> or \<open>&\<close>, the rest ignored, a later value in place of an earlier.\<close>

definition split_pair :: "string \<Rightarrow> (string \<times> string) option" where
  "split_pair part =
     (if CHR ''='' \<in> set part
      then Some (strip_space (takeWhile (\<lambda>c. c \<noteq> CHR ''='') part), strip_space (drop 1 (dropWhile (\<lambda>c. c \<noteq> CHR ''='') part)))
      else None)"

definition put_pair :: "string \<Rightarrow> (string \<times> string) list \<Rightarrow> (string \<times> string) list" where
  "put_pair part d = (case split_pair part of Some (k, v) \<Rightarrow> upd_key k v d | None \<Rightarrow> d)"

definition split_parameters :: "string \<Rightarrow> (string \<times> string) list" where
  "split_parameters s = fold put_pair (split_on (CHR '';'') (map (\<lambda>c. if c = CHR ''&'' then CHR '';'' else c) s)) []"

definition as_strings :: "(string \<times> string) list \<Rightarrow> (string \<times> json) list" where
  "as_strings d = map (\<lambda>(k, v). (k, JStr v)) d"

text \<open>The request's fields: the JSON object, or without a payload the selector's.\<close>

definition body_fields :: "(((string \<times> json) list) \<Rightarrow> (string \<times> json) list) \<Rightarrow> body \<Rightarrow> string \<Rightarrow> string + (string \<times> json) list" where
  "body_fields coerce b params =
     (case b of
        Bytes (Suc _) (Inl e) \<Rightarrow> Inl (''request is not JSON: '' @ e)
      | Bytes (Suc _) (Inr (JObj d)) \<Rightarrow> Inr d
      | Bytes (Suc _) (Inr _) \<Rightarrow> Inl ''request must be a JSON object''
      | _ \<Rightarrow> Inr (coerce (as_strings (split_parameters params))))"

definition text_value :: "json \<Rightarrow> string option" where
  "text_value v = (case v of JStr s \<Rightarrow> if s = [] then None else Some s | _ \<Rightarrow> None)"

definition opt_field :: "string \<Rightarrow> json option \<Rightarrow> (string \<times> json) list" where
  "opt_field k v = (case v of Some x \<Rightarrow> [(k, x)] | None \<Rightarrow> [])"

definition quoted :: "string \<Rightarrow> string" where
  "quoted s = [CHR 39] @ s @ [CHR 39]"

definition parse_change_state :: "body \<Rightarrow> string \<Rightarrow> string + (string \<times> json) list" where
  "parse_change_state b params =
     ebind (body_fields id b params) (\<lambda>req.
       case text_value (case map_of req ''transition'' of Some v \<Rightarrow> v | None \<Rightarrow> JNull) of
         None \<Rightarrow> Inl (''missing '' @ quoted ''transition'')
       | Some t \<Rightarrow>
           ebind (case map_of req ''run_id'' of
                    None \<Rightarrow> Inr [] | Some JNull \<Rightarrow> Inr []
                  | Some (JStr s) \<Rightarrow> Inr [(''run_id'', JStr s)]
                  | Some (JInt i) \<Rightarrow> Inr [(''run_id'', JStr (str_int i))]
                  | Some (JBool x) \<Rightarrow> Inr [(''run_id'', JStr (text_of False (JBool x)))]
                  | Some _ \<Rightarrow> Inl (quoted ''run_id'' @ '' must be a string''))
             (\<lambda>run. Inr ((''transition'', JStr t) # run
                          @ opt_field ''expected_recording_settings'' (map_of req ''expected_recording_settings''))))"

text \<open>The selector's \<open>speed\<close> and \<open>loop\<close>, where they read as a number and a truth value.\<close>

definition coerce_speed :: "json \<Rightarrow> json" where
  "coerce_speed v = (case v of JStr s \<Rightarrow> (case float_of_str s of Some x \<Rightarrow> x | None \<Rightarrow> v) | _ \<Rightarrow> v)"

definition coerce_loop :: "json \<Rightarrow> json" where
  "coerce_loop v =
     (case v of JStr s \<Rightarrow> if lower s = ''true'' then JBool True else if lower s = ''false'' then JBool False else v | _ \<Rightarrow> v)"

definition coerce_playback :: "(string \<times> json) list \<Rightarrow> (string \<times> json) list" where
  "coerce_playback d = map (\<lambda>(k, v). (k, if k = ''speed'' then coerce_speed v else if k = ''loop'' then coerce_loop v else v)) d"

definition parse_playback_request :: "body \<Rightarrow> string \<Rightarrow> string + (string \<times> json) list" where
  "parse_playback_request b params =
     ebind (body_fields coerce_playback b params) (\<lambda>req.
       case text_value (case map_of req ''op'' of Some v \<Rightarrow> v | None \<Rightarrow> JNull) of
         None \<Rightarrow> Inl (''missing '' @ quoted ''op'')
       | Some _ \<Rightarrow> Inr (filter (\<lambda>(k, v). k \<in> {''op'', ''speed'', ''loop''}) req))"

section \<open>A selector says what a JSON object says\<close>

definition plain_key :: "string \<Rightarrow> bool" where
  "plain_key s \<longleftrightarrow> strip_space s = s \<and> set s \<inter> {CHR '';'', CHR ''&'', CHR ''=''} = {}"

definition plain_value :: "string \<Rightarrow> bool" where
  "plain_value s \<longleftrightarrow> strip_space s = s \<and> set s \<inter> {CHR '';'', CHR ''&''} = {}"

text \<open>The selector of some fields; \<open>&\<close> does as well as \<open>;\<close>.\<close>

definition selector :: "char \<Rightarrow> (string \<times> string) list \<Rightarrow> string" where
  "selector sep d = join_with [sep] (map (\<lambda>(k, v). k @ ''='' @ v) d)"

lemma take_drop_sep:
  assumes "c \<notin> set k"
  shows "takeWhile (\<lambda>x. x \<noteq> c) (k @ c # v) = k" "dropWhile (\<lambda>x. x \<noteq> c) (k @ c # v) = c # v"
  using assms by (induction k) auto

lemma split_pair_plain:
  assumes "plain_key k" "plain_value v"
  shows "split_pair (k @ ''='' @ v) = Some (k, v)"
proof -
  have "CHR ''='' \<notin> set k" using assms by (auto simp: plain_key_def)
  from take_drop_sep[OF this, of v] show ?thesis
    using assms by (simp add: split_pair_def plain_key_def plain_value_def)
qed

lemma upd_key_fresh: "k \<notin> fst ` set d \<Longrightarrow> upd_key k v d = d @ [(k, v)]"
  by (induction k v d rule: upd_key.induct) auto

lemma fold_put_plain:
  assumes "\<forall>(k, v) \<in> set d. plain_key k \<and> plain_value v" "distinct (map fst (acc @ d))"
  shows "fold put_pair (map (\<lambda>(k, v). k @ ''='' @ v) d) acc = acc @ d"
  using assms
proof (induction d arbitrary: acc)
  case (Cons p d)
  obtain k v where p: "p = (k, v)" by fastforce
  have "put_pair (k @ ''='' @ v) acc = acc @ [(k, v)]"
    using Cons.prems p split_pair_plain[of k v] by (simp add: put_pair_def upd_key_fresh)
  then show ?case using Cons.IH[of "acc @ [(k, v)]"] Cons.prems p by simp
qed simp

lemma map_join:
  "map f (join_with sep xs) = join_with (map f sep) (map (map f) xs)"
  by (induction sep xs rule: join_with.induct) simp_all

definition as_semicolon :: "char \<Rightarrow> char" where
  "as_semicolon c = (if c = CHR ''&'' then CHR '';'' else c)"

lemma split_parameters_selector:
  assumes "\<forall>(k, v) \<in> set d. plain_key k \<and> plain_value v" "distinct (map fst d)" "sep \<in> {CHR '';'', CHR ''&''}" "d \<noteq> []"
  shows "split_parameters (selector sep d) = d"
proof -
  let ?parts = "map (\<lambda>(k, v). k @ ''='' @ v) d"
  have pl: "set x \<inter> {CHR '';'', CHR ''&''} = {}" if "x \<in> set ?parts" for x
  proof -
    obtain k v where "(k, v) \<in> set d" "x = k @ ''='' @ v" using \<open>x \<in> set ?parts\<close> by auto
    then show ?thesis using assms(1) by (auto simp: plain_key_def plain_value_def)
  qed
  have same: "map as_semicolon x = x" if "x \<in> set ?parts" for x
    using pl[OF that] by (intro map_idI) (auto simp: as_semicolon_def)
  have "map (map as_semicolon) ?parts = ?parts" by (rule map_idI) (rule same)
  then have conv: "map as_semicolon (selector sep d) = join_with '';'' ?parts"
  proof -
    assume e: "map (map as_semicolon) ?parts = ?parts"
    have "map as_semicolon [sep] = '';''" using assms(3) by (auto simp: as_semicolon_def)
    then show ?thesis unfolding selector_def map_join e by simp
  qed
  have "split_on (CHR '';'') (join_with '';'' ?parts) = ?parts"
    by (rule split_join) (use assms(4) pl in auto)
  then have "split_parameters (selector sep d) = fold put_pair ?parts []"
    using conv by (simp add: split_parameters_def as_semicolon_def[abs_def])
  then show ?thesis using fold_put_plain[OF assms(1), of "[]"] assms(2) by simp
qed

text \<open>asking by selector is asking by JSON.  For fields without separators or surrounding blanks, in either
  separator, a payload-less query is read exactly as the query that carries them as a JSON object of strings.\<close>

theorem selector_is_json:
  assumes "\<forall>(k, v) \<in> set d. plain_key k \<and> plain_value v" "distinct (map fst d)" "sep \<in> {CHR '';'', CHR ''&''}" "d \<noteq> []"
  shows "parse_change_state No_Body (selector sep d) = parse_change_state (Bytes (Suc n) (Inr (JObj (as_strings d)))) params"
  using split_parameters_selector[OF assms] by (simp add: parse_change_state_def body_fields_def)

theorem selector_is_json_witness:
  "parse_change_state No_Body ''transition=activate;run_id=leg3''
   = parse_change_state (Bytes 42 (Inr (JObj [(''transition'', JStr ''activate''), (''run_id'', JStr ''leg3'')]))) []"
proof -
  let ?d = "[(''transition'', ''activate''), (''run_id'', ''leg3'')]"
  have "selector (CHR '';'') ?d = ''transition=activate;run_id=leg3''" by (simp add: selector_def)
  moreover have "\<forall>(k, v) \<in> set ?d. plain_key k \<and> plain_value v" by code_simp
  ultimately show ?thesis using selector_is_json[of ?d "CHR '';''" 41 "[]"] by (simp add: as_strings_def)
qed

end
