(* ===== verification/Control_Presence.thy ===== *)
theory Control_Presence
  imports Control_Wire
begin

text \<open>
  Presence, from \<open>core-driver/cam_driver/control_zenoh.py\<close>: what the control plane declares on its zenoh session and in
  which order, retries and teardown.  The session is what the code does to it - the trace of declarations,
  withdrawals and publications - with the session's answers as arguments.
\<close>

section \<open>Presence\<close>

datatype service = Svc_Lifecycle | Svc_Playback | Svc_Health

datatype resource = Queryable string | Publisher service string | Token service string

text \<open>What is published: the state of a service.\<close>

datatype act = Opened | Declared resource | Undeclared resource | Session_Closed | Put service

record control =
  ct_enabled :: bool
  ct_key :: string
  ct_configurable :: bool                 \<comment> \<open>the lifecycle has \<open>configure_recording\<close>\<close>
  ct_playback :: "string option"          \<comment> \<open>the playback key, for a source that plays data back\<close>
  ct_health :: "string option"
  ct_session :: bool
  ct_tokens :: "service \<Rightarrow> string option"
  ct_publishers :: "service \<Rightarrow> string option"
  ct_queryables :: "string list"
  ct_tick :: bool
  ct_closed :: bool
  ct_acts :: "act list"

definition new_control :: "bool \<Rightarrow> string \<Rightarrow> bool \<Rightarrow> string option \<Rightarrow> string option \<Rightarrow> control" where
  "new_control on key configurable pk hk =
     \<lparr>ct_enabled = on, ct_key = key, ct_configurable = configurable, ct_playback = pk, ct_health = hk, ct_session = False,
      ct_tokens = (\<lambda>_. None), ct_publishers = (\<lambda>_. None), ct_queryables = [], ct_tick = False, ct_closed = False, ct_acts = []\<rparr>"

definition control_active :: "control \<Rightarrow> bool" where
  "control_active ct \<longleftrightarrow> ct_tokens ct Svc_Lifecycle \<noteq> None"

text \<open>The declarations, in order; a token is the last of its service, and the service's state follows it.\<close>

datatype step = Declare resource | Announce service

definition change_key :: "control \<Rightarrow> string" where "change_key ct = ct_key ct @ ''/change_state''"
definition recording_key :: "control \<Rightarrow> string" where "recording_key ct = ct_key ct @ ''/configure_recording''"

definition lifecycle_plan :: "control \<Rightarrow> step list" where
  "lifecycle_plan ct =
     [Declare (Queryable (ct_key ct)), Declare (Queryable (change_key ct))]
     @ (if ct_configurable ct then [Declare (Queryable (recording_key ct))] else [])
     @ [Declare (Publisher Svc_Lifecycle (ct_key ct @ ''/state'')), Declare (Token Svc_Lifecycle (ct_key ct)), Announce Svc_Lifecycle]"

definition playback_plan :: "control \<Rightarrow> step list" where
  "playback_plan ct =
     (case ct_playback ct of
        Some pk \<Rightarrow>
          if pk = [] then []
          else [Declare (Queryable pk), Declare (Queryable (pk @ ''/control'')), Declare (Publisher Svc_Playback (pk @ ''/state'')),
                Declare (Token Svc_Playback pk), Announce Svc_Playback]
      | None \<Rightarrow> [])"

definition health_plan :: "control \<Rightarrow> step list" where
  "health_plan ct =
     (case ct_health ct of
        Some hk \<Rightarrow>
          if hk = [] then []
          else [Declare (Queryable hk), Declare (Publisher Svc_Health (hk @ ''/state'')), Declare (Token Svc_Health hk)]
      | None \<Rightarrow> [])"

text \<open>The session's answers: whether it opens, takes a declaration, withdraws one, closes; whether a publication goes out
  (a refused one is logged); whether the playback descriptor can be built; and whether there is a main loop for the
  1 Hz tick.\<close>

record net =
  nt_open :: bool
  nt_declare :: "resource \<Rightarrow> bool"
  nt_undeclare :: "resource \<Rightarrow> bool"
  nt_close :: bool
  nt_put :: "service \<Rightarrow> bool"
  nt_playback_ok :: bool
  nt_loop :: bool

definition act :: "act \<Rightarrow> control \<Rightarrow> control" where
  "act a ct = ct\<lparr>ct_acts := ct_acts ct @ [a]\<rparr>"

text \<open>\<open>_publish\<close>, \<open>_publish_playback\<close> and \<open>_on_health\<close>: nothing without a publisher.\<close>

definition put_state :: "bool \<Rightarrow> service \<Rightarrow> control \<Rightarrow> control" where
  "put_state ok s ct = (if ct_publishers ct s = None \<or> \<not> ok then ct else act (Put s) ct)"

definition hold :: "resource \<Rightarrow> control \<Rightarrow> control" where
  "hold r ct =
     (case r of
        Queryable k \<Rightarrow> ct\<lparr>ct_queryables := ct_queryables ct @ [k]\<rparr>
      | Publisher s k \<Rightarrow> ct\<lparr>ct_publishers := (ct_publishers ct)(s := Some k)\<rparr>
      | Token s k \<Rightarrow> ct\<lparr>ct_tokens := (ct_tokens ct)(s := Some k)\<rparr>)"

definition run_step :: "net \<Rightarrow> step \<Rightarrow> control \<Rightarrow> bool \<times> control" where
  "run_step n st ct =
     (case st of
        Declare r \<Rightarrow> if nt_declare n r then (True, hold r (act (Declared r) ct)) else (False, ct)
      | Announce s \<Rightarrow>
          if s = Svc_Playback \<and> \<not> nt_playback_ok n then (False, ct)
          else let ct = put_state (nt_put n s) s ct
               in (True, if s = Svc_Playback \<and> nt_loop n then ct\<lparr>ct_tick := True\<rparr> else ct))"

fun run_plan :: "net \<Rightarrow> step list \<Rightarrow> control \<Rightarrow> bool \<times> control" where
  "run_plan n [] ct = (True, ct)"
| "run_plan n (st # sts) ct = (case run_step n st ct of (True, ct) \<Rightarrow> run_plan n sts ct | (False, ct) \<Rightarrow> (False, ct))"

text \<open>\<open>_safe_close\<close>: what is held, tokens first; a refused withdrawal is logged and passed over.\<close>

definition opt_list :: "('a \<Rightarrow> 'b) \<Rightarrow> 'a option \<Rightarrow> 'b list" where
  "opt_list f x = (case x of Some y \<Rightarrow> [f y] | None \<Rightarrow> [])"

definition close_order :: "service list" where
  "close_order = [Svc_Health, Svc_Playback, Svc_Lifecycle]"

definition held_tokens :: "control \<Rightarrow> resource list" where
  "held_tokens ct = concat (map (\<lambda>s. opt_list (Token s) (ct_tokens ct s)) close_order)"

definition held_rest :: "control \<Rightarrow> resource list" where
  "held_rest ct = concat (map (\<lambda>s. opt_list (Publisher s) (ct_publishers ct s)) close_order) @ map Queryable (ct_queryables ct)"

definition safe_close :: "net \<Rightarrow> control \<Rightarrow> control" where
  "safe_close n ct =
     (let withdrawn = map Undeclared (filter (nt_undeclare n) (held_tokens ct @ held_rest ct));
          closed = (if ct_session ct \<and> nt_close n then [Session_Closed] else [])
      in ct\<lparr>ct_tokens := (\<lambda>_. None), ct_publishers := (\<lambda>_. None), ct_queryables := [], ct_session := False,
            ct_acts := ct_acts ct @ withdrawn @ closed\<rparr>)"

definition advertise :: "net \<Rightarrow> control \<Rightarrow> bool \<times> control" where
  "advertise n ct =
     (if \<not> ct_enabled ct then (False, ct)
      else if ct_session ct then (control_active ct, ct)
      else if \<not> nt_open n then (False, safe_close n ct)
      else case run_plan n (lifecycle_plan ct @ playback_plan ct @ health_plan ct) (act Opened (ct\<lparr>ct_session := True\<rparr>)) of
             (True, ct) \<Rightarrow> (True, ct)
           | (False, ct) \<Rightarrow> (False, safe_close n ct))"

text \<open>\<open>start\<close> and \<open>_retry\<close>; the first part is whether the timer keeps running.\<close>

definition start_control :: "net \<Rightarrow> control \<Rightarrow> bool \<times> control" where
  "start_control n ct = (case advertise n ct of (ok, ct) \<Rightarrow> (\<not> ok \<and> nt_loop n, ct))"

definition retry :: "net \<Rightarrow> control \<Rightarrow> bool \<times> control" where
  "retry n ct = (if ct_closed ct then (False, ct) else case advertise n ct of (ok, ct) \<Rightarrow> (\<not> ok, ct))"

definition close_control :: "net \<Rightarrow> control \<Rightarrow> control" where
  "close_control n ct = safe_close n (ct\<lparr>ct_closed := True\<rparr>)"

text \<open>\<open>_playback_tick_fn\<close>; \<open>None\<close> when building the descriptor raises, which ends the timer.\<close>

definition playback_tick :: "net \<Rightarrow> bool \<Rightarrow> control \<Rightarrow> bool option \<times> control" where
  "playback_tick n playing ct =
     (if ct_closed ct \<or> ct_publishers ct Svc_Playback = None then (Some False, ct\<lparr>ct_tick := False\<rparr>)
      else if \<not> playing then (Some True, ct)
      else if \<not> nt_playback_ok n then (None, ct)
      else (Some True, put_state (nt_put n Svc_Playback) Svc_Playback ct))"

section \<open>A presence can be relied on\<close>

text \<open>What is declared on the network after a trace.\<close>

definition net_step :: "act \<Rightarrow> resource set \<Rightarrow> resource set" where
  "net_step a S = (case a of Declared r \<Rightarrow> insert r S | Undeclared r \<Rightarrow> S - {r} | Session_Closed \<Rightarrow> {} | _ \<Rightarrow> S)"

definition live :: "act list \<Rightarrow> resource set" where
  "live as = fold net_step as {}"

text \<open>What a consumer that sees a token expects to find.\<close>

definition behind :: "control \<Rightarrow> service \<Rightarrow> resource list" where
  "behind ct s =
     (case s of
        Svc_Lifecycle \<Rightarrow> [Queryable (ct_key ct), Queryable (change_key ct), Publisher Svc_Lifecycle (ct_key ct @ ''/state'')]
      | Svc_Playback \<Rightarrow> (case ct_playback ct of Some pk \<Rightarrow>
          [Queryable pk, Queryable (pk @ ''/control''), Publisher Svc_Playback (pk @ ''/state'')] | None \<Rightarrow> [])
      | Svc_Health \<Rightarrow> (case ct_health ct of Some hk \<Rightarrow> [Queryable hk, Publisher Svc_Health (hk @ ''/state'')] | None \<Rightarrow> []))"

text \<open>The control plane at work.  Nobody else withdraws what it declared, and withdrawing a token does not fail.\<close>

definition withdraws_tokens :: "net \<Rightarrow> bool" where
  "withdraws_tokens n \<longleftrightarrow> (\<forall>s k. nt_undeclare n (Token s k))"

inductive control_run :: "control \<Rightarrow> bool" where
  New: "control_run (new_control on key configurable pk hk)"
| Start: "control_run ct \<Longrightarrow> withdraws_tokens n \<Longrightarrow> start_control n ct = (timer, ct') \<Longrightarrow> control_run ct'"
| Retry: "control_run ct \<Longrightarrow> withdraws_tokens n \<Longrightarrow> retry n ct = (again, ct') \<Longrightarrow> control_run ct'"
| Publish: "control_run ct \<Longrightarrow> control_run (put_state ok s ct)"
| Tick: "control_run ct \<Longrightarrow> playback_tick n playing ct = (again, ct') \<Longrightarrow> control_run ct'"
| Close: "control_run ct \<Longrightarrow> withdraws_tokens n \<Longrightarrow> control_run (close_control n ct)"

lemma live_simps [simp]: "live [] = {}" "live (as @ bs) = fold net_step bs (live as)"
  by (simp_all add: live_def)

definition backed :: "control \<Rightarrow> resource set \<Rightarrow> bool" where
  "backed ct S \<longleftrightarrow> (\<forall>s k. Token s k \<in> S \<longrightarrow> set (behind ct s) \<subseteq> S)"

definition at_every_moment :: "(resource set \<Rightarrow> bool) \<Rightarrow> act list \<Rightarrow> bool" where
  "at_every_moment P as \<longleftrightarrow> (\<forall>k. P (live (take k as)))"

lemma moment_snoc: "at_every_moment P (as @ [a]) \<longleftrightarrow> at_every_moment P as \<and> P (net_step a (live as))"
proof
  assume h: "at_every_moment P (as @ [a])"
  have "P (live (take (length (as @ [a])) (as @ [a])))" using h unfolding at_every_moment_def by blast
  moreover have "P (live (take k as))" for k
  proof (cases "k \<le> length as")
    case True
    then have "take k (as @ [a]) = take k as" by simp
    then show ?thesis using h unfolding at_every_moment_def by metis
  next
    case False
    then have "take (length as) (as @ [a]) = take k as" by simp
    then show ?thesis using h unfolding at_every_moment_def by metis
  qed
  ultimately show "at_every_moment P as \<and> P (net_step a (live as))" by (simp add: at_every_moment_def)
next
  assume h: "at_every_moment P as \<and> P (net_step a (live as))"
  show "at_every_moment P (as @ [a])" unfolding at_every_moment_def
  proof
    fix k
    show "P (live (take k (as @ [a])))" using h by (cases "k \<le> length as") (simp_all add: at_every_moment_def)
  qed
qed

lemma moment_now: "at_every_moment P as \<Longrightarrow> P (live as)"
  unfolding at_every_moment_def by (metis order_refl take_all)

text \<open>Declarations keep what is behind a token; so does withdrawing tokens, and anything while no token is live.\<close>

lemma behind_no_token: "Token s k \<notin> set (behind ct s')"
  by (cases s') (auto simp: behind_def split: option.splits)

lemma backed_declare: "backed ct S \<Longrightarrow> (\<And>s k. r = Token s k \<Longrightarrow> set (behind ct s) \<subseteq> S) \<Longrightarrow> backed ct (insert r S)"
  by (auto simp: backed_def)

lemma backed_less: "backed ct S \<Longrightarrow> (\<And>s k. Token s k \<in> S' \<Longrightarrow> S' = S - T \<and> T \<subseteq> {r. \<exists>s k. r = Token s k}) \<Longrightarrow> backed ct S'"
  unfolding backed_def using behind_no_token by blast

definition same_config :: "control \<Rightarrow> control \<Rightarrow> bool" where
  "same_config a b \<longleftrightarrow> ct_key b = ct_key a \<and> ct_playback b = ct_playback a \<and> ct_health b = ct_health a \<and> ct_configurable b = ct_configurable a"

lemma same_config_trans: "same_config a b \<Longrightarrow> same_config b c \<Longrightarrow> same_config a c"
  by (simp add: same_config_def)

lemma behind_cong: "same_config a b \<Longrightarrow> behind b = behind a"
  by (rule ext) (simp add: same_config_def behind_def change_key_def split: service.split)

lemma backed_cong: "same_config a b \<Longrightarrow> backed b = backed a"
  by (rule ext) (simp add: backed_def behind_cong)

text \<open>What holds between the operations: every moment so far was backed, and a live token is one that is held.\<close>

definition tokens_held :: "control \<Rightarrow> bool" where
  "tokens_held ct \<longleftrightarrow> (\<forall>s k. Token s k \<in> live (ct_acts ct) \<longrightarrow> ct_tokens ct s = Some k)"

definition presence_ok :: "control \<Rightarrow> bool" where
  "presence_ok ct \<longleftrightarrow> at_every_moment (backed ct) (ct_acts ct) \<and> tokens_held ct"

lemma put_state_ok: "presence_ok ct \<Longrightarrow> presence_ok (put_state ok s ct) \<and> same_config ct (put_state ok s ct)
    \<and> live (ct_acts (put_state ok s ct)) = live (ct_acts ct) \<and> ct_tokens (put_state ok s ct) = ct_tokens ct
    \<and> ct_session (put_state ok s ct) = ct_session ct"
proof (cases "ct_publishers ct s = None \<or> \<not> ok")
  case False
  assume ok: "presence_ok ct"
  have eq: "put_state ok s ct = ct\<lparr>ct_acts := ct_acts ct @ [Put s]\<rparr>" using False by (simp add: put_state_def act_def)
  have c: "same_config ct (put_state ok s ct)" by (simp add: eq same_config_def)
  have "at_every_moment (backed ct) (ct_acts ct @ [Put s])"
    using ok moment_now unfolding moment_snoc by (auto simp: presence_ok_def net_step_def)
  then have "presence_ok (put_state ok s ct)"
    using ok unfolding presence_ok_def backed_cong[OF c] by (simp add: eq tokens_held_def net_step_def)
  then show ?thesis using c by (simp add: eq net_step_def)
qed (simp add: put_state_def same_config_def)

text \<open>A plan declares what is behind a token before it, and each token once.\<close>

fun ordered :: "control \<Rightarrow> resource set \<Rightarrow> service set \<Rightarrow> step list \<Rightarrow> bool" where
  "ordered ct D T [] = True"
| "ordered ct D T (Declare (Token s k) # sts) = (set (behind ct s) \<subseteq> D \<and> s \<notin> T \<and> ordered ct D (insert s T) sts)"
| "ordered ct D T (Declare r # sts) = ordered ct (insert r D) T sts"
| "ordered ct D T (Announce s # sts) = ordered ct D T sts"

lemma plan_ordered: "ordered ct {} {} (lifecycle_plan ct @ playback_plan ct @ health_plan ct)"
  by (auto simp: lifecycle_plan_def playback_plan_def health_plan_def behind_def split: option.split)

lemma run_plan_ok:
  assumes "run_plan n sts ct = (ok, ct')" "ordered c0 D T sts" "same_config c0 ct" "presence_ok ct" "D \<subseteq> live (ct_acts ct)"
    "\<forall>s. ct_tokens ct s \<noteq> None \<longrightarrow> s \<in> T" "ct_session ct"
  shows "presence_ok ct' \<and> same_config c0 ct' \<and> ct_session ct'"
  using assms
proof (induction n sts ct arbitrary: D T rule: run_plan.induct)
  case (2 n st sts ct)
  obtain go ct1 where s1: "run_step n st ct = (go, ct1)" by fastforce
  have bk: "backed c0 (live (ct_acts ct))"
    using "2.prems"(4) moment_now backed_cong[OF "2.prems"(3)] by (auto simp: presence_ok_def)
  show ?case
  proof (cases go)
    case False
    then show ?thesis using "2.prems" s1 by (auto simp: run_step_def Let_def split: step.splits if_splits)
  next
    case go: True
    have run: "run_plan n sts ct1 = (ok, ct')" using "2.prems"(1) s1 go by simp
    have gt: "go = True" using go by simp
    show ?thesis
    proof (cases st)
      case (Announce s)
      let ?p = "put_state (nt_put n s) s ct"
      have c1: "ct1 = (if s = Svc_Playback \<and> nt_loop n then ?p\<lparr>ct_tick := True\<rparr> else ?p)"
        using s1 go Announce by (auto simp: run_step_def Let_def split: if_splits)
      have tick: "presence_ok (x\<lparr>ct_tick := True\<rparr>) = presence_ok x \<and> same_config ct (x\<lparr>ct_tick := True\<rparr>) = same_config ct x" for x
      proof -
        have "same_config x (x\<lparr>ct_tick := True\<rparr>)" by (simp add: same_config_def)
        then have "backed (x\<lparr>ct_tick := True\<rparr>) = backed x" by (rule backed_cong)
        then show ?thesis by (simp add: presence_ok_def tokens_held_def same_config_def)
      qed
      have "presence_ok ct1 \<and> same_config ct ct1 \<and> live (ct_acts ct1) = live (ct_acts ct) \<and> ct_tokens ct1 = ct_tokens ct \<and> ct_session ct1 = ct_session ct"
        using put_state_ok[OF "2.prems"(4), of "nt_put n s" s]
        by (auto simp: c1 tick)
      then show ?thesis
        using "2.IH"[OF s1[symmetric] gt run, of D T] "2.prems" Announce same_config_trans by auto
    next
      case (Declare r)
      have c1: "ct1 = hold r (act (Declared r) ct)" using s1 go Declare by (simp add: run_step_def split: if_splits)
      have f: "same_config ct ct1" "ct_acts ct1 = ct_acts ct @ [Declared r]" "ct_session ct1 = ct_session ct"
        by (auto simp: c1 hold_def act_def same_config_def split: resource.split)
      have live1: "live (ct_acts ct1) = insert r (live (ct_acts ct))" by (simp add: f(2) net_step_def)
      have tok: "ct_tokens ct1 = (case r of Token s k \<Rightarrow> (ct_tokens ct)(s := Some k) | _ \<Rightarrow> ct_tokens ct)"
        by (simp add: c1 hold_def act_def split: resource.split)
      have fresh: "s \<notin> T" "set (behind c0 s) \<subseteq> live (ct_acts ct)" if "r = Token s k" for s k
        using "2.prems"(2,5) Declare that by auto
      have "backed c0 (live (ct_acts ct1))" unfolding live1 using backed_declare[OF bk] fresh(2) by blast
      then have "at_every_moment (backed ct1) (ct_acts ct1)"
        using "2.prems"(4) unfolding f(2) moment_snoc live1[unfolded f(2)]
        by (simp add: presence_ok_def backed_cong[OF f(1)] backed_cong[OF "2.prems"(3)] net_step_def)
      moreover have "tokens_held ct1"
      proof -
        have "ct_tokens ct s = None" if "r = Token s k" for s k using fresh(1)[OF that] "2.prems"(6) by blast
        then show ?thesis using "2.prems"(4) unfolding tokens_held_def live1 tok presence_ok_def
          by (auto split: resource.splits)
      qed
      ultimately have ok1: "presence_ok ct1" by (simp add: presence_ok_def)
      let ?D = "case r of Token _ _ \<Rightarrow> D | _ \<Rightarrow> insert r D"
      let ?T = "case r of Token s _ \<Rightarrow> insert s T | _ \<Rightarrow> T"
      have "ordered c0 ?D ?T sts" using "2.prems"(2) Declare by (cases r) auto
      moreover have "?D \<subseteq> live (ct_acts ct1)" using "2.prems"(5) unfolding live1 by (auto split: resource.splits)
      moreover have "\<forall>s. ct_tokens ct1 s \<noteq> None \<longrightarrow> s \<in> ?T" using "2.prems"(6) unfolding tok by (auto split: resource.splits)
      ultimately show ?thesis
        using "2.IH"[OF s1[symmetric] gt run, of ?D ?T] same_config_trans[OF "2.prems"(3) f(1)] ok1 "2.prems"(7) f(3) by simp
    qed
  qed
qed simp

text \<open>Tearing down: tokens go first, so nothing behind a live one is gone before it.\<close>

definition no_tokens :: "resource set \<Rightarrow> bool" where
  "no_tokens S \<longleftrightarrow> (\<forall>s k. Token s k \<notin> S)"

lemma no_tokens_backed: "no_tokens S \<Longrightarrow> backed ct S"
  by (simp add: no_tokens_def backed_def)

lemma moment_append:
  assumes "at_every_moment P as" "\<And>k. P (fold net_step (take k bs) (live as))"
  shows "at_every_moment P (as @ bs)"
  unfolding at_every_moment_def
proof
  fix k
  show "P (live (take k (as @ bs)))"
    using assms(1) assms(2)[of "k - length as"] by (cases "k \<le> length as") (simp_all add: at_every_moment_def)
qed

lemma fold_undeclared: "fold net_step (map Undeclared rs) S = S - set rs"
  by (induction rs arbitrary: S) (auto simp: net_step_def)

lemma fold_no_tokens: "no_tokens S \<Longrightarrow> \<forall>a \<in> set as. \<forall>r. a \<noteq> Declared r \<Longrightarrow> no_tokens (fold net_step as S)"
proof (induction as arbitrary: S)
  case (Cons a as)
  have "no_tokens (net_step a S)" using Cons.prems by (cases a) (auto simp: no_tokens_def net_step_def)
  then show ?case using Cons by simp
qed simp

lemma held_tokens_set: "set (held_tokens ct) = {Token s k | s k. ct_tokens ct s = Some k}"
proof -
  have "s \<in> set close_order" for s by (cases s) (simp_all add: close_order_def)
  then show ?thesis by (auto simp: held_tokens_def opt_list_def split: option.splits)
qed

lemma safe_close_ok:
  assumes "presence_ok ct" "withdraws_tokens n"
  shows "presence_ok (safe_close n ct)" "same_config ct (safe_close n ct)" "ct_tokens (safe_close n ct) = (\<lambda>_. None)"
    "\<not> ct_session (safe_close n ct)" "no_tokens (live (ct_acts (safe_close n ct)))"
proof -
  let ?as = "ct_acts ct"
  let ?toks = "map Undeclared (held_tokens ct)"
  let ?rest = "map Undeclared (filter (nt_undeclare n) (held_rest ct)) @ (if ct_session ct \<and> nt_close n then [Session_Closed] else [])"
  have "filter (nt_undeclare n) (held_tokens ct) = held_tokens ct"
    using assms(2) by (auto simp: filter_id_conv held_tokens_set withdraws_tokens_def)
  then have acts: "ct_acts (safe_close n ct) = (?as @ ?toks) @ ?rest" by (simp add: safe_close_def Let_def)
  show c: "same_config ct (safe_close n ct)" by (simp add: safe_close_def Let_def same_config_def)
  show t: "ct_tokens (safe_close n ct) = (\<lambda>_. None)" "\<not> ct_session (safe_close n ct)" by (simp_all add: safe_close_def Let_def)
  have b: "backed ct (live ?as)" using assms(1) moment_now by (auto simp: presence_ok_def)
  have first: "at_every_moment (backed ct) (?as @ ?toks)"
  proof (rule moment_append)
    show "at_every_moment (backed ct) ?as" using assms(1) by (simp add: presence_ok_def)
    fix k
    have "set (take k (held_tokens ct)) \<subseteq> {r. \<exists>s k. r = Token s k}"
      using set_take_subset[of k "held_tokens ct"] by (auto simp: held_tokens_set)
    then show "backed ct (fold net_step (take k ?toks) (live ?as))"
      unfolding take_map fold_undeclared using backed_less[OF b] by blast
  qed
  have gone: "no_tokens (live (?as @ ?toks))"
    using assms(1) unfolding live_simps fold_undeclared no_tokens_def held_tokens_set presence_ok_def tokens_held_def by blast
  have quiet: "\<forall>a \<in> set ?rest. \<forall>r. a \<noteq> Declared r" by auto
  have "at_every_moment (backed ct) ((?as @ ?toks) @ ?rest)"
  proof (rule moment_append[OF first])
    fix k
    have "\<forall>a \<in> set (take k ?rest). \<forall>r. a \<noteq> Declared r" using quiet by (meson in_set_takeD)
    then show "backed ct (fold net_step (take k ?rest) (live (?as @ ?toks)))" using fold_no_tokens[OF gone] no_tokens_backed by blast
  qed
  moreover show nt: "no_tokens (live (ct_acts (safe_close n ct)))"
    unfolding acts live_simps(2)[of "?as @ ?toks"] by (rule fold_no_tokens[OF gone quiet])
  ultimately show "presence_ok (safe_close n ct)"
    using nt unfolding presence_ok_def backed_cong[OF c] acts by (simp add: tokens_held_def no_tokens_def acts)
qed

lemma opened_ok: "presence_ok ct \<Longrightarrow> presence_ok (act Opened (ct\<lparr>ct_session := True\<rparr>))"
proof -
  assume ok: "presence_ok ct"
  let ?ct = "act Opened (ct\<lparr>ct_session := True\<rparr>)"
  have "same_config ct ?ct" by (simp add: same_config_def act_def)
  from backed_cong[OF this] show ?thesis
    using ok moment_now unfolding presence_ok_def by (auto simp: act_def moment_snoc net_step_def tokens_held_def)
qed

lemma advertise_ok:
  assumes "presence_ok ct" "ct_session ct \<or> ct_tokens ct = (\<lambda>_. None)" "withdraws_tokens n" "advertise n ct = (ok, ct')"
  shows "presence_ok ct' \<and> (ct_session ct' \<or> ct_tokens ct' = (\<lambda>_. None)) \<and> same_config ct ct'"
proof -
  let ?o = "act Opened (ct\<lparr>ct_session := True\<rparr>)"
  have sc: "same_config ct ?o" "same_config ct ct" by (simp_all add: same_config_def act_def)
  obtain ok1 ct1 where run: "run_plan n (lifecycle_plan ct @ playback_plan ct @ health_plan ct) ?o = (ok1, ct1)" by fastforce
  consider "ct' = ct" | "ct' = safe_close n ct" | "\<not> ct_session ct" "ct' = (if ok1 then ct1 else safe_close n ct1)"
    using assms(4) run by (cases ok1) (simp_all add: advertise_def split: if_splits)
  then show ?thesis
  proof cases
    case 1
    then show ?thesis using assms(1,2) sc by simp
  next
    case 2
    then show ?thesis using safe_close_ok[OF assms(1,3)] by simp
  next
    case 3
    have none: "ct_tokens ct = (\<lambda>_. None)" using assms(2) 3(1) by simp
    have "presence_ok ct1 \<and> same_config ct ct1 \<and> ct_session ct1"
      by (rule run_plan_ok[OF run plan_ordered sc(1) opened_ok[OF assms(1)]]) (simp_all add: none act_def)
    then show ?thesis using 3(2) safe_close_ok[OF _ assms(3), of ct1] same_config_trans[of ct ct1] by auto
  qed
qed

lemma control_run_ok: "control_run ct \<Longrightarrow> presence_ok ct \<and> (ct_session ct \<or> ct_tokens ct = (\<lambda>_. None))"
proof (induction rule: control_run.induct)
  case (New on key configurable pk hk)
  then show ?case by (simp add: new_control_def presence_ok_def at_every_moment_def tokens_held_def no_tokens_backed no_tokens_def)
next
  case (Start ct n timer ct')
  then show ?case using advertise_ok[of ct n] by (auto simp: start_control_def split: prod.splits)
next
  case (Retry ct n again ct')
  then show ?case using advertise_ok[of ct n] by (auto simp: retry_def split: prod.splits if_splits)
next
  case (Publish ct ok s)
  then show ?case using put_state_ok[of ct ok s] by auto
next
  case (Tick ct n playing again ct')
  have off: "presence_ok (ct\<lparr>ct_tick := False\<rparr>)"
  proof -
    have "same_config ct (ct\<lparr>ct_tick := False\<rparr>)" by (simp add: same_config_def)
    from backed_cong[OF this] show ?thesis using Tick.IH by (simp add: presence_ok_def tokens_held_def)
  qed
  then show ?case using Tick put_state_ok[of ct "nt_put n Svc_Playback" Svc_Playback]
    by (auto simp: playback_tick_def split: if_splits)
next
  case (Close ct n)
  let ?c = "ct\<lparr>ct_closed := True\<rparr>"
  have "same_config ct ?c" by (simp add: same_config_def)
  from backed_cong[OF this] have "presence_ok ?c" using Close.IH by (simp add: presence_ok_def tokens_held_def)
  from safe_close_ok[OF this Close.hyps(2)] show ?case by (simp add: close_control_def)
qed


definition demo_net :: net where
  "demo_net = \<lparr>nt_open = True, nt_declare = (\<lambda>r. True), nt_undeclare = (\<lambda>r. True), nt_close = True, nt_put = (\<lambda>s. True),
     nt_playback_ok = True, nt_loop = True\<rparr>"


text \<open>A graceful end leaves no presence; when the session closes, nothing at all.\<close>

lemma close_withdraws:
  assumes "control_run ct" "withdraws_tokens n"
  shows "no_tokens (live (ct_acts (close_control n ct)))" "ct_session ct \<Longrightarrow> nt_close n \<Longrightarrow> live (ct_acts (close_control n ct)) = {}"
proof -
  have "control_run (close_control n ct)" using control_run.Close[OF assms] .
  moreover have "ct_tokens (close_control n ct) = (\<lambda>_. None)" by (simp add: close_control_def safe_close_def Let_def)
  ultimately show "no_tokens (live (ct_acts (close_control n ct)))"
    using control_run_ok unfolding presence_ok_def tokens_held_def no_tokens_def by (metis option.distinct(1))
  show "ct_session ct \<Longrightarrow> nt_close n \<Longrightarrow> live (ct_acts (close_control n ct)) = {}"
    by (simp add: close_control_def safe_close_def Let_def net_step_def)
qed

text \<open>A control plane that is switched off still starts its retry timer, and no attempt ever ends it.\<close>

lemma disabled_retries:
  assumes "\<not> ct_enabled ct" "\<not> ct_closed ct" "nt_loop n"
  shows "start_control n ct = (True, ct)" "retry n ct = (True, ct)"
  using assms by (simp_all add: start_control_def retry_def advertise_def)

end
