(* ===== verification/Control_Queries.thy ===== *)
theory Control_Queries
  imports Control_Presence
begin

text \<open>
  How \<open>core-driver/cam_driver/control_zenoh.py\<close> answers: a query is answered at once on the zenoh thread, or handed to
  the main loop and answered from there when its turn comes.  What an answer is belongs to the services
  (\<open>Control_Plane\<close>); the locale \<open>query_service\<close> states what is relied on.
\<close>

section \<open>Queries\<close>

datatype target = Q_State | Q_Change | Q_Recording | Q_Playback | Q_Playback_Control | Q_Health

record query =
  qu_id :: nat
  qu_target :: target
  qu_body :: "body option"      \<comment> \<open>\<open>None\<close>: reading the payload raised\<close>
  qu_params :: string

text \<open>The key an answer carries: the queryable's own, never the query's, which may be a wildcard.\<close>

definition key_of :: "control \<Rightarrow> target \<Rightarrow> string" where
  "key_of ct t =
     (let pk = (case ct_playback ct of Some k \<Rightarrow> k | None \<Rightarrow> []) in
      case t of
        Q_State \<Rightarrow> ct_key ct | Q_Change \<Rightarrow> change_key ct | Q_Recording \<Rightarrow> recording_key ct
      | Q_Playback \<Rightarrow> pk | Q_Playback_Control \<Rightarrow> pk @ ''/control''
      | Q_Health \<Rightarrow> (case ct_health ct of Some k \<Rightarrow> k | None \<Rightarrow> []))"

definition deferred :: "target \<Rightarrow> bool" where
  "deferred t \<longleftrightarrow> t \<in> {Q_Change, Q_Recording, Q_Playback_Control}"

text \<open>What the services do with a query: an answer at once (\<open>None\<close>: it raised, which is logged and not answered), and
  a turn of the main loop.  \<open>hd_failed\<close> is the answer when the main loop could not be reached.\<close>

record ('s, 'e, 'm) handlers =
  hd_now :: "'e \<Rightarrow> query \<Rightarrow> 's \<Rightarrow> 'm option"
  hd_turn :: "'e \<Rightarrow> query \<Rightarrow> 's \<Rightarrow> 'm \<times> 's"
  hd_failed :: 'm

record ('s, 'm) plane =
  pn_state :: 's
  pn_queue :: "query list"                      \<comment> \<open>on the main loop, in order\<close>
  pn_answers :: "(nat \<times> string \<times> 'm) list"     \<comment> \<open>query, key, message\<close>

definition new_plane :: "'s \<Rightarrow> ('s, 'm) plane" where
  "new_plane s = \<lparr>pn_state = s, pn_queue = [], pn_answers = []\<rparr>"

definition answer_query :: "control \<Rightarrow> query \<Rightarrow> 'm \<Rightarrow> ('s, 'm) plane \<Rightarrow> ('s, 'm) plane" where
  "answer_query ct q m pn = pn\<lparr>pn_answers := pn_answers pn @ [(qu_id q, key_of ct (qu_target q), m)]\<rparr>"

text \<open>\<open>_on_query_state\<close>, \<open>_on_query_change\<close>, \<open>_on_query_recording\<close>, \<open>_on_query_playback\<close>,
  \<open>_on_query_playback_control\<close>, \<open>_on_query_health\<close>.\<close>

definition arrive :: "('s, 'e, 'm) handlers \<Rightarrow> control \<Rightarrow> bool \<Rightarrow> 'e \<Rightarrow> query \<Rightarrow> ('s, 'm) plane \<Rightarrow> ('s, 'm) plane" where
  "arrive h ct dispatched e q pn =
     (if deferred (qu_target q)
      then if dispatched then pn\<lparr>pn_queue := pn_queue pn @ [q]\<rparr> else answer_query ct q (hd_failed h) pn
      else case hd_now h e q (pn_state pn) of Some m \<Rightarrow> answer_query ct q m pn | None \<Rightarrow> pn)"

text \<open>One idle callback.\<close>

definition turn :: "('s, 'e, 'm) handlers \<Rightarrow> control \<Rightarrow> 'e \<Rightarrow> ('s, 'm) plane \<Rightarrow> ('s, 'm) plane" where
  "turn h ct e pn =
     (case pn_queue pn of
        [] \<Rightarrow> pn
      | q # qs \<Rightarrow> (case hd_turn h e q (pn_state pn) of
                    (m, s) \<Rightarrow> answer_query ct q m (pn\<lparr>pn_queue := qs, pn_state := s\<rparr>)))"

section \<open>Every query is answered once\<close>

text \<open>Queries arrive under fresh ids, the main loop takes its turns (where the environment is \<open>fair\<close>), and the services change
  state on their own, by \<open>own\<close>.  The first part is the queries so far, in order.\<close>

inductive plane_run :: "('s, 'e, 'm) handlers \<Rightarrow> control \<Rightarrow> ('s \<Rightarrow> bool) \<Rightarrow> ('s \<Rightarrow> 's \<Rightarrow> bool) \<Rightarrow> ('e \<Rightarrow> bool) \<Rightarrow> query list \<Rightarrow> ('s, 'm) plane \<Rightarrow> bool"
  for h ct begins own fair where
  New: "begins s \<Longrightarrow> plane_run h ct begins own fair [] (new_plane s)"
| Arrive: "plane_run h ct begins own fair qs pn \<Longrightarrow> qu_id q \<notin> qu_id ` set qs \<Longrightarrow>
    plane_run h ct begins own fair (qs @ [q]) (arrive h ct dispatched e q pn)"
| Turn: "plane_run h ct begins own fair qs pn \<Longrightarrow> fair e \<Longrightarrow> plane_run h ct begins own fair qs (turn h ct e pn)"
| Own: "plane_run h ct begins own fair qs pn \<Longrightarrow> own (pn_state pn) s \<Longrightarrow> plane_run h ct begins own fair qs (pn\<lparr>pn_state := s\<rparr>)"

locale query_service =
  fixes h :: "('s, 'e, 'm) handlers"
    and good :: "'s \<Rightarrow> bool"
    and begins :: "'s \<Rightarrow> bool"
    and own :: "'s \<Rightarrow> 's \<Rightarrow> bool"
    and fair :: "'e \<Rightarrow> bool"
  assumes begins_good: "begins s \<Longrightarrow> good s"
    and own_good: "good s \<Longrightarrow> own s s' \<Longrightarrow> good s'"
    and turn_good: "good s \<Longrightarrow> fair e \<Longrightarrow> hd_turn h e q s = (m, s') \<Longrightarrow> good s'"
    and prompt: "good s \<Longrightarrow> \<not> deferred (qu_target q) \<Longrightarrow> qu_target q \<noteq> Q_Playback \<Longrightarrow> hd_now h e q s \<noteq> None"
begin

lemma state_good: "plane_run h ct begins own fair qs pn \<Longrightarrow> good (pn_state pn)"
proof (induction rule: plane_run.induct)
  case (New s)
  then show ?case by (simp add: new_plane_def begins_good)
next
  case (Arrive qs pn q dispatched e)
  then show ?case by (simp add: arrive_def answer_query_def split: option.split)
next
  case (Turn qs pn e)
  then show ?case by (auto simp: turn_def answer_query_def split: list.split prod.split dest: turn_good)
next
  case (Own qs pn s)
  then show ?case using own_good by auto
qed

text \<open>Per query: answered or waiting, once in all; the key is its target's.\<close>

definition settled_once :: "control \<Rightarrow> ('s, 'm) plane \<Rightarrow> query \<Rightarrow> bool" where
  "settled_once ct pn q \<longleftrightarrow>
     (let n = length (filter (\<lambda>a. fst a = qu_id q) (pn_answers pn)) + length (filter (\<lambda>x. qu_id x = qu_id q) (pn_queue pn))
      in n \<le> 1 \<and> (qu_target q \<noteq> Q_Playback \<longrightarrow> n = 1)
         \<and> (\<forall>a \<in> set (pn_answers pn). fst a = qu_id q \<longrightarrow> fst (snd a) = key_of ct (qu_target q)))"

definition ids_known :: "query list \<Rightarrow> ('s, 'm) plane \<Rightarrow> bool" where
  "ids_known qs pn \<longleftrightarrow> fst ` set (pn_answers pn) \<subseteq> qu_id ` set qs \<and> set (pn_queue pn) \<subseteq> set qs \<and> distinct (map qu_id qs)"

lemma same_id: "distinct (map qu_id qs) \<Longrightarrow> q \<in> set qs \<Longrightarrow> x \<in> set qs \<Longrightarrow> qu_id x = qu_id q \<Longrightarrow> x = q"
  by (metis (no_types, lifting) distinct_map inj_onD)

lemma answered_or_waiting:
  "plane_run h ct begins own fair qs pn \<Longrightarrow> ids_known qs pn \<and> (\<forall>q \<in> set qs. settled_once ct pn q)"
proof (induction rule: plane_run.induct)
  case (New s)
  then show ?case by (simp add: ids_known_def new_plane_def)
next
  case (Arrive qs pn q dispatched e)
  note g = state_good[OF Arrive.hyps(1)]
  let ?pn = "arrive h ct dispatched e q pn"
  have fresh: "qu_id q \<notin> fst ` set (pn_answers pn)" "qu_id q \<notin> qu_id ` set (pn_queue pn)"
    using Arrive by (auto simp: ids_known_def)
  have none_yet: "filter (\<lambda>a. fst a = qu_id q) (pn_answers pn) = []" "filter (\<lambda>x. qu_id x = qu_id q) (pn_queue pn) = []"
    using fresh by (auto simp: filter_empty_conv image_iff)
  consider (wait) "pn_answers ?pn = pn_answers pn" "pn_queue ?pn = pn_queue pn @ [q]"
    | (now) m where "pn_answers ?pn = pn_answers pn @ [(qu_id q, key_of ct (qu_target q), m)]" "pn_queue ?pn = pn_queue pn"
    | (none) "pn_answers ?pn = pn_answers pn" "pn_queue ?pn = pn_queue pn" "qu_target q = Q_Playback"
  proof (cases "deferred (qu_target q)")
    case True
    then show thesis using wait now by (cases dispatched) (simp_all add: arrive_def answer_query_def)
  next
    case False
    show thesis
    proof (cases "hd_now h e q (pn_state pn)")
      case None
      then have "qu_target q = Q_Playback" using prompt[OF g False] by blast
      then show thesis using none None False by (simp add: arrive_def)
    qed (use now False in \<open>simp add: arrive_def answer_query_def\<close>)
  qed
  then have step: "ids_known (qs @ [q]) ?pn \<and> settled_once ct ?pn q \<and> (\<forall>x \<in> set qs. settled_once ct ?pn x = settled_once ct pn x)"
  proof cases
    case wait
    then show ?thesis using Arrive.IH Arrive.hyps(2) fresh
      by (auto simp: ids_known_def settled_once_def Let_def none_yet image_iff)
  next
    case (now m)
    then show ?thesis using Arrive.IH Arrive.hyps(2) fresh
      by (auto simp: ids_known_def settled_once_def Let_def none_yet image_iff)
  next
    case none
    then show ?thesis using Arrive.IH Arrive.hyps(2) fresh
      by (auto simp: ids_known_def settled_once_def Let_def none_yet image_iff)
  qed
  then show ?case using Arrive.IH by simp
next
  case (Turn qs pn e)
  show ?case
  proof (cases "pn_queue pn")
    case Nil
    then show ?thesis using Turn.IH by (simp add: turn_def)
  next
    case (Cons x xs)
    obtain m s where m: "hd_turn h e x (pn_state pn) = (m, s)" by fastforce
    have t: "pn_answers (turn h ct e pn) = pn_answers pn @ [(qu_id x, key_of ct (qu_target x), m)]" "pn_queue (turn h ct e pn) = xs"
      by (simp_all add: turn_def Cons m answer_query_def)
    have x: "x \<in> set qs" "distinct (map qu_id qs)" using Turn.IH Cons by (auto simp: ids_known_def)
    have "settled_once ct (turn h ct e pn) q" if "q \<in> set qs" for q
      using Turn.IH that same_id[OF x(2) that x(1)] by (auto simp: settled_once_def Let_def t Cons)
    then show ?thesis using Turn.IH x Cons by (auto simp: ids_known_def t)
  qed
next
  case (Own qs pn s)
  then show ?case by (simp add: ids_known_def settled_once_def)
qed

end

end
