(* ===== verification/Keyframe.thy ===== *)
theory Keyframe
  imports Cam_Prelude
begin

text \<open>
  \<open>core-driver/cam_driver/keyframe.py\<close>: the sync-point gate of stream-copy recordings.  The three
  regular expressions on caps strings are scanners that return exactly what the pattern captures;
  the lemmas show that the Annex B scan misses no start code, and that a length-prefixed access unit
  is judged by its complete NAL units alone.
\<close>

section \<open>Caps strings\<close>

definition is_alnum :: "char \<Rightarrow> bool" where
  "is_alnum c \<longleftrightarrow> (let n = of_char c :: nat in 48 \<le> n \<and> n \<le> 57 \<or> 65 \<le> n \<and> n \<le> 90 \<or> 97 \<le> n \<and> n \<le> 122)"

definition is_hex :: "char \<Rightarrow> bool" where
  "is_hex c \<longleftrightarrow> (let n = of_char c :: nat in 48 \<le> n \<and> n \<le> 57 \<or> 65 \<le> n \<and> n \<le> 70 \<or> 97 \<le> n \<and> n \<le> 102)"

definition media_match :: "string \<Rightarrow> string option" where
  "media_match s =
     (let s = dropWhile is_space s;
          a = takeWhile (\<lambda>c. is_alnum c \<or> c = CHR ''-'') s;
          rest = dropWhile (\<lambda>c. is_alnum c \<or> c = CHR ''-'') s
      in case rest of
           [] \<Rightarrow> None
         | x # rest \<Rightarrow>
             let b = takeWhile (\<lambda>c. is_alnum c \<or> c \<in> set ''.+-'') rest in
             if a = [] \<or> x \<noteq> CHR ''/'' \<or> b = [] then None else Some (a @ x # b))"

text \<open>\<open>key=(?:\(type\))?([class]+)\<close>, searched from the left.\<close>

definition field_at :: "string \<Rightarrow> string \<Rightarrow> (char \<Rightarrow> bool) \<Rightarrow> string \<Rightarrow> string option" where
  "field_at key ty cls s =
     (if take (length key) s \<noteq> key then None
      else
        let s = drop (length key) s;
            s = (if take (length ty) s = ty then drop (length ty) s else s);
            v = takeWhile cls s
        in if v = [] then None else Some v)"

fun field_search :: "string \<Rightarrow> string \<Rightarrow> (char \<Rightarrow> bool) \<Rightarrow> string \<Rightarrow> string option" where
  "field_search key ty cls [] = field_at key ty cls []"
| "field_search key ty cls (c # s) =
     (case field_at key ty cls (c # s) of Some v \<Rightarrow> Some v | None \<Rightarrow> field_search key ty cls s)"

definition hex_val :: "char \<Rightarrow> nat" where
  "hex_val c = (let n = of_char c :: nat in if n \<le> 57 then n - 48 else if n \<le> 70 then n - 55 else n - 87)"

definition hex_pair :: "string \<Rightarrow> nat \<Rightarrow> nat" where
  "hex_pair blob i = 16 * hex_val (blob ! i) + hex_val (blob ! (i + 1))"

definition parse_caps_kind :: "string option \<Rightarrow> string option \<times> string option \<times> nat" where
  "parse_caps_kind caps =
     (case caps of
        None \<Rightarrow> (None, None, 4)
      | Some [] \<Rightarrow> (None, None, 4)
      | Some s \<Rightarrow>
          let media = media_match s;
              stream_format = field_search ''stream-format='' ''(string)'' (\<lambda>c. is_alnum c \<or> c = CHR ''-'') s;
              nal_len = (case field_search ''codec_data='' ''(buffer)'' is_hex s of
                  None \<Rightarrow> 4
                | Some blob \<Rightarrow>
                    if media = Some ''video/x-h264'' \<and> length blob \<ge> 10 then hex_pair blob 8 mod 4 + 1
                    else if media = Some ''video/x-h265'' \<and> length blob \<ge> 44 then hex_pair blob 42 mod 4 + 1
                    else 4)
          in (media, stream_format, nal_len))"

section \<open>NAL headers\<close>

text \<open>\<open>data.find(b'\0\0\1', i)\<close>\<close>

definition start_code :: bytes where
  "start_code = [0, 0, 1]"

fun find_code :: "bytes \<Rightarrow> nat \<Rightarrow> nat option" where
  "find_code (a # b # c # rest) i =
     (if [a, b, c] = start_code then Some i else find_code (b # c # rest) (i + 1))"
| "find_code _ i = None"

text \<open>The scans, on what is left of the data from offset \<open>i\<close>.\<close>

lemma find_code_ge: "find_code xs i = Some j \<Longrightarrow> i \<le> j \<and> j + 3 \<le> i + length xs"
  by (induction xs i rule: find_code.induct) (fastforce split: if_splits)+

function annexb_from :: "bytes \<Rightarrow> nat \<Rightarrow> nat list" where
  "annexb_from data i =
     (case find_code (drop i data) i of
        None \<Rightarrow> []
      | Some j \<Rightarrow> (if j + 3 < length data then [j + 3] else []) @ annexb_from data (j + 3))"
  by pat_completeness auto
termination
  by (relation "measure (\<lambda>(data, i). length data - i)") (auto dest!: find_code_ge)

declare annexb_from.simps [simp del]

definition annexb_nal_headers :: "bytes \<Rightarrow> nat list" where
  "annexb_nal_headers data = annexb_from data 0"

function prefixed_from :: "nat \<Rightarrow> bytes \<Rightarrow> nat \<Rightarrow> nat list" where
  "prefixed_from nal_len data i =
     (if i + nal_len < length data then
        let size = dec BE (slice data i (i + nal_len)) in
        if size = 0 \<or> i + nal_len + size > length data then []
        else (i + nal_len) # prefixed_from nal_len data (i + nal_len + size)
      else [])"
  by pat_completeness auto
termination by (relation "measure (\<lambda>(k, data, i). length data - i)") auto

declare prefixed_from.simps [simp del]

definition length_prefixed_nal_headers :: "bytes \<Rightarrow> nat \<Rightarrow> nat list" where
  "length_prefixed_nal_headers data nal_len = prefixed_from nal_len data 0"

definition H264_IDR :: nat where
  "H264_IDR = 5"

definition H265_IRAP :: "nat list" where
  "H265_IRAP = [16..<22]"

definition sync_header :: "string \<Rightarrow> byte \<Rightarrow> bool" where
  "sync_header media hdr =
     (if media = ''video/x-h264'' then unat hdr mod 32 = H264_IDR
      else unat hdr div 2 mod 64 \<in> set H265_IRAP)"

definition is_sync_point :: "string option \<Rightarrow> bytes \<Rightarrow> string option \<Rightarrow> nat \<Rightarrow> bool" where
  "is_sync_point media data stream_format nal_len =
     (if media = Some ''image/jpeg'' then True
      else if media = Some ''video/x-h264'' \<or> media = Some ''video/x-h265'' then
        (if data = [] then False
         else
           let prefixed = stream_format \<in> {Some ''avc'', Some ''avc3'', Some ''hvc1'', Some ''hev1''};
               headers = (if prefixed then length_prefixed_nal_headers data nal_len
                          else annexb_nal_headers data)
           in list_ex (\<lambda>off. sync_header (the media) (data ! off)) headers)
      else True)"

section \<open>Properties\<close>

text \<open>The Annex B scan visits the byte after every start code, and nothing else: a start code
  cannot overlap the one before it.\<close>

definition code_at :: "bytes \<Rightarrow> nat \<Rightarrow> bool" where
  "code_at data j \<longleftrightarrow> take 3 (drop j data) = start_code"

lemma find_code_spec:
  "(\<forall>j. find_code xs i = Some j \<longrightarrow> code_at xs (j - i) \<and> (\<forall>k<j - i. \<not> code_at xs k))
   \<and> (find_code xs i = None \<longrightarrow> (\<forall>k. \<not> code_at xs k))"
proof (induction xs i rule: find_code.induct)
  case (1 a b c rest i)
  have zero: "code_at (a # b # c # rest) 0 \<longleftrightarrow> [a, b, c] = start_code" by (simp add: code_at_def numeral_3_eq_3)
  have succ: "code_at (a # b # c # rest) (Suc k) \<longleftrightarrow> code_at (b # c # rest) k" for k by (simp add: code_at_def)
  show ?case
  proof (cases "[a, b, c] = start_code")
    case True
    with zero show ?thesis by simp
  next
    case False
    note IH = "1.IH" [OF False]
    have all: "(\<forall>k<Suc n. \<not> code_at (a # b # c # rest) k) \<longleftrightarrow> (\<forall>k<n. \<not> code_at (b # c # rest) k)" for n
      using False zero succ by (metis less_Suc_eq_0_disj)
    show ?thesis
    proof (intro conjI allI impI)
      fix j assume "find_code (a # b # c # rest) i = Some j"
      with False have f: "find_code (b # c # rest) (i + 1) = Some j" by simp
      from find_code_ge [OF f] have d: "j - i = Suc (j - (i + 1))" by linarith
      from IH f have "code_at (b # c # rest) (j - (i + 1))" "\<forall>k<j - (i + 1). \<not> code_at (b # c # rest) k" by auto
      then show "code_at (a # b # c # rest) (j - i)" "\<And>k. k < j - i \<Longrightarrow> \<not> code_at (a # b # c # rest) k"
        using all unfolding d by (auto simp: succ)
    next
      fix k assume "find_code (a # b # c # rest) i = None"
      with False IH have "\<forall>k. \<not> code_at (b # c # rest) k" by auto
      with False zero succ show "\<not> code_at (a # b # c # rest) k" by (cases k) auto
    qed
  qed
qed (auto simp: code_at_def start_code_def take_Cons' drop_Cons' split: if_splits)

lemma code_at_no_overlap: "code_at data j \<Longrightarrow> \<not> code_at data (j + 1) \<and> \<not> code_at data (j + 2)"
proof -
  assume a: "code_at data j"
  define xs where "xs = drop j data"
  from a have "take 3 xs = [0, 0, 1]" by (simp add: code_at_def start_code_def xs_def)
  then obtain r where "xs = 0 # 0 # 1 # r" by (cases xs; cases "tl xs"; cases "tl (tl xs)") auto
  moreover have "drop (j + n) data = drop n xs" for n by (simp add: xs_def add.commute)
  from this [of 1] this [of 2] have "drop (j + 1) data = tl xs" "drop (j + 2) data = tl (tl xs)"
    by (simp_all add: drop_Suc numeral_2_eq_2)
  ultimately show ?thesis unfolding code_at_def start_code_def by (simp add: numeral_3_eq_3)
qed

lemma annexb_from_set:
  "off \<in> set (annexb_from data i) \<longleftrightarrow> off < length data \<and> (\<exists>j\<ge>i. code_at data j \<and> off = j + 3)"
proof (induction data i rule: annexb_from.induct)
  case (1 data i)
  note spec = find_code_spec [of "drop i data" i]
  have at: "code_at (drop i data) k \<longleftrightarrow> code_at data (i + k)" for k by (simp add: code_at_def add.commute)
  show ?case
  proof (cases "find_code (drop i data) i")
    case None
    with spec at have "\<not> code_at data j" if "i \<le> j" for j using that by (metis le_add_diff_inverse)
    with None show ?thesis by (subst annexb_from.simps) auto
  next
    case (Some j)
    with find_code_ge have ge: "i \<le> j" by blast
    from spec Some at ge have here: "code_at data j" by (metis le_add_diff_inverse)
    have before: "\<not> code_at data k" if "i \<le> k" "k < j" for k
      using spec Some at that by (metis diff_less_mono le_add_diff_inverse)
    have "j \<le> k \<and> code_at data k \<longleftrightarrow> k = j \<or> j + 3 \<le> k \<and> code_at data k" for k
      using here code_at_no_overlap [OF here] by (cases "k = j \<or> k = j + 1 \<or> k = j + 2") auto
    then have split: "i \<le> k \<and> code_at data k \<longleftrightarrow> k = j \<or> j + 3 \<le> k \<and> code_at data k" for k
      using ge before by (metis le_trans not_le)
    have "off \<in> set (annexb_from data i) \<longleftrightarrow> off < length data \<and> (off = j + 3 \<or> (\<exists>k\<ge>j + 3. code_at data k \<and> off = k + 3))"
      using "1.IH" [OF Some] Some by (subst annexb_from.simps) auto
    moreover have "(\<exists>k\<ge>i. code_at data k \<and> off = k + 3) \<longleftrightarrow> off = j + 3 \<or> (\<exists>k\<ge>j + 3. code_at data k \<and> off = k + 3)"
      using split by metis
    ultimately show ?thesis by simp
  qed
qed

text \<open>A length-prefixed access unit: complete NAL units, then possibly a cut one.\<close>

definition nal_bytes :: "nat \<Rightarrow> bytes list \<Rightarrow> bytes" where
  "nal_bytes k nals = concat (map (\<lambda>n. enc BE k (length n) @ n) nals)"

fun cut_nal :: "nat \<Rightarrow> bytes \<Rightarrow> bool" where
  "cut_nal k tail \<longleftrightarrow> length tail \<le> k \<or> dec BE (take k tail) = 0 \<or> k + dec BE (take k tail) > length tail"

lemma prefixed_written:
  assumes "\<forall>n\<in>set nals. n \<noteq> [] \<and> length n < 256 ^ k" "cut_nal k tail"
  shows "map (\<lambda>off. (pre @ nal_bytes k nals @ tail) ! off)
      (prefixed_from k (pre @ nal_bytes k nals @ tail) (length pre)) = map hd nals"
  using assms(1)
proof (induction nals arbitrary: pre)
  case Nil
  have "prefixed_from k (pre @ tail) (length pre) = []"
    using assms(2) by (subst prefixed_from.simps) (auto simp: slice_def Let_def)
  then show ?case by (simp add: nal_bytes_def)
next
  case (Cons n nals)
  let ?pre = "pre @ enc BE k (length n) @ n"
  let ?data = "pre @ nal_bytes k (n # nals) @ tail"
  have data: "?data = ?pre @ nal_bytes k nals @ tail" by (simp add: nal_bytes_def)
  from Cons.prems have n: "n \<noteq> []" "length n < 256 ^ k" by simp_all
  have size: "dec BE (slice ?data (length pre) (length pre + k)) = length n"
    using n(2) by (simp add: data slice_def dec_enc)
  have lens: "length pre + k < length ?data" "\<not> length pre + k + length n > length ?data"
    "length n \<noteq> 0" "length pre + k + length n = length ?pre"
    using n by (simp_all add: data)
  have step: "prefixed_from k ?data (length pre)
      = (length pre + k) # prefixed_from k ?data (length ?pre)"
    by (subst prefixed_from.simps)
      (simp only: size Let_def lens(1,3) lens(2) lens(4) [symmetric] if_True if_False simp_thms)
  have hd: "?data ! (length pre + k) = hd n"
    using n(1) by (simp add: data nth_append hd_conv_nth)
  have "map (\<lambda>off. ?data ! off) (prefixed_from k ?data (length ?pre)) = map hd nals"
    unfolding data by (rule Cons.IH) (use Cons.prems in simp)
  with step hd show ?case by simp
qed

text \<open>C37: the keyframe gate is exact.  On Annex B data it opens iff some start code is followed by a
  random-access NAL header; on length-prefixed data iff one of the complete NAL units is a
  random-access one - a truncated tail never opens it.\<close>

theorem sync_point_exact:
  assumes "media = ''video/x-h264'' \<or> media = ''video/x-h265''"
  shows "(sf \<notin> {Some ''avc'', Some ''avc3'', Some ''hvc1'', Some ''hev1''} \<longrightarrow>
      (is_sync_point (Some media) data sf k \<longleftrightarrow>
        (\<exists>j. take 3 (drop j data) = [0, 0, 1] \<and> j + 3 < length data \<and> sync_header media (data ! (j + 3)))))
    \<and> (sf \<in> {Some ''avc'', Some ''avc3'', Some ''hvc1'', Some ''hev1''} \<and> cut_nal k tail \<and>
        (\<forall>n\<in>set nals. n \<noteq> [] \<and> length n < 256 ^ k) \<longrightarrow>
      (is_sync_point (Some media) (nal_bytes k nals @ tail) sf k \<longleftrightarrow>
        (\<exists>n\<in>set nals. sync_header media (hd n))))"
proof (intro conjI impI)
  have media: "media \<noteq> ''image/jpeg''" using assms by auto
  assume sf: "sf \<notin> {Some ''avc'', Some ''avc3'', Some ''hvc1'', Some ''hev1''}"
  have "is_sync_point (Some media) data sf k \<longleftrightarrow>
      (\<exists>off\<in>set (annexb_from data 0). sync_header media (data ! off))"
    using assms media sf
    by (auto simp: is_sync_point_def annexb_nal_headers_def list_ex_iff annexb_from_set)
  then show "is_sync_point (Some media) data sf k \<longleftrightarrow>
        (\<exists>j. take 3 (drop j data) = [0, 0, 1] \<and> j + 3 < length data \<and> sync_header media (data ! (j + 3)))"
    unfolding annexb_from_set Bex_def code_at_def start_code_def by blast
next
  have media: "media \<noteq> ''image/jpeg''" using assms by auto
  assume h: "sf \<in> {Some ''avc'', Some ''avc3'', Some ''hvc1'', Some ''hev1''} \<and> cut_nal k tail \<and>
        (\<forall>n\<in>set nals. n \<noteq> [] \<and> length n < 256 ^ k)"
  let ?data = "nal_bytes k nals @ tail"
  have "map (\<lambda>off. ?data ! off) (prefixed_from k ?data 0) = map hd nals"
    using prefixed_written [of nals k tail "[]"] h by simp
  then have hs: "(\<lambda>off. ?data ! off) ` set (prefixed_from k ?data 0) = hd ` set nals" by (metis list.set_map)
  have empty: "?data = [] \<Longrightarrow> nals = []" using h by (auto simp: nal_bytes_def)
  have "is_sync_point (Some media) ?data sf k \<longleftrightarrow>
      ?data \<noteq> [] \<and> (\<exists>b\<in>(\<lambda>off. ?data ! off) ` set (prefixed_from k ?data 0). sync_header media b)"
    using assms media h by (auto simp: is_sync_point_def length_prefixed_nal_headers_def list_ex_iff)
  then show "is_sync_point (Some media) ?data sf k \<longleftrightarrow> (\<exists>n\<in>set nals. sync_header media (hd n))"
    unfolding hs using empty by auto
qed

theorem sync_point_exact_witness:
  "is_sync_point (Some ''video/x-h264'') [9, 0, 0, 1, 0x65] (Some ''byte-stream'') 4
   \<and> \<not> is_sync_point (Some ''video/x-h264'') (nal_bytes 2 [[0x41]] @ [0, 9, 0x65]) (Some ''avc'') 2"
proof
  show "is_sync_point (Some ''video/x-h264'') [9, 0, 0, 1, 0x65] (Some ''byte-stream'') 4"
    using sync_point_exact [of "''video/x-h264''" "Some ''byte-stream''" "[9, 0, 0, 1, 0x65]" 4 "[]" "[]"]
    by (auto simp: sync_header_def H264_IDR_def intro!: exI [of _ 1])
  show "\<not> is_sync_point (Some ''video/x-h264'') (nal_bytes 2 [[0x41]] @ [0, 9, 0x65]) (Some ''avc'') 2"
    using sync_point_exact [of "''video/x-h264''" "Some ''avc''" "[]" 2 "[0, 9, 0x65]" "[[0x41]]"]
    by (simp add: sync_header_def H264_IDR_def dec_def)
qed

end
