(* ===== verification/Recording_Session.thy ===== *)
theory Recording_Session
  imports Sidecar Keyframe "HOL-Library.List_Lexorder"
begin

text \<open>
  \<open>core-driver/cam_driver/session.py\<close>: one recording session - its appsrc, its sidecar and its
  accounting.  GStreamer is outside: what an appsrc, the bus or the disk answers is an argument, and
  what the session pushes into its appsrc is the list \<open>rs_fed\<close>.  \<open>push\<close> and \<open>begin_close\<close> are also
  given as the atomic sections between their lock operations, and \<open>session_run\<close> interleaves them
  with the sidecar's writer thread.
\<close>

datatype push_result = Push_OK | Push_DROPPED | Push_SKIPPED

datatype flow = Flow_OK | Flow_EOS | Flow_Other

datatype fed = Fed_Buffer bytes int int | Fed_Caps string | Fed_EOS   \<comment> \<open>buffer: payload, PTS, frame id\<close>

record session =
  rs_index :: nat
  rs_prefix :: string
  rs_path_base :: string
  rs_sidecar :: sidecar_writer
  rs_json :: json_file
  rs_open_fragment :: "string option"
  rs_closing :: bool
  rs_closed :: bool
  rs_await_key :: bool
  rs_caps_applied :: bool
  rs_caps_kind :: "(string option \<times> string option \<times> nat) option"
  rs_eos_seen :: bool
  rs_frames :: nat
  rs_skipped_awaiting_keyframe :: nat
  rs_first_pts :: "int option"
  rs_first_stamp :: "frame_stamp option"
  rs_error :: "string option"
  rs_truncated :: bool
  rs_segments :: "string list"
  rs_drops_at_start :: "(string \<times> int) list option"
  rs_settings_path :: "string option"
  rs_health_summary :: "json option"
  rs_pipeline :: bool        \<comment> \<open>\<open>_pipeline is not None\<close>; the appsrc and the bus go with it\<close>
  rs_block :: bool           \<comment> \<open>the appsrc was built \<open>block=true\<close>\<close>
  rs_fed :: "fed list"
  rs_reports :: nat          \<comment> \<open>error reports queued on the main loop\<close>
  rs_fragment_reports :: nat

definition new_session :: "nat \<Rightarrow> string \<Rightarrow> string \<Rightarrow> bool \<Rightarrow> session" where
  "new_session index pfx path_base encoded =
     \<lparr>rs_index = index, rs_prefix = pfx, rs_path_base = path_base, rs_sidecar = new_sidecar, rs_json = No_File,
      rs_open_fragment = None, rs_closing = False, rs_closed = False, rs_await_key = encoded,
      rs_caps_applied = False, rs_caps_kind = None, rs_eos_seen = False, rs_frames = 0,
      rs_skipped_awaiting_keyframe = 0, rs_first_pts = None, rs_first_stamp = None, rs_error = None,
      rs_truncated = False, rs_segments = [], rs_drops_at_start = None, rs_settings_path = None,
      rs_health_summary = None, rs_pipeline = False, rs_block = False, rs_fed = [], rs_reports = 0,
      rs_fragment_reports = 0\<rparr>"

section \<open>Start\<close>

text \<open>What building the session pipeline does: launch failure, no \<open>recsrc\<close>, refused PLAYING, or up
  with the given \<open>block\<close> property.\<close>

datatype launch = Launch_Error string | No_Recsrc | Not_Playing | Launched bool

definition teardown_pipeline :: "session \<Rightarrow> session" where
  "teardown_pipeline s = s\<lparr>rs_pipeline := False\<rparr>"

definition sidecar_stop :: "sidecar_writer \<Rightarrow> sidecar_writer" where
  "sidecar_stop w = stop_join (stop_put w)"

definition session_start :: "bool \<Rightarrow> launch \<Rightarrow> (string \<times> int) list \<Rightarrow> session \<Rightarrow> string option \<times> session" where
  "session_start mkdir_ok launch drops_now s =
     (let s = s\<lparr>rs_drops_at_start := Some drops_now\<rparr> in
      if \<not> mkdir_ok then (Some ''sidecar start failed'', s)
      else
        let s = s\<lparr>rs_sidecar := sidecar_start (rs_sidecar s)\<rparr>;
            abort = (\<lambda>e. (Some e, (teardown_pipeline s)\<lparr>rs_sidecar := sidecar_stop (rs_sidecar s)\<rparr>))
        in case launch of
             Launch_Error e \<Rightarrow> abort e
           | No_Recsrc \<Rightarrow> abort ''appsrc 'recsrc' not found in the session pipeline''
           | Not_Playing \<Rightarrow> abort ''session pipeline refused to go PLAYING''
           | Launched block \<Rightarrow> (None, s\<lparr>rs_pipeline := True, rs_block := block\<rparr>))"

section \<open>Push\<close>

definition record_error :: "string \<Rightarrow> session \<Rightarrow> session" where
  "record_error e s =
     (if rs_error s = None then s\<lparr>rs_error := Some e, rs_reports := rs_reports s + 1\<rparr> else s)"

text \<open>The keyframe gate: \<open>None\<close> is a frame skipped while waiting.\<close>

definition key_gate :: "bytes \<Rightarrow> string option \<Rightarrow> session \<Rightarrow> session option \<times> session" where
  "key_gate payload caps_str s =
     (if rs_await_key s then
        let s = (if rs_caps_kind s = None \<and> caps_str \<noteq> None \<and> caps_str \<noteq> Some []
                 then s\<lparr>rs_caps_kind := Some (parse_caps_kind caps_str)\<rparr> else s);
            (media, sf, nal_len) = (case rs_caps_kind s of None \<Rightarrow> (None, None, 4) | Some k \<Rightarrow> k)
        in if \<not> is_sync_point media payload sf nal_len
           then (None, s\<lparr>rs_skipped_awaiting_keyframe := rs_skipped_awaiting_keyframe s + 1\<rparr>)
           else (Some (s\<lparr>rs_await_key := False\<rparr>), s)
      else (Some s, s))"

definition apply_caps :: "string option \<Rightarrow> session \<Rightarrow> session" where
  "apply_caps caps_str s =
     (case caps_str of
        Some c \<Rightarrow> if c \<noteq> [] \<and> \<not> rs_caps_applied s
                  then s\<lparr>rs_caps_applied := True, rs_fed := rs_fed s @ [Fed_Caps c]\<rparr> else s
      | None \<Rightarrow> s)"

record push_env =
  pe_max_bytes :: nat
  pe_level :: nat
  pe_header :: sidecar_header   \<comment> \<open>what the header factory builds\<close>
  pe_header_ok :: bool
  pe_flow :: flow

text \<open>\<open>push\<close> up to \<open>push-buffer\<close>, under the lock: a result, or on to the buffer.\<close>

definition push_enter ::
  "push_env \<Rightarrow> bytes \<Rightarrow> int \<Rightarrow> frame_stamp \<Rightarrow> string option \<Rightarrow> session \<Rightarrow> push_result option \<times> session" where
  "push_enter e payload pts stamp caps_str s =
     (if rs_closing s \<or> rs_closed s \<or> rs_error s \<noteq> None \<or> \<not> rs_pipeline s then (Some Push_SKIPPED, s)
      else case key_gate payload caps_str s of
        (None, s) \<Rightarrow> (Some Push_SKIPPED, s)
      | (Some s, _) \<Rightarrow>
          let s = apply_caps caps_str s in
          if \<not> rs_block s \<and> pe_max_bytes e \<noteq> 0 \<and> pe_level e + length payload > pe_max_bytes e
          then (Some Push_DROPPED, s)
          else if rs_first_pts s = None then
            let s = s\<lparr>rs_first_pts := Some pts, rs_first_stamp := Some stamp\<rparr> in
            (case write_header (pe_header_ok e) (pe_header e) (rs_json s) of
               Some f \<Rightarrow> (None, s\<lparr>rs_json := f\<rparr>)
             | None \<Rightarrow> (Some Push_DROPPED, record_error ''sidecar header write failed'' s))
          else (None, s))"

text \<open>The rest: the flow return of \<open>push-buffer\<close>, then the accounting.\<close>

definition push_exit :: "flow \<Rightarrow> bytes \<Rightarrow> int \<Rightarrow> frame_stamp \<Rightarrow> session \<Rightarrow> push_result \<times> session" where
  "push_exit flow payload pts stamp s =
     (if flow \<noteq> Flow_OK then
        (if rs_closing s \<and> flow = Flow_EOS then (Push_SKIPPED, s) else (Push_DROPPED, s))
      else
        (Push_OK, s\<lparr>rs_fed := rs_fed s @ [Fed_Buffer payload pts (fs_frame_id stamp)],
                    rs_frames := rs_frames s + 1, rs_sidecar := sidecar_add stamp pts (rs_sidecar s)\<rparr>))"

definition push ::
  "push_env \<Rightarrow> bytes \<Rightarrow> int \<Rightarrow> frame_stamp \<Rightarrow> string option \<Rightarrow> session \<Rightarrow> push_result \<times> session" where
  "push e payload pts stamp caps_str s =
     (case push_enter e payload pts stamp caps_str s of
        (Some r, s) \<Rightarrow> (r, s)
      | (None, s) \<Rightarrow> push_exit (pe_flow e) payload pts stamp s)"

section \<open>Close\<close>

definition eos_early :: "session \<Rightarrow> bool" where
  "eos_early s \<longleftrightarrow> rs_pipeline s \<and> rs_frames s > 0 \<and> rs_block s"

text \<open>Before the feed lock: refuse new pushes, and wake a blocked one.\<close>

definition close_first :: "session \<Rightarrow> session" where
  "close_first s = s\<lparr>rs_closing := True, rs_fed := rs_fed s @ (if eos_early s then [Fed_EOS] else [])\<rparr>"

text \<open>Under the feed lock.\<close>

definition close_second :: "bool \<Rightarrow> session \<Rightarrow> session" where
  "close_second eos_sent s =
     s\<lparr>rs_closed := True,
       rs_fed := rs_fed s @ (if rs_pipeline s \<and> rs_frames s \<noteq> 0 \<and> \<not> eos_sent then [Fed_EOS] else [])\<rparr>"

definition begin_close :: "session \<Rightarrow> session" where
  "begin_close s = (if rs_closed s then s else close_second (eos_early s) (close_first s))"

text \<open>The bounded wait for EOS, and what the disk then holds.\<close>

datatype drain = Drained | Drain_Timeout | Drain_Error string

record close_info =
  ci_frames :: nat
  ci_segments :: nat
  ci_truncated :: bool
  ci_error :: "string option"
  ci_files :: "string list"

definition drain_eos :: "rat \<Rightarrow> drain \<Rightarrow> session \<Rightarrow> session" where
  "drain_eos timeout_s d s =
     (if rs_pipeline s then
        if rs_error s \<noteq> None then s\<lparr>rs_truncated := True\<rparr>
        else if rs_frames s = 0 then s
        else if \<not> rs_eos_seen s \<and> timeout_s > 0 then
          (case d of
             Drain_Timeout \<Rightarrow> s\<lparr>rs_truncated := True\<rparr>
           | Drain_Error e \<Rightarrow> s\<lparr>rs_error := Some e, rs_truncated := True\<rparr>
           | Drained \<Rightarrow> s)
        else if \<not> rs_eos_seen s then s\<lparr>rs_truncated := True\<rparr>
        else s
      else s)"

text \<open>\<open>sorted(set(a) | set(b))\<close>: file names in the order of their character codes.\<close>

definition merge_segments :: "string list \<Rightarrow> string list \<Rightarrow> string list" where
  "merge_segments seen disk = sort_key (map of_char :: string \<Rightarrow> nat list) (remdups (seen @ disk))"

definition attestation :: "session \<Rightarrow> (string \<times> json) list" where
  "attestation s =
     [(''frames_recorded'', JInt (int (rs_frames s))),
      (''skipped_awaiting_keyframe'', JInt (int (rs_skipped_awaiting_keyframe s))),
      (''segments'', JInt (int (length (rs_segments s)))),
      (''truncated'', JBool (rs_truncated s)),
      (''error'', json_opt JStr (rs_error s)),
      (''first_pts_ns'', json_opt JInt (rs_first_pts s)),
      (''session_index'', JInt (int (rs_index s)))]
     @ (case rs_settings_path s of Some (c # p) \<Rightarrow> [(''settings_file'', JStr (c # p))] | _ \<Rightarrow> [])"

definition finish_close ::
  "rat \<Rightarrow> drain \<Rightarrow> string list \<Rightarrow> bool \<Rightarrow> (string \<times> int) list \<Rightarrow> session \<Rightarrow> close_info \<times> session" where
  "finish_close timeout_s d disk json_ok drops_now s =
     (let s = teardown_pipeline (drain_eos timeout_s d s);
          s = s\<lparr>rs_segments := merge_segments (rs_segments s) disk\<rparr>;
          drops = delta drops_now (case rs_drops_at_start s of None \<Rightarrow> [] | Some x \<Rightarrow> x);
          s = s\<lparr>rs_sidecar := sidecar_stop (rs_sidecar s)\<rparr>;
          extra = (''session'', JObj (attestation s))
                    # (case rs_health_summary s of None \<Rightarrow> [] | Some h \<Rightarrow> [(''health'', h)]);
          s = s\<lparr>rs_json := write_summary json_ok (sw_failed (rs_sidecar s)) drops extra (rs_json s)\<rparr>
      in (\<lparr>ci_frames = rs_frames s, ci_segments = length (rs_segments s), ci_truncated = rs_truncated s,
           ci_error = rs_error s, ci_files = rs_segments s\<rparr>, s))"

section \<open>The bus\<close>

datatype bus_message =
    Bus_Error string | Bus_EOS | Fragment_Opened "string option" | Fragment_Closed "string option" | Bus_Other

definition session_on_bus :: "bus_message \<Rightarrow> session \<Rightarrow> session" where
  "session_on_bus m s =
     (case m of
        Bus_Error e \<Rightarrow> record_error e s
      | Bus_EOS \<Rightarrow> s\<lparr>rs_eos_seen := True\<rparr>
      | Fragment_Opened loc \<Rightarrow>
          s\<lparr>rs_open_fragment := (if loc = Some [] then None else loc), rs_fragment_reports := rs_fragment_reports s + 1\<rparr>
      | Fragment_Closed loc \<Rightarrow>
          s\<lparr>rs_segments := rs_segments s @ (case loc of Some (c # l) \<Rightarrow> [c # l] | _ \<Rightarrow> []),
            rs_open_fragment := None, rs_fragment_reports := rs_fragment_reports s + 1\<rparr>
      | Bus_Other \<Rightarrow> s)"

section \<open>Every interleaving\<close>

text \<open>The session with a push in flight (it holds the feed lock) and a close between its two parts
  (\<open>Some eos_sent\<close>).\<close>

record session_sys =
  sy_session :: session
  sy_push :: "(bytes \<times> int \<times> frame_stamp) option"
  sy_close :: "bool option"

text \<open>GStreamer's contract on a closed feed: once EOS was sent, \<open>push-buffer\<close> does not return OK.\<close>

inductive session_run :: "session_sys \<Rightarrow> bool" where
  Started: "session_start mkdir_ok launch drops (new_session index pfx base encoded) = (None, s) \<Longrightarrow>
    session_run \<lparr>sy_session = s, sy_push = None, sy_close = None\<rparr>"
| Enter_done: "session_run y \<Longrightarrow> sy_push y = None \<Longrightarrow>
    push_enter e payload pts stamp caps (sy_session y) = (Some r, s) \<Longrightarrow> session_run (y\<lparr>sy_session := s\<rparr>)"
| Enter: "session_run y \<Longrightarrow> sy_push y = None \<Longrightarrow>
    push_enter e payload pts stamp caps (sy_session y) = (None, s) \<Longrightarrow>
    session_run (y\<lparr>sy_session := s, sy_push := Some (payload, pts, stamp)\<rparr>)"
| Exit: "session_run y \<Longrightarrow> sy_push y = Some (payload, pts, stamp) \<Longrightarrow>
    Fed_EOS \<in> set (rs_fed (sy_session y)) \<longrightarrow> flow \<noteq> Flow_OK \<Longrightarrow>
    session_run (y\<lparr>sy_session := snd (push_exit flow payload pts stamp (sy_session y)), sy_push := None\<rparr>)"
| Close_first: "session_run y \<Longrightarrow> sy_close y = None \<Longrightarrow> \<not> rs_closed (sy_session y) \<Longrightarrow>
    session_run (y\<lparr>sy_session := close_first (sy_session y), sy_close := Some (eos_early (sy_session y))\<rparr>)"
| Close_second: "session_run y \<Longrightarrow> sy_close y = Some eos_sent \<Longrightarrow> sy_push y = None \<Longrightarrow>
    session_run (y\<lparr>sy_session := close_second eos_sent (sy_session y), sy_close := None\<rparr>)"
| Finish: "session_run y \<Longrightarrow> sy_close y = None \<Longrightarrow> rs_closed (sy_session y) \<Longrightarrow>
    session_run (y\<lparr>sy_session := snd (finish_close t d disk json_ok now (sy_session y))\<rparr>)"
| Writer: "session_run y \<Longrightarrow>
    session_run (y\<lparr>sy_session := (sy_session y)\<lparr>rs_sidecar := writer_act b (rs_sidecar (sy_session y))\<rparr>\<rparr>)"
| Bus: "session_run y \<Longrightarrow> session_run (y\<lparr>sy_session := session_on_bus m (sy_session y)\<rparr>)"

fun is_buffer :: "fed \<Rightarrow> bool" where
  "is_buffer (Fed_Buffer _ _ _) = True"
| "is_buffer _ = False"

definition buffers :: "fed list \<Rightarrow> nat" where
  "buffers fs = length (filter is_buffer fs)"

text \<open>EOS at most once, and nothing after it.\<close>

definition eos_last :: "fed list \<Rightarrow> bool" where
  "eos_last fs \<longleftrightarrow> (\<exists>init. Fed_EOS \<notin> set init \<and> (fs = init \<or> fs = init @ [Fed_EOS]))"

definition phase_ok ::
  "bool \<Rightarrow> bool option \<Rightarrow> bool \<Rightarrow> bool \<Rightarrow> bool \<Rightarrow> bool \<Rightarrow> nat \<Rightarrow> bool \<Rightarrow> bool" where
  "phase_ok pushing close closing shut pipeline eos frames started \<longleftrightarrow>
     (pipeline \<longrightarrow> started) \<and> (pushing \<longrightarrow> pipeline \<and> \<not> shut) \<and> (shut \<longrightarrow> closing)
     \<and> (\<not> shut \<longrightarrow> pipeline) \<and> close = (if closing \<and> \<not> shut then Some eos else None)
     \<and> (\<not> closing \<longrightarrow> \<not> eos) \<and> (eos \<longrightarrow> 0 < frames) \<and> (shut \<and> 0 < frames \<longrightarrow> eos)"

definition eos_sent :: "session \<Rightarrow> bool" where
  "eos_sent s \<longleftrightarrow> Fed_EOS \<in> set (rs_fed s)"

definition sys_phase :: "session_sys \<Rightarrow> bool" where
  "sys_phase y =
     (let s = sy_session y in
      phase_ok (sy_push y \<noteq> None) (sy_close y) (rs_closing s) (rs_closed s) (rs_pipeline s) (eos_sent s)
        (rs_frames s) (sw_started (rs_sidecar s)))"

definition session_ok :: "session_sys \<Rightarrow> bool" where
  "session_ok y \<longleftrightarrow>
     (let s = sy_session y in
        buffers (rs_fed s) = rs_frames s \<and> eos_last (rs_fed s)
      \<and> csv_sink.in_step (rs_frames s) (rs_sidecar s)) \<and> sys_phase y"

lemma eos_last_snoc: "Fed_EOS \<notin> set fs \<Longrightarrow> eos_last (fs @ [x])"
  by (cases x) (force simp: eos_last_def)+

lemma eos_last_plain [simp]: "Fed_EOS \<notin> set fs \<Longrightarrow> eos_last fs"
  by (auto simp: eos_last_def)

lemma buffers_simps [simp]:
  "buffers [] = 0" "buffers (xs @ ys) = buffers xs + buffers ys" "buffers [Fed_EOS] = 0"
  "buffers [Fed_Caps c] = 0" "buffers [Fed_Buffer a b d] = 1"
  by (simp_all add: buffers_def)

lemma key_gate_fields:
  "key_gate p c s = (r, s') \<Longrightarrow>
     (\<forall>t\<in>set_option r \<union> {s'}. rs_fed t = rs_fed s \<and> rs_frames t = rs_frames s \<and> rs_sidecar t = rs_sidecar s
       \<and> rs_closing t = rs_closing s \<and> rs_closed t = rs_closed s \<and> rs_pipeline t = rs_pipeline s)"
  by (auto simp: key_gate_def Let_def split: if_splits prod.splits)

lemma apply_caps_fields [simp]:
  "rs_frames (apply_caps c s) = rs_frames s" "rs_sidecar (apply_caps c s) = rs_sidecar s"
  "rs_closing (apply_caps c s) = rs_closing s" "rs_closed (apply_caps c s) = rs_closed s"
  "rs_pipeline (apply_caps c s) = rs_pipeline s"
  "buffers (rs_fed (apply_caps c s)) = buffers (rs_fed s)"
  "Fed_EOS \<in> set (rs_fed (apply_caps c s)) \<longleftrightarrow> Fed_EOS \<in> set (rs_fed s)"
  by (auto simp: apply_caps_def split: option.split)

lemma record_error_fields [simp]:
  "rs_frames (record_error e s) = rs_frames s" "rs_sidecar (record_error e s) = rs_sidecar s"
  "rs_closing (record_error e s) = rs_closing s" "rs_closed (record_error e s) = rs_closed s"
  "rs_pipeline (record_error e s) = rs_pipeline s" "rs_fed (record_error e s) = rs_fed s"
  by (simp_all add: record_error_def)

text \<open>Entering: nothing is fed but caps, and a push goes on only while the session accepts frames.\<close>

lemma push_enter_fields:
  assumes "push_enter e p pts stamp c s = (r, s')"
  shows "rs_frames s' = rs_frames s \<and> rs_sidecar s' = rs_sidecar s \<and> rs_closing s' = rs_closing s
    \<and> rs_closed s' = rs_closed s \<and> rs_pipeline s' = rs_pipeline s
    \<and> buffers (rs_fed s') = buffers (rs_fed s)
    \<and> (Fed_EOS \<in> set (rs_fed s') \<longleftrightarrow> Fed_EOS \<in> set (rs_fed s))
    \<and> (rs_closing s \<longrightarrow> rs_fed s' = rs_fed s)
    \<and> (r = None \<longrightarrow> \<not> rs_closing s \<and> \<not> rs_closed s \<and> rs_pipeline s)"
proof (cases "rs_closing s \<or> rs_closed s \<or> rs_error s \<noteq> None \<or> \<not> rs_pipeline s")
  case True
  with assms show ?thesis by (auto simp: push_enter_def)
next
  case False
  obtain t t' where g: "key_gate p c s = (t, t')" by fastforce
  note k = key_gate_fields [OF g]
  show ?thesis
  proof (cases t)
    case None
    with assms g False k show ?thesis by (auto simp: push_enter_def)
  next
    case (Some u)
    with assms g False k show ?thesis
      by (auto simp: push_enter_def Let_def split: if_splits option.splits)
  qed
qed

section \<open>What a push keeps and counts\<close>

lemma key_gate_keeps:
  "key_gate payload c s = (r, s') \<Longrightarrow> \<forall>t\<in>set_option r \<union> {s'}. rs_index t = rs_index s \<and> rs_prefix t = rs_prefix s"
  by (auto simp: key_gate_def Let_def split: if_splits prod.splits)

lemma apply_caps_keeps [simp]:
  "rs_index (apply_caps c s) = rs_index s" "rs_prefix (apply_caps c s) = rs_prefix s" "rs_pipeline (apply_caps c s) = rs_pipeline s"
  "rs_error (apply_caps c s) = rs_error s"
  by (auto simp: apply_caps_def split: option.splits)

lemma record_error_keeps [simp]:
  "rs_index (record_error m s) = rs_index s" "rs_prefix (record_error m s) = rs_prefix s"
  by (auto simp: record_error_def)

definition same_run :: "session \<Rightarrow> session \<Rightarrow> bool" where
  "same_run s t \<longleftrightarrow> rs_index t = rs_index s \<and> rs_prefix t = rs_prefix s \<and> rs_closing t = rs_closing s
     \<and> rs_closed t = rs_closed s \<and> rs_pipeline t = rs_pipeline s"

lemma push_enter_ids:
  assumes "push_enter e payload pts stamp c s = (r, s')"
  shows "rs_index s' = rs_index s \<and> rs_prefix s' = rs_prefix s"
proof (cases "rs_closing s \<or> rs_closed s \<or> rs_error s \<noteq> None \<or> \<not> rs_pipeline s")
  case True
  with assms show ?thesis by (auto simp: push_enter_def)
next
  case False
  obtain t t' where g: "key_gate payload c s = (t, t')" by fastforce
  note k = key_gate_keeps [OF g]
  show ?thesis
  proof (cases t)
    case None
    with assms g False have "s' = t'" by (simp add: push_enter_def)
    with k show ?thesis by simp
  next
    case (Some u)
    with assms g False have "rs_index s' = rs_index u \<and> rs_prefix s' = rs_prefix u"
      by (auto simp: push_enter_def Let_def split: if_splits option.splits)
    with k Some show ?thesis by simp
  qed
qed

lemma push_enter_keeps:
  "push_enter e payload pts stamp c s = (r, s') \<Longrightarrow> same_run s s' \<and> rs_frames s' = rs_frames s"
  using push_enter_fields push_enter_ids by (simp add: same_run_def)

lemma push_exit_keeps:
  "push_exit fl payload pts stamp s = (r, s') \<Longrightarrow> same_run s s' \<and> rs_frames s' = rs_frames s + (if r = Push_OK then 1 else 0)"
  by (auto simp: push_exit_def same_run_def split: if_splits)

lemma push_enter_result:
  assumes "push_enter e payload pts stamp c s = (Some r, s')"
  shows "r \<noteq> Push_OK"
proof (cases "rs_closing s \<or> rs_closed s \<or> rs_error s \<noteq> None \<or> \<not> rs_pipeline s")
  case True
  with assms show ?thesis by (auto simp: push_enter_def)
next
  case False
  obtain g sg where g: "key_gate payload c s = (g, sg)" by fastforce
  with assms False show ?thesis
    by (cases g) (auto simp: push_enter_def Let_def split: if_splits option.splits)
qed

lemma push_keeps:
  assumes "push e payload pts stamp c s = (r, s')"
  shows "same_run s s' \<and> rs_frames s' = rs_frames s + (if r = Push_OK then 1 else 0)"
proof -
  obtain o1 s1 where en: "push_enter e payload pts stamp c s = (o1, s1)" by fastforce
  note k = push_enter_keeps[OF en]
  show ?thesis
  proof (cases o1)
    case None
    then have "push_exit (pe_flow e) payload pts stamp s1 = (r, s')" using assms en by (simp add: push_def)
    from push_exit_keeps[OF this] k show ?thesis by (auto simp: same_run_def)
  next
    case (Some r1)
    then have "r = r1" "s' = s1" using assms en by (simp_all add: push_def)
    with k Some push_enter_result en show ?thesis by auto
  qed
qed

lemma finish_close_fields:
  "rs_fed (snd (finish_close t d disk j now s)) = rs_fed s"
  "rs_frames (snd (finish_close t d disk j now s)) = rs_frames s"
  "rs_closing (snd (finish_close t d disk j now s)) = rs_closing s"
  "rs_closed (snd (finish_close t d disk j now s)) = rs_closed s"
  "\<not> rs_pipeline (snd (finish_close t d disk j now s))"
  "rs_sidecar (snd (finish_close t d disk j now s)) = sidecar_stop (rs_sidecar s)"
  by (auto simp: finish_close_def drain_eos_def teardown_pipeline_def Let_def split: drain.split)

lemma in_step_stop: "csv_sink.in_step n w \<Longrightarrow> csv_sink.in_step n (sidecar_stop w)"
  by (auto simp: csv_sink.in_step_def sidecar_stop_def rows_taken_def writer_defs)

lemma session_ok_start:
  assumes "session_start mkdir_ok launch drops (new_session index pfx base encoded) = (None, s)"
  shows "session_ok \<lparr>sy_session = s, sy_push = None, sy_close = None\<rparr>"
proof -
  from assms obtain block where "s = (new_session index pfx base encoded)
      \<lparr>rs_drops_at_start := Some drops, rs_sidecar := sidecar_start new_sidecar, rs_pipeline := True, rs_block := block\<rparr>"
    by (auto simp: session_start_def new_session_def Let_def split: if_splits launch.splits)
  then show ?thesis
    by (simp add: session_ok_def sys_phase_def phase_ok_def eos_sent_def new_session_def csv_sink.in_step_def
        rows_taken_def sidecar_start_def new_sidecar_def queued_def)
qed

lemma session_okI:
  "buffers (rs_fed (sy_session y)) = rs_frames (sy_session y) \<Longrightarrow> eos_last (rs_fed (sy_session y)) \<Longrightarrow>
   csv_sink.in_step (rs_frames (sy_session y)) (rs_sidecar (sy_session y)) \<Longrightarrow> sys_phase y \<Longrightarrow> session_ok y"
  by (simp add: session_ok_def)

lemma session_okD:
  assumes "session_ok y"
  shows "buffers (rs_fed (sy_session y)) = rs_frames (sy_session y)" "eos_last (rs_fed (sy_session y))"
    "csv_sink.in_step (rs_frames (sy_session y)) (rs_sidecar (sy_session y))" "sys_phase y"
  using assms by (simp_all add: session_ok_def Let_def)

text \<open>The phase changes, on the flags alone.\<close>

lemma phase_enter: "phase_ok p cl clg cld pl e n st \<Longrightarrow> \<not> clg \<Longrightarrow> \<not> cld \<Longrightarrow> pl \<Longrightarrow> phase_ok True cl clg cld pl e n st"
  and phase_leave: "phase_ok p cl clg cld pl e n st \<Longrightarrow> phase_ok False cl clg cld pl e n st"
  and phase_push: "phase_ok True cl clg cld pl False n st \<Longrightarrow> phase_ok False cl clg cld pl False (Suc n) st"
  and phase_close_first: "phase_ok p None clg False pl e n st \<Longrightarrow>
    phase_ok p (Some (pl \<and> 0 < n \<and> b)) True False pl (pl \<and> 0 < n \<and> b) n st"
  and phase_close_second: "phase_ok False (Some x) clg cld pl e n st \<Longrightarrow>
    phase_ok False None clg True pl (e \<or> pl \<and> n \<noteq> 0 \<and> \<not> x) n st"
  and phase_finish: "phase_ok p None clg True pl e n st \<Longrightarrow> phase_ok p None clg True False e n st'"
  by (auto simp: phase_ok_def split: if_splits)

lemma phase_facts:
  "phase_ok p cl clg cld pl e n st \<Longrightarrow> cl = None \<Longrightarrow> \<not> cld \<Longrightarrow> \<not> clg \<and> \<not> e"
  "phase_ok p cl clg cld pl e n st \<Longrightarrow> cl = Some x \<Longrightarrow> x = e \<and> clg \<and> \<not> cld \<and> pl"
  "phase_ok p cl clg cld pl e n st \<Longrightarrow> p \<Longrightarrow> st \<and> pl \<and> \<not> cld"
  "phase_ok p cl clg cld pl e n st \<Longrightarrow> cld \<Longrightarrow> e \<longleftrightarrow> 0 < n"
  "phase_ok p cl clg cld pl e n st \<Longrightarrow> \<not> clg \<Longrightarrow> \<not> e"
  by (auto simp: phase_ok_def split: if_splits)

lemma sys_phase_iff: "sys_phase y \<longleftrightarrow> phase_ok (sy_push y \<noteq> None) (sy_close y) (rs_closing (sy_session y))
    (rs_closed (sy_session y)) (rs_pipeline (sy_session y)) (eos_sent (sy_session y)) (rs_frames (sy_session y))
    (sw_started (rs_sidecar (sy_session y)))"
  by (simp add: sys_phase_def Let_def)

lemma session_ok_enter:
  assumes "session_ok y" "sy_push y = None" "push_enter e p pts stamp c (sy_session y) = (r, s)"
  shows "session_ok (y\<lparr>sy_session := s, sy_push := (if r = None then Some (p, pts, stamp) else None)\<rparr>)"
proof (rule session_okI)
  note f = push_enter_fields [OF assms(3)] and ok = session_okD [OF assms(1)]
  let ?y = "y\<lparr>sy_session := s, sy_push := (if r = None then Some (p, pts, stamp) else None)\<rparr>"
  show "buffers (rs_fed (sy_session ?y)) = rs_frames (sy_session ?y)" using f ok(1) by simp
  show "csv_sink.in_step (rs_frames (sy_session ?y)) (rs_sidecar (sy_session ?y))" using f ok(3) by simp
  show "eos_last (rs_fed (sy_session ?y))"
  proof (cases "rs_closing (sy_session y)")
    case True
    with f ok(2) show ?thesis by simp
  next
    case False
    from phase_facts(5) [OF ok(4) [unfolded sys_phase_iff] this]
    have "Fed_EOS \<notin> set (rs_fed (sy_session y))" by (simp add: eos_sent_def)
    with f show ?thesis by simp
  qed
  show "sys_phase ?y"
    using f ok(4) assms(2) phase_enter
    by (cases r) (auto simp: sys_phase_def Let_def eos_sent_def)
qed

lemma session_ok_exit:
  assumes "session_ok y" "sy_push y = Some (p, pts, stamp)"
    "Fed_EOS \<in> set (rs_fed (sy_session y)) \<longrightarrow> flow \<noteq> Flow_OK"
  shows "session_ok (y\<lparr>sy_session := snd (push_exit flow p pts stamp (sy_session y)), sy_push := None\<rparr>)"
proof (cases "flow = Flow_OK")
  case True
  let ?s = "sy_session y"
  note ok = session_okD [OF assms(1)]
  from assms True have no: "Fed_EOS \<notin> set (rs_fed ?s)" by simp
  then have e: "eos_sent ?s = False" by (simp add: eos_sent_def)
  have ph: "phase_ok True (sy_close y) (rs_closing ?s) (rs_closed ?s) (rs_pipeline ?s) False (rs_frames ?s)
      (sw_started (rs_sidecar ?s))"
    using ok(4) assms(2) e by (simp add: sys_phase_def Let_def)
  from csv_sink.in_step_offer [OF conjunct1 [OF phase_facts(3) [OF ph TrueI]] ok(3), of "(stamp, pts)"]
  have step: "csv_sink.in_step (Suc (rs_frames ?s)) (sidecar_add stamp pts (rs_sidecar ?s))" by simp
  have started: "sw_started (sidecar_add stamp pts w) = sw_started w" for w
    by (simp add: sidecar_add_def put_row_def)
  show ?thesis
  proof (rule session_okI)
    let ?y = "y\<lparr>sy_session := snd (push_exit flow p pts stamp (sy_session y)), sy_push := None\<rparr>"
    show "buffers (rs_fed (sy_session ?y)) = rs_frames (sy_session ?y)" using ok(1) True by (simp add: push_exit_def)
    show "eos_last (rs_fed (sy_session ?y))" using True no by (simp add: push_exit_def eos_last_snoc)
    show "csv_sink.in_step (rs_frames (sy_session ?y)) (rs_sidecar (sy_session ?y))"
      using True step by (simp add: push_exit_def)
    show "sys_phase ?y" using phase_push [OF ph] True no
      by (simp add: sys_phase_def push_exit_def started eos_sent_def)
  qed
next
  case False
  then have "snd (push_exit flow p pts stamp (sy_session y)) = sy_session y" by (simp add: push_exit_def)
  with session_okD [OF assms(1)] show ?thesis
    using phase_leave by (intro session_okI) (auto simp: sys_phase_def Let_def)
qed

lemma session_ok_close_first:
  assumes "session_ok y" "sy_close y = None" "\<not> rs_closed (sy_session y)"
  shows "session_ok (y\<lparr>sy_session := close_first (sy_session y), sy_close := Some (eos_early (sy_session y))\<rparr>)"
proof -
  let ?s = "sy_session y"
  note ok = session_okD [OF assms(1)]
  have ph: "phase_ok (sy_push y \<noteq> None) None (rs_closing ?s) False (rs_pipeline ?s) (eos_sent ?s) (rs_frames ?s)
      (sw_started (rs_sidecar ?s))"
    using ok(4) assms(2,3) by (simp add: sys_phase_def Let_def)
  from phase_facts(1) [OF this] have no: "Fed_EOS \<notin> set (rs_fed ?s)" by (simp add: eos_sent_def)
  show ?thesis using ok(1,3) no phase_close_first [OF ph, of "rs_block ?s"] assms(3)
    by (intro session_okI) (auto simp: sys_phase_def Let_def close_first_def eos_early_def eos_last_snoc eos_sent_def)
qed

lemma session_ok_close_second:
  assumes "session_ok y" "sy_close y = Some x" "sy_push y = None"
  shows "session_ok (y\<lparr>sy_session := close_second x (sy_session y), sy_close := None\<rparr>)"
proof -
  let ?s = "sy_session y"
  note ok = session_okD [OF assms(1)]
  have ph: "phase_ok False (Some x) (rs_closing ?s) (rs_closed ?s) (rs_pipeline ?s) (eos_sent ?s) (rs_frames ?s)
      (sw_started (rs_sidecar ?s))"
    using ok(4) assms(2,3) by (simp add: sys_phase_def Let_def)
  have last: "eos_last (rs_fed (close_second x ?s))"
    using ok(2) phase_facts(2) [OF ph refl] by (auto simp: close_second_def eos_last_snoc eos_sent_def)
  have sent: "eos_sent (close_second x ?s) \<longleftrightarrow> eos_sent ?s \<or> rs_pipeline ?s \<and> rs_frames ?s \<noteq> 0 \<and> \<not> x"
    by (simp add: close_second_def eos_sent_def)
  show ?thesis
  proof (rule session_okI)
    show "sys_phase (y\<lparr>sy_session := close_second x ?s, sy_close := None\<rparr>)"
      using phase_close_second [OF ph] sent assms(3) by (simp add: sys_phase_def close_second_def)
  qed (use ok(1,3) last in \<open>simp_all add: close_second_def\<close>)
qed

lemma session_ok_finish:
  assumes "session_ok y" "sy_close y = None" "rs_closed (sy_session y)"
  shows "session_ok (y\<lparr>sy_session := snd (finish_close t d disk j now (sy_session y))\<rparr>)"
  using session_okD [OF assms(1)] in_step_stop assms(2,3) phase_finish
  by (intro session_okI) (auto simp: sys_phase_def Let_def finish_close_fields eos_sent_def)

lemma session_ok_writer:
  assumes "session_ok y"
  shows "session_ok (y\<lparr>sy_session := (sy_session y)\<lparr>rs_sidecar := writer_act b (rs_sidecar (sy_session y))\<rparr>\<rparr>)"
  using session_okD [OF assms] csv_sink.in_step_background [of _ _ b] csv_sink.background_ready [of b]
  by (intro session_okI) (auto simp: sys_phase_def Let_def eos_sent_def)

lemma session_ok_bus: "session_ok y \<Longrightarrow> session_ok (y\<lparr>sy_session := session_on_bus m (sy_session y)\<rparr>)"
  using session_okD [of y]
  by (cases m; intro session_okI) (auto simp: sys_phase_def Let_def session_on_bus_def eos_sent_def)

lemma session_run_ok: "session_run y \<Longrightarrow> session_ok y"
proof (induction rule: session_run.induct)
  case (Enter_done y e payload pts stamp caps r s)
  from session_ok_enter [OF Enter_done.IH Enter_done.hyps(2,3)] Enter_done.hyps(2)
  show ?case by (simp add: session_ok_def sys_phase_def)
next
  case (Enter y e payload pts stamp caps s)
  from session_ok_enter [OF Enter.IH Enter.hyps(2,3)] show ?case by simp
qed (auto intro: session_ok_start session_ok_exit session_ok_close_first session_ok_close_second
    session_ok_finish session_ok_writer session_ok_bus)

text \<open>C7: the session accounts for what it recorded.  In every interleaving of the feed, the close,
  the sidecar's writer and the bus: the frame count is the number of buffers the muxer was given and,
  unless the sidecar failed, the number of its rows; EOS is sent at most once, nothing follows it,
  and once closed it was sent exactly if frames were recorded; and while a close waits for a push
  that may be blocked (frames queued in a blocking feed), the EOS that wakes it has been sent.\<close>

theorem session_accounting:
  assumes "session_run y"
  shows "rs_frames (sy_session y) = buffers (rs_fed (sy_session y))
    \<and> (sw_failed (rs_sidecar (sy_session y)) \<or> rows_taken (rs_sidecar (sy_session y)) = rs_frames (sy_session y))
    \<and> eos_last (rs_fed (sy_session y))
    \<and> (rs_closed (sy_session y) \<longrightarrow> (Fed_EOS \<in> set (rs_fed (sy_session y)) \<longleftrightarrow> 0 < rs_frames (sy_session y)))
    \<and> (sy_close y = Some True \<longrightarrow> Fed_EOS \<in> set (rs_fed (sy_session y)))"
  proof -
  note ok = session_okD [OF session_run_ok [OF assms]]
  note ph = ok(4) [unfolded sys_phase_iff eos_sent_def]
  show ?thesis using ok(1-3) phase_facts(2) [OF ph] phase_facts(4) [OF ph]
    by (auto simp: csv_sink.in_step_def)
qed

definition demo_session :: session where
  "demo_session = snd (session_start True (Launched False) [] (new_session 1 ''cam'' ''/d/cam'' False))"

definition demo_header :: sidecar_header where
  "demo_header = \<lparr>sh_created_unix_s = 0, sh_base_timestamp_ns = 500, sh_timestamp_source = ''system'',
     sh_ptp_synced = False, sh_pixel_format = ''Mono8'', sh_bayer_pattern = None, sh_bits_per_pixel = 8,
     sh_width = 2, sh_height = 1, sh_tick_frequency_hz = 0, sh_cfa_tile_mode = ''off'', sh_session_index = 1,
     sh_session_prefix = ''cam'', sh_first_pts_ns = 0, sh_first_frame_id = 7, sh_first_timestamp_ns = 500,
     sh_pts_offset_ns = 0, sh_replay_of = None, sh_replay_epoch_unix_ns = None, sh_recording_encoder = None,
     sh_recording_lossy = None, sh_recording_settings = None, sh_recording_settings_file = None\<rparr>"

definition demo_env :: push_env where
  "demo_env = \<lparr>pe_max_bytes = 100, pe_level = 0, pe_header = demo_header, pe_header_ok = True, pe_flow = Flow_OK\<rparr>"

definition demo_fs :: frame_stamp where
  "demo_fs = \<lparr>fs_frame_id = 7, fs_timestamp_ns = 500, fs_source = SYSTEM, fs_system_ns = 500,
     fs_camera_ns = 0, fs_chunk_ns = None\<rparr>"

definition demo_entered :: session where
  "demo_entered = snd (push_enter demo_env [1, 2] 0 demo_fs None demo_session)"

definition demo_pushed :: session where
  "demo_pushed = snd (push_exit Flow_OK [1, 2] 0 demo_fs demo_entered)"

lemma demo_session_run: "session_run \<lparr>sy_session = demo_pushed, sy_push = None, sy_close = None\<rparr>"
proof -
  have "session_start True (Launched False) [] (new_session 1 ''cam'' ''/d/cam'' False) = (None, demo_session)"
    by (simp add: demo_session_def session_start_def Let_def)
  then have 0: "session_run \<lparr>sy_session = demo_session, sy_push = None, sy_close = None\<rparr>" by (rule Started)
  have "push_enter demo_env [1, 2] 0 demo_fs None demo_session = (None, demo_entered)"
    by (simp add: demo_entered_def demo_session_def session_start_def new_session_def push_enter_def Let_def
        key_gate_def apply_caps_def demo_env_def write_header_def)
  from Enter [OF 0 _] this
  have 1: "session_run \<lparr>sy_session = demo_entered, sy_push = Some ([1, 2], 0, demo_fs), sy_close = None\<rparr>" by fastforce
  have "Fed_EOS \<notin> set (rs_fed demo_entered)"
    by (simp add: demo_entered_def demo_session_def session_start_def new_session_def push_enter_def Let_def
        key_gate_def apply_caps_def demo_env_def write_header_def)
  with Exit [OF 1, of "[1, 2]" 0 demo_fs Flow_OK] show ?thesis by (simp add: demo_pushed_def)
qed

theorem session_accounting_witness:
  "rs_frames demo_pushed = 1 \<and> buffers (rs_fed demo_pushed) = 1 \<and> eos_last (rs_fed demo_pushed)"
proof -
  have "rs_frames demo_pushed = 1"
    by (simp add: demo_pushed_def push_exit_def demo_entered_def demo_session_def session_start_def
        new_session_def push_enter_def Let_def key_gate_def apply_caps_def demo_env_def write_header_def)
  with session_accounting [OF demo_session_run] show ?thesis by simp
qed


section \<open>What a close attests\<close>

lemma merge_segments_facts:
  "set (merge_segments seen disk) = set seen \<union> set disk" "distinct (merge_segments seen disk)"
  by (simp_all add: merge_segments_def)

lemma drain_keeps [simp]:
  "rs_frames (drain_eos t d s) = rs_frames s" "rs_segments (drain_eos t d s) = rs_segments s"
  "rs_json (drain_eos t d s) = rs_json s" "rs_sidecar (drain_eos t d s) = rs_sidecar s"
  by (simp_all add: drain_eos_def split: drain.split)

lemma sidecar_stop_failed [simp]: "sw_failed (sidecar_stop w) = sw_failed w"
  by (simp add: sidecar_stop_def stop_put_def stop_join_def)

text \<open>a close attests what happened.  The files reported are exactly those the bus announced or
  the disk holds, each once; the frame count is the session's; an error-free session with recorded
  frames that was not already drained is reported untruncated exactly if its EOS drained within the
  budget; and a close that recorded nothing reports no truncation.\<close>

theorem close_attests:
  assumes "finish_close t d disk json_ok now s = (info, s')" "rs_error s = None" "\<not> rs_truncated s" "rs_pipeline s"
  shows "set (ci_files info) = set (rs_segments s) \<union> set disk \<and> distinct (ci_files info)
    \<and> ci_segments info = length (ci_files info) \<and> ci_frames info = rs_frames s
    \<and> (0 < rs_frames s \<and> \<not> rs_eos_seen s \<longrightarrow> (\<not> ci_truncated info \<longleftrightarrow> 0 < t \<and> d = Drained))
    \<and> (rs_frames s = 0 \<or> rs_eos_seen s \<longrightarrow> \<not> ci_truncated info \<and> ci_error info = None)
    \<and> \<not> rs_pipeline s'"
proof -
  have info: "info = \<lparr>ci_frames = rs_frames s, ci_segments = length (merge_segments (rs_segments s) disk),
      ci_truncated = rs_truncated (drain_eos t d s), ci_error = rs_error (drain_eos t d s),
      ci_files = merge_segments (rs_segments s) disk\<rparr>"
    using assms(1) by (auto simp: finish_close_def teardown_pipeline_def Let_def)
  have down: "\<not> rs_pipeline s'" using finish_close_fields(5) [of t d disk json_ok now s] assms(1) by simp
  have "0 < rs_frames s \<and> \<not> rs_eos_seen s \<longrightarrow> (\<not> rs_truncated (drain_eos t d s) \<longleftrightarrow> 0 < t \<and> d = Drained)"
    using assms(2-4) by (cases d) (auto simp: drain_eos_def)
  moreover have "rs_frames s = 0 \<or> rs_eos_seen s \<longrightarrow>
      \<not> rs_truncated (drain_eos t d s) \<and> rs_error (drain_eos t d s) = None"
    using assms(2-4) by (auto simp: drain_eos_def)
  ultimately show ?thesis using down by (simp add: info merge_segments_facts)
qed

theorem close_attests_witness:
  "ci_files (fst (finish_close 5 Drained [''b'', ''a''] True [] (begin_close demo_pushed))) = [''a'', ''b'']
   \<and> \<not> ci_truncated (fst (finish_close 5 Drained [''b'', ''a''] True [] (begin_close demo_pushed)))"
proof
  show "ci_files (fst (finish_close 5 Drained [''b'', ''a''] True [] (begin_close demo_pushed))) = [''a'', ''b'']"
    by code_simp
  let ?s = "begin_close demo_pushed"
  obtain info s' where f: "finish_close 5 Drained [''b'', ''a''] True [] ?s = (info, s')" by fastforce
  have "rs_error ?s = None" "\<not> rs_truncated ?s" "rs_pipeline ?s" "0 < rs_frames ?s" "\<not> rs_eos_seen ?s"
    by code_simp+
  with close_attests [OF f] f
  show "\<not> ci_truncated (fst (finish_close 5 Drained [''b'', ''a''] True [] (begin_close demo_pushed)))" by simp
qed

section \<open>A dropped keyframe opens the gate\<close>

definition h264_caps :: "string option" where
  "h264_caps = Some ''video/x-h264, stream-format=(string)byte-stream''"

definition encoded_session :: session where
  "encoded_session = snd (session_start True (Launched False) [] (new_session 1 ''cam'' ''/d/cam'' True))"

text \<open>the sync-point gate can open on a frame that is then lost.  The gate flag is cleared
  before the frame is accepted: when the muxer feed refuses the keyframe (it is counted as dropped),
  the next frame is recorded first although it is not a sync point.\<close>

theorem dropped_keyframe_opens_gate:
  "let (r1, s1) = push (demo_env\<lparr>pe_flow := Flow_Other\<rparr>) [0, 0, 1, 0x65] 0 demo_fs h264_caps encoded_session;
       (r2, s2) = push demo_env [0, 0, 1, 0x41] 1 demo_fs h264_caps s1
   in r1 = Push_DROPPED \<and> r2 = Push_OK
      \<and> [f \<leftarrow> rs_fed s2. is_buffer f] = [Fed_Buffer [0, 0, 1, 0x41] 1 7]
      \<and> \<not> is_sync_point (Some ''video/x-h264'') [0, 0, 1, 0x41] (Some ''byte-stream'') 4"
  by code_simp

end
