(* ===== verification/Capture_Timeline.thy ===== *)
theory Capture_Timeline
  imports Drop_Stats Timestamps
begin

text \<open>
  The time bases of \<open>CapturePipeline\<close> (\<open>core-driver/cam_driver/pipeline.py\<close>): the recording
  PTS with its memo and discontinuity skew (\<open>_pts_for\<close>), the transport PTS (\<open>_transport_pts\<close>),
  the publish rate gate (\<open>_publish_every_n\<close>, \<open>_should_publish\<close>) and the bounded feeds
  (\<open>_queue_full\<close>, \<open>_push_checked\<close>).  Clock readings are arguments, floats are rationals, and the
  throttled warnings are left out.
\<close>

definition MAX_PTS_JUMP_NS :: int where
  "MAX_PTS_JUMP_NS = 60 * 1000000000"

definition PTS_MEMO_FRAMES :: nat where
  "PTS_MEMO_FRAMES = 256"

section \<open>The recording timeline\<close>

type_synonym pts_key = "int \<times> int"

record timeline =
  tl_base_ts :: "int option"
  tl_last_pts :: "int option"
  tl_pts_skew :: int
  tl_pts_memo :: "(pts_key \<times> int) list"   \<comment> \<open>\<open>OrderedDict\<close>, oldest first\<close>
  tl_frame_interval_ns :: int
  tl_drops :: drop_stats

definition new_timeline :: "int \<Rightarrow> timeline" where
  "new_timeline interval = \<lparr>tl_base_ts = None, tl_last_pts = None, tl_pts_skew = 0, tl_pts_memo = [],
     tl_frame_interval_ns = interval, tl_drops = new_drop_stats\<rparr>"

definition stamp_key :: "frame_stamp \<Rightarrow> pts_key" where
  "stamp_key stamp = (fs_frame_id stamp, fs_timestamp_ns stamp)"

text \<open>The insertion of a computed PTS, bounded.\<close>

definition memo_put :: "pts_key \<Rightarrow> int \<Rightarrow> (pts_key \<times> int) list \<Rightarrow> (pts_key \<times> int) list" where
  "memo_put key pts memo = (let m = memo @ [(key, pts)] in drop (length m - PTS_MEMO_FRAMES) m)"

text \<open>The owner's PTS once the base is known: a step backward or beyond the jump limit goes into the skew.\<close>

definition pts_step :: "int \<Rightarrow> timeline \<Rightarrow> int \<times> timeline" where
  "pts_step pts s =
     (let (pts, s) =
        (case tl_last_pts s of
           None \<Rightarrow> (pts, s)
         | Some last_pts \<Rightarrow>
             let delta = pts - last_pts in
             if delta \<le> 0 \<or> delta > MAX_PTS_JUMP_NS then
               let target = last_pts + tl_frame_interval_ns s in
               (target, s\<lparr>tl_pts_skew := tl_pts_skew s + (target - pts), tl_drops := note_pts_rebase (tl_drops s)\<rparr>)
             else (pts, s))
      in (if pts < 0 then 0 else pts, s))"

definition pts_for :: "frame_stamp \<Rightarrow> bool \<Rightarrow> timeline \<Rightarrow> int \<times> timeline" where
  "pts_for stamp own s =
     (let key = stamp_key stamp; ts = fs_timestamp_ns stamp in
      case map_of (tl_pts_memo s) key of
        Some pts \<Rightarrow> (pts, s)
      | None \<Rightarrow>
          if \<not> own then
            (case tl_base_ts s of None \<Rightarrow> 0 | Some base \<Rightarrow> max 0 (ts - base + tl_pts_skew s), s)
          else
            let base = (case tl_base_ts s of None \<Rightarrow> ts | Some b \<Rightarrow> b);
                s = s\<lparr>tl_base_ts := Some base\<rparr>;
                (pts, s) = pts_step (ts - base + tl_pts_skew s) s
            in (pts, s\<lparr>tl_last_pts := Some pts, tl_pts_memo := memo_put key pts (tl_pts_memo s)\<rparr>))"

text \<open>A reconnect drops the memo (\<open>_reconnect_loop\<close>).\<close>

definition clear_memo :: "timeline \<Rightarrow> timeline" where
  "clear_memo s = s\<lparr>tl_pts_memo := []\<rparr>"

section \<open>The transport timeline\<close>

record transport_clock =
  tc_shift_ns :: int
  tc_last :: "int option"
  tc_last_mono :: rat

definition new_transport_clock :: transport_clock where
  "new_transport_clock = \<lparr>tc_shift_ns = 0, tc_last = None, tc_last_mono = 0\<rparr>"

definition wall_step :: "rat \<Rightarrow> transport_clock \<Rightarrow> int" where
  "wall_step now c = max (trunc_rat ((now - tc_last_mono c) * 1000000000)) 1"

definition transport_pts ::
  "bool \<Rightarrow> int \<Rightarrow> rat \<Rightarrow> int \<Rightarrow> bool \<Rightarrow> transport_clock \<Rightarrow> int \<times> transport_clock" where
  "transport_pts is_finite interval now pts held c =
     (let tpts =
        (if is_finite then (case tc_last c of Some l \<Rightarrow> l + wall_step now c | None \<Rightarrow> 0)
         else if held \<and> tc_last c \<noteq> None then the (tc_last c) + wall_step now c
         else
           let tpts = pts + tc_shift_ns c in
           case tc_last c of
             Some l \<Rightarrow> if tpts \<le> l then l + interval else tpts
           | None \<Rightarrow> tpts)
      in (tpts, \<lparr>tc_shift_ns = tpts - pts, tc_last = Some tpts, tc_last_mono = now\<rparr>))"

section \<open>The publish gate\<close>

record publish_gate =
  pg_pub_seq :: nat
  pg_last_pub_ts :: "int option"

definition publish_every_n :: "rat \<Rightarrow> rat \<Rightarrow> nat" where
  "publish_every_n rate fps =
     (if rate \<le> 0 \<or> fps \<le> 0 then 0 else nat (max 1 \<lceil>fps / rate - 1 / 1000000000\<rceil>))"

definition should_publish :: "rat \<Rightarrow> rat \<Rightarrow> int \<Rightarrow> publish_gate \<Rightarrow> bool \<times> publish_gate" where
  "should_publish rate fps ts g =
     (if rate \<le> 0 then (True, g)
      else
        let every_n = publish_every_n rate fps in
        if every_n \<noteq> 0 then (pg_pub_seq g mod every_n = 0, g\<lparr>pg_pub_seq := pg_pub_seq g + 1\<rparr>)
        else
          let min_interval = 1000000000 / rate in
          (case pg_last_pub_ts g of
             None \<Rightarrow> (True, g\<lparr>pg_last_pub_ts := Some ts\<rparr>)
           | Some l \<Rightarrow>
               if ts < l \<or> of_int (ts - l) \<ge> min_interval
               then (True, g\<lparr>pg_last_pub_ts := Some ts\<rparr>) else (False, g)))"

section \<open>The bounded feeds\<close>

text \<open>What an appsrc reports at a push: its properties and the flow return (\<open>True\<close> is OK).\<close>

record appsrc =
  as_block :: bool
  as_max_bytes :: nat
  as_level :: nat
  as_flow_ok :: bool

definition note_push_drop :: "bool \<Rightarrow> drop_stats \<Rightarrow> drop_stats" where
  "note_push_drop publish d = (if publish then note_publish_drop d else note_enqueue_failure d)"

definition queue_full :: "appsrc \<Rightarrow> nat \<Rightarrow> bool \<Rightarrow> drop_stats \<Rightarrow> bool \<times> drop_stats" where
  "queue_full src nbytes publish d =
     (if as_block src then (False, d)
      else if as_max_bytes src \<noteq> 0 \<and> as_level src + nbytes > as_max_bytes src
      then (True, note_push_drop publish d)
      else (False, d))"

definition push_checked :: "appsrc \<Rightarrow> bool \<Rightarrow> drop_stats \<Rightarrow> bool \<times> drop_stats" where
  "push_checked src publish d =
     (if as_flow_ok src then (True, d) else (False, note_push_drop publish d))"

section \<open>Properties of the recording timeline\<close>

lemma memo_put_nonempty: "(key, pts) \<in> set (memo_put key pts m)"
proof -
  have "length (m @ [(key, pts)]) - PTS_MEMO_FRAMES \<le> length m" by (simp add: PTS_MEMO_FRAMES_def)
  then have "memo_put key pts m = drop (length (m @ [(key, pts)]) - PTS_MEMO_FRAMES) m @ [(key, pts)]"
    by (simp add: memo_put_def)
  then show ?thesis by simp
qed

lemma memo_put_bound: "length (memo_put key pts m) \<le> PTS_MEMO_FRAMES"
  by (simp add: memo_put_def)

text \<open>The invariant: no PTS before the first, and everything remembered is at most the last.\<close>

definition timeline_ok :: "timeline \<Rightarrow> bool" where
  "timeline_ok s \<longleftrightarrow> 0 < tl_frame_interval_ns s
     \<and> (case tl_last_pts s of
          None \<Rightarrow> tl_base_ts s = None \<and> tl_pts_skew s = 0 \<and> tl_pts_memo s = []
        | Some l \<Rightarrow> 0 \<le> l \<and> tl_base_ts s \<noteq> None \<and> (\<forall>(k, p)\<in>set (tl_pts_memo s). p \<le> l))"

lemma timeline_ok_new: "0 < interval \<Longrightarrow> timeline_ok (new_timeline interval)"
  by (simp add: timeline_ok_def new_timeline_def)

lemma pts_step_fresh:
  assumes "timeline_ok s" "tl_last_pts s = Some l" "pts_step p s' = (q, s'')"
    "tl_last_pts s' = tl_last_pts s" "tl_frame_interval_ns s' = tl_frame_interval_ns s"
  shows "l < q" "tl_last_pts s'' = tl_last_pts s'" "tl_base_ts s'' = tl_base_ts s'"
    "tl_pts_memo s'' = tl_pts_memo s'" "tl_frame_interval_ns s'' = tl_frame_interval_ns s'"
  using assms by (auto simp: pts_step_def timeline_ok_def Let_def split: if_splits)

text \<open>One call of the recording branch: a memo hit leaves everything alone, a fresh frame moves on.\<close>

lemma pts_for_owner:
  assumes ok: "timeline_ok s" and call: "pts_for stamp True s = (q, s')"
    and fresh: "map_of (tl_pts_memo s) (stamp_key stamp) = None"
  shows "timeline_ok s' \<and> tl_last_pts s' = Some q \<and> (\<forall>l. tl_last_pts s = Some l \<longrightarrow> l < q)"
proof (cases "tl_last_pts s")
  case None
  with ok have "tl_base_ts s = None" "tl_pts_skew s = 0" "tl_pts_memo s = []" by (simp_all add: timeline_ok_def)
  with None call ok have s': "q = 0" "tl_last_pts s' = Some 0" "tl_base_ts s' \<noteq> None"
    "tl_pts_memo s' = [(stamp_key stamp, 0)]" "tl_frame_interval_ns s' = tl_frame_interval_ns s"
    by (auto simp: pts_for_def pts_step_def memo_put_def PTS_MEMO_FRAMES_def Let_def)
  with None ok show ?thesis by (simp add: timeline_ok_def)
next
  case (Some l)
  from ok Some obtain base where base: "tl_base_ts s = Some base" by (auto simp: timeline_ok_def)
  let ?s = "s\<lparr>tl_base_ts := Some base\<rparr>"
  obtain q0 s0 where st: "pts_step (fs_timestamp_ns stamp - base + tl_pts_skew s) ?s = (q0, s0)" by fastforce
  note f = pts_step_fresh [OF ok Some st, simplified]
  from call fresh st base have s': "q = q0" "s' = s0\<lparr>tl_last_pts := Some q, tl_pts_memo := memo_put (stamp_key stamp) q (tl_pts_memo s0)\<rparr>"
    by (auto simp: pts_for_def Let_def)
  have memo: "\<forall>(k, p)\<in>set (memo_put (stamp_key stamp) q (tl_pts_memo s)). p \<le> q"
    using ok Some f s'(1) by (fastforce simp: memo_put_def timeline_ok_def Let_def dest: in_set_dropD)
  from ok Some f s' memo base show ?thesis by (auto simp: timeline_ok_def)
qed

lemma pts_for_memo: "map_of (tl_pts_memo s) (stamp_key stamp) = Some p \<Longrightarrow> pts_for stamp own s = (p, s)"
  by (simp add: pts_for_def Let_def)

lemma pts_for_reader: "snd (pts_for stamp False s) = s"
  by (auto simp: pts_for_def Let_def split: option.splits)

text \<open>Runs: calls of the recording branch (\<open>True\<close>) and of the best-effort decode branch (\<open>False\<close>)
  in any interleaving; the output tells the branch and whether the frame was new.\<close>

fun pts_run :: "(frame_stamp \<times> bool) list \<Rightarrow> timeline \<Rightarrow> (bool \<times> bool \<times> int) list \<times> timeline" where
  "pts_run [] s = ([], s)"
| "pts_run ((stamp, own) # calls) s =
     (let fresh = (map_of (tl_pts_memo s) (stamp_key stamp) = None);
          (p, s') = pts_for stamp own s;
          (out, s'') = pts_run calls s'
      in ((own, fresh, p) # out, s''))"

definition recorded :: "(bool \<times> bool \<times> int) list \<Rightarrow> int list" where
  "recorded out = map (\<lambda>(own, fresh, p). p) (filter (\<lambda>(own, fresh, p). own \<and> fresh) out)"

lemma recorded_monotone:
  "timeline_ok s \<Longrightarrow> sorted_wrt (<) (recorded (fst (pts_run calls s)))
     \<and> (\<forall>p\<in>set (recorded (fst (pts_run calls s))). \<forall>l. tl_last_pts s = Some l \<longrightarrow> l < p)"
proof (induction calls arbitrary: s)
  case (Cons c calls)
  obtain stamp own where c: "c = (stamp, own)" by (cases c)
  obtain p s' where step: "pts_for stamp own s = (p, s')" by fastforce
  obtain out s'' where rest: "pts_run calls s' = (out, s'')" by fastforce
  show ?case
  proof (cases "own \<and> map_of (tl_pts_memo s) (stamp_key stamp) = None")
    case True
    with pts_for_owner [OF Cons.prems, of stamp p s'] step
    have n: "timeline_ok s'" "tl_last_pts s' = Some p" "\<forall>l. tl_last_pts s = Some l \<longrightarrow> l < p" by auto
    from Cons.IH [OF n(1)] n rest step True c show ?thesis
      by (fastforce simp: recorded_def intro: less_trans)
  next
    case False
    then have "s' = s" using step pts_for_memo [of s stamp _ own] pts_for_reader [of stamp s]
      by (cases "map_of (tl_pts_memo s) (stamp_key stamp)") auto
    with Cons.IH [OF Cons.prems] rest step False c show ?thesis by (auto simp: recorded_def)
  qed
qed (simp add: recorded_def)


definition demo_stamp :: "int \<Rightarrow> int \<Rightarrow> frame_stamp" where
  "demo_stamp fid ts = \<lparr>fs_frame_id = fid, fs_timestamp_ns = ts, fs_source = SYSTEM, fs_system_ns = ts,
     fs_camera_ns = 0, fs_chunk_ns = None\<rparr>"


text \<open>the decode branch cannot move the recording timeline.  However its calls interleave, the
  recording branch gets exactly the PTS it would get alone, and ends in the same state.\<close>

theorem decode_branch_isolated:
  "filter fst (fst (pts_run calls s)) = fst (pts_run (filter snd calls) s)
   \<and> snd (pts_run calls s) = snd (pts_run (filter snd calls) s)"
proof (induction calls arbitrary: s)
  case (Cons c calls)
  obtain stamp own where c: "c = (stamp, own)" by (cases c)
  show ?case using Cons [of s] Cons [of "snd (pts_for stamp True s)"] pts_for_reader [of stamp s]
    by (cases own; cases "pts_for stamp own s") (auto simp: c split: prod.splits)
qed simp

text \<open>The two branches agree on a frame: the memo answers for as long as it spans the lag.\<close>

definition remembers :: "nat \<Rightarrow> pts_key \<Rightarrow> int \<Rightarrow> timeline \<Rightarrow> bool" where
  "remembers n k p s \<longleftrightarrow> (\<exists>pre post. tl_pts_memo s = pre @ (k, p) # post \<and> k \<notin> fst ` set pre \<and> length post \<le> n)"

lemma remembers_lookup: "remembers n k p s \<Longrightarrow> map_of (tl_pts_memo s) k = Some p"
  by (auto simp: remembers_def map_add_Some_iff map_of_eq_None_iff)

lemma memo_put_keeps:
  assumes "m = pre @ (k, p) # post" "k \<notin> fst ` set pre" "length post + 1 < PTS_MEMO_FRAMES"
  shows "\<exists>pre'. memo_put k' p' m = pre' @ (k, p) # post @ [(k', p')] \<and> k \<notin> fst ` set pre'"
proof -
  let ?d = "length (m @ [(k', p')]) - PTS_MEMO_FRAMES"
  have "?d \<le> length pre" using assms by simp
  then have "memo_put k' p' m = drop ?d pre @ (k, p) # post @ [(k', p')]"
    using assms(1) by (simp add: memo_put_def)
  moreover have "k \<notin> fst ` set (drop ?d pre)" using assms(2) by (meson image_mono in_mono set_drop_subset)
  ultimately show ?thesis by blast
qed

lemma pts_for_memo_field:
  "tl_pts_memo (snd (pts_for stamp own s)) =
     (if own \<and> map_of (tl_pts_memo s) (stamp_key stamp) = None
      then memo_put (stamp_key stamp) (fst (pts_for stamp own s)) (tl_pts_memo s) else tl_pts_memo s)"
  by (auto simp: pts_for_def pts_step_def Let_def split: option.splits prod.splits if_splits)

lemma remembers_step:
  assumes "remembers n k p s" "n + 1 < PTS_MEMO_FRAMES"
  shows "remembers (n + 1) k p (snd (pts_for stamp own s))"
proof -
  from assms(1) obtain pre post where m: "tl_pts_memo s = pre @ (k, p) # post" "k \<notin> fst ` set pre" "length post \<le> n"
    by (auto simp: remembers_def)
  show ?thesis
  proof (cases "own \<and> map_of (tl_pts_memo s) (stamp_key stamp) = None")
    case True
    from m(3) assms(2) have "length post + 1 < PTS_MEMO_FRAMES" by simp
    from memo_put_keeps [OF m(1,2) this]
    obtain pre' where "memo_put (stamp_key stamp) (fst (pts_for stamp own s)) (tl_pts_memo s)
        = pre' @ (k, p) # post @ [(stamp_key stamp, fst (pts_for stamp own s))]" "k \<notin> fst ` set pre'"
      by blast
    with True have "tl_pts_memo (snd (pts_for stamp own s))
        = pre' @ (k, p) # post @ [(stamp_key stamp, fst (pts_for stamp own s))]"
      by (simp add: pts_for_memo_field)
    then show ?thesis unfolding remembers_def using m(3) \<open>k \<notin> fst ` set pre'\<close>
      by (intro exI [of _ pre'] exI [of _ "post @ [(stamp_key stamp, fst (pts_for stamp own s))]"]) simp
  next
    case False
    then have "tl_pts_memo (snd (pts_for stamp own s)) = pre @ (k, p) # post"
      using m(1) by (simp only: pts_for_memo_field if_False)
    then show ?thesis unfolding remembers_def using m(2,3)
      by (intro exI [of _ pre] exI [of _ post]) simp
  qed
qed

lemma remembers_run:
  "remembers n k p s \<Longrightarrow> n + length calls < PTS_MEMO_FRAMES \<Longrightarrow>
     remembers (n + length calls) k p (snd (pts_run calls s))"
proof (induction calls arbitrary: n s)
  case (Cons c calls)
  obtain stamp own where c: "c = (stamp, own)" by (cases c)
  from remembers_step [OF Cons.prems(1)] Cons.prems(2)
  have "remembers (n + 1) k p (snd (pts_for stamp own s))" by simp
  from Cons.IH [OF this] Cons.prems(2) c show ?case by (simp add: case_prod_beta)
qed simp

text \<open>both branches carry the same PTS.  Once the recording branch has stamped a new frame, the
  decode branch reads exactly that PTS for it, however up to 255 other calls interleave.\<close>

theorem branches_agree:
  assumes "map_of (tl_pts_memo s) (stamp_key stamp) = None" "length calls < PTS_MEMO_FRAMES"
    "pts_for stamp True s = (p, s')"
  shows "fst (pts_for stamp False (snd (pts_run calls s'))) = p"
proof -
  from assms(1) have k: "stamp_key stamp \<notin> fst ` set (tl_pts_memo s)" by (simp add: map_of_eq_None_iff)
  let ?m = "tl_pts_memo s" and ?k = "stamp_key stamp"
  have "memo_put ?k p ?m = drop (length (?m @ [(?k, p)]) - PTS_MEMO_FRAMES) ?m @ (?k, p) # []"
    by (simp add: memo_put_def PTS_MEMO_FRAMES_def)
  moreover have "?k \<notin> fst ` set (drop n ?m)" for n using k by (meson image_mono in_mono set_drop_subset)
  ultimately have "remembers 0 ?k p s'"
    using assms pts_for_memo_field [of stamp True s] unfolding remembers_def by (metis fst_conv list.size(3) order_refl snd_conv)
  from remembers_lookup [OF remembers_run [OF this]] assms(2)
  show ?thesis by (simp add: pts_for_memo)
qed

theorem branches_agree_witness:
  "fst (pts_for (demo_stamp 1 500) False (snd (pts_run [(demo_stamp 2 700, True)]
     (snd (pts_for (demo_stamp 1 500) True (new_timeline 100)))))) = 0"
proof -
  have "pts_for (demo_stamp 1 500) True (new_timeline 100) = (0, snd (pts_for (demo_stamp 1 500) True (new_timeline 100)))"
    by (simp add: pts_for_def pts_step_def new_timeline_def Let_def)
  from branches_agree [OF _ _ this, of "[(demo_stamp 2 700, True)]"] show ?thesis
    by (simp add: new_timeline_def PTS_MEMO_FRAMES_def)
qed

text \<open>Without a discontinuity the PTS is the stamp's distance from the base, and nothing is counted.\<close>

definition continuous :: "int \<Rightarrow> frame_stamp list \<Rightarrow> bool" where
  "continuous t0 stamps \<longleftrightarrow> successively (\<lambda>a b. a < b \<and> b - a \<le> MAX_PTS_JUMP_NS) (t0 # map fs_timestamp_ns stamps)"

lemma continuous_pts:
  "continuous t stamps \<Longrightarrow> tl_base_ts s = Some b \<Longrightarrow> tl_pts_skew s = 0 \<Longrightarrow> tl_last_pts s = Some (t - b) \<Longrightarrow>
   b \<le> t \<Longrightarrow> \<forall>(k, p)\<in>set (tl_pts_memo s). snd k \<le> t \<Longrightarrow>
     fst (pts_run (map (\<lambda>x. (x, True)) stamps) s) = map (\<lambda>x. (True, True, fs_timestamp_ns x - b)) stamps
   \<and> ds_pts_rebases (tl_drops (snd (pts_run (map (\<lambda>x. (x, True)) stamps) s))) = ds_pts_rebases (tl_drops s)"
proof (induction stamps arbitrary: t s)
  case (Cons x stamps)
  let ?t = "fs_timestamp_ns x"
  from Cons.prems(1) have d: "t < ?t" "?t - t \<le> MAX_PTS_JUMP_NS" "continuous ?t stamps"
    by (simp_all add: continuous_def)
  have fresh: "map_of (tl_pts_memo s) (stamp_key x) = None"
    using Cons.prems(6) d(1) by (fastforce simp: map_of_eq_None_iff stamp_key_def)
  let ?s = "s\<lparr>tl_last_pts := Some (?t - b), tl_pts_memo := memo_put (stamp_key x) (?t - b) (tl_pts_memo s)\<rparr>"
  have step: "pts_for x True s = (?t - b, ?s)"
    using Cons.prems(2-5) d fresh by (simp add: pts_for_def pts_step_def Let_def)
  have "\<forall>(k, p)\<in>set (tl_pts_memo ?s). snd k \<le> ?t"
    using Cons.prems(6) d(1) by (fastforce simp: memo_put_def stamp_key_def Let_def dest: in_set_dropD)
  from Cons.IH [OF d(3) _ _ _ _ this] Cons.prems(2-5) d(1) step fresh show ?case
    by (simp add: case_prod_beta)
qed simp

section \<open>Properties of the transport timeline and the publish gate\<close>

text \<open>One publish: its source PTS, the clock reading and whether it re-publishes a held frame.\<close>

fun transport_run ::
  "bool \<Rightarrow> int \<Rightarrow> (int \<times> rat \<times> bool) list \<Rightarrow> transport_clock \<Rightarrow> int list \<times> transport_clock" where
  "transport_run fin interval [] c = ([], c)"
| "transport_run fin interval ((pts, now, held) # xs) c =
     (let (t, c') = transport_pts fin interval now pts held c; (ts, c'') = transport_run fin interval xs c'
      in (t # ts, c''))"

lemma transport_pts_step:
  "0 < interval \<Longrightarrow> transport_pts fin interval now pts held c = (t, c') \<Longrightarrow>
     tc_last c' = Some t \<and> (\<forall>l. tc_last c = Some l \<longrightarrow> l < t)"
  by (auto simp: transport_pts_def wall_step_def Let_def split: if_splits option.splits)

lemma transport_run_increasing:
  "0 < interval \<Longrightarrow> sorted_wrt (<) (fst (transport_run fin interval xs c))
     \<and> (\<forall>t\<in>set (fst (transport_run fin interval xs c)). \<forall>l. tc_last c = Some l \<longrightarrow> l < t)"
proof (induction xs arbitrary: c)
  case (Cons x xs)
  obtain pts now held where x: "x = (pts, now, held)" by (cases x)
  obtain t c' where t: "transport_pts fin interval now pts held c = (t, c')" by fastforce
  from transport_pts_step [OF Cons.prems t] Cons.IH [OF Cons.prems, of c'] t x show ?case
    by (fastforce split: prod.splits intro: less_trans)
qed simp

text \<open>the transport never repeats or reverses a timestamp.  Over live and playback sources, new
  and held frames, and any readings of the wall clock, the PTS on the wire strictly increases.\<close>

theorem transport_pts_increasing:
  assumes "0 < interval"
  shows "sorted_wrt (<) (fst (transport_run fin interval publishes new_transport_clock))"
  using transport_run_increasing [OF assms] by blast

theorem transport_pts_increasing_witness:
  "fst (transport_run False 100 [(0, 0, False), (0, 1, True), (50, 2, False)] new_transport_clock)
     = [0, 1000000000, 1000000050]
   \<and> sorted_wrt (<) (fst (transport_run False 100 [(0, 0, False), (0, 1, True), (50, 2, False)] new_transport_clock))"
  using transport_pts_increasing [of 100 False "[(0, 0, False), (0, 1, True), (50, 2, False)]"]
  by (simp add: transport_pts_def wall_step_def new_transport_clock_def trunc_rat_def)

fun publish_run :: "rat \<Rightarrow> rat \<Rightarrow> int list \<Rightarrow> publish_gate \<Rightarrow> bool list" where
  "publish_run rate fps [] g = []"
| "publish_run rate fps (ts # xs) g =
     (let (b, g') = should_publish rate fps ts g in b # publish_run rate fps xs g')"

lemma publish_every_n_cap:
  assumes "0 < rate" "0 < fps"
  shows "0 < publish_every_n rate fps \<and> fps / of_nat (publish_every_n rate fps) \<le> rate * (1 + 1 / 1000000000)"
proof -
  let ?c = "\<lceil>fps / rate - 1 / 1000000000\<rceil>"
  define n where "n = max 1 ?c"
  have n: "publish_every_n rate fps = nat n" "1 \<le> n" using assms by (auto simp: publish_every_n_def n_def)
  have "fps / rate - 1 / 1000000000 \<le> of_int ?c" by (rule le_of_int_ceiling)
  also have "\<dots> \<le> of_int n" by (simp add: n_def)
  finally have "fps / rate \<le> of_int n + 1 / 1000000000" by simp
  also have "\<dots> \<le> of_int n * (1 + 1 / 1000000000)" using n(2) by (simp add: algebra_simps)
  finally have "fps / rate \<le> of_int n * (1 + 1 / 1000000000)" .
  then have "fps \<le> rate * (of_int n * (1 + 1 / 1000000000))" using assms(1) by (simp add: field_simps)
  then have "fps / of_int n \<le> rate * (1 + 1 / 1000000000)" using n(2) by (simp add: field_simps)
  then show ?thesis using n by simp
qed

lemma publish_run_decimates:
  assumes "0 < rate" "0 < fps"
  shows "publish_run rate fps tss g
     = map (\<lambda>i. (pg_pub_seq g + i) mod publish_every_n rate fps = 0) [0..<length tss]"
  using publish_every_n_cap [OF assms] assms(1)
proof (induction tss arbitrary: g)
  case (Cons ts tss)
  have "[0..<length (ts # tss)] = 0 # map Suc [0..<length tss]"
    using upt_conv_Cons map_Suc_upt by (metis length_Cons zero_less_Suc)
  with Cons show ?case by (simp add: should_publish_def Let_def)
qed simp

text \<open>the publish cap.  With a known source rate exactly every n-th frame is published, evenly
  spaced, whatever the timestamps; n is the least factor that keeps the published rate within the
  cap (up to the one part in a billion the code allows).\<close>

theorem publish_decimation:
  assumes "0 < rate" "0 < fps"
  shows "publish_run rate fps tss \<lparr>pg_pub_seq = 0, pg_last_pub_ts = l\<rparr>
      = map (\<lambda>i. i mod publish_every_n rate fps = 0) [0..<length tss]
    \<and> fps / of_nat (publish_every_n rate fps) \<le> rate * (1 + 1 / 1000000000)"
  using publish_run_decimates [OF assms, of tss "\<lparr>pg_pub_seq = 0, pg_last_pub_ts = l\<rparr>"]
    publish_every_n_cap [OF assms] by simp

theorem publish_decimation_witness:
  "publish_run 10 24 [5, 1, 9, 9] \<lparr>pg_pub_seq = 0, pg_last_pub_ts = None\<rparr> = [True, False, False, True]"
proof -
  have "publish_every_n 10 24 = 3" by code_simp
  with publish_decimation [of 10 24 "[5, 1, 9, 9]" None] show ?thesis by (simp add: upt_rec)
qed

text \<open>Without a source rate, the gate never publishes two forward frames closer than the cap, and a
  backward step reopens it at once.\<close>

lemma publish_gate_spacing:
  "0 < rate \<Longrightarrow> fps \<le> 0 \<Longrightarrow> pg_last_pub_ts g = Some l \<Longrightarrow>
     fst (should_publish rate fps ts g) \<longleftrightarrow> ts < l \<or> of_int (ts - l) \<ge> 1000000000 / rate"
  by (simp add: should_publish_def publish_every_n_def Let_def)

end
