(* ===== verification/Bayer_Tile.thy ===== *)
theory Bayer_Tile
  imports Cam_Prelude
begin

text \<open>
  \<open>core-driver/cam_driver/bayer_tile.py\<close>: the reversible tiling of a Bayer mosaic into four
  quadrants, with the optional colour transforms.  Frames are byte lists in row order; numpy's
  reshape and transpose are the index maps they denote, and its 8-bit residual arithmetic is word
  arithmetic (\<open>& 0xFF\<close> wraps).  \<open>None\<close> is the \<open>ValueError\<close> of a reshape that does not fit.
\<close>

definition MODES :: "string list" where
  "MODES = [''off'', ''plain'', ''green_diff'', ''rct'']"

type_synonym phase2 = "nat \<times> nat"

record cfa_phases =
  ph_R :: phase2
  ph_G1 :: phase2
  ph_G2 :: phase2
  ph_B :: phase2

definition PHASES :: "(string \<times> cfa_phases) list" where
  "PHASES =
     [(''rggb'', \<lparr>ph_R = (0, 0), ph_G1 = (0, 1), ph_G2 = (1, 0), ph_B = (1, 1)\<rparr>),
      (''grbg'', \<lparr>ph_R = (0, 1), ph_G1 = (0, 0), ph_G2 = (1, 1), ph_B = (1, 0)\<rparr>),
      (''gbrg'', \<lparr>ph_R = (1, 0), ph_G1 = (0, 0), ph_G2 = (1, 1), ph_B = (0, 1)\<rparr>),
      (''bggr'', \<lparr>ph_R = (1, 1), ph_G1 = (0, 1), ph_G2 = (1, 0), ph_B = (0, 0)\<rparr>)]"

text \<open>The config value: a bool, a missing value, or anything by its \<open>str\<close>.\<close>

datatype tile_value = Tile_Bool bool | Tile_None | Tile_Str string

fun normalize_mode :: "tile_value \<Rightarrow> string" where
  "normalize_mode (Tile_Bool True) = ''plain''"
| "normalize_mode (Tile_Bool False) = ''off''"
| "normalize_mode Tile_None = ''off''"
| "normalize_mode (Tile_Str v) =
     (let s = lower (strip_space v) in
      if s \<in> {''1'', ''true'', ''on'', ''yes''} then ''plain''
      else if s \<in> {'''', ''0'', ''false'', ''off'', ''no'', ''none''} then ''off''
      else if s \<in> set MODES then s else ''off'')"

definition phases :: "string option \<Rightarrow> cfa_phases" where
  "phases pattern =
     (let p = (case pattern of None \<Rightarrow> ''rggb'' | Some [] \<Rightarrow> ''rggb'' | Some s \<Rightarrow> s) in
      case map_of PHASES (lower p) of Some ph \<Rightarrow> ph | None \<Rightarrow> the (map_of PHASES ''rggb''))"

section \<open>The index maps\<close>

text \<open>\<open>tile_index\<close>: where pixel \<open>p\<close> of the tiled frame comes from; \<open>mosaic_index\<close>: where pixel
  \<open>p\<close> of the mosaic lies in the tiled frame; \<open>quad_of\<close>: the quadrant of a tiled pixel;
  \<open>in_quad\<close>: the pixel at the same place of another quadrant.\<close>

definition tile_index :: "nat \<Rightarrow> nat \<Rightarrow> nat \<Rightarrow> nat" where
  "tile_index w h p =
     (let y = p div w; x = p mod w; h2 = h div 2; w2 = w div 2
      in (2 * (y mod h2) + y div h2) * w + (2 * (x mod w2) + x div w2))"

definition mosaic_index :: "nat \<Rightarrow> nat \<Rightarrow> nat \<Rightarrow> nat" where
  "mosaic_index w h p =
     (let y = p div w; x = p mod w; h2 = h div 2; w2 = w div 2
      in ((y mod 2) * h2 + y div 2) * w + ((x mod 2) * w2 + x div 2))"

definition quad_of :: "nat \<Rightarrow> nat \<Rightarrow> nat \<Rightarrow> phase2" where
  "quad_of w h p = (p div w div (h div 2), p mod w div (w div 2))"

definition in_quad :: "nat \<Rightarrow> nat \<Rightarrow> phase2 \<Rightarrow> nat \<Rightarrow> nat" where
  "in_quad w h ph p =
     (let h2 = h div 2; w2 = w div 2
      in (fst ph * h2 + p div w mod h2) * w + (snd ph * w2 + p mod w mod w2))"

definition targets :: "string \<Rightarrow> cfa_phases \<Rightarrow> phase2 list" where
  "targets mode ph =
     (if mode = ''green_diff'' then [ph_G2 ph]
      else if mode = ''rct'' then [ph_G2 ph, ph_R ph, ph_B ph] else [])"

definition colour :: "(byte \<Rightarrow> byte \<Rightarrow> byte) \<Rightarrow> nat \<Rightarrow> nat \<Rightarrow> string \<Rightarrow> cfa_phases \<Rightarrow> bytes \<Rightarrow> bytes" where
  "colour f w h mode ph t =
     map (\<lambda>p. if quad_of w h p \<in> set (targets mode ph)
              then f (t ! p) (t ! in_quad w h (ph_G1 ph) p) else t ! p) [0..<length t]"

definition fits :: "bytes \<Rightarrow> nat \<Rightarrow> nat \<Rightarrow> bool" where
  "fits b w h \<longleftrightarrow> length b = 4 * (h div 2) * (w div 2) \<and> h * w = 4 * (h div 2) * (w div 2)"

definition tile_cfa :: "bytes \<Rightarrow> nat \<Rightarrow> nat \<Rightarrow> string \<Rightarrow> string option \<Rightarrow> bytes option" where
  "tile_cfa mosaic w h mode pattern =
     (if \<not> fits mosaic w h then None
      else
        let t = map (\<lambda>p. mosaic ! tile_index w h p) [0..<length mosaic]
        in Some (colour (\<lambda>x g. x - g + 128) w h mode (phases pattern) t))"

definition untile_cfa :: "bytes \<Rightarrow> nat \<Rightarrow> nat \<Rightarrow> string \<Rightarrow> string option \<Rightarrow> bytes option" where
  "untile_cfa tiled w h mode pattern =
     (if \<not> fits tiled w h then None
      else
        let t = colour (\<lambda>x g. x - 128 + g) w h mode (phases pattern) tiled
        in Some (map (\<lambda>p. t ! mosaic_index w h p) [0..<length tiled]))"

section \<open>The transforms are inverse\<close>

lemma phases_distinct:
  "ph_G1 (phases pattern) \<notin> set (targets mode (phases pattern))
   \<and> fst (ph_G1 (phases pattern)) < 2 \<and> snd (ph_G1 (phases pattern)) < 2"
proof -
  have all: "\<forall>(s, ph)\<in>set PHASES. ph_G1 ph \<notin> {ph_R ph, ph_G2 ph, ph_B ph} \<and> fst (ph_G1 ph) < 2 \<and> snd (ph_G1 ph) < 2"
    by (simp add: PHASES_def)
  have "map_of PHASES ''rggb'' = Some (the (map_of PHASES ''rggb''))" by (simp add: PHASES_def)
  then have "\<exists>s. map_of PHASES s = Some (phases pattern)"
    unfolding phases_def Let_def by (auto split: option.split)
  then obtain s where "(s, phases pattern) \<in> set PHASES" by (blast dest: map_of_SomeD)
  with all have "ph_G1 (phases pattern) \<notin> {ph_R (phases pattern), ph_G2 (phases pattern), ph_B (phases pattern)}
    \<and> fst (ph_G1 (phases pattern)) < 2 \<and> snd (ph_G1 (phases pattern)) < 2" by blast
  then show ?thesis by (simp add: targets_def)
qed

lemma even_halves:
  fixes w h :: nat
  assumes "h * w = 4 * (h div 2) * (w div 2)" "0 < h" "0 < w"
  obtains a b where "h = 2 * a" "w = 2 * b" "0 < a" "0 < b"
proof -
  define a b where "a = h div 2" and "b = w div 2"
  have h: "h = 2 * a + h mod 2" and w: "w = 2 * b + w mod 2" by (simp_all add: a_def b_def)
  have "(2 * a + h mod 2) * (2 * b + w mod 2) = 4 * a * b" using assms(1) h w a_def b_def by metis
  then have z: "2 * a * (w mod 2) + (h mod 2) * (2 * b) + (h mod 2) * (w mod 2) = 0"
    by (simp add: algebra_simps)
  have "h mod 2 = 0" "w mod 2 = 0" using z h w assms(2,3) by (auto simp: mod2_eq_if split: if_splits)
  with h w assms(2,3) show ?thesis by (intro that [of a b]) auto
qed

lemma row_col:
  fixes w :: nat
  assumes "x < w"
  shows "(y * w + x) div w = y" "(y * w + x) mod w = x"
  using assms by simp_all

lemma cell_bound: "y < h \<Longrightarrow> x < w \<Longrightarrow> y * w + x < h * (w::nat)"
proof -
  assume "y < h" "x < w"
  then have "y * w + x < Suc y * w" by simp
  also have "\<dots> \<le> h * w" using \<open>y < h\<close> by (intro mult_right_mono) auto
  finally show ?thesis .
qed

lemma half_bound: "r < 2 \<Longrightarrow> i < a \<Longrightarrow> r * a + i < 2 * (a::nat)"
  using cell_bound [of r 2 i a] by simp

text \<open>Coordinates of a pixel in a frame of \<open>2 a\<close> rows and \<open>2 b\<close> columns.\<close>

lemma in_quad_facts:
  fixes a b :: nat
  assumes "0 < a" "0 < b" "fst ph < 2" "snd ph < 2"
  shows "in_quad (2 * b) (2 * a) ph p < 2 * a * (2 * b)"
    "quad_of (2 * b) (2 * a) (in_quad (2 * b) (2 * a) ph p) = ph"
proof -
  let ?y = "fst ph * a + p div (2 * b) mod a" and ?x = "snd ph * b + p mod (2 * b) mod b"
  have y: "?y < 2 * a" and x: "?x < 2 * b" using assms by (simp_all add: half_bound)
  have q: "in_quad (2 * b) (2 * a) ph p = ?y * (2 * b) + ?x" by (simp add: in_quad_def Let_def)
  from cell_bound [OF y x] q show "in_quad (2 * b) (2 * a) ph p < 2 * a * (2 * b)" by simp
  show "quad_of (2 * b) (2 * a) (in_quad (2 * b) (2 * a) ph p) = ph"
    unfolding quad_of_def q row_col [OF x] using assms by simp
qed

lemma mosaic_index_facts:
  fixes a b :: nat
  assumes "p < 2 * a * (2 * b)" "0 < a" "0 < b"
  shows "mosaic_index (2 * b) (2 * a) p < 2 * a * (2 * b)"
    "tile_index (2 * b) (2 * a) (mosaic_index (2 * b) (2 * a) p) = p"
proof -
  let ?Y = "p div (2 * b)" and ?X = "p mod (2 * b)"
  have Y: "?Y < 2 * a" using assms(1) by (simp add: less_mult_imp_div_less)
  have X: "?X < 2 * b" using assms(3) by simp
  let ?y = "?Y mod 2 * a + ?Y div 2" and ?x = "?X mod 2 * b + ?X div 2"
  have Y2: "?Y div 2 < a" and X2: "?X div 2 < b" using Y X by linarith+
  have y: "?y < 2 * a" and x: "?x < 2 * b" using Y2 X2 by (simp_all add: half_bound)
  have m: "mosaic_index (2 * b) (2 * a) p = ?y * (2 * b) + ?x" by (simp add: mosaic_index_def Let_def)
  from cell_bound [OF y x] m show "mosaic_index (2 * b) (2 * a) p < 2 * a * (2 * b)" by simp
  have "?y mod a = ?Y div 2" "?y div a = ?Y mod 2" "?x mod b = ?X div 2" "?x div b = ?X mod 2"
    using row_col Y2 X2 by blast+
  then show "tile_index (2 * b) (2 * a) (mosaic_index (2 * b) (2 * a) p) = p"
    unfolding tile_index_def Let_def m row_col [OF x] by simp (rule div_mult_mod_eq)
qed

lemma length_colour [simp]: "length (colour f w h mode ph t) = length t"
  by (simp add: colour_def)

text \<open>The residual is undone: the reference green is itself never changed.\<close>

lemma colour_inverse:
  assumes "length t = 2 * a * (2 * b)" "0 < a" "0 < b"
    "ph_G1 ph \<notin> set (targets mode ph)" "fst (ph_G1 ph) < 2" "snd (ph_G1 ph) < 2"
    "\<And>x g. undo (f x g) g = x"
  shows "colour undo (2 * b) (2 * a) mode ph (colour f (2 * b) (2 * a) mode ph t) = t"
proof (rule nth_equalityI)
  fix p assume "p < length (colour undo (2 * b) (2 * a) mode ph (colour f (2 * b) (2 * a) mode ph t))"
  then have p: "p < length t" by simp
  note ref = in_quad_facts [OF assms(2,3,5,6), of p]
  show "colour undo (2 * b) (2 * a) mode ph (colour f (2 * b) (2 * a) mode ph t) ! p = t ! p"
    using p ref assms by (simp add: colour_def)
qed simp

lemma tile_untile:
  assumes "tile_cfa m w h mode pattern = Some t"
  shows "length t = length m \<and> untile_cfa t w h mode pattern = Some m"
proof -
  let ?ph = "phases pattern"
  let ?plain = "map (\<lambda>p. m ! tile_index w h p) [0..<length m]"
  from assms have fits: "fits m w h" and t: "t = colour (\<lambda>x g. x - g + 128) w h mode ?ph ?plain"
    by (auto simp: tile_cfa_def Let_def split: if_splits)
  then have len: "length t = length m" by simp
  show ?thesis
  proof (cases "m = []")
    case True
    with len fits show ?thesis by (simp add: untile_cfa_def)
  next
    case False
    with fits have "4 * (h div 2) * (w div 2) \<noteq> 0" "h * w = 4 * (h div 2) * (w div 2)"
      unfolding fits_def by (metis length_0_conv)+
    then have "0 < h div 2" "0 < w div 2" "h * w = 4 * (h div 2) * (w div 2)" by simp_all
    then obtain a b where ab: "h = 2 * a" "w = 2 * b" "0 < a" "0 < b"
      using even_halves [of h w] by (metis div_0 gr0I less_numeral_extra(3))
    have lm: "length m = 2 * a * (2 * b)" using fits ab by (simp add: fits_def)
    have undo: "colour (\<lambda>x g. x - 128 + g) w h mode ?ph t = ?plain"
      unfolding t ab(1,2) by (rule colour_inverse) (use phases_distinct ab lm in auto)
    have "map (\<lambda>p. ?plain ! mosaic_index w h p) [0..<length m] = m"
    proof (rule nth_equalityI)
      fix p assume "p < length (map (\<lambda>p. ?plain ! mosaic_index w h p) [0..<length m])"
      then have "p < 2 * a * (2 * b)" using lm by simp
      from mosaic_index_facts [OF this ab(3,4)] lm this
      show "map (\<lambda>p. ?plain ! mosaic_index w h p) [0..<length m] ! p = m ! p"
        unfolding ab(1,2) by simp
    qed simp
    with undo len fits show ?thesis by (simp add: untile_cfa_def fits_def)
  qed
qed

text \<open>the CFA tiling is bit-exact.  Whenever a frame can be tiled (its size is that of an even
  geometry), tiling keeps its size and untiling with the same mode and pattern gives back every byte,
  for every mode and pattern.\<close>

theorem tile_roundtrip:
  assumes "tile_cfa m w h mode pattern = Some t"
  shows "length t = length m \<and> untile_cfa t w h mode pattern = Some m"
  using assms by (rule tile_untile)

theorem tile_roundtrip_witness:
  "tile_cfa [1, 2, 3, 4, 5, 6, 7, 8] 4 2 ''rct'' (Some ''GRBG'') = Some [1, 3, 129, 129, 132, 132, 133, 133]
   \<and> untile_cfa [1, 3, 129, 129, 132, 132, 133, 133] 4 2 ''rct'' (Some ''GRBG'') = Some [1, 2, 3, 4, 5, 6, 7, 8]"
proof -
  have "tile_cfa [1, 2, 3, 4, 5, 6, 7, 8] 4 2 ''rct'' (Some ''GRBG'') = Some [1, 3, 129, 129, 132, 132, 133, 133]"
    by code_simp
  with tile_roundtrip [OF this] show ?thesis by simp
qed

end
