(* ===== verification/Capture_Pipeline.thy ===== *)
theory Capture_Pipeline
  imports Recording_Session Capture_Timeline Recorder_Plan Bayer_Tile Frame_Header
begin

text \<open>
  \<open>CapturePipeline\<close> (\<open>core-driver/cam_driver/pipeline.py\<close>): the state of the capture process, the frame
  callbacks, the recording plan and its runtime changes, the lifecycle mechanism (\<open>activate\<close>,
  \<open>deactivate\<close>, the uncommanded ends), the periodic ticks and the reconnect loop.  What GStreamer, the
  disk, the clock and the source answer at a call is that call's environment record.  Each callback is
  one step; the interleaving of pushes with a closing session is \<open>Recording_Session\<close>'s.  The calls of the
  lifecycle hooks are collected in \<open>pl_hooks\<close>, the buffers of the transport endpoint in \<open>pl_published\<close>.
\<close>

section \<open>State\<close>

datatype lc_state = Inactive | Activating | Active | Deactivating

text \<open>What \<open>build\<close> fixes.\<close>

record source_info =
  si_width :: int
  si_height :: int
  si_pixel_format :: "string option"
  si_delivered_rate :: rat
  si_encoded_caps :: "string option"
  si_encoded_parser :: "string option"
  si_finite :: bool
  si_buffers :: bool           \<comment> \<open>the source has \<open>start_buffers\<close>\<close>
  si_active_timestamp_source :: string
  si_ptp_locked :: bool
  si_tick_frequency_hz :: int
  si_replay_of :: "string list option"
  si_replay_epoch_unix_ns :: "int option"

record built =
  bt_source :: source_info
  bt_gst_format :: string
  bt_bits :: int
  bt_bayer :: "string option"
  bt_is_color :: bool
  bt_image_size :: int
  bt_fps :: rat
  bt_interval_ns :: int
  bt_raw_caps :: string
  bt_enc_parser :: "string option"
  bt_discard_main :: bool

record settings_view =
  sv_generation :: string
  sv_revision :: nat
  sv_requested :: fields
  sv_encoder :: string
  sv_lossy :: "bool option"
  sv_bayer_tile :: string
  sv_x264 :: "(int \<times> string) option"
  sv_encoders :: "string list"
  sv_source_mode_fixed :: bool

record open_session =
  os_sess :: session
  os_cfg :: fields
  os_encoder :: string
  os_tile_mode :: string
  os_window :: bool            \<comment> \<open>a health window was opened\<close>

text \<open>Result dicts: \<open>session\<close> is a \<open>describe\<close> of an open session or the final one.\<close>

datatype session_report = Opened nat string | Closed close_info

record op_result =
  or_ok :: bool
  or_noop :: bool
  or_error :: "string option"
  or_session :: "session_report option"

datatype hook = Hook_Ended op_result | Hook_Finished op_result | Hook_Progress

record published =
  pb_pts :: int
  pb_frame_id :: int
  pb_timestamp_ns :: int

record pipe =
  pl_built :: built
  pl_cfg :: fields
  pl_tl :: timeline            \<comment> \<open>\<open>_base_ts\<close>, \<open>_last_pts\<close>, \<open>_pts_skew\<close>, \<open>_pts_memo\<close> and \<open>drops\<close>\<close>
  pl_clock :: transport_clock
  pl_gate :: publish_gate
  pl_stopping :: bool
  pl_fatal :: bool
  pl_held :: bool
  pl_reconnecting :: bool
  pl_stalled :: bool
  pl_n_pushed :: nat
  pl_last_health_frames :: nat
  pl_session :: "open_session option"
  pl_session_seq :: nat
  pl_lifecycle :: lc_state
  pl_last_result :: "op_result option"
  pl_still :: "(frame_stamp \<times> bytes \<times> int) option"
  pl_still_mono :: rat
  pl_stream_copy :: bool
  pl_rec_enc :: "string option"
  pl_tile_mode :: string
  pl_desc_probe :: "string option"
  pl_generation :: string
  pl_revision :: nat
  pl_view :: "settings_view option"
  pl_timer :: bool
  pl_hold_on_finish :: bool
  pl_session_error_fatal :: bool
  pl_quit :: bool
  pl_hooks :: "hook list"
  pl_published :: "published list"

abbreviation (input) REC_QUEUE_FRAMES :: int where "REC_QUEUE_FRAMES \<equiv> 32"

definition result :: "bool \<Rightarrow> string option \<Rightarrow> session_report option \<Rightarrow> op_result" where
  "result ok e sess = \<lparr>or_ok = ok, or_noop = False, or_error = e, or_session = sess\<rparr>"

definition upd_drops :: "(drop_stats \<Rightarrow> drop_stats) \<Rightarrow> pipe \<Rightarrow> pipe" where
  "upd_drops f p = p\<lparr>pl_tl := (pl_tl p)\<lparr>tl_drops := f (tl_drops (pl_tl p))\<rparr>\<rparr>"

definition drops_of :: "pipe \<Rightarrow> drop_stats" where
  "drops_of p = tl_drops (pl_tl p)"

definition new_pipe :: "string \<Rightarrow> fields \<Rightarrow> built \<Rightarrow> pipe" where
  "new_pipe generation cfg b =
     \<lparr>pl_built = b, pl_cfg = cfg, pl_tl = new_timeline (bt_interval_ns b), pl_clock = new_transport_clock,
      pl_gate = \<lparr>pg_pub_seq = 0, pg_last_pub_ts = None\<rparr>, pl_stopping = False, pl_fatal = False, pl_held = False,
      pl_reconnecting = False, pl_stalled = False, pl_n_pushed = 0, pl_last_health_frames = 0,
      pl_session = None, pl_session_seq = 0, pl_lifecycle = Inactive, pl_last_result = None, pl_still = None,
      pl_still_mono = 0, pl_stream_copy = False, pl_rec_enc = None, pl_tile_mode = ''off'', pl_desc_probe = None,
      pl_generation = generation, pl_revision = 0, pl_view = None, pl_timer = False,
      pl_hold_on_finish = False, pl_session_error_fatal = False, pl_quit = False, pl_hooks = [], pl_published = []\<rparr>"

section \<open>Build\<close>

text \<open>The source's geometry and format, the rate, and the caps; \<open>cfg_rate\<close> is \<open>camera.frame_rate\<close>.\<close>

definition build_facts :: "rat option \<Rightarrow> bool \<Rightarrow> bool \<Rightarrow> source_info \<Rightarrow> built" where
  "build_facts cfg_rate raw_enabled preview_enabled si =
     (let (fmt, bits, bayer, packed, is_color) = parse_pixel_format (si_pixel_format si);
          fps = (case cfg_rate of Some r \<Rightarrow> if r \<noteq> 0 then r else si_delivered_rate si | None \<Rightarrow> si_delivered_rate si);
          framerate = (if fps \<noteq> 0 then str_int (py_round fps) @ ''/1'' else ''0/1'')
      in \<lparr>bt_source = si, bt_gst_format = fmt, bt_bits = bits, bt_bayer = bayer, bt_is_color = is_color,
          bt_image_size = bytes_per_frame fmt (si_width si) (si_height si), bt_fps = fps,
          bt_interval_ns = (if fps \<noteq> 0 then trunc_rat (1000000000 / fps) else 1000000),
          bt_raw_caps = ''video/x-raw,format='' @ fmt @ '',width='' @ str_int (si_width si) @ '',height=''
            @ str_int (si_height si) @ '',framerate='' @ framerate,
          bt_enc_parser = (if si_encoded_caps si \<noteq> None then si_encoded_parser si else None),
          bt_discard_main = (si_buffers si \<and> \<not> raw_enabled \<and> \<not> preview_enabled)\<rparr>)"

section \<open>The recording plan\<close>

definition enabled :: "pipe \<Rightarrow> bool" where
  "enabled p = truthy (field (pl_cfg p) ''enabled'')"

definition feed_appsrc_props :: "built \<Rightarrow> string" where
  "feed_appsrc_props b = (if si_finite (bt_source b) then '' block=true'' else [])"

definition opt_text :: "string option \<Rightarrow> string" where
  "opt_text s = (case s of None \<Rightarrow> ''None'' | Some t \<Rightarrow> t)"

definition session_desc :: "built \<Rightarrow> bool \<Rightarrow> string \<Rightarrow> string" where
  "session_desc b stream_copy rec_desc =
     (let src_caps = (if stream_copy then opt_text (si_encoded_caps (bt_source b)) else bt_raw_caps b)
      in ''appsrc name=recsrc is-live=true do-timestamp=false format=time'' @ feed_appsrc_props b
         @ '' max-bytes='' @ str_int (REC_QUEUE_FRAMES * bt_image_size b) @ '' caps=\"'' @ src_caps @ ''\" ! '' @ rec_desc)"

definition tile_value_of :: "json \<Rightarrow> tile_value" where
  "tile_value_of v = (case v of JBool b \<Rightarrow> Tile_Bool b | JNull \<Rightarrow> Tile_None | _ \<Rightarrow> Tile_Str (text_of False v))"

definition recording_location :: "fields \<Rightarrow> string \<Rightarrow> string" where
  "recording_location cfg pfx = rstrip_slash (as_str (field cfg ''output_dir'')) @ ''/'' @ pfx"

definition rec_error_text :: "rec_error \<Rightarrow> string" where
  "rec_error_text e = (case e of
     Bad_Crf \<Rightarrow> ''recording.x264_crf must be an integer from 1 to 50''
   | Bad_Preset \<Rightarrow> ''recording.x264_preset must be one of '' @ join_with '', '' X264_PRESETS
   | No_Encoder es \<Rightarrow> ''recorder: no usable lossless encoder: ffv1 needs avenc_ffv1 (gstreamer1.0-libav); missing element(s): ''
       @ join_with '', '' es)"

definition odd_geometry :: "built \<Rightarrow> bool" where
  "odd_geometry b \<longleftrightarrow> odd (si_width (bt_source b)) \<or> odd (si_height (bt_source b))"

text \<open>(description, encoder, tile mode); the tiler is the closure of the mode.\<close>

definition recording_plan :: "(string \<Rightarrow> bool) \<Rightarrow> fields \<Rightarrow> built \<Rightarrow> string + string \<times> string \<times> string" where
  "recording_plan avail cfg b =
     (case build_recorder_description avail cfg (bt_bits b)
             (recording_location cfg (as_str (field cfg ''name_prefix''))) (bt_fps b) (bt_is_color b) (bt_enc_parser b) of
        Inl e \<Rightarrow> Inl (rec_error_text e)
      | Inr (desc, encr) \<Rightarrow>
          if encr = ''x264'' \<and> odd_geometry b
          then Inl ''recording.encoder=x264 requires even width and height for 4:2:0; use ffv1 for this geometry''
          else
            let mode = (if has_parser (bt_bayer b) \<and> bt_bits b \<le> 8 \<and> encr \<notin> {''x264'', ''stream-copy''}
                        then normalize_mode (tile_value_of (field cfg ''bayer_tile'')) else ''off'')
            in if mode \<noteq> ''off'' \<and> odd_geometry b then Inl ''Bayer tiling requires even width and height''
               else Inr (desc, encr, mode))"

definition nvenc_name :: "json \<Rightarrow> string" where
  "nvenc_name v = (case preset_level v of
     Some l \<Rightarrow> [''disable'', ''ultrafast'', ''fast'', ''medium'', ''slow''] ! nat l | None \<Rightarrow> [])"

definition view_requested :: "fields \<Rightarrow> fields" where
  "view_requested cfg =
     (let r = requested cfg;
          r = (if field cfg ''bayer_tile'' = JBool True then upd_key ''bayer_tile'' (JStr ''plain'') r
               else if field cfg ''bayer_tile'' \<in> {JBool False, JNull, JInt 0, JNum 0} then upd_key ''bayer_tile'' (JStr ''off'') r
               else r)
      in upd_key ''nvenc_preset'' (JStr (nvenc_name (field cfg ''nvenc_preset''))) r)"

definition view_encoders :: "built \<Rightarrow> bool \<Rightarrow> string list" where
  "view_encoders b stream_copy =
     (if has_parser (bt_enc_parser b) then
        (if stream_copy then [''auto'', ''stream-copy'']
         else filter (\<lambda>e. e \<notin> {''auto'', ''stream-copy''}) VALID_ENCODERS)
      else remove1 ''stream-copy'' VALID_ENCODERS)"

definition plan_view :: "pipe \<Rightarrow> fields \<Rightarrow> string \<Rightarrow> string \<Rightarrow> settings_view" where
  "plan_view p cfg encr mode =
     \<lparr>sv_generation = pl_generation p, sv_revision = pl_revision p, sv_requested = view_requested cfg,
      sv_encoder = encr, sv_lossy = (if encr = ''stream-copy'' then None else Some (encr = ''x264'')),
      sv_bayer_tile = mode,
      sv_x264 = (if encr = ''x264'' then (case x264_settings cfg of Inr x \<Rightarrow> Some x | Inl _ \<Rightarrow> None) else None),
      sv_encoders = view_encoders (pl_built p) (encr = ''stream-copy''),
      sv_source_mode_fixed = has_parser (bt_enc_parser (pl_built p))\<rparr>"

definition install_recording_plan :: "fields \<Rightarrow> string \<times> string \<times> string \<Rightarrow> pipe \<Rightarrow> pipe" where
  "install_recording_plan cfg plan p =
     (case plan of (desc, encr, mode) \<Rightarrow>
        p\<lparr>pl_cfg := cfg, pl_rec_enc := Some encr, pl_tile_mode := mode, pl_stream_copy := (encr = ''stream-copy''),
          pl_desc_probe := Some (session_desc (pl_built p) (encr = ''stream-copy'') desc),
          pl_view := Some (plan_view p cfg encr mode)\<rparr>)"

text \<open>\<open>build\<close>: an unusable plan raises; a disabled recorder gets none.\<close>

definition build_pipe :: "(string \<Rightarrow> bool) \<Rightarrow> string \<Rightarrow> fields \<Rightarrow> built \<Rightarrow> string + pipe" where
  "build_pipe avail generation cfg b =
     (let p = new_pipe generation cfg b in
      if enabled p
      then ebind (recording_plan avail cfg b) (\<lambda>plan. Inr (install_recording_plan cfg plan p))
      else Inr p)"

section \<open>Frames\<close>

text \<open>The plugin transport endpoint chosen at \<open>build\<close>, with its appsrc's answers.\<close>

datatype endpoint = No_Endpoint | Unixfd appsrc | Shm_Header appsrc

record frame_env =
  fe_camsrc :: appsrc
  fe_endpoint :: endpoint
  fe_copy_ok :: bool           \<comment> \<open>the memfd copy of a unixfd frame succeeds\<close>
  fe_now :: rat                \<comment> \<open>monotonic clock\<close>
  fe_unix_s :: rat             \<comment> \<open>wall clock\<close>
  fe_rate :: rat               \<comment> \<open>\<open>plugin_endpoint.max_rate_hz\<close>\<close>
  fe_discontinuity :: bool     \<comment> \<open>\<open>source.take_discontinuity()\<close>\<close>
  fe_rec_max_bytes :: nat
  fe_rec_level :: nat
  fe_rec_flow :: flow
  fe_header_ok :: bool

definition settings_path :: "open_session \<Rightarrow> string option" where
  "settings_path os = rs_settings_path (os_sess os)"

definition session_header :: "frame_env \<Rightarrow> pipe \<Rightarrow> open_session \<Rightarrow> frame_stamp \<Rightarrow> int \<Rightarrow> sidecar_header" where
  "session_header e p os stamp pts =
     (let b = pl_built p; si = bt_source b; encr = os_encoder os in
      \<lparr>sh_created_unix_s = fe_unix_s e,
       sh_base_timestamp_ns = (case tl_base_ts (pl_tl p) of Some t \<Rightarrow> t | None \<Rightarrow> 0),
       sh_timestamp_source = si_active_timestamp_source si,
       sh_ptp_synced = si_ptp_locked si,
       sh_pixel_format = opt_text (si_pixel_format si),
       sh_bayer_pattern = (if truthy (field (os_cfg os) ''bayer_pattern'')
                           then Some (as_str (field (os_cfg os) ''bayer_pattern'')) else bt_bayer b),
       sh_bits_per_pixel = bt_bits b, sh_width = si_width si, sh_height = si_height si,
       sh_tick_frequency_hz = si_tick_frequency_hz si,
       sh_cfa_tile_mode = os_tile_mode os,
       sh_session_index = int (rs_index (os_sess os)), sh_session_prefix = rs_prefix (os_sess os),
       sh_first_pts_ns = pts, sh_first_frame_id = fs_frame_id stamp, sh_first_timestamp_ns = fs_timestamp_ns stamp,
       sh_pts_offset_ns = 0,
       sh_replay_of = si_replay_of si, sh_replay_epoch_unix_ns = si_replay_epoch_unix_ns si,
       sh_recording_encoder = (if encr = [] then None else Some encr),
       sh_recording_lossy = (if encr \<in> {[], ''stream-copy''} then None else Some (encr = ''x264'')),
       sh_recording_settings =
         (if encr = ''x264''
          then (case x264_settings (os_cfg os) of
                  Inr (crf, preset) \<Rightarrow> Some (JObj [(''crf'', JInt crf), (''preset'', JStr preset), (''chroma'', JStr ''4:2:0'')])
                | Inl _ \<Rightarrow> None)
          else None),
       sh_recording_settings_file = settings_path os\<rparr>)"

text \<open>The tiler of the session; \<open>None\<close> is its exception.\<close>

definition tiled_payload :: "built \<Rightarrow> string \<Rightarrow> bytes \<Rightarrow> bytes option" where
  "tiled_payload b mode payload =
     (if mode = ''off'' then Some payload
      else tile_cfa payload (nat (si_width (bt_source b))) (nat (si_height (bt_source b))) mode (bt_bayer b))"

definition feed_recording ::
  "frame_env \<Rightarrow> open_session \<Rightarrow> frame_stamp \<Rightarrow> int \<Rightarrow> bytes \<Rightarrow> string option \<Rightarrow> pipe \<Rightarrow> push_result option \<times> pipe" where
  "feed_recording e os stamp pts payload caps_str p =
     (case tiled_payload (pl_built p) (os_tile_mode os) payload of
        None \<Rightarrow> (None, p)
      | Some payload \<Rightarrow>
          let env = \<lparr>pe_max_bytes = fe_rec_max_bytes e, pe_level = fe_rec_level e,
                     pe_header = session_header e p os stamp pts, pe_header_ok = fe_header_ok e,
                     pe_flow = fe_rec_flow e\<rparr>;
              (r, s) = push env payload pts stamp caps_str (os_sess os);
              p = p\<lparr>pl_session := Some (os\<lparr>os_sess := s\<rparr>)\<rparr>
          in (Some r, if r = Push_DROPPED then upd_drops (note_push_drop False) p else p))"

definition account :: "frame_env \<Rightarrow> frame_stamp \<Rightarrow> pipe \<Rightarrow> pipe" where
  "account e stamp p =
     (let p = (if fe_discontinuity e then upd_drops resync p else p);
          p = upd_drops (\<lambda>d. snd (observe_frame (fs_frame_id stamp) d)) p
      in p\<lparr>pl_n_pushed := pl_n_pushed p + 1\<rparr>)"

definition with_drops :: "drop_stats \<Rightarrow> pipe \<Rightarrow> pipe" where
  "with_drops d p = upd_drops (\<lambda>_. d) p"

text \<open>A push on a publish feed: the level check, then the flow return; \<open>True\<close> when the buffer went out.\<close>

definition push_feed :: "appsrc \<Rightarrow> nat \<Rightarrow> pipe \<Rightarrow> bool \<times> pipe" where
  "push_feed src nbytes p =
     (let (full, d) = queue_full src nbytes True (drops_of p) in
      if full then (False, with_drops d p)
      else let (ok, d) = push_checked src True d in (ok, with_drops d p))"

definition publish_transport :: "frame_env \<Rightarrow> frame_stamp \<Rightarrow> bytes \<Rightarrow> int \<Rightarrow> bool \<Rightarrow> pipe \<Rightarrow> pipe" where
  "publish_transport e stamp payload pts held p =
     (let b = pl_built p;
          p = p\<lparr>pl_still := Some (stamp, payload, pts), pl_still_mono := fe_now e\<rparr>;
          (tpts, clock) = transport_pts (si_finite (bt_source b)) (bt_interval_ns b) (fe_now e) pts held (pl_clock p);
          p = p\<lparr>pl_clock := clock\<rparr>;
          out = \<lparr>pb_pts = tpts, pb_frame_id = fs_frame_id stamp, pb_timestamp_ns = fs_timestamp_ns stamp\<rparr>;
          sent = (\<lambda>(ok, p). if ok then p\<lparr>pl_published := pl_published p @ [out]\<rparr> else p)
      in case fe_endpoint e of
           No_Endpoint \<Rightarrow> p
         | Unixfd src \<Rightarrow>
             if fst (queue_full src (length payload) True (drops_of p))
             then snd (push_feed src (length payload) p)
             else if \<not> fe_copy_ok e then upd_drops note_publish_drop p
             else sent (push_feed src (length payload) p)
         | Shm_Header src \<Rightarrow>
             (case pack \<lparr>fh_timestamp_ns = fs_timestamp_ns stamp, fh_frame_id = fs_frame_id stamp,
                         fh_width = si_width (bt_source b), fh_height = si_height (bt_source b),
                         fh_pixfmt = bt_gst_format b, fh_ts_source = ts_value (fs_source stamp),
                         fh_flags = 0, fh_version = VERSION\<rparr> of
                Inl _ \<Rightarrow> upd_drops note_publish_drop p
              | Inr hdr \<Rightarrow> sent (push_feed src (length hdr + length payload) p)))"

text \<open>\<open>_on_frame\<close> and \<open>_on_encoded\<close>; \<open>True\<close> when the tiler's exception left the callback.\<close>

definition on_frame :: "frame_env \<Rightarrow> frame_stamp \<Rightarrow> bytes \<Rightarrow> pipe \<Rightarrow> bool \<times> pipe" where
  "on_frame e stamp payload p =
     (if pl_stopping p then (False, p)
      else
        let sess = pl_session p;
            (pts, tl) = pts_for stamp (\<not> pl_stream_copy p) (pl_tl p);
            p = p\<lparr>pl_tl := tl\<rparr>;
            p = (if bt_discard_main (pl_built p) then p else snd (push_feed (fe_camsrc e) (length payload) p));
            (raised, p) =
              (case sess of
                 Some os \<Rightarrow>
                   if pl_stream_copy p then (False, p)
                   else (case feed_recording e os stamp pts payload None p of (r, p) \<Rightarrow> (r = None, p))
               | None \<Rightarrow> (False, p))
        in if raised then (True, p)
           else
             let (publish, gate) = should_publish (fe_rate e) (bt_fps (pl_built p)) (fs_timestamp_ns stamp) (pl_gate p);
                 p = p\<lparr>pl_gate := gate\<rparr>;
                 p = (if publish then publish_transport e stamp payload pts False p else p)
             in (False, if pl_stream_copy p then p else account e stamp p))"

definition on_encoded :: "frame_env \<Rightarrow> frame_stamp \<Rightarrow> bytes \<Rightarrow> string option \<Rightarrow> pipe \<Rightarrow> bool \<times> pipe" where
  "on_encoded e stamp payload caps_str p =
     (if pl_stopping p \<or> \<not> pl_stream_copy p then (False, p)
      else
        let (pts, tl) = pts_for stamp True (pl_tl p);
            p = p\<lparr>pl_tl := tl\<rparr>;
            (raised, p) =
              (case pl_session p of
                 Some os \<Rightarrow> (case feed_recording e os stamp pts payload caps_str p of (r, p) \<Rightarrow> (r = None, p))
               | None \<Rightarrow> (False, p))
        in if raised then (True, p) else (False, account e stamp p))"

definition still_tick :: "bool \<Rightarrow> frame_env \<Rightarrow> pipe \<Rightarrow> bool \<times> pipe" where
  "still_tick has_playback e p =
     (if pl_stopping p then (False, p)
      else case pl_still p of
        None \<Rightarrow> (True, p)
      | Some (stamp, payload, pts) \<Rightarrow>
          if \<not> has_playback \<or> fe_now e - pl_still_mono p < 9 / 10 then (True, p)
          else (True, publish_transport e stamp payload pts True p))"

section \<open>Sessions\<close>

abbreviation (input) SESSION_DRAIN_S :: rat where "SESSION_DRAIN_S \<equiv> 5"

record act_env =
  ae_avail :: "string \<Rightarrow> bool"
  ae_listing :: "string list option"
  ae_stamp :: string
  ae_snapshot_ok :: bool
  ae_mkdir_ok :: bool
  ae_launch :: launch
  ae_window :: bool            \<comment> \<open>the health monitor opened a window\<close>

definition refuse :: "string \<Rightarrow> op_result" where
  "refuse e = result False (Some e) None"

text \<open>The body of \<open>activate\<close>'s \<open>try\<close>: the session, started, or the exception's text.\<close>

definition open_session_for :: "act_env \<Rightarrow> string option \<Rightarrow> pipe \<Rightarrow> string + open_session" where
  "open_session_for e run_id p =
     (let cfg = pl_cfg p; b = pl_built p; out_dir = as_str (field cfg ''output_dir'');
          label = (case run_id of Some (c # r) \<Rightarrow> ''-'' @ c # r | _ \<Rightarrow> []);
          pfx = unique_run_prefix (ae_listing e) (as_str (field cfg ''name_prefix'') @ label) (ae_stamp e);
          loc = recording_location cfg pfx
      in case build_recorder_description (ae_avail e) cfg (bt_bits b) loc (bt_fps b) (bt_is_color b) (bt_enc_parser b) of
           Inl err \<Rightarrow> Inl (rec_error_text err)
         | Inr (desc, encr) \<Rightarrow>
             if pl_rec_enc p \<noteq> None \<and> Some encr \<noteq> pl_rec_enc p
             then Inl ''resolved encoder changed; review recording settings again''
             else
               let s = new_session (pl_session_seq p) pfx (path_join out_dir pfx) (pl_stream_copy p);
                   s = s\<lparr>rs_settings_path := Some (loc @ ''.recording-settings.json'')\<rparr>
               in if \<not> ae_snapshot_ok e then Inl ''recording settings snapshot failed''
                  else (case session_start (ae_mkdir_ok e) (ae_launch e) (summary (drops_of p)) s of
                          (Some err, _) \<Rightarrow> Inl err
                        | (None, s) \<Rightarrow> Inr \<lparr>os_sess = s, os_cfg = cfg, os_encoder = encr,
                                          os_tile_mode = pl_tile_mode p, os_window = ae_window e\<rparr>))"

definition activate :: "act_env \<Rightarrow> string option \<Rightarrow> pipe \<Rightarrow> op_result \<times> pipe" where
  "activate e run_id p =
     (if \<not> enabled p \<or> pl_desc_probe p = None then (refuse ''recording disabled by config'', p)
      else if pl_stopping p then (refuse ''stopping'', p)
      else if pl_session p \<noteq> None then (refuse ''already recording'', p)
      else
        let p = p\<lparr>pl_lifecycle := Activating, pl_session_seq := pl_session_seq p + 1\<rparr> in
        case open_session_for e run_id p of
          Inl err \<Rightarrow>
            let r = refuse (''session start failed: '' @ err)
            in (r, p\<lparr>pl_lifecycle := Inactive, pl_last_result := Some r\<rparr>)
        | Inr os \<Rightarrow>
            let r = result True None (Some (Opened (rs_index (os_sess os)) (rs_prefix (os_sess os))))
            in (r, p\<lparr>pl_session := Some os, pl_lifecycle := Active, pl_timer := True, pl_last_result := Some r\<rparr>))"

record close_env =
  ce_drain :: drain
  ce_disk :: "string list"
  ce_json_ok :: bool
  ce_health :: "json option"   \<comment> \<open>what closing the health window gave, if it did\<close>

definition close_session_sync :: "close_env \<Rightarrow> bool \<Rightarrow> open_session \<Rightarrow> pipe \<Rightarrow> op_result" where
  "close_session_sync e wait_eos os p =
     (let s = begin_close (os_sess os);
          s = (if os_window os then s\<lparr>rs_health_summary := ce_health e\<rparr> else s);
          info = fst (finish_close (if wait_eos then SESSION_DRAIN_S else 0) (ce_drain e) (ce_disk e) (ce_json_ok e)
                   (summary (drops_of p)) s)
      in result True (case ci_error info of Some (c # m) \<Rightarrow> Some (c # m) | _ \<Rightarrow> None) (Some (Closed info)))"

definition deactivate :: "close_env \<Rightarrow> bool \<Rightarrow> pipe \<Rightarrow> op_result \<times> pipe" where
  "deactivate e wait_eos p =
     (case pl_session p of
        None \<Rightarrow> (refuse ''not recording'', p)
      | Some os \<Rightarrow>
          let r = close_session_sync e wait_eos os p
          in (r, p\<lparr>pl_session := None, pl_timer := False, pl_lifecycle := Inactive, pl_last_result := Some r\<rparr>))"

section \<open>Runtime settings\<close>

definition settings_locked :: "pipe \<Rightarrow> bool" where
  "settings_locked p \<longleftrightarrow> \<not> enabled p \<or> pl_stopping p \<or> pl_lifecycle p \<noteq> Inactive \<or> pl_session p \<noteq> None"

definition recording_settings :: "pipe \<Rightarrow> (settings_view \<times> bool) option" where
  "recording_settings p = map_option (\<lambda>v. (v, \<not> settings_locked p)) (pl_view p)"

text \<open>\<open>check_recording_settings\<close>: \<open>True\<close> when it does not raise.\<close>

definition check_recording_settings :: "json \<Rightarrow> pipe \<Rightarrow> bool" where
  "check_recording_settings expected p =
     (case (expected, pl_view p) of
        (JObj d, Some v) \<Rightarrow> map_of d ''generation'' = Some (JStr (sv_generation v))
                              \<and> map_of d ''revision'' = Some (JInt (int (sv_revision v)))
      | _ \<Rightarrow> False)"

definition patch_error_text :: "patch_error \<Rightarrow> string" where
  "patch_error_text e = (case e of
     Not_An_Object \<Rightarrow> ''settings must be a non-empty JSON object''
   | Not_Editable ks \<Rightarrow> ''settings are not editable: '' @ join_with '', '' ks
   | Bad_Value k \<Rightarrow> k @ '' must be one of the accepted values'')"

text \<open>\<open>probe_ok\<close>: the candidate's session pipeline parses.\<close>

definition configure_recording ::
  "(string \<Rightarrow> bool) \<Rightarrow> bool \<Rightarrow> json \<Rightarrow> pipe \<Rightarrow> (string + bool) \<times> pipe" where
  "configure_recording avail probe_ok request p =
     (if settings_locked p then (Inl ''recording settings are locked; stop recording before changing them'', p)
      else case request of
        JObj d \<Rightarrow>
          if fst ` set d \<noteq> {''settings'', ''expected''}
          then (Inl ''request must contain settings and expected generation/revision'', p)
          else if \<not> check_recording_settings (get_key d ''expected'') p
          then (Inl ''recording settings changed; refresh and review before retrying'', p)
          else (case apply_patch (pl_cfg p) (get_key d ''settings'') of
                  Inl err \<Rightarrow> (Inl (patch_error_text err), p)
                | Inr cfg \<Rightarrow>
                    (case recording_plan avail cfg (pl_built p) of
                       Inl err \<Rightarrow> (Inl err, p)
                     | Inr (desc, encr, mode) \<Rightarrow>
                         if (encr = ''stream-copy'') \<noteq> pl_stream_copy p
                         then (Inl ''switching between source-copy and re-encoding requires a service restart'', p)
                         else if \<not> probe_ok then (Inl ''the candidate session pipeline does not parse'', p)
                         else if requested cfg = requested (pl_cfg p) \<and> Some encr = pl_rec_enc p \<and> mode = pl_tile_mode p
                         then (Inr True, p)
                         else (Inr False, install_recording_plan cfg (desc, encr, mode) (p\<lparr>pl_revision := pl_revision p + 1\<rparr>))))
      | _ \<Rightarrow> (Inl ''request must contain settings and expected generation/revision'', p))"

section \<open>Progress, errors and the stop\<close>

definition fire :: "hook \<Rightarrow> pipe \<Rightarrow> pipe" where
  "fire h p = p\<lparr>pl_hooks := pl_hooks p @ [h]\<rparr>"

definition is_current :: "nat \<Rightarrow> pipe \<Rightarrow> bool" where
  "is_current index p = (case pl_session p of None \<Rightarrow> False | Some os \<Rightarrow> rs_index (os_sess os) = index)"

definition on_session_fragment :: "nat \<Rightarrow> pipe \<Rightarrow> pipe" where
  "on_session_fragment index p = (if is_current index p then fire Hook_Progress p else p)"

definition progress_tick :: "pipe \<Rightarrow> bool \<times> pipe" where
  "progress_tick p =
     (if pl_session p = None then (False, p\<lparr>pl_timer := False\<rparr>) else (True, fire Hook_Progress p))"

definition on_session_error :: "close_env \<Rightarrow> nat \<Rightarrow> pipe \<Rightarrow> pipe" where
  "on_session_error e index p =
     (if \<not> is_current index p \<or> pl_stopping p then p
      else
        let (r, p) = deactivate e False p; p = fire (Hook_Ended r) p
        in if pl_session_error_fatal p then p\<lparr>pl_fatal := True, pl_quit := True\<rparr> else p)"

definition finalize_open :: "close_env \<Rightarrow> pipe \<Rightarrow> pipe" where
  "finalize_open e p =
     (case pl_session p of
        None \<Rightarrow> p
      | Some os \<Rightarrow>
          let r = close_session_sync e True os p
          in p\<lparr>pl_session := None, pl_lifecycle := Inactive, pl_last_result := Some r\<rparr>)"

definition request_stop :: "close_env \<Rightarrow> pipe \<Rightarrow> pipe" where
  "request_stop e p = (if pl_stopping p then p else finalize_open e (p\<lparr>pl_stopping := True\<rparr>))"

definition shutdown :: "close_env \<Rightarrow> pipe \<Rightarrow> pipe" where
  "shutdown e p = finalize_open e (p\<lparr>pl_stopping := True\<rparr>)"

definition force_quit :: "pipe \<Rightarrow> bool \<times> pipe" where
  "force_quit p = (False, p\<lparr>pl_quit := True\<rparr>)"

datatype main_message = Main_Error | Main_EOS | Main_Other

definition on_bus :: "main_message \<Rightarrow> pipe \<Rightarrow> pipe" where
  "on_bus m p = (case m of Main_Error \<Rightarrow> p\<lparr>pl_fatal := True, pl_quit := True\<rparr>
     | Main_EOS \<Rightarrow> p\<lparr>pl_quit := True\<rparr> | Main_Other \<Rightarrow> p)"

section \<open>The periodic ticks\<close>

record source_poll =
  sp_finished :: bool
  sp_finished_error :: bool
  sp_reconnect_enabled :: bool
  sp_disconnected :: bool

text \<open>\<open>_watchdog\<close>: whether it stays armed, and whether it starts a reconnect thread.\<close>

definition watchdog :: "close_env \<Rightarrow> source_poll \<Rightarrow> pipe \<Rightarrow> bool \<times> bool \<times> pipe" where
  "watchdog e sp p =
     (if pl_stopping p then (False, False, p)
      else if si_finite (bt_source (pl_built p)) \<and> sp_finished sp then
        if sp_finished_error sp then (False, False, request_stop e (p\<lparr>pl_fatal := True\<rparr>))
        else if \<not> pl_hold_on_finish p then (False, False, request_stop e p)
        else if pl_held p then (True, False, p)
        else
          let p = p\<lparr>pl_held := True\<rparr> in
          if pl_session p = None then (True, False, p)
          else let (r, p) = deactivate e True p in (True, False, fire (Hook_Finished r) p)
      else
        let p = p\<lparr>pl_held := False\<rparr> in
        if pl_reconnecting p \<or> \<not> sp_reconnect_enabled sp \<or> \<not> sp_disconnected sp then (True, False, p)
        else (True, True, p\<lparr>pl_reconnecting := True\<rparr>))"

text \<open>\<open>playback\<close>: the playback state of a playback source, \<open>None\<close> for a live one.\<close>

definition log_health :: "string option \<Rightarrow> pipe \<Rightarrow> bool \<times> pipe" where
  "log_health playback p =
     (if pl_stopping p then (False, p)
      else if playback \<noteq> None \<and> playback \<noteq> Some ''playing''
      then (True, p\<lparr>pl_stalled := False, pl_last_health_frames := pl_n_pushed p\<rparr>)
      else if pl_n_pushed p = pl_last_health_frames p \<and> \<not> pl_reconnecting p
      then (True, p\<lparr>pl_stalled := True\<rparr>)
      else (True, p\<lparr>pl_stalled := False, pl_last_health_frames := pl_n_pushed p\<rparr>))"

section \<open>Reconnecting\<close>

text \<open>What one attempt meets: the reopen raises, brings a different stream, or returns; then a stop that
  landed inside it, and whether \<open>start\<close> raises.  \<open>wait_stopped\<close>: the stop event fired during the backoff;
  \<open>stopping_next\<close>: it fired before the loop's next test.\<close>

datatype attempt =
    Reopen_Fails bool bool
  | Config_Changed
  | Reopened bool bool bool bool       \<comment> \<open>stop landed, start raises, then as for a failure\<close>

datatype reconnect_end =
    Resumed | Stopped | Released        \<comment> \<open>\<open>Released\<close>: the reacquired source was handed back\<close>
  | Rebuild                             \<comment> \<open>the stream came back different\<close>

definition rearm :: "pipe \<Rightarrow> pipe" where
  "rearm p = p\<lparr>pl_gate := \<lparr>pg_pub_seq = 0, pg_last_pub_ts = None\<rparr>, pl_tl := clear_memo (pl_tl p)\<rparr>"

text \<open>\<open>_reconnect_loop\<close> over the attempts' outcomes; \<open>None\<close> when they run out before it ends.  The list is
  of the backoff waits made.\<close>

fun reconnect_loop :: "rat \<Rightarrow> rat \<Rightarrow> attempt list \<Rightarrow> pipe \<Rightarrow> (reconnect_end \<times> rat list \<times> pipe) option" where
  "reconnect_loop backoff cap [] p = None"
| "reconnect_loop backoff cap (a # as) p =
     (let retry = (\<lambda>wait_stopped stopping_next p.
            if wait_stopped then Some (Stopped, [backoff], p)
            else if stopping_next then Some (Stopped, [backoff], p)
            else map_option (\<lambda>(r, ws, p). (r, backoff # ws, p)) (reconnect_loop (min (backoff * 2) cap) cap as p))
      in case a of
           Config_Changed \<Rightarrow> Some (Rebuild, [], p\<lparr>pl_fatal := True\<rparr>)
         | Reopen_Fails w n \<Rightarrow> retry w n p
         | Reopened stop_landed start_fails w n \<Rightarrow>
             if stop_landed then Some (Released, [], p)
             else if start_fails then retry w n (rearm p)
             else Some (Resumed, [], rearm p))"

definition reconnect :: "rat \<Rightarrow> rat \<Rightarrow> attempt list \<Rightarrow> pipe \<Rightarrow> (reconnect_end \<times> rat list \<times> pipe) option" where
  "reconnect backoff cap as p =
     map_option (\<lambda>(r, ws, p). (r, ws, p\<lparr>pl_reconnecting := False\<rparr>))
       (if pl_stopping p then Some (Stopped, [], p) else reconnect_loop backoff cap as p)"

section \<open>What the frame path touches\<close>

text \<open>The state without the parts the frame callbacks write.\<close>

definition core :: "pipe \<Rightarrow> pipe" where
  "core p = p\<lparr>pl_tl := new_timeline 1, pl_clock := new_transport_clock,
     pl_gate := \<lparr>pg_pub_seq = 0, pg_last_pub_ts = None\<rparr>, pl_n_pushed := 0, pl_session := None,
     pl_still := None, pl_still_mono := 0, pl_published := []\<rparr>"

lemma core_upd [simp]:
  "core (p\<lparr>pl_tl := a\<rparr>) = core p" "core (p\<lparr>pl_clock := b\<rparr>) = core p" "core (p\<lparr>pl_gate := c\<rparr>) = core p"
  "core (p\<lparr>pl_n_pushed := d\<rparr>) = core p" "core (p\<lparr>pl_session := f\<rparr>) = core p" "core (p\<lparr>pl_still := g\<rparr>) = core p"
  "core (p\<lparr>pl_still_mono := h\<rparr>) = core p" "core (p\<lparr>pl_published := i\<rparr>) = core p"
  by (simp_all add: core_def)

lemma coreD:
  assumes "core p' = core p"
  shows "pl_lifecycle p' = pl_lifecycle p" "pl_stopping p' = pl_stopping p" "pl_timer p' = pl_timer p"
    "pl_cfg p' = pl_cfg p" "pl_session_seq p' = pl_session_seq p" "pl_rec_enc p' = pl_rec_enc p"
    "pl_tile_mode p' = pl_tile_mode p" "pl_stream_copy p' = pl_stream_copy p" "pl_desc_probe p' = pl_desc_probe p"
    "pl_built p' = pl_built p" "pl_view p' = pl_view p" "pl_revision p' = pl_revision p" "pl_hooks p' = pl_hooks p"
    "pl_generation p' = pl_generation p"
  using arg_cong[OF assms, of pl_lifecycle] arg_cong[OF assms, of pl_stopping] arg_cong[OF assms, of pl_timer]
    arg_cong[OF assms, of pl_cfg] arg_cong[OF assms, of pl_session_seq] arg_cong[OF assms, of pl_rec_enc]
    arg_cong[OF assms, of pl_tile_mode] arg_cong[OF assms, of pl_stream_copy] arg_cong[OF assms, of pl_desc_probe]
    arg_cong[OF assms, of pl_built] arg_cong[OF assms, of pl_view] arg_cong[OF assms, of pl_revision]
    arg_cong[OF assms, of pl_hooks] arg_cong[OF assms, of pl_generation]
  by (simp_all add: core_def)

lemma upd_drops_simps [simp]:
  "core (upd_drops f p) = core p" "pl_session (upd_drops f p) = pl_session p"
  "drops_of (upd_drops f p) = f (drops_of p)" "pl_n_pushed (upd_drops f p) = pl_n_pushed p"
  "pl_stream_copy (upd_drops f p) = pl_stream_copy p" "pl_built (upd_drops f p) = pl_built p"
  "pl_gate (upd_drops f p) = pl_gate p" "pl_published (upd_drops f p) = pl_published p"
  by (simp_all add: upd_drops_def drops_of_def)

lemma drops_of_session [simp]: "drops_of (p\<lparr>pl_session := x\<rparr>) = drops_of p"
  by (simp add: drops_of_def)

lemma with_drops_simps [simp]:
  "core (with_drops d p) = core p" "pl_session (with_drops d p) = pl_session p" "drops_of (with_drops d p) = d"
  "pl_n_pushed (with_drops d p) = pl_n_pushed p" "pl_stream_copy (with_drops d p) = pl_stream_copy p"
  "pl_built (with_drops d p) = pl_built p" "pl_gate (with_drops d p) = pl_gate p"
  by (simp_all add: with_drops_def)

text \<open>The counters a recording is judged by.\<close>

definition rec_counts :: "drop_stats \<Rightarrow> int \<times> int \<times> int \<times> int" where
  "rec_counts d = (ds_frames d, ds_enqueue_failures d, ds_source_gaps d, ds_frames_missing d)"

text \<open>A step of the publish side: the session and those counters stay.\<close>

definition best_effort :: "pipe \<Rightarrow> pipe \<Rightarrow> bool" where
  "best_effort p p' \<longleftrightarrow> core p' = core p \<and> pl_session p' = pl_session p \<and> pl_n_pushed p' = pl_n_pushed p
     \<and> rec_counts (drops_of p') = rec_counts (drops_of p)"

lemma best_effort_refl [simp]: "best_effort p p"
  by (simp add: best_effort_def)

lemma best_effort_trans: "best_effort p q \<Longrightarrow> best_effort q r \<Longrightarrow> best_effort p r"
  by (simp add: best_effort_def)

lemma best_effort_fields [simp]:
  "best_effort p (q\<lparr>pl_clock := b\<rparr>) = best_effort p q" "best_effort p (q\<lparr>pl_gate := c\<rparr>) = best_effort p q"
  "best_effort p (q\<lparr>pl_still := g\<rparr>) = best_effort p q" "best_effort p (q\<lparr>pl_still_mono := h\<rparr>) = best_effort p q"
  "best_effort p (q\<lparr>pl_published := i\<rparr>) = best_effort p q"
  by (simp_all add: best_effort_def drops_of_def)

lemma rec_counts_publish [simp]: "rec_counts (note_publish_drop d) = rec_counts d"
  by (simp add: rec_counts_def note_publish_drop_def)

lemma push_feed_best_effort: "best_effort p (snd (push_feed src n p))"
  by (auto simp: push_feed_def best_effort_def queue_full_def push_checked_def note_push_drop_def)

lemma publish_best_effort: "best_effort p (publish_transport e stamp payload pts held p)"
proof -
  have sent: "best_effort p ((\<lambda>(ok, q). if ok then q\<lparr>pl_published := pl_published q @ [out]\<rparr> else q) (push_feed src n q))"
    if "best_effort p q" for src n q out
    using best_effort_trans[OF that push_feed_best_effort[of q src n]] by (simp add: case_prod_beta)
  have drop: "best_effort p (upd_drops note_publish_drop q)" if "best_effort p q" for q
    using that by (simp add: best_effort_def)
  have feed: "best_effort p (snd (push_feed src n q))" if "best_effort p q" for src n q
    using best_effort_trans[OF that push_feed_best_effort] .
  show ?thesis
    unfolding publish_transport_def Let_def case_prod_beta
    by (cases "fe_endpoint e")
      (auto simp: sent[unfolded case_prod_beta] drop feed split: sum.split)
qed

lemma pts_for_drops: "pts_for stamp own u = (q, u') \<Longrightarrow> rec_counts (tl_drops u') = rec_counts (tl_drops u)"
proof -
  have step: "rec_counts (tl_drops (snd (pts_step r t))) = rec_counts (tl_drops t)" for r t
    by (auto simp: pts_step_def Let_def rec_counts_def note_pts_rebase_def split: option.split)
  assume "pts_for stamp own u = (q, u')"
  then show ?thesis
    using step unfolding pts_for_def Let_def case_prod_beta
    by (auto split: option.splits if_splits)
qed

lemma timeline_best_effort: "pts_for stamp own (pl_tl p) = (q, u) \<Longrightarrow> best_effort p (p\<lparr>pl_tl := u\<rparr>)"
  by (simp add: best_effort_def drops_of_def pts_for_drops)

text \<open>The recording feed.\<close>

lemma feed_recording_effect:
  assumes "feed_recording e os stamp pts payload c p = (r, p')"
  shows "core p' = core p \<and> pl_n_pushed p' = pl_n_pushed p \<and>
    (case r of
       None \<Rightarrow> p' = p \<and> os_tile_mode os \<noteq> ''off''
     | Some r \<Rightarrow> \<exists>s. pl_session p' = Some (os\<lparr>os_sess := s\<rparr>) \<and> same_run (os_sess os) s
         \<and> rs_frames s = rs_frames (os_sess os) + (if r = Push_OK then 1 else 0)
         \<and> rec_counts (drops_of p') = rec_counts ((if r = Push_DROPPED then note_enqueue_failure else id) (drops_of p)))"
proof (cases "tiled_payload (pl_built p) (os_tile_mode os) payload")
  case None
  then show ?thesis
    using assms by (auto simp: feed_recording_def tiled_payload_def split: if_splits)
next
  case (Some b)
  define env where "env = \<lparr>pe_max_bytes = fe_rec_max_bytes e, pe_level = fe_rec_level e,
                     pe_header = session_header e p os stamp pts, pe_header_ok = fe_header_ok e,
                     pe_flow = fe_rec_flow e\<rparr>"
  obtain q s where ps: "push env b pts stamp c (os_sess os) = (q, s)" by fastforce
  have p': "r = Some q" "p' = (if q = Push_DROPPED then upd_drops (note_push_drop False) (p\<lparr>pl_session := Some (os\<lparr>os_sess := s\<rparr>)\<rparr>)
      else p\<lparr>pl_session := Some (os\<lparr>os_sess := s\<rparr>)\<rparr>)"
    using assms Some ps by (simp_all add: feed_recording_def Let_def env_def[symmetric])
  show ?thesis
    using push_keeps[OF ps] p' by (auto simp: note_push_drop_def intro!: exI[of _ s])
qed

lemma account_effect:
  "core (account e stamp p) = core p" "pl_session (account e stamp p) = pl_session p"
  "pl_n_pushed (account e stamp p) = pl_n_pushed p + 1"
  "ds_frames (drops_of (account e stamp p)) = ds_frames (drops_of p) + 1"
  "ds_enqueue_failures (drops_of (account e stamp p)) = ds_enqueue_failures (drops_of p)"
  by (auto simp: account_def Let_def observe_frame_def resync_def drops_of_def upd_drops_def split: option.split)

section \<open>Every frame\<close>

text \<open>The callback that feeds the recording.\<close>

definition recording_callback :: "frame_env \<Rightarrow> frame_stamp \<Rightarrow> bytes \<Rightarrow> string option \<Rightarrow> pipe \<Rightarrow> bool \<times> pipe" where
  "recording_callback e stamp payload caps_str p =
     (if pl_stream_copy p then on_encoded e stamp payload caps_str p else on_frame e stamp payload p)"

text \<open>The feed of a session inside a callback, by its outcome (\<open>None\<close>: no session is open).\<close>

definition charge :: "push_result option \<Rightarrow> drop_stats \<Rightarrow> drop_stats" where
  "charge r d = (if r = Some Push_DROPPED then note_enqueue_failure d else d)"

definition session_after :: "push_result option \<Rightarrow> open_session option \<Rightarrow> open_session option \<Rightarrow> bool" where
  "session_after r sess sess' \<longleftrightarrow>
     (case sess of
        None \<Rightarrow> r = None \<and> sess' = None
      | Some os \<Rightarrow> r \<noteq> None \<and> (\<exists>s. sess' = Some (os\<lparr>os_sess := s\<rparr>) \<and> same_run (os_sess os) s
          \<and> rs_frames s = rs_frames (os_sess os) + (if r = Some Push_OK then 1 else 0)))"

definition fed_with :: "push_result option \<Rightarrow> pipe \<Rightarrow> pipe \<Rightarrow> bool" where
  "fed_with r p p' \<longleftrightarrow> core p' = core p \<and> pl_n_pushed p' = pl_n_pushed p
     \<and> rec_counts (drops_of p') = rec_counts (charge r (drops_of p)) \<and> session_after r (pl_session p) (pl_session p')"

lemma charge_cong: "rec_counts d = rec_counts d' \<Longrightarrow> rec_counts (charge r d) = rec_counts (charge r d')"
  by (simp add: charge_def rec_counts_def note_enqueue_failure_def)

lemma fed_best_effort: "fed_with r p q \<Longrightarrow> best_effort q q' \<Longrightarrow> fed_with r p q'"
  by (simp add: fed_with_def best_effort_def)

lemma best_effort_fed: "best_effort p q \<Longrightarrow> fed_with r q q' \<Longrightarrow> fed_with r p q'"
  using charge_cong[of "drops_of q" "drops_of p" r] by (simp add: fed_with_def best_effort_def)

definition feed_open ::
  "frame_env \<Rightarrow> frame_stamp \<Rightarrow> int \<Rightarrow> bytes \<Rightarrow> string option \<Rightarrow> open_session option \<Rightarrow> pipe \<Rightarrow> bool \<times> pipe" where
  "feed_open e stamp pts payload c sess p =
     (case sess of Some os \<Rightarrow> (case feed_recording e os stamp pts payload c p of (r, p) \<Rightarrow> (r = None, p)) | None \<Rightarrow> (False, p))"

lemma feed_open_fed:
  assumes "feed_open e stamp pts payload c (pl_session p) p = (raised, p')"
  shows "if raised then p' = p \<and> (\<exists>os. pl_session p = Some os \<and> os_tile_mode os \<noteq> ''off'') else \<exists>r. fed_with r p p'"
proof (cases "pl_session p")
  case None
  then have "raised = False" "p' = p" using assms by (simp_all add: feed_open_def)
  moreover have "fed_with None p p" using None by (simp add: fed_with_def charge_def session_after_def)
  ultimately show ?thesis by auto
next
  case (Some os)
  obtain r q where f: "feed_recording e os stamp pts payload c p = (r, q)" by fastforce
  have rq: "raised = (r = None)" "p' = q" using assms Some f by (simp_all add: feed_open_def)
  note eff = feed_recording_effect[OF f]
  show ?thesis
  proof (cases r)
    case None
    then show ?thesis using rq eff Some by simp
  next
    case (Some r1)
    then have "fed_with (Some r1) p p'"
      using rq eff \<open>pl_session p = Some os\<close> by (auto simp: fed_with_def charge_def session_after_def)
    then show ?thesis using rq Some by auto
  qed
qed

lemma recording_callback_cases:
  assumes "recording_callback e stamp payload c p = (raised, p')" "\<not> pl_stopping p"
  shows "if raised then best_effort p p' \<and> (\<exists>os. pl_session p = Some os \<and> os_tile_mode os \<noteq> ''off'')
    else \<exists>r q. fed_with r p q \<and> p' = account e stamp q"
proof (cases "pl_stream_copy p")
  case True
  obtain pts u where t: "pts_for stamp True (pl_tl p) = (pts, u)" by fastforce
  define p1 where "p1 = p\<lparr>pl_tl := u\<rparr>"
  have b: "best_effort p p1" unfolding p1_def by (rule timeline_best_effort[OF t])
  have s: "pl_session p1 = pl_session p" by (simp add: p1_def)
  obtain rd q where f: "feed_open e stamp pts payload c (pl_session p1) p1 = (rd, q)" by fastforce
  have "(raised, p') = (if rd then (True, q) else (False, account e stamp q))"
    using assms True t f unfolding recording_callback_def on_encoded_def feed_open_def p1_def by simp
  with feed_open_fed[OF f] b s best_effort_fed[OF b] show ?thesis by (cases rd) auto
next
  case False
  obtain pts u where t: "pts_for stamp True (pl_tl p) = (pts, u)" by fastforce
  define p1 where "p1 = p\<lparr>pl_tl := u\<rparr>"
  define p2 where "p2 = (if bt_discard_main (pl_built p1) then p1 else snd (push_feed (fe_camsrc e) (length payload) p1))"
  have b: "best_effort p p2"
    using timeline_best_effort[OF t] best_effort_trans push_feed_best_effort unfolding p1_def p2_def by auto
  have s: "pl_session p2 = pl_session p" "pl_stream_copy p2 = pl_stream_copy p"
    using b coreD(8)[of p2 p] by (simp_all add: best_effort_def)
  obtain rd q where f: "feed_open e stamp pts payload None (pl_session p2) p2 = (rd, q)" by fastforce
  obtain publish gate where g: "should_publish (fe_rate e) (bt_fps (pl_built q)) (fs_timestamp_ns stamp) (pl_gate q) = (publish, gate)"
    by fastforce
  define p3 where "p3 = (if publish then publish_transport e stamp payload pts False (q\<lparr>pl_gate := gate\<rparr>) else q\<lparr>pl_gate := gate\<rparr>)"
  have b3: "best_effort q p3"
    using publish_best_effort[of "q\<lparr>pl_gate := gate\<rparr>" e stamp payload pts False]
    unfolding p3_def by (auto simp: best_effort_def drops_of_def)
  have sc: "\<not> rd \<Longrightarrow> \<not> pl_stream_copy p3"
    using feed_open_fed[OF f] s False b3 coreD(8)[of p3 q] coreD(8)[of q p2]
    by (auto simp: fed_with_def best_effort_def)
  have step: "on_frame e stamp payload p = (if rd then (True, q) else (False, if pl_stream_copy p3 then p3 else account e stamp p3))"
  proof -
    have "on_frame e stamp payload p =
      (let (raised, p) = (case pl_session p of
           Some os \<Rightarrow> if pl_stream_copy p2 then (False, p2)
             else (case feed_recording e os stamp pts payload None p2 of (r, p) \<Rightarrow> (r = None, p))
         | None \<Rightarrow> (False, p2)) in
       if raised then (True, p)
       else let (publish, gate) = should_publish (fe_rate e) (bt_fps (pl_built p)) (fs_timestamp_ns stamp) (pl_gate p);
                p = p\<lparr>pl_gate := gate\<rparr>;
                p = (if publish then publish_transport e stamp payload pts False p else p)
            in (False, if pl_stream_copy p then p else account e stamp p))"
      using assms(2) False t unfolding on_frame_def p1_def p2_def by (simp only: Let_def prod.case if_False not_False_eq_True)
    also have "\<dots> = (let (raised, p) = (rd, q) in
       if raised then (True, p)
       else let (publish, gate) = should_publish (fe_rate e) (bt_fps (pl_built p)) (fs_timestamp_ns stamp) (pl_gate p);
                p = p\<lparr>pl_gate := gate\<rparr>;
                p = (if publish then publish_transport e stamp payload pts False p else p)
            in (False, if pl_stream_copy p then p else account e stamp p))"
      using f s False unfolding feed_open_def by (simp only: if_False cong: option.case_cong)
    finally show ?thesis using g unfolding p3_def by (simp only: Let_def prod.case)
  qed
  have "(raised, p') = (if rd then (True, q) else (False, account e stamp p3))"
    using assms(1) False step sc by (cases rd) (simp_all add: recording_callback_def)
  with feed_open_fed[OF f] b b3 s show ?thesis
    using best_effort_fed[OF b] fed_best_effort[OF _ b3] by (cases rd) (auto, blast+)
qed

text \<open>The decode branch of a stream-copy source.\<close>

lemma pts_for_reader_state: "pts_for stamp False u = (q, u') \<Longrightarrow> u' = u"
  using pts_for_reader[of stamp u] by simp

lemma decode_branch_best_effort:
  assumes "pl_stream_copy p" "on_frame e stamp payload p = (raised, p')"
  shows "\<not> raised \<and> best_effort p p' \<and> tl_base_ts (pl_tl p') = tl_base_ts (pl_tl p)
    \<and> tl_last_pts (pl_tl p') = tl_last_pts (pl_tl p) \<and> tl_pts_memo (pl_tl p') = tl_pts_memo (pl_tl p)"
proof (cases "pl_stopping p")
  case False
  obtain pts where t: "pts_for stamp False (pl_tl p) = (pts, pl_tl p)"
    using pts_for_reader_state by (metis surj_pair)
  have noop: "p\<lparr>pl_tl := pl_tl p\<rparr> = p" by simp
  define p2 where "p2 = (if bt_discard_main (pl_built p) then p else snd (push_feed (fe_camsrc e) (length payload) p))"
  have b: "best_effort p p2" using push_feed_best_effort unfolding p2_def by auto
  have s: "pl_stream_copy p2" using b coreD(8)[of p2 p] assms(1) by (simp add: best_effort_def)
  obtain publish gate where g: "should_publish (fe_rate e) (bt_fps (pl_built p2)) (fs_timestamp_ns stamp) (pl_gate p2) = (publish, gate)"
    by fastforce
  define p3 where "p3 = (if publish then publish_transport e stamp payload pts False (p2\<lparr>pl_gate := gate\<rparr>) else p2\<lparr>pl_gate := gate\<rparr>)"
  have b3: "best_effort p p3"
    using best_effort_trans[OF b] publish_best_effort[of "p2\<lparr>pl_gate := gate\<rparr>" e stamp payload pts False] b
    unfolding p3_def by (auto simp: best_effort_def drops_of_def)
  have s3: "pl_stream_copy p3" using b3 coreD(8)[of p3 p] assms(1) by (simp add: best_effort_def)
  have "on_frame e stamp payload p =
      (let (raised, p) = (case pl_session p of Some os \<Rightarrow> if pl_stream_copy p2 then (False, p2)
             else (case feed_recording e os stamp pts payload None p2 of (r, p) \<Rightarrow> (r = None, p)) | None \<Rightarrow> (False, p2)) in
       if raised then (True, p)
       else let (publish, gate) = should_publish (fe_rate e) (bt_fps (pl_built p)) (fs_timestamp_ns stamp) (pl_gate p);
                p = p\<lparr>pl_gate := gate\<rparr>;
                p = (if publish then publish_transport e stamp payload pts False p else p)
            in (False, if pl_stream_copy p then p else account e stamp p))"
    using False assms(1) t noop unfolding on_frame_def p2_def
    by (simp only: Let_def prod.case if_False not_True_eq_False)
  also have "\<dots> = (False, p3)"
  proof -
    have "(case pl_session p of Some os \<Rightarrow> if pl_stream_copy p2 then (False, p2)
             else (case feed_recording e os stamp pts payload None p2 of (r, p) \<Rightarrow> (r = None, p)) | None \<Rightarrow> (False, p2)) = (False, p2)"
      using s by (simp split: option.split)
    then show ?thesis using g s3 unfolding p3_def by (simp only: Let_def prod.case if_False if_True)
  qed
  finally have p': "\<not> raised" "p' = p3" using assms(2) by simp_all
  have feed: "tl_base_ts (pl_tl (snd (push_feed src n r))) = tl_base_ts (pl_tl r)
      \<and> tl_last_pts (pl_tl (snd (push_feed src n r))) = tl_last_pts (pl_tl r)
      \<and> tl_pts_memo (pl_tl (snd (push_feed src n r))) = tl_pts_memo (pl_tl r)" for src n r
    by (auto simp: push_feed_def with_drops_def upd_drops_def Let_def case_prod_beta)
  have pub: "tl_base_ts (pl_tl (publish_transport e st pl q h r)) = tl_base_ts (pl_tl r)
      \<and> tl_last_pts (pl_tl (publish_transport e st pl q h r)) = tl_last_pts (pl_tl r)
      \<and> tl_pts_memo (pl_tl (publish_transport e st pl q h r)) = tl_pts_memo (pl_tl r)" for st pl q h r
    unfolding publish_transport_def Let_def case_prod_beta
    by (auto simp: feed upd_drops_def split: endpoint.split sum.split)
  show ?thesis using p' b3 feed pub unfolding p3_def p2_def by auto
qed (use assms in \<open>auto simp: on_frame_def\<close>)

lemma conservation_step:
  assumes "recording_callback e stamp payload c p = (False, p')" "\<not> pl_stopping p"
  shows "\<exists>r. session_after r (pl_session p) (pl_session p')
    \<and> ds_frames (drops_of p') = ds_frames (drops_of p) + 1
    \<and> ds_enqueue_failures (drops_of p') = ds_enqueue_failures (drops_of p) + (if r = Some Push_DROPPED then 1 else 0)
    \<and> pl_n_pushed p' = pl_n_pushed p + 1 \<and> core p' = core p"
proof -
  obtain r q where q: "fed_with r p q" "p' = account e stamp q"
    using recording_callback_cases[OF assms] by auto
  then have "ds_frames (drops_of q) = ds_frames (drops_of p)"
    "ds_enqueue_failures (drops_of q) = ds_enqueue_failures (drops_of p) + (if r = Some Push_DROPPED then 1 else 0)"
    by (auto simp: fed_with_def rec_counts_def charge_def note_enqueue_failure_def)
  then show ?thesis using q by (auto simp: account_effect fed_with_def intro!: exI[of _ r])
qed

section \<open>Runs of the process\<close>

definition session_message :: "bus_message \<Rightarrow> pipe \<Rightarrow> pipe" where
  "session_message m p = p\<lparr>pl_session := map_option (\<lambda>os. os\<lparr>os_sess := session_on_bus m (os_sess os)\<rparr>) (pl_session p)\<rparr>"

inductive pipe_run :: "pipe \<Rightarrow> bool" where
  Built: "build_pipe avail generation cfg b = Inr p \<Longrightarrow>
    pipe_run (p\<lparr>pl_hold_on_finish := hold, pl_session_error_fatal := fatal\<rparr>)"
| Frame: "pipe_run p \<Longrightarrow> pipe_run (snd (on_frame e stamp payload p))"
| Encoded: "pipe_run p \<Longrightarrow> pipe_run (snd (on_encoded e stamp payload caps p))"
| Still: "pipe_run p \<Longrightarrow> pipe_run (snd (still_tick pb e p))"
| Activate: "pipe_run p \<Longrightarrow> pipe_run (snd (activate a run_id p))"
| Deactivate: "pipe_run p \<Longrightarrow> pipe_run (snd (deactivate c wait_eos p))"
| Configure: "pipe_run p \<Longrightarrow> pipe_run (snd (configure_recording avail probe_ok request p))"
| Session_bus: "pipe_run p \<Longrightarrow> pipe_run (session_message m p)"
| Fragment: "pipe_run p \<Longrightarrow> pipe_run (on_session_fragment i p)"
| Tick: "pipe_run p \<Longrightarrow> pl_timer p \<Longrightarrow> pipe_run (snd (progress_tick p))"
| Error: "pipe_run p \<Longrightarrow> pipe_run (on_session_error c i p)"
| Stop: "pipe_run p \<Longrightarrow> pipe_run (request_stop c p)"
| Shutdown: "pipe_run p \<Longrightarrow> pipe_run (shutdown c p)"
| Bus: "pipe_run p \<Longrightarrow> pipe_run (on_bus mm p)"
| Watchdog: "pipe_run p \<Longrightarrow> pipe_run (snd (snd (watchdog c sp p)))"
| Health: "pipe_run p \<Longrightarrow> pipe_run (snd (log_health playback p))"
| Reconnect: "pipe_run p \<Longrightarrow> pl_reconnecting p \<Longrightarrow> reconnect backoff cap as p = Some (r, ws, p') \<Longrightarrow> pipe_run p'"

text \<open>A session is open exactly while the lifecycle says active; it is live, it is the newest one, its progress
  timer is armed, and it still records by the plan the process holds.\<close>

definition plan_ok :: "pipe \<Rightarrow> bool" where
  "plan_ok p \<longleftrightarrow> (pl_desc_probe p = None) = (pl_rec_enc p = None) \<and> (pl_view p = None) = (pl_rec_enc p = None)
     \<and> (pl_rec_enc p = None \<longrightarrow> \<not> enabled p \<and> \<not> pl_stream_copy p)
     \<and> (\<forall>encr. pl_rec_enc p = Some encr \<longrightarrow> enabled p \<and> pl_stream_copy p = (encr = ''stream-copy'')
          \<and> (encr \<in> {''x264'', ''stream-copy''} \<longrightarrow> pl_tile_mode p = ''off''))"

definition live_session :: "pipe \<Rightarrow> open_session \<Rightarrow> bool" where
  "live_session p os \<longleftrightarrow> rs_index (os_sess os) = pl_session_seq p \<and> rs_pipeline (os_sess os)
     \<and> \<not> rs_closing (os_sess os) \<and> \<not> rs_closed (os_sess os)
     \<and> os_cfg os = pl_cfg p \<and> Some (os_encoder os) = pl_rec_enc p \<and> os_tile_mode os = pl_tile_mode p"

definition pipe_ok :: "pipe \<Rightarrow> bool" where
  "pipe_ok p \<longleftrightarrow> plan_ok p \<and>
     (case pl_session p of
        None \<Rightarrow> pl_lifecycle p = Inactive
      | Some os \<Rightarrow> pl_lifecycle p = Active \<and> pl_timer p \<and> \<not> pl_stopping p \<and> live_session p os)"

text \<open>All of it reads only the core and the session.\<close>

definition phase_fits :: "pipe \<Rightarrow> open_session option \<Rightarrow> bool" where
  "phase_fits p sess \<longleftrightarrow> plan_ok p \<and>
     (case sess of
        None \<Rightarrow> pl_lifecycle p = Inactive
      | Some os \<Rightarrow> pl_lifecycle p = Active \<and> pl_timer p \<and> \<not> pl_stopping p \<and> live_session p os)"

lemma pipe_ok_iff: "pipe_ok p \<longleftrightarrow> phase_fits p (pl_session p)"
  by (simp add: pipe_ok_def phase_fits_def)

lemma phase_fits_core: "phase_fits (core p) sess = phase_fits p sess"
  by (simp add: phase_fits_def plan_ok_def live_session_def enabled_def core_def cong: option.case_cong)

lemma pipe_ok_core: "core p' = core p \<Longrightarrow> phase_fits p sess \<Longrightarrow> phase_fits p' sess"
  by (metis phase_fits_core)

lemma pipe_ok_best_effort: "best_effort p p' \<Longrightarrow> pipe_ok p \<Longrightarrow> pipe_ok p'"
  unfolding best_effort_def pipe_ok_iff by (metis pipe_ok_core)

lemma phase_fits_same_run: "same_run (os_sess os) s \<Longrightarrow> phase_fits p (Some os) \<Longrightarrow> phase_fits p (Some (os\<lparr>os_sess := s\<rparr>))"
  by (simp add: phase_fits_def live_session_def same_run_def)

lemma pipe_ok_session:
  assumes "pipe_ok p" "core p' = core p" "session_after r (pl_session p) (pl_session p')"
  shows "pipe_ok p'"
proof (cases "pl_session p")
  case None
  then show ?thesis using assms pipe_ok_core[OF assms(2)] by (simp add: session_after_def pipe_ok_iff)
next
  case (Some os)
  then obtain s where "pl_session p' = Some (os\<lparr>os_sess := s\<rparr>)" "same_run (os_sess os) s"
    using assms(3) by (auto simp: session_after_def)
  then show ?thesis using assms(1) Some pipe_ok_core[OF assms(2)] phase_fits_same_run by (simp add: pipe_ok_iff)
qed

lemma pipe_ok_callback:
  assumes "pipe_ok p" "\<not> pl_stopping p" "recording_callback e stamp payload c p = (raised, p')"
  shows "pipe_ok p'"
proof (cases raised)
  case True
  then show ?thesis using recording_callback_cases[OF assms(3,2)] pipe_ok_best_effort[OF _ assms(1)] by simp
next
  case False
  then have "recording_callback e stamp payload c p = (False, p')" using assms(3) by simp
  from conservation_step[OF this assms(2)]
  obtain r where "session_after r (pl_session p) (pl_session p')" "core p' = core p" by blast
  then show ?thesis using pipe_ok_session[OF assms(1)] by blast
qed

lemma pipe_ok_frame:
  assumes "pipe_ok p"
  shows "pipe_ok (snd (on_frame e stamp payload p))"
proof -
  obtain raised p' where f: "on_frame e stamp payload p = (raised, p')" by fastforce
  consider "pl_stopping p" | "\<not> pl_stopping p" "\<not> pl_stream_copy p" | "pl_stream_copy p" by blast
  then have "pipe_ok p'"
  proof cases
    case 1
    then show ?thesis using assms f unfolding on_frame_def by simp
  next
    case 2
    then show ?thesis using pipe_ok_callback[OF assms 2(1)] f by (simp add: recording_callback_def)
  next
    case 3
    then show ?thesis using decode_branch_best_effort[OF 3 f] pipe_ok_best_effort[OF _ assms] by blast
  qed
  then show ?thesis by (simp add: f)
qed

lemma pipe_ok_encoded:
  assumes "pipe_ok p"
  shows "pipe_ok (snd (on_encoded e stamp payload c p))"
proof -
  obtain raised p' where f: "on_encoded e stamp payload c p = (raised, p')" by fastforce
  have "pipe_ok p'"
  proof (cases "pl_stopping p \<or> \<not> pl_stream_copy p")
    case True
    then show ?thesis using assms f unfolding on_encoded_def by simp
  next
    case False
    then show ?thesis using pipe_ok_callback[OF assms] f by (simp add: recording_callback_def)
  qed
  then show ?thesis by (simp add: f)
qed

lemma pipe_ok_still: "pipe_ok p \<Longrightarrow> pipe_ok (snd (still_tick pb e p))"
  by (auto simp: still_tick_def intro: pipe_ok_best_effort[OF publish_best_effort] split: option.split)

text \<open>Transitions.\<close>

lemma session_start_live:
  "session_start mk l d (new_session i pfx base en\<lparr>rs_settings_path := sp\<rparr>) = (None, s) \<Longrightarrow>
     rs_index s = i \<and> rs_prefix s = pfx \<and> rs_pipeline s \<and> \<not> rs_closing s \<and> \<not> rs_closed s \<and> rs_frames s = 0"
  by (auto simp: session_start_def new_session_def Let_def split: if_splits launch.splits)

lemma open_session_for_live:
  assumes "open_session_for e run_id p = Inr os" "pl_rec_enc p \<noteq> None"
  shows "live_session p os \<and> rs_frames (os_sess os) = 0"
  using assms session_start_live unfolding open_session_for_def Let_def live_session_def
  by (auto split: sum.splits prod.splits if_splits option.splits dest!: session_start_live)

lemma pipe_ok_fields [simp]:
  "pipe_ok (p\<lparr>pl_fatal := a\<rparr>) = pipe_ok p" "pipe_ok (p\<lparr>pl_held := b\<rparr>) = pipe_ok p"
  "pipe_ok (p\<lparr>pl_reconnecting := c\<rparr>) = pipe_ok p" "pipe_ok (p\<lparr>pl_stalled := d\<rparr>) = pipe_ok p"
  "pipe_ok (p\<lparr>pl_last_health_frames := f\<rparr>) = pipe_ok p" "pipe_ok (p\<lparr>pl_quit := g\<rparr>) = pipe_ok p"
  "pipe_ok (p\<lparr>pl_hooks := h\<rparr>) = pipe_ok p" "pipe_ok (p\<lparr>pl_tl := i\<rparr>) = pipe_ok p" "pipe_ok (p\<lparr>pl_gate := j\<rparr>) = pipe_ok p"
  "pipe_ok (p\<lparr>pl_hold_on_finish := k\<rparr>) = pipe_ok p" "pipe_ok (p\<lparr>pl_session_error_fatal := l\<rparr>) = pipe_ok p"
  by (simp_all add: pipe_ok_def plan_ok_def live_session_def enabled_def cong: option.case_cong)

text \<open>The three ways \<open>activate\<close> ends.\<close>

lemma activate_cases:
  assumes "activate e run_id p = (r, p')"
  obtains (refused) "p' = p" "\<not> or_ok r" "or_session r = None"
  | (failed) "p' = p\<lparr>pl_lifecycle := Inactive, pl_session_seq := pl_session_seq p + 1, pl_last_result := Some r\<rparr>"
      "\<not> or_ok r" "or_session r = None" "pl_session p = None"
  | (opened) os where "open_session_for e run_id (p\<lparr>pl_lifecycle := Activating, pl_session_seq := pl_session_seq p + 1\<rparr>) = Inr os"
      "p' = p\<lparr>pl_lifecycle := Active, pl_session_seq := pl_session_seq p + 1, pl_session := Some os, pl_timer := True,
           pl_last_result := Some r\<rparr>"
      "or_ok r" "or_error r = None" "\<not> pl_stopping p" "enabled p" "pl_desc_probe p \<noteq> None" "pl_session p = None"
proof (cases "\<not> enabled p \<or> pl_desc_probe p = None \<or> pl_stopping p \<or> pl_session p \<noteq> None")
  case True
  then show ?thesis using assms refused by (auto simp: activate_def refuse_def result_def split: if_splits)
next
  case False
  let ?p = "p\<lparr>pl_lifecycle := Activating, pl_session_seq := pl_session_seq p + 1\<rparr>"
  show ?thesis
  proof (cases "open_session_for e run_id ?p")
    case (Inl err)
    then show ?thesis using assms False failed by (auto simp: activate_def Let_def refuse_def result_def)
  next
    case (Inr os)
    then show ?thesis using assms False opened by (auto simp: activate_def Let_def result_def)
  qed
qed

lemma pipe_ok_activate:
  assumes "pipe_ok p"
  shows "pipe_ok (snd (activate e run_id p))"
proof -
  obtain r p' where a: "activate e run_id p = (r, p')" by fastforce
  from a have "pipe_ok p'"
  proof (cases rule: activate_cases)
    case (opened os)
    let ?p = "p\<lparr>pl_lifecycle := Activating, pl_session_seq := pl_session_seq p + 1\<rparr>"
    have "pl_rec_enc p \<noteq> None" using assms opened(7) unfolding pipe_ok_def plan_ok_def by auto
    then have "live_session ?p os" using open_session_for_live[OF opened(1)] by simp
    then show ?thesis using assms opened(2,5) by (simp add: pipe_ok_def plan_ok_def live_session_def enabled_def)
  qed (use assms in \<open>simp_all add: pipe_ok_def plan_ok_def enabled_def\<close>)
  then show ?thesis by (simp add: a)
qed

lemma pipe_ok_deactivate: "pipe_ok p \<Longrightarrow> pipe_ok (snd (deactivate e w p))"
  by (auto simp: deactivate_def pipe_ok_def plan_ok_def enabled_def Let_def split: option.split)

lemma pipe_ok_finalize: "pipe_ok p \<Longrightarrow> pipe_ok (finalize_open e (p\<lparr>pl_stopping := True\<rparr>))"
  by (auto simp: finalize_open_def pipe_ok_def plan_ok_def enabled_def Let_def split: option.split)

lemma plan_tile:
  "recording_plan avail cfg b = Inr (desc, encr, mode) \<Longrightarrow> encr \<in> {''x264'', ''stream-copy''} \<Longrightarrow> mode = ''off''"
  by (auto simp: recording_plan_def Let_def split: sum.splits if_splits)

lemma plan_ok_install:
  assumes "recording_plan avail cfg b = Inr (desc, encr, mode)" "truthy (field cfg ''enabled'')"
  shows "plan_ok (install_recording_plan cfg (desc, encr, mode) p)"
  using assms plan_tile[OF assms(1)] by (auto simp: install_recording_plan_def plan_ok_def enabled_def)

text \<open>A patch cannot switch the recorder off: \<open>enabled\<close> is not editable.\<close>

lemma apply_patch_enabled:
  assumes "apply_patch cfg v = Inr cfg'"
  shows "field cfg' ''enabled'' = field cfg ''enabled''"
proof -
  obtain es where es: "\<forall>(k, v) \<in> set es. k \<in> set EDITABLE" "cfg' = merge_dict (requested cfg) es"
    using assms by (auto simp: apply_patch_Inr)
  have n: "''enabled'' \<notin> set EDITABLE" by code_simp
  have k: "''enabled'' \<in> fst ` set RecordingConfig" by code_simp
  have keep: "map_of (merge_dict d es) ''enabled'' = map_of d ''enabled''" if "\<forall>(k, v) \<in> set es. k \<in> set EDITABLE" for d es
    using that n by (induction es arbitrary: d) (auto simp: merge_dict_def)
  have "map_of cfg' ''enabled'' = Some (field cfg ''enabled'')"
    unfolding es(2) keep[OF es(1)] using k by (simp only: map_of_requested if_True)
  then show ?thesis by (simp add: field_def[of cfg'] field_of_def[of _ cfg'])
qed

lemma configure_cases:
  assumes "configure_recording avail probe_ok request p = (res, p')"
  shows "p' = p \<or> (\<not> settings_locked p \<and> (\<exists>cfg desc encr mode v. recording_plan avail cfg (pl_built p) = Inr (desc, encr, mode)
     \<and> apply_patch (pl_cfg p) v = Inr cfg \<and> (encr = ''stream-copy'') = pl_stream_copy p
     \<and> p' = install_recording_plan cfg (desc, encr, mode) (p\<lparr>pl_revision := pl_revision p + 1\<rparr>)))"
proof (rule disjCI)
  assume n: "\<not> (\<not> settings_locked p \<and> (\<exists>cfg desc encr mode v. recording_plan avail cfg (pl_built p) = Inr (desc, encr, mode)
     \<and> apply_patch (pl_cfg p) v = Inr cfg \<and> (encr = ''stream-copy'') = pl_stream_copy p
     \<and> p' = install_recording_plan cfg (desc, encr, mode) (p\<lparr>pl_revision := pl_revision p + 1\<rparr>)))"
  show "p' = p"
  proof (cases "settings_locked p")
    case True
    then show ?thesis using assms by (simp add: configure_recording_def)
  next
    case False
    show ?thesis
    proof (cases request)
      case (JObj d)
      consider "fst ` set d \<noteq> {''settings'', ''expected''}"
        | "fst ` set d = {''settings'', ''expected''}" "\<not> check_recording_settings (get_key d ''expected'') p"
        | err where "fst ` set d = {''settings'', ''expected''}" "check_recording_settings (get_key d ''expected'') p"
            "apply_patch (pl_cfg p) (get_key d ''settings'') = Inl err"
        | cfg err where "fst ` set d = {''settings'', ''expected''}" "check_recording_settings (get_key d ''expected'') p"
            "apply_patch (pl_cfg p) (get_key d ''settings'') = Inr cfg" "recording_plan avail cfg (pl_built p) = Inl err"
        | cfg desc encr mode where "fst ` set d = {''settings'', ''expected''}" "check_recording_settings (get_key d ''expected'') p"
            "apply_patch (pl_cfg p) (get_key d ''settings'') = Inr cfg" "recording_plan avail cfg (pl_built p) = Inr (desc, encr, mode)"
        by (metis sum.exhaust surj_pair)
      then show ?thesis
      proof cases
        case (5 cfg desc encr mode)
        have "p' = p \<or> (encr = ''stream-copy'') = pl_stream_copy p
            \<and> p' = install_recording_plan cfg (desc, encr, mode) (p\<lparr>pl_revision := pl_revision p + 1\<rparr>)"
          using assms False unfolding JObj configure_recording_def by (simp add: 5 split: if_split_asm)
        then show ?thesis using n False 5 by blast
      qed (use assms False in \<open>simp_all add: JObj configure_recording_def\<close>)
    qed (use assms False in \<open>simp_all add: configure_recording_def\<close>)
  qed
qed

lemma install_fields [simp]:
  "pl_session (install_recording_plan cfg plan p) = pl_session p"
  "pl_lifecycle (install_recording_plan cfg plan p) = pl_lifecycle p"
  by (simp_all add: install_recording_plan_def case_prod_beta)

lemma pipe_ok_configure:
  assumes "pipe_ok p"
  shows "pipe_ok (snd (configure_recording avail probe_ok request p))"
proof -
  obtain res p' where c: "configure_recording avail probe_ok request p = (res, p')" by fastforce
  have "pipe_ok p'"
  proof (cases "p' = p")
    case False
    then obtain cfg desc encr mode v where u: "\<not> settings_locked p" "recording_plan avail cfg (pl_built p) = Inr (desc, encr, mode)"
      "apply_patch (pl_cfg p) v = Inr cfg"
      "p' = install_recording_plan cfg (desc, encr, mode) (p\<lparr>pl_revision := pl_revision p + 1\<rparr>)"
      using configure_cases[OF c] by blast
    have "truthy (field cfg ''enabled'')"
      using u(1) apply_patch_enabled[OF u(3)] by (simp add: settings_locked_def enabled_def)
    then have "plan_ok p'" unfolding u(4) by (rule plan_ok_install[OF u(2)])
    moreover have "pl_session p' = None" "pl_lifecycle p' = Inactive"
      using u(1) unfolding u(4) by (simp_all add: settings_locked_def)
    ultimately show ?thesis by (simp add: pipe_ok_def)
  qed (use assms in simp)
  then show ?thesis by (simp add: c)
qed

lemma pipe_ok_build: "build_pipe avail generation cfg b = Inr p \<Longrightarrow> pipe_ok p"
proof (cases "enabled (new_pipe generation cfg b)")
  case True
  assume "build_pipe avail generation cfg b = Inr p"
  then obtain desc encr mode where pl: "recording_plan avail cfg b = Inr (desc, encr, mode)"
    and p: "p = install_recording_plan cfg (desc, encr, mode) (new_pipe generation cfg b)"
    using True by (auto simp: build_pipe_def Let_def)
  have "plan_ok p" unfolding p using True by (intro plan_ok_install[OF pl]) (simp add: enabled_def new_pipe_def)
  then show ?thesis by (simp add: pipe_ok_def p) (simp add: new_pipe_def)
next
  case False
  assume "build_pipe avail generation cfg b = Inr p"
  then have "p = new_pipe generation cfg b" using False by (simp add: build_pipe_def Let_def)
  then show ?thesis using False by (simp add: pipe_ok_def plan_ok_def enabled_def new_pipe_def)
qed

lemma pipe_ok_message:
  assumes "pipe_ok p"
  shows "pipe_ok (session_message m p)"
proof -
  have r: "same_run s (session_on_bus m s)" for s
    by (simp add: same_run_def session_on_bus_def record_error_def split: bus_message.split)
  have c: "core (session_message m p) = core p" by (simp add: session_message_def)
  show ?thesis
  proof (cases "pl_session p")
    case None
    then show ?thesis using assms pipe_ok_core[OF c] by (simp add: pipe_ok_iff session_message_def)
  next
    case (Some os)
    then show ?thesis using assms pipe_ok_core[OF c] phase_fits_same_run[OF r]
      by (simp add: pipe_ok_iff session_message_def)
  qed
qed

lemma pipe_ok_fire [simp]: "pipe_ok (fire h p) = pipe_ok p"
  by (simp add: fire_def)

lemma pipe_ok_error: "pipe_ok p \<Longrightarrow> pipe_ok (on_session_error c i p)"
  using pipe_ok_deactivate[of p c False]
  by (auto simp: on_session_error_def Let_def case_prod_beta)

lemma pipe_ok_stop: "pipe_ok p \<Longrightarrow> pipe_ok (request_stop c p)"
  by (simp add: request_stop_def pipe_ok_finalize)

lemma pipe_ok_watchdog: "pipe_ok p \<Longrightarrow> pipe_ok (snd (snd (watchdog c sp p)))"
proof -
  assume ok: "pipe_ok p"
  have "pipe_ok (request_stop c (p\<lparr>pl_fatal := True\<rparr>))" "pipe_ok (request_stop c p)"
    using ok by (simp_all add: pipe_ok_stop)
  moreover have "pipe_ok (snd (deactivate c True (p\<lparr>pl_held := True\<rparr>)))"
    using ok by (simp add: pipe_ok_deactivate)
  ultimately show ?thesis using ok by (simp add: watchdog_def Let_def case_prod_beta)
qed

lemma pipe_ok_rearm: "pipe_ok (rearm p) = pipe_ok p"
  by (simp add: rearm_def)

lemma pipe_ok_reconnect_loop: "reconnect_loop backoff cap as p = Some (r, ws, p') \<Longrightarrow> pipe_ok p \<Longrightarrow> pipe_ok p'"
  by (induction backoff cap as p arbitrary: ws rule: reconnect_loop.induct)
    (auto simp: Let_def pipe_ok_rearm split: attempt.splits if_splits)

lemma pipe_run_ok: "pipe_run p \<Longrightarrow> pipe_ok p"
proof (induction rule: pipe_run.induct)
  case (Tick p)
  show ?case
  proof (cases "pl_session p = None")
    case True
    then show ?thesis using Tick by (simp add: progress_tick_def pipe_ok_def plan_ok_def enabled_def)
  next
    case False
    then show ?thesis using Tick by (auto simp: progress_tick_def)
  qed
next
  case (Reconnect p backoff cap as r ws p')
  then show ?case by (auto simp: reconnect_def pipe_ok_reconnect_loop split: if_splits)
next
  case (Fragment p i)
  then show ?case by (simp add: on_session_fragment_def)
next
  case (Bus p mm)
  then show ?case by (simp add: on_bus_def split: main_message.split)
next
  case (Health p pb)
  then show ?case by (simp add: log_health_def)
next
  case (Shutdown p c)
  then show ?case by (simp add: shutdown_def pipe_ok_finalize)
qed (simp_all add: pipe_ok_build pipe_ok_frame pipe_ok_encoded pipe_ok_still pipe_ok_activate pipe_ok_deactivate
    pipe_ok_configure pipe_ok_message pipe_ok_error pipe_ok_stop pipe_ok_watchdog)

section \<open>Properties\<close>

text \<open>C2: recording sessions and the lifecycle agree.  In every reachable state of the process the lifecycle is
  active or inactive (the transient states are never left behind, whatever fails), and it is active exactly when a
  session is open; an open session is the newest one, is not closing, feeds a live session pipeline, has its
  progress timer, belongs to a process that is not stopping, and still records by the configuration, encoder
  and tiling the process holds (settings cannot change under it).\<close>

theorem session_iff_active:
  assumes "pipe_run p"
  shows "(pl_session p \<noteq> None \<longleftrightarrow> pl_lifecycle p = Active) \<and> pl_lifecycle p \<in> {Inactive, Active}
    \<and> (\<forall>os. pl_session p = Some os \<longrightarrow> live_session p os \<and> pl_timer p \<and> \<not> pl_stopping p \<and> enabled p)"
  using pipe_run_ok[OF assms] by (auto simp: pipe_ok_def plan_ok_def live_session_def split: option.splits)

definition demo_source :: source_info where
  "demo_source = \<lparr>si_width = 2, si_height = 2, si_pixel_format = Some ''Mono8'', si_delivered_rate = 10,
     si_encoded_caps = None, si_encoded_parser = None, si_finite = False, si_buffers = False,
     si_active_timestamp_source = ''system'', si_ptp_locked = False, si_tick_frequency_hz = 0,
     si_replay_of = None, si_replay_epoch_unix_ns = None\<rparr>"

definition demo_pipe :: pipe where
  "demo_pipe = (case build_pipe (\<lambda>_. True) ''g'' [(''output_dir'', JStr ''/rec'')] (build_facts None False False demo_source) of
     Inr p \<Rightarrow> p | Inl _ \<Rightarrow> new_pipe ''g'' [] (build_facts None False False demo_source))"

definition demo_open :: "op_result \<times> pipe" where
  "demo_open = activate \<lparr>ae_avail = (\<lambda>_. True), ae_listing = None, ae_stamp = ''s'', ae_snapshot_ok = True,
     ae_mkdir_ok = True, ae_launch = Launched False, ae_window = False\<rparr> None demo_pipe"

lemma demo_pipe_run: "pipe_run demo_pipe"
proof -
  have "case build_pipe (\<lambda>_. True) ''g'' [(''output_dir'', JStr ''/rec'')] (build_facts None False False demo_source) of
     Inr p \<Rightarrow> \<not> pl_hold_on_finish p \<and> \<not> pl_session_error_fatal p | Inl _ \<Rightarrow> False"
    by code_simp
  then obtain p where p: "build_pipe (\<lambda>_. True) ''g'' [(''output_dir'', JStr ''/rec'')] (build_facts None False False demo_source) = Inr p"
    "\<not> pl_hold_on_finish p" "\<not> pl_session_error_fatal p" by (auto split: sum.splits)
  have "p\<lparr>pl_hold_on_finish := False, pl_session_error_fatal := False\<rparr> = p" using p(2,3) by simp
  then have "pipe_run p" using Built[OF p(1), of False False] by simp
  then show ?thesis by (simp add: demo_pipe_def p(1))
qed

lemma demo_open_facts: "pl_session (snd demo_open) \<noteq> None" "or_ok (fst demo_open)" "\<not> pl_stopping (snd demo_open)"
  "\<not> pl_stream_copy (snd demo_open)"
proof -
  have "case demo_open of (r, p) \<Rightarrow> pl_session p \<noteq> None \<and> or_ok r \<and> \<not> pl_stopping p \<and> \<not> pl_stream_copy p" by code_simp
  then show "pl_session (snd demo_open) \<noteq> None" "or_ok (fst demo_open)" "\<not> pl_stopping (snd demo_open)"
    "\<not> pl_stream_copy (snd demo_open)" by (simp_all add: case_prod_beta)
qed

theorem session_iff_active_witness: "\<exists>p. pipe_run p \<and> pl_session p \<noteq> None \<and> pl_lifecycle p = Active"
proof -
  have r: "pipe_run (snd demo_open)" unfolding demo_open_def by (rule Activate[OF demo_pipe_run])
  from session_iff_active[OF r] demo_open_facts(1) r show ?thesis by blast
qed

text \<open>C4: no frame disappears.  Whenever the callback that feeds the recording returns, the frame was counted once,
  and with a session open it was recorded, or counted as an enqueue failure, or skipped (closing, or waiting for a
  sync point) - exactly one of them; the lifecycle and the plan are untouched.  It fails to return only when CFA tiling
  is on.  The decode branch of a stream-copy source never raises and moves neither the recording, its
  counters, nor its time base.\<close>

theorem no_frame_lost:
  assumes "\<not> pl_stopping p"
  shows "(\<forall>p'. recording_callback e stamp payload caps_str p = (False, p') \<longrightarrow>
      (\<exists>r. session_after r (pl_session p) (pl_session p')
        \<and> ds_frames (drops_of p') = ds_frames (drops_of p) + 1
        \<and> ds_enqueue_failures (drops_of p') = ds_enqueue_failures (drops_of p) + (if r = Some Push_DROPPED then 1 else 0)
        \<and> pl_n_pushed p' = pl_n_pushed p + 1 \<and> core p' = core p))
    \<and> (\<forall>p'. recording_callback e stamp payload caps_str p = (True, p') \<longrightarrow>
        best_effort p p' \<and> (\<exists>os. pl_session p = Some os \<and> os_tile_mode os \<noteq> ''off''))
    \<and> (\<forall>raised p'. pl_stream_copy p \<and> on_frame e stamp payload p = (raised, p') \<longrightarrow>
        \<not> raised \<and> best_effort p p' \<and> tl_base_ts (pl_tl p') = tl_base_ts (pl_tl p)
        \<and> tl_last_pts (pl_tl p') = tl_last_pts (pl_tl p))"
  using conservation_step[OF _ assms] recording_callback_cases[OF _ assms] decode_branch_best_effort
  by (intro conjI allI impI) (blast | fastforce)+

definition demo_env :: frame_env where
  "demo_env = \<lparr>fe_camsrc = \<lparr>as_block = False, as_max_bytes = 0, as_level = 0, as_flow_ok = True\<rparr>,
     fe_endpoint = No_Endpoint, fe_copy_ok = True, fe_now = 0, fe_unix_s = 0, fe_rate = 0, fe_discontinuity = False,
     fe_rec_max_bytes = 128, fe_rec_level = 128, fe_rec_flow = Flow_OK, fe_header_ok = True\<rparr>"

definition demo_stamp :: frame_stamp where
  "demo_stamp = \<lparr>fs_frame_id = 1, fs_timestamp_ns = 1000, fs_source = SYSTEM, fs_system_ns = 1000, fs_camera_ns = 0, fs_chunk_ns = None\<rparr>"

theorem no_frame_lost_witness:
  "\<exists>p'. recording_callback demo_env demo_stamp [1, 2, 3, 4] None (snd demo_open) = (False, p')
     \<and> ds_frames (drops_of p') = ds_frames (drops_of (snd demo_open)) + 1 \<and> ds_enqueue_failures (drops_of p') = 1"
proof -
  have f: "\<not> fst (recording_callback demo_env demo_stamp [1, 2, 3, 4] None (snd demo_open))"
    "ds_enqueue_failures (drops_of (snd (recording_callback demo_env demo_stamp [1, 2, 3, 4] None (snd demo_open)))) = 1"
    by code_simp+
  then obtain p' where p': "recording_callback demo_env demo_stamp [1, 2, 3, 4] None (snd demo_open) = (False, p')"
    by (metis surj_pair fst_conv)
  then show ?thesis
    using f no_frame_lost[OF demo_open_facts(3), of demo_env demo_stamp "[1, 2, 3, 4]" None] by auto
qed

definition failed_attempt :: "attempt \<Rightarrow> bool" where
  "failed_attempt a \<longleftrightarrow> a \<in> {Reopen_Fails False False, Reopened False True False False}"

lemma reconnect_loop_resumes:
  assumes "0 \<le> backoff" "backoff \<le> cap" "\<forall>a \<in> set fails. failed_attempt a"
  shows "\<exists>p'. reconnect_loop backoff cap (fails @ Reopened False False w n # rest) p =
      Some (Resumed, map (\<lambda>k. min (backoff * 2 ^ k) cap) [0..<length fails], p')
    \<and> pl_gate p' = \<lparr>pg_pub_seq = 0, pg_last_pub_ts = None\<rparr> \<and> tl_pts_memo (pl_tl p') = []"
  using assms
proof (induction fails arbitrary: backoff p)
  case Nil
  then show ?case by (simp add: rearm_def clear_memo_def)
next
  case (Cons a fails)
  define b2 where "b2 = min (backoff * 2) cap"
  have b2: "0 \<le> b2" "b2 \<le> cap" "\<forall>a \<in> set fails. failed_attempt a" using Cons.prems by (simp_all add: b2_def)
  have w: "min (b2 * 2 ^ k) cap = min (backoff * 2 ^ Suc k) cap" for k
  proof (cases "backoff * 2 \<le> cap")
    case False
    have "cap * 1 \<le> cap * 2 ^ k" "cap * 1 \<le> (backoff * 2) * 2 ^ k"
      using False Cons.prems by (intro mult_mono; simp)+
    then have "min (cap * 2 ^ k) cap = cap" "min (backoff * 2 ^ Suc k) cap = cap" by (simp_all add: min_absorb2 mult.assoc)
    then show ?thesis using False by (simp add: b2_def min_absorb2)
  qed (simp add: b2_def mult.assoc)
  have ws: "backoff # map (\<lambda>k. min (b2 * 2 ^ k) cap) [0..<length fails] = map (\<lambda>k. min (backoff * 2 ^ k) cap) [0..<length (a # fails)]"
    using Cons.prems by (simp add: w map_upt_Suc del: upt_Suc)
  have a: "failed_attempt a" using Cons.prems by simp
  show ?case
  proof (cases "a = Reopen_Fails False False")
    case True
    from Cons.IH[OF b2, of p] ws show ?thesis by (auto simp: True Let_def simp flip: b2_def)
  next
    case False
    then have r: "a = Reopened False True False False" using a by (simp add: failed_attempt_def)
    from Cons.IH[OF b2, of "rearm p"] ws show ?thesis by (auto simp: r Let_def simp flip: b2_def)
  qed
qed

text \<open>C22: capture comes back.  After any number of failed attempts - a reopen or a start that raises - the first
  attempt that succeeds resumes capture; the waits between them double from the configured backoff up to its cap,
  the publish window and the PTS memo of the old timeline are dropped, and the watchdog's flag is released, as it
  is however a reconnect ends.\<close>

theorem reconnect_resumes:
  assumes "\<not> pl_stopping p" "0 \<le> backoff" "backoff \<le> cap" "\<forall>a \<in> set fails. failed_attempt a"
  shows "(\<exists>p'. reconnect backoff cap (fails @ Reopened False False w n # rest) p =
      Some (Resumed, map (\<lambda>k. min (backoff * 2 ^ k) cap) [0..<length fails], p')
    \<and> pl_gate p' = \<lparr>pg_pub_seq = 0, pg_last_pub_ts = None\<rparr> \<and> tl_pts_memo (pl_tl p') = [] \<and> \<not> pl_reconnecting p')
    \<and> (\<forall>as r ws p'. reconnect backoff cap as p = Some (r, ws, p') \<longrightarrow> \<not> pl_reconnecting p')"
proof -
  obtain p' where "reconnect_loop backoff cap (fails @ Reopened False False w n # rest) p =
      Some (Resumed, map (\<lambda>k. min (backoff * 2 ^ k) cap) [0..<length fails], p')"
    "pl_gate p' = \<lparr>pg_pub_seq = 0, pg_last_pub_ts = None\<rparr>" "tl_pts_memo (pl_tl p') = []"
    using reconnect_loop_resumes[OF assms(2-4)] by blast
  then show ?thesis using assms(1) by (auto simp: reconnect_def)
qed

theorem reconnect_resumes_witness:
  "\<exists>p'. reconnect 1 30 [Reopen_Fails False False, Reopened False True False False, Reopened False False False False] demo_pipe
     = Some (Resumed, [1, 2], p') \<and> \<not> pl_reconnecting p'"
proof -
  have s: "\<not> pl_stopping demo_pipe" by code_simp
  show ?thesis
    using reconnect_resumes[OF s, of 1 30 "[Reopen_Fails False False, Reopened False True False False]" False False "[]"]
    by (auto simp: failed_attempt_def upt_rec numeral_2_eq_2)
qed

end
