(* ===== verification/Lifecycle.thy ===== *)
theory Lifecycle
  imports Capture_Pipeline
begin

text \<open>
  \<open>core-driver/cam_driver/lifecycle.py\<close>: the policy in front of the pipeline's recording sessions - legal
  transitions, idempotency, the descriptor, and the remembered state that survives a crash.  The pipeline is
  the interface \<open>pipe_ops\<close>; the locale \<open>recording_pipeline\<close> states what the policy relies on, and
  \<open>CapturePipeline\<close>'s model is shown to provide it.  The state file is its content; the observers are the
  list of descriptors they were given; clock readings are arguments.
\<close>

section \<open>Labels\<close>

definition run_id_char :: "char \<Rightarrow> bool" where
  "run_id_char c \<longleftrightarrow> (let n = of_char c :: nat in
     65 \<le> n \<and> n \<le> 90 \<or> 97 \<le> n \<and> n \<le> 122 \<or> 48 \<le> n \<and> n \<le> 57 \<or> c \<in> {CHR ''_'', CHR ''.'', CHR ''-''})"

text \<open>\<open>_RUN_ID_STRIP.sub("-", s)\<close>: a maximal run of other characters becomes one dash; the flag says that
  such a run is being skipped.\<close>

fun sub_dash :: "bool \<Rightarrow> string \<Rightarrow> string" where
  "sub_dash skipping [] = []"
| "sub_dash skipping (c # s) =
     (if run_id_char c then c # sub_dash False s
      else if skipping then sub_dash True s else CHR ''-'' # sub_dash True s)"

abbreviation (input) RUN_ID_MAX :: nat where "RUN_ID_MAX \<equiv> 64"

definition sanitize_run_id :: "json \<Rightarrow> string option" where
  "sanitize_run_id value =
     (if value = JNull then None
      else let s = strip_by (\<lambda>c. c \<in> {CHR ''-'', CHR ''.''}) (sub_dash False (text_of False value));
               t = take RUN_ID_MAX s
           in if t = [] then None else Some t)"

section \<open>The state machine\<close>

definition lc_name :: "lc_state \<Rightarrow> string" where
  "lc_name s = (case s of Inactive \<Rightarrow> ''inactive'' | Activating \<Rightarrow> ''activating'' | Active \<Rightarrow> ''active''
     | Deactivating \<Rightarrow> ''deactivating'')"

definition TRANSITIONS :: "(string \<times> (lc_state \<times> lc_state)) list" where
  "TRANSITIONS = [(''activate'', (Inactive, Active)), (''deactivate'', (Active, Inactive))]"

definition transitions_from :: "lc_state \<Rightarrow> string list" where
  "transitions_from s = map fst (filter (\<lambda>(t, src, dst). src = s) TRANSITIONS)"

text \<open>What the policy calls: \<open>get_state\<close> (its \<open>state\<close> and whether a session is open), and the operations,
  with an exception as \<open>Inl\<close>.\<close>

record 'p pipe_ops =
  op_state :: "'p \<Rightarrow> lc_state"
  op_recording :: "'p \<Rightarrow> bool"
  op_check :: "json \<Rightarrow> 'p \<Rightarrow> bool"
  op_activate :: "string option \<Rightarrow> 'p \<Rightarrow> (string + op_result) \<times> 'p"
  op_deactivate :: "'p \<Rightarrow> (string + op_result) \<times> 'p"
  op_configure :: "json \<Rightarrow> 'p \<Rightarrow> (string + bool) \<times> 'p"

record descriptor =
  dc_state :: lc_state
  dc_transitions :: "string list"
  dc_since_unix_s :: rat
  dc_boot_reason :: "string option"
  dc_recording_enabled :: bool
  dc_last_error :: "string option"
  dc_recording :: bool

record lifecycle =
  lf_recording_enabled :: bool
  lf_initial_state :: lc_state
  lf_resume :: bool
  lf_boot_reason :: "string option"
  lf_since_unix_s :: rat
  lf_last_error :: "string option"
  lf_file :: "string option"            \<comment> \<open>the state file's content, \<open>None\<close> when it is not there\<close>
  lf_notified :: "descriptor list"

definition new_lifecycle :: "bool \<Rightarrow> lc_state \<Rightarrow> bool \<Rightarrow> string \<Rightarrow> string option \<Rightarrow> rat \<Rightarrow> lifecycle" where
  "new_lifecycle recording_enabled initial resume state_file file_content now =
     \<lparr>lf_recording_enabled = recording_enabled,
      lf_initial_state = (if initial \<in> {Active, Inactive} then initial else Active),
      lf_resume = (resume \<and> state_file \<noteq> []), lf_boot_reason = None, lf_since_unix_s = now,
      lf_last_error = None, lf_file = file_content, lf_notified = []\<rparr>"

definition descriptor :: "('p, 'm) pipe_ops_scheme \<Rightarrow> 'p \<Rightarrow> lifecycle \<Rightarrow> descriptor" where
  "descriptor ops p lf =
     \<lparr>dc_state = op_state ops p, dc_transitions = transitions_from (op_state ops p),
      dc_since_unix_s = lf_since_unix_s lf, dc_boot_reason = lf_boot_reason lf,
      dc_recording_enabled = lf_recording_enabled lf, dc_last_error = lf_last_error lf,
      dc_recording = op_recording ops p\<rparr>"

definition notify :: "('p, 'm) pipe_ops_scheme \<Rightarrow> 'p \<Rightarrow> lifecycle \<Rightarrow> lifecycle" where
  "notify ops p lf = lf\<lparr>lf_notified := lf_notified lf @ [descriptor ops p lf]\<rparr>"

section \<open>The remembered state\<close>

definition remember :: "bool \<Rightarrow> lc_state \<Rightarrow> lifecycle \<Rightarrow> lifecycle" where
  "remember write_ok s lf =
     (if \<not> lf_resume lf \<or> \<not> write_ok then lf else lf\<lparr>lf_file := Some (lc_name s @ [CHR 10])\<rparr>)"

definition forget :: "bool \<Rightarrow> lifecycle \<Rightarrow> lifecycle" where
  "forget unlink_ok lf = (if \<not> lf_resume lf \<or> \<not> unlink_ok then lf else lf\<lparr>lf_file := None\<rparr>)"

definition recall :: "lifecycle \<Rightarrow> lc_state option" where
  "recall lf =
     (if \<not> lf_resume lf then None
      else case lf_file lf of
        None \<Rightarrow> None
      | Some content \<Rightarrow>
          let s = lower (strip_space content) in
          if s = lc_name Active then Some Active else if s = lc_name Inactive then Some Inactive else None)"

definition resolve_boot_state :: "lifecycle \<Rightarrow> lc_state \<times> string" where
  "resolve_boot_state lf =
     (if \<not> lf_recording_enabled lf then (Inactive, ''derived'')
      else case recall lf of Some s \<Rightarrow> (s, ''resumed'') | None \<Rightarrow> (lf_initial_state lf, ''config''))"

section \<open>Requests\<close>

record reply =
  rp_ok :: bool
  rp_state :: lc_state
  rp_error :: "string option"
  rp_noop :: bool
  rp_session :: "session_report option"

text \<open>\<open>_result\<close>: an empty error is left out.\<close>

definition reply :: "bool \<Rightarrow> lc_state \<Rightarrow> string option \<Rightarrow> bool \<Rightarrow> reply" where
  "reply ok s e noop =
     \<lparr>rp_ok = ok, rp_state = s, rp_error = (if e = Some [] then None else e), rp_noop = noop, rp_session = None\<rparr>"

text \<open>\<open>_call\<close>: an exception becomes a refusal that names the operation.\<close>

definition call :: "string \<Rightarrow> (string + op_result) \<times> 'p \<Rightarrow> op_result \<times> 'p" where
  "call name r =
     (case fst r of Inr x \<Rightarrow> x | Inl e \<Rightarrow> result False (Some (name @ '' failed: '' @ e)) None, snd r)"

definition nonempty :: "string option \<Rightarrow> string option" where
  "nonempty e = (if e = Some [] then None else e)"

definition session_error :: "op_result \<Rightarrow> string option" where
  "session_error r = (case or_session r of Some (Closed info) \<Rightarrow> ci_error info | _ \<Rightarrow> None)"

definition error_of :: "op_result \<Rightarrow> string option" where
  "error_of r = (case nonempty (or_error r) of Some e \<Rightarrow> Some e | None \<Rightarrow> session_error r)"

definition opt_or :: "string option \<Rightarrow> string \<Rightarrow> string" where
  "opt_or e d = (case nonempty e of Some m \<Rightarrow> m | None \<Rightarrow> d)"

record lc_env =
  le_now :: rat
  le_write_ok :: bool

text \<open>After the operation ran.\<close>

definition settle :: "('p, 'm) pipe_ops_scheme \<Rightarrow> lc_env \<Rightarrow> string \<Rightarrow> op_result \<Rightarrow> 'p \<Rightarrow> lifecycle \<Rightarrow> reply \<times> lifecycle" where
  "settle ops e transition r p lf =
     (let err = error_of r;
          lf = (if or_ok r
                then remember (le_write_ok e) (op_state ops p) (lf\<lparr>lf_since_unix_s := le_now e, lf_last_error := err\<rparr>)
                else lf\<lparr>lf_last_error := Some (opt_or err (transition @ '' failed''))\<rparr>);
          out = (reply (or_ok r) (op_state ops p) err False)\<lparr>rp_session := or_session r\<rparr>
      in (out, notify ops p lf))"

definition request ::
  "('p, 'm) pipe_ops_scheme \<Rightarrow> lc_env \<Rightarrow> string \<Rightarrow> fields \<Rightarrow> lifecycle \<Rightarrow> 'p \<Rightarrow> reply \<times> lifecycle \<times> 'p" where
  "request ops e transition params lf p =
     (let cur = op_state ops p in
      case map_of TRANSITIONS transition of
        None \<Rightarrow> (reply False cur (Some (''unknown transition '' @ transition)) False, lf, p)
      | Some (src, dst) \<Rightarrow>
          if cur = dst then (reply True cur None True, lf, p)
          else if cur \<noteq> src then (reply False cur (Some (''cannot '' @ transition @ '' from '' @ lc_name cur)) False, lf, p)
          else if transition = ''activate'' \<and> \<not> lf_recording_enabled lf
          then (reply False cur (Some ''recording disabled by config'') False, lf, p)
          else if transition = ''activate'' \<and> map_of params ''expected_recording_settings'' \<noteq> None
                  \<and> \<not> op_check ops (get_key params ''expected_recording_settings'') p
          then (reply False cur (Some ''recording settings changed; refresh and review before retrying'') False, lf, p)
          else
            let (r, p) = call transition
                  (if transition = ''activate'' then op_activate ops (sanitize_run_id (get_key params ''run_id'')) p
                   else op_deactivate ops p);
                (out, lf) = settle ops e transition r p lf
            in (out, lf, p))"

text \<open>\<open>True\<close> in the second place: the boot state was entered.\<close>

definition boot :: "('p, 'm) pipe_ops_scheme \<Rightarrow> lc_env \<Rightarrow> lifecycle \<Rightarrow> 'p \<Rightarrow> bool \<times> lifecycle \<times> 'p" where
  "boot ops e lf p =
     (let (s, reason) = resolve_boot_state lf; lf = lf\<lparr>lf_boot_reason := Some reason\<rparr> in
      if s = Active then (case request ops e ''activate'' [] lf p of (r, lf, p) \<Rightarrow> (rp_ok r, lf, p))
      else (True, notify ops p (lf\<lparr>lf_since_unix_s := le_now e\<rparr>), p))"

definition lc_configure :: "('p, 'm) pipe_ops_scheme \<Rightarrow> json \<Rightarrow> lifecycle \<Rightarrow> 'p \<Rightarrow> reply \<times> lifecycle \<times> 'p" where
  "lc_configure ops req lf p =
     (if op_state ops p \<noteq> Inactive \<or> \<not> lf_recording_enabled lf
      then (reply False (op_state ops p) (Some ''recording settings are locked; stop recording before changing them'') False, lf, p)
      else case op_configure ops req p of
        (Inl err, p) \<Rightarrow> (reply False (op_state ops p) (Some err) False, lf, p)
      | (Inr noop, p) \<Rightarrow>
          (reply True (op_state ops p) None noop, notify ops p (lf\<lparr>lf_last_error := None\<rparr>), p))"

definition on_uncommanded_end :: "('p, 'm) pipe_ops_scheme \<Rightarrow> lc_env \<Rightarrow> op_result \<Rightarrow> 'p \<Rightarrow> lifecycle \<Rightarrow> lifecycle" where
  "on_uncommanded_end ops e r p lf =
     notify ops p (remember (le_write_ok e) Inactive
       (lf\<lparr>lf_last_error := Some (opt_or (error_of r) ''recording session ended on an error''), lf_since_unix_s := le_now e\<rparr>))"

definition on_playback_finished :: "('p, 'm) pipe_ops_scheme \<Rightarrow> lc_env \<Rightarrow> 'p \<Rightarrow> lifecycle \<Rightarrow> lifecycle" where
  "on_playback_finished ops e p lf = notify ops p (remember (le_write_ok e) Inactive (lf\<lparr>lf_since_unix_s := le_now e\<rparr>))"

text \<open>The hooks the pipeline calls, in order.\<close>

fun deliver :: "('p, 'm) pipe_ops_scheme \<Rightarrow> lc_env \<Rightarrow> 'p \<Rightarrow> hook list \<Rightarrow> lifecycle \<Rightarrow> lifecycle" where
  "deliver ops e p [] lf = lf"
| "deliver ops e p (Hook_Ended r # hs) lf = deliver ops e p hs (on_uncommanded_end ops e r p lf)"
| "deliver ops e p (Hook_Finished r # hs) lf = deliver ops e p hs (on_playback_finished ops e p lf)"
| "deliver ops e p (Hook_Progress # hs) lf = deliver ops e p hs (notify ops p lf)"

section \<open>The contract\<close>

locale recording_pipeline =
  fixes ops :: "'p pipe_ops"
    and good :: "'p \<Rightarrow> bool"
  assumes steady: "good p \<Longrightarrow> op_state ops p \<in> {Inactive, Active}"
    and activate: "good p \<Longrightarrow> op_activate ops label p = (r, p') \<Longrightarrow> good p' \<and>
      op_state ops p' = (case r of Inr x \<Rightarrow> if or_ok x then Active else op_state ops p | Inl _ \<Rightarrow> op_state ops p)"
    and deactivate: "good p \<Longrightarrow> op_deactivate ops p = (r, p') \<Longrightarrow> good p' \<and>
      op_state ops p' = (case r of Inr x \<Rightarrow> if or_ok x then Inactive else op_state ops p | Inl _ \<Rightarrow> op_state ops p)"
    and configure: "good p \<Longrightarrow> op_configure ops req p = (c, p') \<Longrightarrow> good p' \<and> op_state ops p' = op_state ops p"
begin

text \<open>The next boot would enter the state the service is in.\<close>

definition tracks :: "lifecycle \<Rightarrow> 'p \<Rightarrow> bool" where
  "tracks lf p \<longleftrightarrow> (lf_resume lf \<longrightarrow> fst (resolve_boot_state lf) = op_state ops p)"

end

definition same_deploy :: "lifecycle \<Rightarrow> lifecycle \<Rightarrow> bool" where
  "same_deploy lf lf' \<longleftrightarrow> lf_resume lf' = lf_resume lf \<and> lf_recording_enabled lf' = lf_recording_enabled lf
     \<and> lf_initial_state lf' = lf_initial_state lf"

lemma notify_fields [simp]:
  "lf_file (notify ops p lf) = lf_file lf" "same_deploy a (notify ops p lf) = same_deploy a lf"
  by (simp_all add: notify_def same_deploy_def)

lemma notify_last [simp]:
  "lf_notified (notify ops p lf) \<noteq> []" "dc_state (last (lf_notified (notify ops p lf))) = op_state ops p"
  by (simp_all add: notify_def descriptor_def)

lemma remember_fields [simp]:
  "lf_file (remember w s lf) = (if lf_resume lf \<and> w then Some (lc_name s @ [CHR 10]) else lf_file lf)"
  "same_deploy a (remember w s lf) = same_deploy a lf"
  by (simp_all add: remember_def same_deploy_def)

lemma same_deploy_refl [simp]: "same_deploy lf lf"
  by (simp add: same_deploy_def)

lemma same_deploy_upd [simp]:
  "same_deploy a (lf\<lparr>lf_since_unix_s := b\<rparr>) = same_deploy a lf" "same_deploy a (lf\<lparr>lf_last_error := c\<rparr>) = same_deploy a lf"
  "same_deploy a (lf\<lparr>lf_boot_reason := d\<rparr>) = same_deploy a lf"
  by (simp_all add: same_deploy_def)

lemma resolve_cong:
  assumes "same_deploy lf lf'" "lf_file lf' = lf_file lf"
  shows "resolve_boot_state lf' = resolve_boot_state lf"
proof -
  have "recall lf' = recall lf" using assms by (simp add: recall_def same_deploy_def)
  then show ?thesis using assms by (simp add: resolve_boot_state_def same_deploy_def split: option.split)
qed

lemma recall_remembered: "s \<in> {Active, Inactive} \<Longrightarrow> lower (strip_space (lc_name s @ [CHR 10])) = lc_name s"
proof -
  have "lower (strip_space (lc_name Active @ [CHR 10])) = lc_name Active"
    "lower (strip_space (lc_name Inactive @ [CHR 10])) = lc_name Inactive" by code_simp+
  then show "s \<in> {Active, Inactive} \<Longrightarrow> ?thesis" by auto
qed

lemma resolve_remembered:
  assumes "s \<in> {Active, Inactive}" "lf_file lf = Some (lc_name s @ [CHR 10])" "lf_resume lf"
  shows "fst (resolve_boot_state lf) = (if lf_recording_enabled lf then s else Inactive)"
proof -
  have "lc_name Active \<noteq> lc_name Inactive" by (simp add: lc_name_def)
  then have "recall lf = Some s"
    using assms recall_remembered[OF assms(1)] by (auto simp: recall_def Let_def)
  then show ?thesis by (simp add: resolve_boot_state_def)
qed

lemma transitions_known:
  assumes "map_of TRANSITIONS t = Some (src, dst)"
  shows "(t = ''activate'' \<and> src = Inactive \<and> dst = Active) \<or> (t = ''deactivate'' \<and> src = Active \<and> dst = Inactive)"
  using assms by (auto simp: TRANSITIONS_def split: if_splits)

lemma settle_simps:
  assumes "settle ops e t r p lf = (out, lf')"
  shows "rp_ok out = or_ok r" "rp_state out = op_state ops p" "\<not> rp_noop out" "same_deploy lf lf'"
    "lf_file lf' = (if or_ok r \<and> lf_resume lf \<and> le_write_ok e then Some (lc_name (op_state ops p) @ [CHR 10]) else lf_file lf)"
    "lf_notified lf' \<noteq> [] \<and> dc_state (last (lf_notified lf')) = op_state ops p"
  using assms unfolding settle_def Let_def
  by (auto simp: reply_def)

context recording_pipeline
begin

text \<open>The three ways a request ends: a no-op that changes nothing, a refusal that leaves the state and the
  file, and a transition to its target, remembered and announced.\<close>

lemma call_activate:
  assumes "good p" "call n (op_activate ops l p) = (r, p')"
  shows "good p'" "op_state ops p' = (if or_ok r then Active else op_state ops p)"
proof -
  obtain o1 q where o: "op_activate ops l p = (o1, q)" by fastforce
  note a = activate[OF assms(1) o]
  show "good p'" "op_state ops p' = (if or_ok r then Active else op_state ops p)"
    using a assms(2) o by (auto simp: call_def result_def split: sum.splits)
qed

lemma call_deactivate:
  assumes "good p" "call n (op_deactivate ops p) = (r, p')"
  shows "good p'" "op_state ops p' = (if or_ok r then Inactive else op_state ops p)"
proof -
  obtain o1 q where o: "op_deactivate ops p = (o1, q)" by fastforce
  note a = deactivate[OF assms(1) o]
  show "good p'" "op_state ops p' = (if or_ok r then Inactive else op_state ops p)"
    using a assms(2) o by (auto simp: call_def result_def split: sum.splits)
qed

definition request_ok :: "lc_env \<Rightarrow> string \<Rightarrow> lifecycle \<Rightarrow> 'p \<Rightarrow> reply \<Rightarrow> lifecycle \<Rightarrow> 'p \<Rightarrow> bool" where
  "request_ok e t lf p out lf' p' \<longleftrightarrow>
     good p' \<and> same_deploy lf lf' \<and> rp_state out = op_state ops p' \<and>
     (rp_ok out \<longrightarrow> map_option snd (map_of TRANSITIONS t) = Some (op_state ops p')) \<and>
     (if rp_noop out then rp_ok out \<and> lf' = lf \<and> p' = p
      else if rp_ok out then
        map_of TRANSITIONS t = Some (op_state ops p, op_state ops p')
        \<and> (op_state ops p' = Active \<longrightarrow> lf_recording_enabled lf)
        \<and> (lf_resume lf \<and> le_write_ok e \<longrightarrow> lf_file lf' = Some (lc_name (op_state ops p') @ [CHR 10]))
        \<and> dc_state (last (lf_notified lf')) = op_state ops p'
      else op_state ops p' = op_state ops p \<and> lf_file lf' = lf_file lf)"

lemma request_spec:
  assumes "good p" "request ops e t ps lf p = (out, lf', p')"
  shows "request_ok e t lf p out lf' p'"
proof (cases "map_of TRANSITIONS t")
  case None
  then show ?thesis using assms by (auto simp: request_def request_ok_def reply_def)
next
  case (Some sd)
  obtain src dst where sd: "sd = (src, dst)" by (cases sd)
  note known = transitions_known[OF Some[unfolded sd]]
  let ?cur = "op_state ops p"
  let ?refused = "?cur = dst \<or> ?cur \<noteq> src \<or> (t = ''activate'' \<and> \<not> lf_recording_enabled lf)
     \<or> (t = ''activate'' \<and> map_of ps ''expected_recording_settings'' \<noteq> None
          \<and> \<not> op_check ops (get_key ps ''expected_recording_settings'') p)"
  show ?thesis
  proof (cases ?refused)
    case True
    then show ?thesis
      using assms Some sd by (auto simp: request_def request_ok_def reply_def Let_def split: if_splits)
  next
    case False
    obtain r q where c: "call t (if t = ''activate'' then op_activate ops (sanitize_run_id (get_key ps ''run_id'')) p
                   else op_deactivate ops p) = (r, q)" by fastforce
    obtain o2 lf2 where st: "settle ops e t r q lf = (o2, lf2)" by fastforce
    have res: "out = o2" "lf' = lf2" "p' = q"
      using assms(2) False Some sd c st unfolding request_def Let_def by (simp_all split: if_splits)
    have q: "good q" "op_state ops q = (if or_ok r then dst else ?cur)"
      using known c assms(1) call_activate[of p t _ r q] call_deactivate[of p t r q] by (auto split: if_splits)
    note s = settle_simps[OF st]
    have en: "dst = Active \<longrightarrow> lf_recording_enabled lf" using False known by auto
    show ?thesis
      unfolding request_ok_def res using q s False Some sd en by auto
  qed
qed

lemma tracks_same: "same_deploy lf lf' \<Longrightarrow> lf_file lf' = lf_file lf \<Longrightarrow> op_state ops p' = op_state ops p \<Longrightarrow>
    tracks lf p \<Longrightarrow> tracks lf' p'"
  using resolve_cong[of lf lf'] by (auto simp: tracks_def same_deploy_def)

lemma tracks_remembered:
  assumes "good p" "lf_resume lf \<longrightarrow> lf_file lf = Some (lc_name (op_state ops p) @ [CHR 10])"
    "op_state ops p = Active \<longrightarrow> lf_recording_enabled lf"
  shows "tracks lf p"
  using steady[OF assms(1)] assms(2,3) resolve_remembered[of "op_state ops p" lf]
  by (auto simp: tracks_def)

lemma request_tracks:
  assumes "good p" "request ops e t ps lf p = (out, lf', p')" "le_write_ok e" "tracks lf p"
  shows "good p'" "tracks lf' p'"
proof -
  note sp = request_spec[OF assms(1,2), unfolded request_ok_def]
  show g: "good p'" using sp by blast
  consider "rp_noop out" | "\<not> rp_noop out" "rp_ok out" | "\<not> rp_noop out" "\<not> rp_ok out" by blast
  then show "tracks lf' p'"
  proof cases
    case 1
    then show ?thesis using sp assms(4) by simp
  next
    case 2
    then show ?thesis using sp assms(3) by (intro tracks_remembered[OF g]) (auto simp: same_deploy_def)
  next
    case 3
    then show ?thesis using sp assms(4) by (intro tracks_same[of lf lf' p' p]) auto
  qed
qed

lemma boot_tracks:
  assumes "good p" "op_state ops p = Inactive" "boot ops e lf p = (True, lf', p')" "le_write_ok e"
    "lf_initial_state lf \<in> {Active, Inactive}"
  shows "good p'" "tracks lf' p'" "same_deploy lf lf'"
proof -
  obtain s reason where b: "resolve_boot_state lf = (s, reason)" by fastforce
  let ?lf = "lf\<lparr>lf_boot_reason := Some reason\<rparr>"
  have "good p' \<and> tracks lf' p' \<and> same_deploy lf lf'"
  proof (cases "s = Active")
    case True
    obtain out l q where r: "request ops e ''activate'' [] ?lf p = (out, l, q)" by (metis prod_cases3)
    then have out: "rp_ok out" "lf' = l" "p' = q" using assms(3) b True by (simp_all add: boot_def)
    note sp = request_spec[OF assms(1) r, unfolded request_ok_def]
    have st: "op_state ops p' = Active"
      using sp out by (auto simp: TRANSITIONS_def)
    have sd: "same_deploy lf lf'" using sp out by (simp add: same_deploy_def)
    have nn: "\<not> rp_noop out" using sp st assms(2) out by auto
    have "tracks lf' p'"
      using sp out nn assms(4) sd by (intro tracks_remembered) (auto simp: same_deploy_def)
    then show ?thesis using sp out sd by blast
  next
    case False
    have d: "same_deploy lf lf'" "lf_file lf' = lf_file lf" "p' = p" "s = Inactive"
      using assms(3,5) b False by (auto simp: boot_def Let_def resolve_boot_state_def recall_def split: if_splits option.splits)
    have "fst (resolve_boot_state lf) = Inactive" using b d(4) by simp
    then show ?thesis using d assms(1,2) resolve_cong[OF d(1,2)] by (simp add: tracks_def)
  qed
  then show "good p'" "tracks lf' p'" "same_deploy lf lf'" by blast+
qed

end

section \<open>The capture pipeline provides it\<close>

text \<open>The operations with the answers of their environment.\<close>

record ops_env =
  oe_act :: act_env
  oe_close :: close_env
  oe_probe_ok :: bool

definition pipeline_ops :: "ops_env \<Rightarrow> pipe pipe_ops" where
  "pipeline_ops oe =
     \<lparr>op_state = pl_lifecycle, op_recording = (\<lambda>p. pl_session p \<noteq> None), op_check = check_recording_settings,
      op_activate = (\<lambda>l p. map_prod Inr id (activate (oe_act oe) l p)),
      op_deactivate = (\<lambda>p. map_prod Inr id (deactivate (oe_close oe) True p)),
      op_configure = (\<lambda>req p. configure_recording (ae_avail (oe_act oe)) (oe_probe_ok oe) req p)\<rparr>"

lemma pipeline_ops_simps [simp]: "op_state (pipeline_ops oe) = pl_lifecycle"
  by (simp add: pipeline_ops_def)

interpretation rp: recording_pipeline "pipeline_ops oe" pipe_ok for oe
proof
  show "pipe_ok p \<Longrightarrow> op_state (pipeline_ops oe) p \<in> {Inactive, Active}" for p
    by (auto simp: pipe_ok_def split: option.splits)
next
  fix p label r p'
  assume ok: "pipe_ok p" and "op_activate (pipeline_ops oe) label p = (r, p')"
  then obtain x where x: "r = Inr x" "activate (oe_act oe) label p = (x, p')"
    by (auto simp: pipeline_ops_def map_prod_def split: prod.splits)
  have "pipe_ok p'" using pipe_ok_activate[OF ok, of "oe_act oe" label] x by simp
  moreover have "pl_lifecycle p' = (if or_ok x then Active else pl_lifecycle p)"
    using x(2)
  proof (cases rule: activate_cases)
    case failed
    then show ?thesis using ok by (simp add: pipe_ok_def)
  qed simp_all
  ultimately show "pipe_ok p' \<and> op_state (pipeline_ops oe) p' =
      (case r of Inr x \<Rightarrow> if or_ok x then Active else op_state (pipeline_ops oe) p | Inl _ \<Rightarrow> op_state (pipeline_ops oe) p)"
    by (simp add: x)
next
  fix p r p'
  assume ok: "pipe_ok p" and "op_deactivate (pipeline_ops oe) p = (r, p')"
  then obtain x where x: "r = Inr x" "deactivate (oe_close oe) True p = (x, p')"
    by (auto simp: pipeline_ops_def map_prod_def split: prod.splits)
  have "pipe_ok p'" using pipe_ok_deactivate[OF ok, of "oe_close oe" True] x by simp
  moreover have "pl_lifecycle p' = (if or_ok x then Inactive else pl_lifecycle p)"
    using x(2) by (auto simp: deactivate_def Let_def refuse_def result_def close_session_sync_def split: option.splits)
  ultimately show "pipe_ok p' \<and> op_state (pipeline_ops oe) p' =
      (case r of Inr x \<Rightarrow> if or_ok x then Inactive else op_state (pipeline_ops oe) p | Inl _ \<Rightarrow> op_state (pipeline_ops oe) p)"
    by (simp add: x)
next
  fix p req c p'
  assume ok: "pipe_ok p" and "op_configure (pipeline_ops oe) req p = (c, p')"
  then have x: "configure_recording (ae_avail (oe_act oe)) (oe_probe_ok oe) req p = (c, p')" by (simp add: pipeline_ops_def)
  have "pipe_ok p'" using pipe_ok_configure[OF ok, of "ae_avail (oe_act oe)" "oe_probe_ok oe" req] x by simp
  moreover have "pl_lifecycle p' = pl_lifecycle p" using configure_cases[OF x] by auto
  ultimately show "pipe_ok p' \<and> op_state (pipeline_ops oe) p' = op_state (pipeline_ops oe) p" by simp
qed

section \<open>The running service\<close>

text \<open>The hooks of a step, delivered to the policy.\<close>

definition hooked :: "ops_env \<Rightarrow> lc_env \<Rightarrow> lifecycle \<Rightarrow> pipe \<Rightarrow> pipe \<Rightarrow> lifecycle \<times> pipe" where
  "hooked oe e lf p p' = (deliver (pipeline_ops oe) e p' (drop (length (pl_hooks p)) (pl_hooks p')) lf, p')"

text \<open>Boot, then requests, settings, frames, session errors, the end of a playback and the progress reports, in any
  order; the state file can be written, and nobody has asked the process to stop.\<close>

inductive service_run :: "lifecycle \<times> pipe \<Rightarrow> bool" where
  Boot: "build_pipe avail generation cfg b = Inr p \<Longrightarrow> initial \<in> {Active, Inactive} \<Longrightarrow> le_write_ok e \<Longrightarrow>
    boot (pipeline_ops oe) e (new_lifecycle (enabled p) initial resume state_file content now)
      (p\<lparr>pl_hold_on_finish := hold, pl_session_error_fatal := fatal\<rparr>) = (True, sv) \<Longrightarrow> service_run sv"
| Request: "service_run (lf, p) \<Longrightarrow> le_write_ok e \<Longrightarrow> request (pipeline_ops oe) e t ps lf p = (out, sv) \<Longrightarrow> service_run sv"
| Configure: "service_run (lf, p) \<Longrightarrow> lc_configure (pipeline_ops oe) req lf p = (out, sv) \<Longrightarrow> service_run sv"
| Frame: "service_run (lf, p) \<Longrightarrow> service_run (lf, snd (on_frame fe stamp payload p))"
| Encoded: "service_run (lf, p) \<Longrightarrow> service_run (lf, snd (on_encoded fe stamp payload caps p))"
| Session_bus: "service_run (lf, p) \<Longrightarrow> service_run (lf, session_message m p)"
| Fragment: "service_run (lf, p) \<Longrightarrow> service_run (hooked oe e lf p (on_session_fragment i p))"
| Error: "service_run (lf, p) \<Longrightarrow> le_write_ok e \<Longrightarrow> service_run (hooked oe e lf p (on_session_error c i p))"
| Watchdog: "service_run (lf, p) \<Longrightarrow> le_write_ok e \<Longrightarrow> watchdog c sp p = (True, starts, p') \<Longrightarrow>
    service_run (hooked oe e lf p p')"

text \<open>What one step of the pipeline reports: nothing while its lifecycle stays, or one end into \<open>Inactive\<close>.\<close>

definition reports :: "pipe \<Rightarrow> pipe \<Rightarrow> bool" where
  "reports p p' \<longleftrightarrow> (pl_hooks p' = pl_hooks p \<or> pl_hooks p' = pl_hooks p @ [Hook_Progress]) \<and> pl_lifecycle p' = pl_lifecycle p
     \<or> (\<exists>r. pl_hooks p' \<in> {pl_hooks p @ [Hook_Ended r], pl_hooks p @ [Hook_Finished r]}) \<and> pl_lifecycle p' = Inactive"

lemma deactivate_fields:
  "deactivate c w p = (r, q) \<Longrightarrow> pl_hooks q = pl_hooks p \<and> (pl_session p \<noteq> None \<longrightarrow> pl_lifecycle q = Inactive)"
  by (auto simp: deactivate_def Let_def split: option.splits)

lemma reports_error: "reports p (on_session_error c i p)"
proof -
  obtain r q where d: "deactivate c False p = (r, q)" by fastforce
  have "is_current i p \<Longrightarrow> pl_session p \<noteq> None" by (auto simp: is_current_def split: option.splits)
  then show ?thesis
    using deactivate_fields[OF d] by (auto simp: reports_def on_session_error_def d fire_def Let_def)
qed

lemma reports_watchdog: "watchdog c sp p = (True, starts, p') \<Longrightarrow> reports p p'"
proof -
  obtain r q where d: "deactivate c True (p\<lparr>pl_held := True\<rparr>) = (r, q)" by fastforce
  assume "watchdog c sp p = (True, starts, p')"
  then show ?thesis
    using deactivate_fields[OF d]
    by (auto simp: reports_def watchdog_def d fire_def Let_def split: if_splits)
qed

lemma reports_fragment: "reports p (on_session_fragment i p)"
  by (simp add: reports_def on_session_fragment_def fire_def)

lemma hooked_tracks:
  assumes "rp.tracks oe lf p" "reports p p'" "le_write_ok e \<or> pl_lifecycle p' = pl_lifecycle p \<and> pl_hooks p' \<in> {pl_hooks p, pl_hooks p @ [Hook_Progress]}"
    "pipe_ok p'"
  shows "rp.tracks oe (fst (hooked oe' e lf p p')) p'"
proof -
  consider (quiet) "pl_hooks p' = pl_hooks p \<or> pl_hooks p' = pl_hooks p @ [Hook_Progress]" "pl_lifecycle p' = pl_lifecycle p"
    | (ended) r where "pl_hooks p' = pl_hooks p @ [Hook_Ended r]" "pl_lifecycle p' = Inactive" "le_write_ok e"
    | (finished) r where "pl_hooks p' = pl_hooks p @ [Hook_Finished r]" "pl_lifecycle p' = Inactive" "le_write_ok e"
    using assms(2,3) unfolding reports_def by auto
  then show ?thesis
  proof cases
    case quiet
    then have "same_deploy lf (fst (hooked oe' e lf p p'))" "lf_file (fst (hooked oe' e lf p p')) = lf_file lf"
      by (auto simp: hooked_def)
    then show ?thesis using rp.tracks_same assms(1) quiet(2) by simp
  next
    case ended
    then show ?thesis
      by (intro rp.tracks_remembered[OF assms(4)]) (auto simp: hooked_def on_uncommanded_end_def notify_def remember_def)
  next
    case finished
    then show ?thesis
      by (intro rp.tracks_remembered[OF assms(4)]) (auto simp: hooked_def on_playback_finished_def notify_def remember_def)
  qed
qed

lemma tracks_any: "rp.tracks oe lf p = rp.tracks oe' lf p"
  by (simp add: rp.tracks_def)

lemma callback_lifecycle:
  "pl_lifecycle (snd (on_frame fe stamp payload p)) = pl_lifecycle p"
  "pl_lifecycle (snd (on_encoded fe stamp payload caps p)) = pl_lifecycle p"
proof -
  have cb: "pl_lifecycle p' = pl_lifecycle p"
    if "recording_callback fe stamp payload c p = (raised, p')" "\<not> pl_stopping p" for c raised p'
  proof (cases raised)
    case True
    then have "core p' = core p" using recording_callback_cases[OF that] by (simp add: best_effort_def)
    then show ?thesis by (rule coreD(1))
  next
    case False
    then have "recording_callback fe stamp payload c p = (False, p')" using that by simp
    then have "core p' = core p" using conservation_step[OF _ that(2)] by blast
    then show ?thesis by (rule coreD(1))
  qed
  show "pl_lifecycle (snd (on_frame fe stamp payload p)) = pl_lifecycle p"
  proof -
    obtain raised p' where f: "on_frame fe stamp payload p = (raised, p')" by fastforce
    consider "pl_stopping p" | "\<not> pl_stopping p" "\<not> pl_stream_copy p" | "pl_stream_copy p" by blast
    then have "pl_lifecycle p' = pl_lifecycle p"
    proof cases
      case 1
      then show ?thesis using f unfolding on_frame_def by simp
    next
      case 2
      then show ?thesis using cb[of None raised p'] f by (simp add: recording_callback_def)
    next
      case 3
      then have "core p' = core p" using decode_branch_best_effort[OF 3 f] by (simp add: best_effort_def)
      then show ?thesis by (rule coreD(1))
    qed
    then show ?thesis by (simp add: f)
  qed
  show "pl_lifecycle (snd (on_encoded fe stamp payload caps p)) = pl_lifecycle p"
  proof (cases "pl_stopping p \<or> \<not> pl_stream_copy p")
    case True
    then show ?thesis by (simp add: on_encoded_def)
  next
    case False
    then show ?thesis using cb[of caps "fst (on_encoded fe stamp payload caps p)" "snd (on_encoded fe stamp payload caps p)"]
      by (simp add: recording_callback_def)
  qed
qed

definition service_ok :: "lifecycle \<times> pipe \<Rightarrow> bool" where
  "service_ok sv \<longleftrightarrow> pipe_ok (snd sv) \<and> (\<forall>oe. rp.tracks oe (fst sv) (snd sv))"

lemma service_okI: "pipe_ok p \<Longrightarrow> rp.tracks oe lf p \<Longrightarrow> service_ok (lf, p)"
  using tracks_any by (auto simp: service_ok_def)

lemma service_ok_quiet:
  assumes "service_ok (lf, p)" "pipe_ok p'" "pl_lifecycle p' = pl_lifecycle p"
  shows "service_ok (lf, p')"
  using assms rp.tracks_same[of lf lf _ p' p] by (simp add: service_ok_def)

lemma service_ok_hooked:
  assumes "service_ok (lf, p)" "pipe_ok p'" "reports p p'"
    "le_write_ok e \<or> pl_lifecycle p' = pl_lifecycle p \<and> pl_hooks p' \<in> {pl_hooks p, pl_hooks p @ [Hook_Progress]}"
  shows "service_ok (hooked oe e lf p p')"
proof -
  have "rp.tracks oe lf p" using assms(1) by (simp add: service_ok_def)
  from hooked_tracks[OF this assms(3,4,2), of oe] show ?thesis
    using service_okI[OF assms(2)] by (simp add: hooked_def)
qed

lemma configure_tracks:
  assumes "lc_configure (pipeline_ops oe) req lf p = (out, lf', p')" "pipe_ok p"
  shows "pipe_ok p' \<and> pl_lifecycle p' = pl_lifecycle p \<and> same_deploy lf lf' \<and> lf_file lf' = lf_file lf"
proof (cases "op_state (pipeline_ops oe) p \<noteq> Inactive \<or> \<not> lf_recording_enabled lf")
  case True
  then show ?thesis using assms by (auto simp: lc_configure_def)
next
  case False
  obtain c q where c: "op_configure (pipeline_ops oe) req p = (c, q)" by fastforce
  show ?thesis
    using rp.configure[OF assms(2) c] assms(1) False c by (auto simp: lc_configure_def split: sum.splits)
qed

lemma service_run_ok: "service_run sv \<Longrightarrow> service_ok sv"
proof (induction rule: service_run.induct)
  case (Boot avail generation cfg b p initial e oe resume state_file content now fatal hold sv)
  have g: "pipe_ok (p\<lparr>pl_hold_on_finish := hold, pl_session_error_fatal := fatal\<rparr>)"
    using pipe_ok_build[OF Boot(1)] by simp
  have "pl_lifecycle p = Inactive"
    using Boot(1) by (auto simp: build_pipe_def Let_def new_pipe_def install_recording_plan_def split: if_splits)
  then have i: "op_state (pipeline_ops oe) (p\<lparr>pl_hold_on_finish := hold, pl_session_error_fatal := fatal\<rparr>) = Inactive" by simp
  have n: "lf_initial_state (new_lifecycle (enabled p) initial resume state_file content now) \<in> {Active, Inactive}"
    by (simp add: new_lifecycle_def)
  obtain lf' p' where sv: "sv = (lf', p')" by (cases sv)
  from rp.boot_tracks[OF g i Boot(4)[unfolded sv] Boot(3) n] show ?case
    unfolding sv by (intro service_okI[where oe = oe])
next
  case (Request lf p e oe t ps out sv)
  obtain lf' p' where sv: "sv = (lf', p')" by (cases sv)
  have ok: "pipe_ok p" "rp.tracks oe lf p" using Request.IH by (simp_all add: service_ok_def)
  from rp.request_tracks[OF ok(1) Request(3)[unfolded sv] Request(2) ok(2)] show ?case
    unfolding sv by (intro service_okI[where oe = oe])
next
  case (Configure lf p oe req out sv)
  obtain lf' p' where sv: "sv = (lf', p')" by (cases sv)
  have ok: "pipe_ok p" "rp.tracks oe lf p" using Configure.IH by (simp_all add: service_ok_def)
  note c = configure_tracks[OF Configure(2)[unfolded sv] ok(1)]
  show ?case
    unfolding sv using c ok(2) by (intro service_okI[where oe = oe] rp.tracks_same[of lf lf' oe p' p]) simp_all
next
  case (Frame lf p fe stamp payload)
  then show ?case
    by (intro service_ok_quiet[OF Frame.IH]) (simp_all add: callback_lifecycle pipe_ok_frame service_ok_def)
next
  case (Encoded lf p fe stamp payload caps)
  then show ?case
    by (intro service_ok_quiet[OF Encoded.IH]) (simp_all add: callback_lifecycle pipe_ok_encoded service_ok_def)
next
  case (Session_bus lf p m)
  then show ?case
    by (intro service_ok_quiet[OF Session_bus.IH]) (simp_all add: pipe_ok_message service_ok_def, simp add: session_message_def)
next
  case (Fragment lf p oe e i)
  then show ?case
    by (intro service_ok_hooked[OF Fragment.IH])
      (auto simp: service_ok_def reports_def on_session_fragment_def fire_def)
next
  case (Error lf p e oe c i)
  then show ?case
    by (intro service_ok_hooked[OF Error.IH]) (simp_all add: service_ok_def reports_error pipe_ok_error)
next
  case (Watchdog lf p e c sp starts p' oe)
  have "pipe_ok p'" using pipe_ok_watchdog[of p c sp] Watchdog by (simp add: service_ok_def)
  then show ?case
    using Watchdog by (intro service_ok_hooked[OF Watchdog.IH]) (simp_all add: reports_watchdog)
qed

section \<open>Properties\<close>

text \<open>C1: a crash restart resumes where the service was.  In every reachable state of the running service - after
  the boot, any requests and settings changes, recorder errors, finished playbacks - the state file is such that
  the next process would boot into exactly the state the service is in now: a commanded recording is resumed,
  a session that ended on its own error is not.\<close>

theorem crash_restart_resumes:
  assumes "service_run (lf, p)" "lf_resume lf" "state_file \<noteq> []" "lf_initial_state lf \<in> {Active, Inactive}"
  shows "fst (resolve_boot_state (new_lifecycle (lf_recording_enabled lf) (lf_initial_state lf) True state_file (lf_file lf) now))
    = pl_lifecycle p"
proof -
  have t: "rp.tracks undefined lf p" using service_run_ok[OF assms(1)] by (simp add: service_ok_def)
  have "resolve_boot_state (new_lifecycle (lf_recording_enabled lf) (lf_initial_state lf) True state_file (lf_file lf) now)
      = resolve_boot_state lf"
    using assms(2-4) by (intro resolve_cong) (simp_all add: same_deploy_def new_lifecycle_def)
  then show ?thesis using t assms(2) by (simp add: rp.tracks_def)
qed

definition demo_ops :: ops_env where
  "demo_ops = \<lparr>oe_act = \<lparr>ae_avail = (\<lambda>_. True), ae_listing = None, ae_stamp = ''s'', ae_snapshot_ok = True,
     ae_mkdir_ok = True, ae_launch = Launched False, ae_window = False\<rparr>,
     oe_close = \<lparr>ce_drain = Drained, ce_disk = [], ce_json_ok = True, ce_health = None\<rparr>, oe_probe_ok = True\<rparr>"

definition demo_boot :: "bool \<times> lifecycle \<times> pipe" where
  "demo_boot = boot (pipeline_ops demo_ops) \<lparr>le_now = 1, le_write_ok = True\<rparr>
     (new_lifecycle True Active True ''f'' None 0) demo_pipe"

lemma demo_boot_run:
  "case demo_boot of (ok, lf, p) \<Rightarrow> ok \<and> lf_resume lf \<and> lf_initial_state lf = Active \<and> pl_lifecycle p = Active
     \<and> lf_file lf = Some (''active'' @ [CHR 10])
     \<and> (case request (pipeline_ops demo_ops) \<lparr>le_now = 2, le_write_ok = True\<rparr> ''deactivate'' [] lf p of
          (out, _) \<Rightarrow> rp_ok out \<and> \<not> rp_noop out)"
  by code_simp

lemma demo_boot_facts: "fst demo_boot" "lf_resume (fst (snd demo_boot))" "lf_initial_state (fst (snd demo_boot)) = Active"
  "pl_lifecycle (snd (snd demo_boot)) = Active" "lf_file (fst (snd demo_boot)) = Some (''active'' @ [CHR 10])"
  using demo_boot_run by (simp_all add: case_prod_beta)

lemma demo_service: "service_run (snd demo_boot)"
proof -
  define b where "b = build_pipe (\<lambda>_. True) ''g'' [(''output_dir'', JStr ''/rec'')] (build_facts None False False demo_source)"
  have "case b of Inr p \<Rightarrow> \<not> pl_hold_on_finish p \<and> \<not> pl_session_error_fatal p \<and> enabled p | Inl _ \<Rightarrow> False"
    unfolding b_def by code_simp
  then obtain p where p: "b = Inr p" "\<not> pl_hold_on_finish p" "\<not> pl_session_error_fatal p" "enabled p"
    by (auto split: sum.splits)
  have d: "p\<lparr>pl_hold_on_finish := False, pl_session_error_fatal := False\<rparr> = demo_pipe"
    using p unfolding b_def by (simp add: demo_pipe_def)
  have e: "boot (pipeline_ops demo_ops) \<lparr>le_now = 1, le_write_ok = True\<rparr> (new_lifecycle (enabled p) Active True ''f'' None 0)
      (p\<lparr>pl_hold_on_finish := False, pl_session_error_fatal := False\<rparr>) = (True, snd demo_boot)"
    using demo_boot_facts(1) p(4) d by (cases demo_boot) (simp add: demo_boot_def)
  show ?thesis by (rule Boot[OF p(1)[unfolded b_def] _ _ e]) simp_all
qed

theorem crash_restart_resumes_witness:
  "fst (resolve_boot_state (new_lifecycle (lf_recording_enabled (fst (snd demo_boot))) Active True ''f'' (lf_file (fst (snd demo_boot))) 9))
     = Active"
  using crash_restart_resumes[of "fst (snd demo_boot)" "snd (snd demo_boot)" "''f''" 9]
  by (simp add: demo_service demo_boot_facts)



lemma sub_dash_chars: "list_all run_id_char (sub_dash b s)"
proof -
  have "run_id_char (CHR ''-'')" by code_simp
  then show ?thesis by (induction b s rule: sub_dash.induct) auto
qed

lemma sub_dash_safe: "list_all run_id_char s \<Longrightarrow> sub_dash b s = s"
  by (induction s arbitrary: b) auto

lemma strip_by_parts:
  "set (strip_by f s) \<subseteq> set s" "strip_by f s \<noteq> [] \<Longrightarrow> \<not> f (hd (strip_by f s))"
proof -
  show "set (strip_by f s) \<subseteq> set s"
    unfolding strip_by_def by (metis (no_types, lifting) set_dropWhileD set_rev subsetI)
  assume n: "strip_by f s \<noteq> []"
  define t where "t = dropWhile f s"
  obtain u where u: "t = rev (dropWhile f (rev t)) @ u"
    by (metis rev_append rev_rev_ident takeWhile_dropWhile_id)
  have "hd (strip_by f s) = hd t" using n u by (metis hd_append2 strip_by_def t_def)
  moreover have "t \<noteq> []"
  proof
    assume "t = []"
    then have "strip_by f s = []" by (simp add: strip_by_def flip: t_def)
    then show False using n by simp
  qed
  ultimately show "\<not> f (hd (strip_by f s))" by (metis hd_dropWhile t_def)
qed

lemma strip_by_clean:
  assumes "s \<noteq> []" "\<not> f (hd s)" "\<not> f (last s)"
  shows "strip_by f s = s"
proof -
  have "dropWhile f s = s" using assms by (cases s) auto
  moreover have "dropWhile f (rev s) = rev s" using assms by (cases "rev s") (auto simp: hd_rev[symmetric])
  ultimately show ?thesis by (simp add: strip_by_def)
qed

text \<open>the operator's label is safe in a file name.  What is folded into a session's prefix is non-empty, at most
  64 characters, made of letters, digits, underscores, dots and dashes (no path separator), and starts with neither a dot
  nor a dash; and a label that is already of that shape is taken as it is.\<close>

theorem run_id_safe:
  "(\<forall>s. sanitize_run_id v = Some s \<longrightarrow> s \<noteq> [] \<and> length s \<le> 64 \<and> list_all run_id_char s \<and> hd s \<notin> {CHR ''-'', CHR ''.''})
   \<and> (\<forall>s. s \<noteq> [] \<and> length s \<le> 64 \<and> list_all run_id_char s \<and> hd s \<notin> {CHR ''-'', CHR ''.''} \<and> last s \<notin> {CHR ''-'', CHR ''.''}
        \<longrightarrow> sanitize_run_id (JStr s) = Some s)"
proof (intro conjI allI impI)
  fix s
  let ?f = "\<lambda>c. c \<in> {CHR ''-'', CHR ''.''}"
  let ?t = "strip_by ?f (sub_dash False (text_of False v))"
  assume "sanitize_run_id v = Some s"
  then have s: "s = take 64 ?t" "s \<noteq> []" by (auto simp: sanitize_run_id_def Let_def split: if_splits)
  then have t: "?t \<noteq> []" "hd s = hd ?t" by (auto simp: hd_take)
  show "s \<noteq> []" by fact
  show "length s \<le> 64" by (simp add: s)
  have "set s \<subseteq> set (sub_dash False (text_of False v))"
    unfolding s(1) using strip_by_parts(1) set_take_subset by (metis order_trans)
  then show "list_all run_id_char s" using sub_dash_chars[of False "text_of False v"] by (auto simp: list_all_iff)
  show "hd s \<notin> {CHR ''-'', CHR ''.''}" using strip_by_parts(2)[OF t(1)] t(2) by simp
next
  fix s
  assume a: "s \<noteq> [] \<and> length s \<le> 64 \<and> list_all run_id_char s \<and> hd s \<notin> {CHR ''-'', CHR ''.''} \<and> last s \<notin> {CHR ''-'', CHR ''.''}"
  then have "strip_by (\<lambda>c. c \<in> {CHR ''-'', CHR ''.''}) (sub_dash False s) = s"
    by (simp add: sub_dash_safe strip_by_clean)
  then show "sanitize_run_id (JStr s) = Some s" using a by (simp add: sanitize_run_id_def Let_def)
qed

theorem run_id_safe_witness:
  "sanitize_run_id (JStr ''../run 7/a'') = Some ''run-7-a'' \<and> hd ''run-7-a'' \<notin> {CHR ''-'', CHR ''.''}
   \<and> sanitize_run_id (JStr ''run_7.b'') = Some ''run_7.b''"
proof -
  have e: "sanitize_run_id (JStr ''../run 7/a'') = Some ''run-7-a''" by code_simp
  have c: "list_all run_id_char ''run_7.b''" by code_simp
  show ?thesis using run_id_safe[of "JStr ''../run 7/a''"] e c by auto
qed

end
