(* ===== verification/Health.thy ===== *)
theory Health
  imports Config Py_Format
begin

text \<open>
  \<open>core-driver/cam_driver/health.py\<close>, the data: reports of the providers, the configured limits, the merge into
  one status entry per component, the snapshot, and the summary of a recording session's window.  A report's
  values are a key-ordered dict of dynamic values.  Levels are ROS's numbers.  The lemmas show what the level
  of an entry is, that a missing provider hides no other provider's fault, and that the window's summary is
  that of the list of values it saw.
\<close>

section \<open>Reports\<close>

abbreviation (input) OK :: nat where "OK \<equiv> 0"
abbreviation (input) WARN :: nat where "WARN \<equiv> 1"
abbreviation (input) ERROR :: nat where "ERROR \<equiv> 2"
abbreviation (input) STALE :: nat where "STALE \<equiv> 3"

definition LEVEL_NAMES :: "(nat \<times> string) list" where
  "LEVEL_NAMES = [(OK, ''OK''), (WARN, ''WARN''), (ERROR, ''ERROR''), (STALE, ''STALE'')]"

record report =
  rp_component :: string
  rp_level :: nat
  rp_message :: string
  rp_hardware_id :: string
  rp_values :: fields

text \<open>A finite number that is not a bool.\<close>

definition num_of :: "json \<Rightarrow> rat option" where
  "num_of v = (case v of JInt i \<Rightarrow> Some (of_int i) | JNum x \<Rightarrow> Some x | _ \<Rightarrow> None)"

definition numeric :: "json \<Rightarrow> bool" where
  "numeric v \<longleftrightarrow> num_of v \<noteq> None"

definition scalar :: "json \<Rightarrow> json" where
  "scalar v = (case v of JNonfinite _ \<Rightarrow> JNull | JList _ \<Rightarrow> JStr (text_of False v) | JObj _ \<Rightarrow> JStr (text_of False v) | _ \<Rightarrow> v)"

definition num_mul :: "json \<Rightarrow> json \<Rightarrow> json" where
  "num_mul a b = (case (a, b) of (JInt i, JInt j) \<Rightarrow> JInt (i * j)
     | _ \<Rightarrow> (case (num_of a, num_of b) of (Some x, Some y) \<Rightarrow> JNum (x * y) | _ \<Rightarrow> JNull))"

definition round_num :: "nat \<Rightarrow> json \<Rightarrow> json" where
  "round_num n v = (case v of JNum x \<Rightarrow> JNum (py_round n x) | _ \<Rightarrow> v)"

definition supply_power :: "fields \<Rightarrow> fields" where
  "supply_power values =
     (if map_of values ''supply.power_w'' \<noteq> None then values
      else let v = get_key values ''supply.voltage_v''; c = get_key values ''supply.current_a''
           in if numeric v \<and> numeric c then upd_key ''supply.power_w'' (round_num 6 (num_mul v c)) values else values)"

definition measurement :: "string \<Rightarrow> bool" where
  "measurement k \<longleftrightarrow> starts_with ''temp.'' k \<and> ends_with ''_c'' k
     \<or> k \<in> {''supply.voltage_v'', ''supply.current_a'', ''supply.power_w''}"

definition mark_unavailable :: "string \<Rightarrow> fields \<Rightarrow> fields" where
  "mark_unavailable key values =
     (if numeric (get_key values key) then values
      else upd_key (''health.metric.'' @ key @ ''.state'') (JStr ''unavailable'') (upd_key key JNull values))"

text \<open>The keys are a Python set: the order in which the missing ones are appended is the implementation's; here
  the expected ones come first.\<close>

definition validate_measurements :: "string list \<Rightarrow> fields \<Rightarrow> fields" where
  "validate_measurements expected values =
     fold mark_unavailable (dedup (expected @ filter measurement (map fst values))) values"

section \<open>Limits\<close>

definition LIMIT_KEYS :: "string list" where
  "LIMIT_KEYS = [''warn_above'', ''error_above'', ''warn_below'', ''error_below'']"

type_synonym limits = "(string \<times> fields) list"

definition DEFAULT_LIMITS :: limits where
  "DEFAULT_LIMITS = [(''disk.free_pct'', [(''warn_below'', JNum 10), (''error_below'', JNum 2)])]"

text \<open>A threshold may be infinite; a comparison with \<open>nan\<close> is false.\<close>

definition above :: "rat \<Rightarrow> json \<Rightarrow> bool" where
  "above x t \<longleftrightarrow> (case t of JNum y \<Rightarrow> x > y | JNonfinite s \<Rightarrow> s = ''-inf'' | _ \<Rightarrow> False)"

definition below :: "rat \<Rightarrow> json \<Rightarrow> bool" where
  "below x t \<longleftrightarrow> (case t of JNum y \<Rightarrow> x < y | JNonfinite s \<Rightarrow> s = ''inf'' | _ \<Rightarrow> False)"

definition BOUNDS :: "(string \<times> nat \<times> (rat \<Rightarrow> json \<Rightarrow> bool)) list" where
  "BOUNDS = [(''error_above'', ERROR, above), (''error_below'', ERROR, below),
             (''warn_above'', WARN, above), (''warn_below'', WARN, below)]"

definition fmt_limit :: "json \<Rightarrow> string" where
  "fmt_limit t = (case t of JNum y \<Rightarrow> fmt_g y | JNonfinite s \<Rightarrow> s | _ \<Rightarrow> [])"

definition limit_message :: "string \<Rightarrow> rat \<Rightarrow> string \<Rightarrow> json \<Rightarrow> string" where
  "limit_message key x bound t =
     key @ '' '' @ fmt_g x @ '' '' @ (if ends_with ''above'' bound then ''>'' else ''<'') @ '' '' @ fmt_limit t"

text \<open>The first crossed bound of a key, in the order of \<open>BOUNDS\<close>: the worst.\<close>

fun first_crossed :: "(string \<times> nat \<times> (rat \<Rightarrow> json \<Rightarrow> bool)) list \<Rightarrow> string \<Rightarrow> rat \<Rightarrow> fields \<Rightarrow> (nat \<times> string) option" where
  "first_crossed [] key x rule = None"
| "first_crossed ((bound, lvl, crossed) # bs) key x rule =
     (if get_key rule bound \<noteq> JNull \<and> crossed x (get_key rule bound)
      then Some (lvl, limit_message key x bound (get_key rule bound))
      else first_crossed bs key x rule)"

definition crossing :: "fields \<Rightarrow> string \<times> fields \<Rightarrow> (nat \<times> string) option" where
  "crossing values kr =
     (case num_of (get_key values (fst kr)) of
        None \<Rightarrow> None
      | Some x \<Rightarrow> first_crossed BOUNDS (fst kr) x (snd kr))"

definition evaluate_limits :: "fields \<Rightarrow> limits \<Rightarrow> nat \<times> string list" where
  "evaluate_limits values limits =
     (let cs = List.map_filter (crossing values) limits in (foldl max OK (map fst cs), map snd cs))"

text \<open>\<open>float(t)\<close> of the bounds that are given, over the defaults.  \<open>Inl\<close>: \<open>float\<close> or \<open>items\<close> raised.\<close>

definition to_float :: "json \<Rightarrow> cfg_error + json" where
  "to_float v = (case v of JBool b \<Rightarrow> Inr (JNum (if b then 1 else 0))
     | JStr s \<Rightarrow> (case float_of_str s of Some x \<Rightarrow> Inr x | None \<Rightarrow> Inl (Value_Error []))
     | JInt i \<Rightarrow> Inr (JNum (of_int i)) | JNum x \<Rightarrow> Inr v | JNonfinite t \<Rightarrow> Inr v | _ \<Rightarrow> Inl Type_Error)"

fun float_rule :: "fields \<Rightarrow> cfg_error + fields" where
  "float_rule [] = Inr []"
| "float_rule ((b, t) # r) =
     (if b \<in> set LIMIT_KEYS \<and> t \<noteq> JNull
      then ebind (to_float t) (\<lambda>x. ebind (float_rule r) (\<lambda>d. Inr ((b, x) # d)))
      else float_rule r)"

definition rule_items :: "json \<Rightarrow> cfg_error + fields" where
  "rule_items v = (if \<not> truthy v then Inr [] else case v of JObj d \<Rightarrow> Inr d | _ \<Rightarrow> Inl Attribute_Error)"

fun overlay_limits :: "limits \<Rightarrow> fields \<Rightarrow> cfg_error + limits" where
  "overlay_limits out [] = Inr out"
| "overlay_limits out ((k, v) # user) =
     ebind (rule_items v) (\<lambda>r. ebind (float_rule r) (\<lambda>d. overlay_limits (upd_key k d out) user))"

definition resolve_limits :: "json \<Rightarrow> cfg_error + limits" where
  "resolve_limits user = ebind (rule_items user) (overlay_limits DEFAULT_LIMITS)"

section \<open>The merge\<close>

record status =
  st_level :: nat
  st_name :: string
  st_message :: string
  st_hardware_id :: string
  st_values :: fields

text \<open>The primary provider of a component owns its observation metadata.\<close>

definition put_value :: "string \<times> json \<Rightarrow> fields \<Rightarrow> fields" where
  "put_value kv values =
     (if starts_with ''health.'' (fst kv) \<and> map_of values (fst kv) \<noteq> None then values
      else upd_key (fst kv) (scalar (snd kv)) values)"

definition merge_values :: "report list \<Rightarrow> fields" where
  "merge_values rs = fold (\<lambda>r values. fold put_value (rp_values r) values) rs []"

text \<open>A level in \<open>(OK, WARN, ERROR)\<close>, with Python's equality between numbers.\<close>

definition known_level :: "json \<Rightarrow> nat option" where
  "known_level v =
     (case num_of (widen v) of Some x \<Rightarrow> if x \<in> {0, 1, 2} then Some (nat \<lfloor>x\<rfloor>) else None | None \<Rightarrow> None)"

definition level_json :: "nat \<Rightarrow> json" where
  "level_json l = JInt (int l)"

definition known_of :: "report \<Rightarrow> json" where
  "known_of r = (if rp_level r \<noteq> STALE then level_json (rp_level r) else get_or (rp_values r) ''health.last_level'' (level_json OK))"

definition messages_at :: "(nat \<Rightarrow> bool) \<Rightarrow> report list \<Rightarrow> string list" where
  "messages_at sel rs = map rp_message (filter (\<lambda>r. rp_message r \<noteq> [] \<and> sel (rp_level r)) rs)"

text \<open>\<open>next((x for x in xs if x), d)\<close>\<close>

definition first_nonempty :: "string list \<Rightarrow> string \<Rightarrow> string" where
  "first_nonempty xs d = (case filter (\<lambda>x. x \<noteq> []) xs of x # _ \<Rightarrow> x | [] \<Rightarrow> d)"

definition level_name :: "nat \<Rightarrow> string" where
  "level_name l = (case map_of LEVEL_NAMES l of Some n \<Rightarrow> n | None \<Rightarrow> [])"

text \<open>The limits raise a level; the level and the messages of a component.\<close>

definition raise_level :: "nat \<Rightarrow> string list \<Rightarrow> nat \<times> string list \<Rightarrow> nat \<times> string list" where
  "raise_level level msgs crossed =
     (if fst crossed > level then (fst crossed, snd crossed @ msgs)
      else if fst crossed = level \<and> snd crossed \<noteq> [] then (level, msgs @ snd crossed)
      else (level, msgs))"

definition gathered :: "limits \<Rightarrow> report list \<Rightarrow> nat \<times> string list" where
  "gathered limits rs =
     (let level = max_default OK (map rp_level rs);
          crossed = evaluate_limits (merge_values rs) limits;
          (level, msgs) = raise_level level (messages_at (\<lambda>l. l = level \<and> l \<noteq> OK) rs) crossed
      in (level, if level = STALE then msgs @ messages_at (\<lambda>l. l \<in> {WARN, ERROR}) rs @ snd crossed else msgs))"

text \<open>A missing provider must not hide another's fault: the worst known level stays with the entry.\<close>

definition worst_known :: "limits \<Rightarrow> report list \<Rightarrow> nat" where
  "worst_known limits rs =
     foldl max (fst (evaluate_limits (merge_values rs) limits)) (List.map_filter known_level (map known_of rs))"

definition merge_component :: "string \<Rightarrow> limits \<Rightarrow> string \<Rightarrow> report list \<Rightarrow> status" where
  "merge_component inst limits cn rs =
     (let values = merge_values rs;
          (level, msgs) = gathered limits rs;
          values = (if level = STALE
             then upd_key ''health.availability'' (JStr ''stale'')
                    (upd_key ''health.last_level'' (level_json (worst_known limits rs)) values)
             else values);
          msgs = (if msgs = [] then [first_nonempty (map rp_message rs) (level_name level)] else msgs)
      in \<lparr>st_level = level, st_name = inst @ '': '' @ cn, st_message = join_with ''; '' (dedup msgs),
          st_hardware_id = first_nonempty (map rp_hardware_id rs) [], st_values = values\<rparr>)"

definition merge :: "report list \<Rightarrow> string \<Rightarrow> limits \<Rightarrow> status list" where
  "merge reports inst limits =
     map (\<lambda>cn. merge_component inst limits cn (filter (\<lambda>r. rp_component r = cn) reports))
       (dedup (map rp_component reports))"

record snapshot =
  sn_instance :: string
  sn_stamp_unix_ns :: int
  sn_level :: nat
  sn_status :: "status list"

definition build_snapshot :: "string \<Rightarrow> int \<Rightarrow> status list \<Rightarrow> snapshot" where
  "build_snapshot inst stamp status =
     \<lparr>sn_instance = inst, sn_stamp_unix_ns = stamp, sn_level = max_default OK (map st_level status), sn_status = status\<rparr>"

section \<open>The window of a session\<close>

datatype stat = Range json json json json    \<comment> \<open>first, last, min, max\<close>
  | Last json

record acc =
  ac_worst_level :: nat
  ac_worst_message :: "string option"
  ac_hardware_id :: string
  ac_values :: "(string \<times> stat) list"

record window =
  wi_samples :: nat
  wi_from_ns :: "int option"
  wi_to_ns :: "int option"
  wi_status :: "(string \<times> acc) list"

definition new_window :: window where
  "new_window = \<lparr>wi_samples = 0, wi_from_ns = None, wi_to_ns = None, wi_status = []\<rparr>"

definition num_val :: "json \<Rightarrow> rat" where
  "num_val v = (case num_of v of Some x \<Rightarrow> x | None \<Rightarrow> 0)"

text \<open>Python's \<open>min(a, b)\<close> and \<open>max(a, b)\<close> keep the first of equals.\<close>

definition py_min :: "json \<Rightarrow> json \<Rightarrow> json" where
  "py_min a b = (if num_val b < num_val a then b else a)"

definition py_max :: "json \<Rightarrow> json \<Rightarrow> json" where
  "py_max a b = (if num_val b > num_val a then b else a)"

definition add_value :: "string \<times> json \<Rightarrow> (string \<times> stat) list \<Rightarrow> (string \<times> stat) list" where
  "add_value kv vs =
     (if numeric (snd kv)
      then upd_key (fst kv)
             (case map_of vs (fst kv) of
                Some (Range f l mn mx) \<Rightarrow> Range f (snd kv) (py_min mn (snd kv)) (py_max mx (snd kv))
              | _ \<Rightarrow> Range (snd kv) (snd kv) (snd kv) (snd kv)) vs
      else if snd kv \<noteq> JNull then upd_key (fst kv) (Last (snd kv)) vs else vs)"

definition new_acc :: "status \<Rightarrow> acc" where
  "new_acc st = \<lparr>ac_worst_level = OK, ac_worst_message = None, ac_hardware_id = st_hardware_id st, ac_values = []\<rparr>"

definition acc_add :: "status \<Rightarrow> acc \<Rightarrow> acc" where
  "acc_add st a =
     (let a = (if ac_worst_message a = None \<or> st_level st > ac_worst_level a
               then a\<lparr>ac_worst_level := st_level st, ac_worst_message := Some (st_message st)\<rparr> else a)
      in a\<lparr>ac_values := fold add_value (st_values st) (ac_values a)\<rparr>)"

definition add_status :: "status \<Rightarrow> (string \<times> acc) list \<Rightarrow> (string \<times> acc) list" where
  "add_status st accs =
     upd_key (st_name st) (acc_add st (case map_of accs (st_name st) of Some a \<Rightarrow> a | None \<Rightarrow> new_acc st)) accs"

definition window_add :: "snapshot \<Rightarrow> window \<Rightarrow> window" where
  "window_add snap w =
     w\<lparr>wi_samples := wi_samples w + 1,
       wi_from_ns := (if wi_from_ns w = None then Some (sn_stamp_unix_ns snap) else wi_from_ns w),
       wi_to_ns := Some (sn_stamp_unix_ns snap),
       wi_status := fold add_status (sn_status snap) (wi_status w)\<rparr>"

section \<open>Limits\<close>

lemma first_crossed_bounds:
  "first_crossed BOUNDS key x rule = 
    (if above x (get_key rule ''error_above'') then Some (ERROR, limit_message key x ''error_above'' (get_key rule ''error_above''))
     else if below x (get_key rule ''error_below'') then Some (ERROR, limit_message key x ''error_below'' (get_key rule ''error_below''))
     else if above x (get_key rule ''warn_above'') then Some (WARN, limit_message key x ''warn_above'' (get_key rule ''warn_above''))
     else if below x (get_key rule ''warn_below'') then Some (WARN, limit_message key x ''warn_below'' (get_key rule ''warn_below''))
     else None)"
  by (auto simp: BOUNDS_def above_def below_def)

text \<open>The abstract reading of one rule.\<close>

definition errs :: "rat \<Rightarrow> fields \<Rightarrow> bool" where
  "errs x rule \<longleftrightarrow> above x (get_key rule ''error_above'') \<or> below x (get_key rule ''error_below'')"

definition warns :: "rat \<Rightarrow> fields \<Rightarrow> bool" where
  "warns x rule \<longleftrightarrow> above x (get_key rule ''warn_above'') \<or> below x (get_key rule ''warn_below'')"

definition severity :: "fields \<Rightarrow> string \<times> fields \<Rightarrow> nat" where
  "severity values kr =
     (case num_of (get_key values (fst kr)) of None \<Rightarrow> OK
      | Some x \<Rightarrow> if errs x (snd kr) then ERROR else if warns x (snd kr) then WARN else OK)"

lemma crossing_severity: "crossing values kr = None \<longleftrightarrow> severity values kr = OK"
  "crossing values kr = Some c \<Longrightarrow> fst c = severity values kr"
  by (auto simp: crossing_def severity_def first_crossed_bounds errs_def warns_def split: option.splits if_splits)

lemma severity_error: "severity values kr = ERROR \<longleftrightarrow> (\<exists>x. num_of (get_key values (fst kr)) = Some x \<and> errs x (snd kr))"
  by (auto simp: severity_def split: option.split)

lemma severity_any: "severity values kr \<noteq> OK \<longleftrightarrow>
    severity values kr = ERROR \<or> (\<exists>x. num_of (get_key values (fst kr)) = Some x \<and> warns x (snd kr))"
  by (auto simp: severity_def split: option.split)

lemma severity_le: "severity values kr \<le> ERROR"
  by (auto simp: severity_def split: option.split)

lemma foldl_max_severity:
  "foldl max a (map fst (List.map_filter (crossing values) limits)) = foldl max a (map (severity values) limits)"
proof (induction limits arbitrary: a)
  case (Cons kr limits)
  show ?case
  proof (cases "crossing values kr")
    case None
    then have "severity values kr = OK" by (simp add: crossing_severity)
    then show ?thesis using Cons None by (simp add: List.map_filter_simps)
  next
    case (Some c)
    then have "fst c = severity values kr" by (rule crossing_severity(2))
    then show ?thesis using Cons[of "max a (fst c)"] Some by (simp add: List.map_filter_simps)
  qed
qed (simp add: List.map_filter_simps)

lemma evaluate_level: "fst (evaluate_limits values limits) = foldl max OK (map (severity values) limits)"
  by (simp add: evaluate_limits_def Let_def foldl_max_severity)

lemma evaluate_ge: "kr \<in> set limits \<Longrightarrow> severity values kr \<le> fst (evaluate_limits values limits)"
  unfolding evaluate_level using foldl_max_ge by (metis imageI list.set_map)

lemma evaluate_in: "\<exists>kr \<in> set limits. fst (evaluate_limits values limits) = severity values kr" 
  if "fst (evaluate_limits values limits) \<noteq> OK"
  using foldl_max_in[of OK "map (severity values) limits"] that unfolding evaluate_level by auto

lemma evaluate_le: "fst (evaluate_limits values limits) \<le> ERROR"
  using evaluate_in severity_le by (metis zero_le)

lemma evaluate_messages:
  "length (snd (evaluate_limits values limits)) = length (filter (\<lambda>kr. severity values kr \<noteq> OK) limits)"
proof -
  have "length (List.map_filter (crossing values) ls) = length (filter (\<lambda>kr. severity values kr \<noteq> OK) ls)" for ls
  proof (induction ls)
    case (Cons kr ls)
    then show ?case by (cases "crossing values kr") (auto simp: List.map_filter_simps crossing_severity(1)[symmetric])
  qed (simp add: List.map_filter_simps)
  then show ?thesis by (simp add: evaluate_limits_def Let_def)
qed

text \<open>limits.  The level is ERROR exactly when some limited, numeric value lies beyond an error bound, else WARN
  exactly when one lies beyond a warning bound, else OK; and each offending key is named once.\<close>

theorem limits_exact:
  "fst (evaluate_limits values limits) =
     (if \<exists>(k, rule) \<in> set limits. \<exists>x. num_of (get_key values k) = Some x \<and>
           (above x (get_key rule ''error_above'') \<or> below x (get_key rule ''error_below'')) then ERROR
      else if \<exists>(k, rule) \<in> set limits. \<exists>x. num_of (get_key values k) = Some x \<and>
           (above x (get_key rule ''warn_above'') \<or> below x (get_key rule ''warn_below'')) then WARN
      else OK)
   \<and> length (snd (evaluate_limits values limits)) = length (filter (\<lambda>kr. severity values kr \<noteq> OK) limits)"
proof -
  let ?l = "fst (evaluate_limits values limits)"
  let ?E = "\<exists>kr \<in> set limits. severity values kr = ERROR" and ?W = "\<exists>kr \<in> set limits. severity values kr \<noteq> OK"
  have E: "(\<exists>(k, rule) \<in> set limits. \<exists>x. num_of (get_key values k) = Some x \<and>
           (above x (get_key rule ''error_above'') \<or> below x (get_key rule ''error_below''))) = ?E"
    by (simp only: severity_error errs_def case_prod_unfold)
  have W: "?W \<longleftrightarrow> ?E \<or> (\<exists>(k, rule) \<in> set limits. \<exists>x. num_of (get_key values k) = Some x \<and>
           (above x (get_key rule ''warn_above'') \<or> below x (get_key rule ''warn_below'')))"
    unfolding severity_any severity_error errs_def warns_def case_prod_unfold by blast
  have l: "?l = (if ?E then ERROR else if ?W then WARN else OK)"
  proof -
    consider "?l = OK" | kr where "kr \<in> set limits" "?l = severity values kr" "?l \<noteq> OK"
      using evaluate_in by blast
    then show ?thesis
    proof cases
      case 1
      have "severity values kr = OK" if k: "kr \<in> set limits" for kr
        using evaluate_ge[OF k] 1 by (metis le_zero_eq)
      then show ?thesis using 1 by force
    next
      case 2
      have "?l = WARN \<or> ?l = ERROR" using 2(3) evaluate_le[of "values" limits] by linarith
      moreover have "?l = ERROR" if ?E using that evaluate_ge evaluate_le[of "values" limits] by (metis le_antisym)
      ultimately show ?thesis using 2 by auto
    qed
  qed
  show ?thesis
  proof
    show "?l = (if \<exists>(k, rule) \<in> set limits. \<exists>x. num_of (get_key values k) = Some x \<and>
           (above x (get_key rule ''error_above'') \<or> below x (get_key rule ''error_below'')) then ERROR
      else if \<exists>(k, rule) \<in> set limits. \<exists>x. num_of (get_key values k) = Some x \<and>
           (above x (get_key rule ''warn_above'') \<or> below x (get_key rule ''warn_below'')) then WARN
      else OK)"
      unfolding E l using W by auto
  qed (rule evaluate_messages)
qed

section \<open>The merge\<close>

definition merge_level :: "limits \<Rightarrow> report list \<Rightarrow> nat" where
  "merge_level limits rs = max (max_default OK (map rp_level rs)) (fst (evaluate_limits (merge_values rs) limits))"

lemma gathered_level: "fst (gathered limits rs) = merge_level limits rs"
  by (auto simp: gathered_def raise_level_def merge_level_def Let_def case_prod_beta max_def)

lemma merge_component_simps [simp]:
  "st_level (merge_component inst limits cn rs) = merge_level limits rs"
  "st_name (merge_component inst limits cn rs) = inst @ '': '' @ cn"
  by (simp_all add: merge_component_def Let_def case_prod_beta gathered_level)

lemma distinct_filter_one: "distinct xs \<Longrightarrow> x \<in> set xs \<Longrightarrow> filter (\<lambda>y. y = x) xs = [x]"
  by (induction xs) (auto simp: filter_empty_conv)

lemma merge_one:
  assumes "r \<in> set reports"
  shows "filter (\<lambda>s. st_name s = inst @ '': '' @ rp_component r) (merge reports inst limits) =
    [merge_component inst limits (rp_component r) (filter (\<lambda>q. rp_component q = rp_component r) reports)]"
proof -
  have "filter (\<lambda>c. c = rp_component r) (dedup (map rp_component reports)) = [rp_component r]"
    by (rule distinct_filter_one) (use assms in auto)
  then show ?thesis by (simp add: merge_def filter_map o_def)
qed

lemma known_fold: "v \<in> set vs \<Longrightarrow> known_level v = Some l \<Longrightarrow> l \<le> foldl max a (List.map_filter known_level vs)"
proof -
  assume "v \<in> set vs" "known_level v = Some l"
  then have "l \<in> set (List.map_filter known_level vs)" by (force simp: List.map_filter_def)
  then show ?thesis using foldl_max_ge by blast
qed

lemma known_level_nat: "l \<le> ERROR \<Longrightarrow> known_level (level_json l) = Some l"
  by (auto simp: known_level_def level_json_def widen_def num_of_def numeral_2_eq_2 le_Suc_eq)

lemma worst_known_ge: "r \<in> set rs \<Longrightarrow> rp_level r \<le> ERROR \<Longrightarrow> rp_level r \<le> worst_known limits rs"
  unfolding worst_known_def
  by (rule known_fold[of "known_of r"]) (auto simp: known_of_def intro!: known_level_nat)

lemma stale_values:
  "merge_level limits rs = STALE \<Longrightarrow>
   map_of (st_values (merge_component inst limits cn rs)) ''health.last_level'' = Some (level_json (worst_known limits rs))"
  by (simp add: merge_component_def Let_def case_prod_beta gathered_level)

lemma gathered_message:
  assumes "r \<in> set rs" "rp_message r \<noteq> []"
    and "rp_level r \<noteq> OK \<and> rp_level r = max_default OK (map rp_level rs)
      \<or> rp_level r \<in> {WARN, ERROR} \<and> merge_level limits rs = STALE"
  shows "rp_message r \<in> set (snd (gathered limits rs))"
proof -
  have in1: "rp_message r \<in> set (messages_at sel rs)" if "sel (rp_level r)" for sel
    using assms(1,2) that by (auto simp: messages_at_def)
  let ?c = "evaluate_limits (merge_values rs) limits" and ?m = "max_default OK (map rp_level rs)"
  let ?g = "raise_level ?m (messages_at (\<lambda>l. l = ?m \<and> l \<noteq> OK) rs) ?c"
  have snd: "snd (gathered limits rs) =
      (if fst (gathered limits rs) = STALE then snd ?g @ messages_at (\<lambda>l. l \<in> {WARN, ERROR}) rs @ snd ?c else snd ?g)"
    by (simp only: gathered_def Let_def case_prod_beta fst_conv snd_conv)
  have own: "rp_message r \<in> set (snd ?g)" if "rp_level r \<noteq> OK \<and> rp_level r = ?m"
  proof -
    have "rp_message r \<in> set (messages_at (\<lambda>l. l = ?m \<and> l \<noteq> OK) rs)" by (rule in1) (use that in simp)
    then show ?thesis unfolding raise_level_def by (simp del: One_nat_def)
  qed
  from assms(3) show ?thesis
  proof
    assume "rp_level r \<noteq> OK \<and> rp_level r = ?m"
    then show ?thesis unfolding snd using own by simp
  next
    assume a: "rp_level r \<in> {WARN, ERROR} \<and> merge_level limits rs = STALE"
    then have "rp_message r \<in> set (messages_at (\<lambda>l. l \<in> {WARN, ERROR}) rs)"
      by (intro in1) (rule conjunct1)
    then show ?thesis unfolding snd gathered_level conjunct2[OF a] if_P[OF refl] set_append by (rule UnI2[OF UnI1])
  qed
qed

lemma component_message:
  assumes "x \<in> set (snd (gathered limits rs))"
  shows "st_message (merge_component inst limits cn rs) = join_with ''; '' (dedup (snd (gathered limits rs)))"
proof -
  have "snd (gathered limits rs) \<noteq> []" using assms by (metis empty_iff empty_set)
  then show ?thesis by (simp only: merge_component_def Let_def case_prod_beta status.simps if_False)
qed


definition stale_reports :: "report list" where
  "stale_reports =
     [\<lparr>rp_component = ''stream'', rp_level = WARN, rp_message = ''2 frame(s) lost'', rp_hardware_id = [], rp_values = [(''fps'', JNum 30)]\<rparr>,
      \<lparr>rp_component = ''stream'', rp_level = STALE, rp_message = ''no data for 6s'', rp_hardware_id = ''cam'', rp_values = []\<rparr>]"


theorem limits_exact_witness:
  "let v = [(''disk.free_pct'', JNum (3 / 2)), (''temp_c'', JInt 70)];
       ls = [(''disk.free_pct'', [(''error_below'', JNum 2)]), (''temp_c'', [(''warn_above'', JNum 65)]), (''rpm'', [(''warn_below'', JNum 1)])]
   in evaluate_limits v ls = (ERROR, [''disk.free_pct 1.5 < 2'', ''temp_c 70 > 65''])
      \<and> (\<exists>(k, rule) \<in> set ls. \<exists>x. num_of (get_key v k) = Some x \<and> (above x (get_key rule ''error_above'') \<or> below x (get_key rule ''error_below'')))"
proof -
  define v where "v = [(''disk.free_pct'', JNum (3 / 2)), (''temp_c'', JInt 70)]"
  define ls where "ls = [(''disk.free_pct'', [(''error_below'', JNum 2)]), (''temp_c'', [(''warn_above'', JNum 65)]), (''rpm'', [(''warn_below'', JNum 1)])]"
  have e: "evaluate_limits v ls = (ERROR, [''disk.free_pct 1.5 < 2'', ''temp_c 70 > 65''])"
    unfolding v_def ls_def by code_simp
  then have "fst (evaluate_limits v ls) = ERROR" by simp
  then have "\<exists>(k, rule) \<in> set ls. \<exists>x. num_of (get_key v k) = Some x \<and> (above x (get_key rule ''error_above'') \<or> below x (get_key rule ''error_below''))"
    using limits_exact[of v ls] by (auto split: if_splits)
  then show ?thesis unfolding v_def[symmetric] ls_def[symmetric] Let_def using e by blast
qed

section \<open>The window\<close>

text \<open>The reference: the rows of one entry, and the values of one key, as lists in the order they came.\<close>

definition rows_of :: "string \<Rightarrow> snapshot list \<Rightarrow> status list" where
  "rows_of name snaps = filter (\<lambda>st. st_name st = name) (concat (map sn_status snaps))"

definition series :: "string \<Rightarrow> (string \<times> json) list \<Rightarrow> json list" where
  "series k kvs = filter (\<lambda>v. v \<noteq> JNull) (map snd (filter (\<lambda>kv. fst kv = k) kvs))"

definition range_of :: "json list \<Rightarrow> stat" where
  "range_of ns = Range (hd ns) (last ns) (foldl py_min (hd ns) (tl ns)) (foldl py_max (hd ns) (tl ns))"

text \<open>A number opens or extends a range, anything else replaces what was kept.\<close>

definition kept :: "json list \<Rightarrow> stat option" where
  "kept vs = (if vs = [] then None
     else if \<not> numeric (last vs) then Some (Last (last vs))
     else Some (range_of (rev (takeWhile numeric (rev vs)))))"

lemma series_snoc: "series k (kvs @ [(k', v)]) = series k kvs @ (if k' = k \<and> v \<noteq> JNull then [v] else [])"
  by (simp add: series_def)

lemma range_snoc: "ns \<noteq> [] \<Longrightarrow> range_of (ns @ [v]) =
    (case range_of ns of Range f l mn mx \<Rightarrow> Range f v (py_min mn v) (py_max mx v) | Last _ \<Rightarrow> range_of [v])"
  by (cases ns) (simp_all add: range_of_def)

lemma kept_snoc:
  "kept (vs @ [v]) = Some (if numeric v
      then (case kept vs of Some (Range f l mn mx) \<Rightarrow> Range f v (py_min mn v) (py_max mx v) | _ \<Rightarrow> Range v v v v) else Last v)"
proof (cases "numeric v")
  case True
  show ?thesis
  proof (cases "vs = [] \<or> \<not> numeric (last vs)")
    case True
    then have "takeWhile numeric (rev vs) = []" by (cases vs rule: rev_cases) auto
    with True \<open>numeric v\<close> show ?thesis by (auto simp: kept_def range_of_def)
  next
    case False
    then have ne: "rev (takeWhile numeric (rev vs)) \<noteq> []" by (cases vs rule: rev_cases) auto
    define ns where "ns = rev (takeWhile numeric (rev vs))"
    have "kept (vs @ [v]) = Some (range_of (ns @ [v]))" using True by (simp add: kept_def ns_def)
    moreover have "kept vs = Some (range_of ns)" using False by (simp add: kept_def ns_def)
    moreover obtain f l mn mx where "range_of ns = Range f l mn mx" by (simp add: range_of_def)
    ultimately show ?thesis using True range_snoc[OF ne, of v] unfolding ns_def[symmetric] by simp
  qed
qed (simp add: kept_def)

lemma fold_add_value: "map_of (fold add_value kvs []) k = kept (series k kvs)"
proof (induction kvs rule: rev_induct)
  case Nil
  then show ?case by (simp add: kept_def series_def)
next
  case (snoc kv kvs)
  obtain k' v where kv: "kv = (k', v)" by (cases kv)
  have null: "\<not> numeric JNull" by (simp add: numeric_def num_of_def)
  show ?case
  proof (cases "v = JNull")
    case True
    then show ?thesis using snoc null by (simp add: kv series_snoc add_value_def)
  next
    case False
    show ?thesis
    proof (cases "k' = k")
      case True
      then show ?thesis using snoc False
        by (simp add: kv series_snoc add_value_def kept_snoc split: option.split stat.split)
    next
      case neq: False
      then show ?thesis using snoc False by (simp add: kv series_snoc add_value_def)
    qed
  qed
qed

definition acc_run :: "status list \<Rightarrow> acc option" where
  "acc_run rows = (case rows of [] \<Rightarrow> None | st # _ \<Rightarrow> Some (fold acc_add rows (new_acc st)))"

lemma acc_run_snoc: "acc_run (rows @ [st]) = Some (acc_add st (case acc_run rows of Some a \<Rightarrow> a | None \<Rightarrow> new_acc st))"
  by (cases rows) (simp_all add: acc_run_def)

lemma fold_add_status: "map_of (fold add_status sts []) name = acc_run (filter (\<lambda>st. st_name st = name) sts)"
proof (induction sts rule: rev_induct)
  case Nil
  then show ?case by (simp add: acc_run_def)
next
  case (snoc st sts)
  then show ?case by (auto simp: add_status_def acc_run_snoc)
qed

lemma window_status: "wi_status (fold window_add snaps w) = fold add_status (concat (map sn_status snaps)) (wi_status w)"
  by (induction snaps arbitrary: w) (simp_all add: window_add_def)

lemma window_samples: "wi_samples (fold window_add snaps w) = wi_samples w + length snaps"
  by (induction snaps arbitrary: w) (simp_all add: window_add_def)

lemma window_span:
  "snaps \<noteq> [] \<Longrightarrow> wi_to_ns (fold window_add snaps w) = Some (sn_stamp_unix_ns (last snaps))"
  "snaps \<noteq> [] \<Longrightarrow> wi_from_ns w = None \<Longrightarrow> wi_from_ns (fold window_add snaps w) = Some (sn_stamp_unix_ns (hd snaps))"
proof -
  show "snaps \<noteq> [] \<Longrightarrow> wi_to_ns (fold window_add snaps w) = Some (sn_stamp_unix_ns (last snaps))"
    by (cases snaps rule: rev_cases) (simp_all add: window_add_def)
  have "wi_from_ns w = Some t \<Longrightarrow> wi_from_ns (fold window_add ss w) = Some t" for t ss w
    by (induction ss arbitrary: w) (simp_all add: window_add_def)
  then show "snaps \<noteq> [] \<Longrightarrow> wi_from_ns w = None \<Longrightarrow> wi_from_ns (fold window_add snaps w) = Some (sn_stamp_unix_ns (hd snaps))"
    by (cases snaps) (simp_all add: window_add_def)
qed

text \<open>The worst row: its level is the greatest, and it is the first at that level.\<close>

lemma acc_worst:
  "rows \<noteq> [] \<Longrightarrow> a = fold acc_add rows (new_acc (hd rows)) \<Longrightarrow>
   ac_hardware_id a = st_hardware_id (hd rows)
   \<and> ac_values a = fold add_value (concat (map st_values rows)) []
   \<and> (\<exists>xs st ys. rows = xs @ st # ys \<and> ac_worst_level a = st_level st \<and> ac_worst_message a = Some (st_message st)
        \<and> (\<forall>x \<in> set xs. st_level x < st_level st) \<and> (\<forall>x \<in> set ys. st_level x \<le> st_level st))"
proof (induction rows arbitrary: a rule: rev_nonempty_induct)
  case (single x)
  then show ?case by (force simp: acc_add_def new_acc_def Let_def)
next
  case (snoc x rows)
  define b where "b = fold acc_add rows (new_acc (hd rows))"
  from snoc.IH[OF b_def] obtain xs st ys where
    i: "rows = xs @ st # ys" "ac_worst_level b = st_level st" "ac_worst_message b = Some (st_message st)"
      "\<forall>x \<in> set xs. st_level x < st_level st" "\<forall>x \<in> set ys. st_level x \<le> st_level st"
    and h: "ac_hardware_id b = st_hardware_id (hd rows)" "ac_values b = fold add_value (concat (map st_values rows)) []" by blast
  have a: "a = acc_add x b" using snoc by (simp add: b_def)
  have hv: "ac_hardware_id a = st_hardware_id (hd (rows @ [x]))"
      "ac_values a = fold add_value (concat (map st_values (rows @ [x]))) []"
    using snoc.hyps h by (simp_all add: a acc_add_def Let_def)
  show ?case
  proof (cases "st_level x > st_level st")
    case True
    then have "\<forall>y \<in> set rows. st_level y < st_level x" using i by fastforce
    moreover have "ac_worst_level a = st_level x" "ac_worst_message a = Some (st_message x)"
      using True i by (simp_all add: a acc_add_def Let_def)
    ultimately show ?thesis using hv by (intro conjI exI[of _ rows] exI[of _ x] exI[of _ "[]"]) auto
  next
    case False
    then have "ac_worst_level a = st_level st" "ac_worst_message a = Some (st_message st)"
      using i by (simp_all add: a acc_add_def Let_def)
    then show ?thesis using hv i False
      by (intro conjI exI[of _ xs] exI[of _ st] exI[of _ "ys @ [x]"]) auto
  qed
qed

lemma foldl_extreme:
  "foldl py_min a xs \<in> insert a (set xs) \<and> (\<forall>x \<in> insert a (set xs). num_val (foldl py_min a xs) \<le> num_val x)"
  "foldl py_max a xs \<in> insert a (set xs) \<and> (\<forall>x \<in> insert a (set xs). num_val x \<le> num_val (foldl py_max a xs))"
proof (induction xs arbitrary: a)
  case (Cons x xs)
  { case 1 show ?case using Cons(1)[of "py_min a x"] by (auto simp: py_min_def split: if_splits) }
  { case 2 show ?case using Cons(2)[of "py_max a x"] by (auto simp: py_max_def split: if_splits) }
qed simp_all

text \<open>What a summary of a list of values says: nothing of none; of values that end in a run of numbers the
  run's first, last, least and greatest; else the last value.\<close>

definition summarises :: "json list \<Rightarrow> stat option \<Rightarrow> bool" where
  "summarises vs s \<longleftrightarrow>
     (let ns = rev (takeWhile numeric (rev vs)) in
      if vs = [] then s = None
      else if ns = [] then s = Some (Last (last vs))
      else (\<exists>mn mx. s = Some (Range (hd ns) (last ns) mn mx) \<and> mn \<in> set ns \<and> mx \<in> set ns
              \<and> (\<forall>x \<in> set ns. num_val mn \<le> num_val x \<and> num_val x \<le> num_val mx)))"

lemma kept_summarises: "summarises vs (kept vs)"
proof -
  define ns where "ns = rev (takeWhile numeric (rev vs))"
  have "\<not> numeric (last vs)" if "vs \<noteq> []" "ns = []" using that by (cases vs rule: rev_cases) (auto simp: ns_def split: if_splits)
  moreover have "numeric (last vs) \<and> vs \<noteq> []" if "ns \<noteq> []" using that by (cases vs rule: rev_cases) (auto simp: ns_def split: if_splits)
  moreover have "set ns = insert (hd ns) (set (tl ns))" if "ns \<noteq> []" using that by (cases ns) auto
  ultimately show ?thesis
    unfolding summarises_def kept_def Let_def ns_def[symmetric]
    using foldl_extreme[of "hd ns" "tl ns"] by (auto simp: range_of_def)
qed

text \<open>the session's summary.  For the snapshots a window saw, it keeps their number and span, per entry the
  level and the message of the first row at the greatest level, and per key the summary of its values.\<close>

theorem window_summarises:
  "let w = fold window_add snaps new_window; rows = rows_of name snaps in
   wi_samples w = length snaps
   \<and> (snaps \<noteq> [] \<longrightarrow> wi_from_ns w = Some (sn_stamp_unix_ns (hd snaps)) \<and> wi_to_ns w = Some (sn_stamp_unix_ns (last snaps)))
   \<and> (rows = [] \<longrightarrow> map_of (wi_status w) name = None)
   \<and> (rows \<noteq> [] \<longrightarrow> (\<exists>a xs st ys. map_of (wi_status w) name = Some a
        \<and> rows = xs @ st # ys \<and> ac_worst_level a = st_level st \<and> ac_worst_message a = Some (st_message st)
        \<and> (\<forall>x \<in> set xs. st_level x < st_level st) \<and> (\<forall>x \<in> set ys. st_level x \<le> st_level st)
        \<and> (\<forall>k. summarises (series k (concat (map st_values rows))) (map_of (ac_values a) k))))"
proof -
  define w where "w = fold window_add snaps new_window"
  define rows where "rows = rows_of name snaps"
  have run: "map_of (wi_status w) name = acc_run rows"
    by (simp add: w_def window_status new_window_def fold_add_status rows_def rows_of_def)
  have span: "snaps \<noteq> [] \<longrightarrow> wi_from_ns w = Some (sn_stamp_unix_ns (hd snaps)) \<and> wi_to_ns w = Some (sn_stamp_unix_ns (last snaps))"
    using window_span[of snaps new_window] by (auto simp: w_def new_window_def)
  have none: "rows = [] \<longrightarrow> map_of (wi_status w) name = None" by (simp add: run acc_run_def)
  have samples: "wi_samples w = length snaps" by (simp add: w_def window_samples new_window_def)
  have some: "\<exists>a xs st ys. map_of (wi_status w) name = Some a
        \<and> rows = xs @ st # ys \<and> ac_worst_level a = st_level st \<and> ac_worst_message a = Some (st_message st)
        \<and> (\<forall>x \<in> set xs. st_level x < st_level st) \<and> (\<forall>x \<in> set ys. st_level x \<le> st_level st)
        \<and> (\<forall>k. summarises (series k (concat (map st_values rows))) (map_of (ac_values a) k))" if ne: "rows \<noteq> []"
  proof -
    obtain a where a: "a = fold acc_add rows (new_acc (hd rows))" by blast
    have "acc_run rows = Some a" using ne by (cases rows) (simp_all add: acc_run_def a)
    moreover have "map_of (ac_values a) k = kept (series k (concat (map st_values rows)))" for k
      using acc_worst[OF ne a] by (simp add: fold_add_value)
    moreover obtain xs st ys where "rows = xs @ st # ys" "ac_worst_level a = st_level st" "ac_worst_message a = Some (st_message st)"
        "\<forall>x \<in> set xs. st_level x < st_level st" "\<forall>x \<in> set ys. st_level x \<le> st_level st"
      using acc_worst[OF ne a] by blast
    ultimately show ?thesis unfolding run by (intro exI[of _ a] exI[of _ xs] exI[of _ st] exI[of _ ys]) (simp add: kept_summarises)
  qed
  show ?thesis unfolding Let_def w_def[symmetric] rows_def[symmetric] using samples span none some by (intro conjI impI) simp_all
qed

definition demo_snap :: "int \<Rightarrow> nat \<Rightarrow> string \<Rightarrow> json \<Rightarrow> snapshot" where
  "demo_snap t level msg v = build_snapshot ''front'' t
     [\<lparr>st_level = level, st_name = ''front: camera'', st_message = msg, st_hardware_id = [], st_values = [(''temp_c'', v)]\<rparr>]"

theorem window_summarises_witness:
  "let snaps = [demo_snap 1 OK ''OK'' (JNum 40), demo_snap 2 WARN ''hot'' (JNum 70), demo_snap 3 WARN ''still hot'' (JNum 66)];
       w = fold window_add snaps new_window
   in wi_samples w = 3 \<and> wi_from_ns w = Some 1 \<and> wi_to_ns w = Some 3
      \<and> (\<exists>a. map_of (wi_status w) ''front: camera'' = Some a \<and> ac_worst_level a = WARN \<and> ac_worst_message a = Some ''hot''
           \<and> map_of (ac_values a) ''temp_c'' = Some (Range (JNum 40) (JNum 66) (JNum 40) (JNum 70)))"
proof -
  define snaps where "snaps = [demo_snap 1 OK ''OK'' (JNum 40), demo_snap 2 WARN ''hot'' (JNum 70), demo_snap 3 WARN ''still hot'' (JNum 66)]"
  define w where "w = fold window_add snaps new_window"
  have span: "wi_samples w = 3 \<and> wi_from_ns w = Some 1 \<and> wi_to_ns w = Some 3"
    using window_summarises[of snaps "''front: camera''"]
    unfolding Let_def w_def[symmetric] by (simp add: snaps_def demo_snap_def build_snapshot_def)
  have "(case map_of (wi_status w) ''front: camera'' of None \<Rightarrow> False
     | Some a \<Rightarrow> ac_worst_level a = WARN \<and> ac_worst_message a = Some ''hot''
           \<and> map_of (ac_values a) ''temp_c'' = Some (Range (JNum 40) (JNum 66) (JNum 40) (JNum 70))) = True"
    unfolding w_def snaps_def by code_simp
  then show ?thesis unfolding Let_def snaps_def[symmetric] w_def[symmetric] using span
    by (auto split: option.splits)
qed

section \<open>Configured limits\<close>

lemma to_float_limit: "limit_ok b t \<Longrightarrow> to_float t = Inr t"
  by (auto simp: limit_ok_def to_float_def split: json.splits)

lemma float_rule_limits: "list_all (\<lambda>(b, t). limit_ok b t) r \<Longrightarrow> float_rule r = Inr r"
proof (induction r rule: float_rule.induct)
  case (2 b t r)
  then show ?case using to_float_limit[of b t]
    by (auto simp: limit_ok_def LIMIT_KEYS_def LIMIT_BOUNDS_def)
qed simp

definition rules_ok :: "limits \<Rightarrow> bool" where
  "rules_ok ls \<longleftrightarrow> (\<forall>(k, rule) \<in> set ls. list_all (\<lambda>(b, t). limit_ok b t) rule)"

lemma upd_key_set: "set (upd_key k v d) \<subseteq> insert (k, v) (set d)"
  by (induction k v d rule: upd_key.induct) auto

lemma overlay_ok:
  "limits_ok user \<Longrightarrow> rules_ok out \<Longrightarrow>
   \<exists>ls. overlay_limits out user = Inr ls \<and> rules_ok ls \<and> fst ` set ls = fst ` set out \<union> fst ` set user"
proof (induction out user rule: overlay_limits.induct)
  case (2 out k v user)
  obtain r where r: "v = JObj r" "r \<noteq> []" "list_all (\<lambda>(b, t). limit_ok b t) r"
    using 2(2) by (auto simp: limits_ok_def split: json.splits)
  have i: "rule_items v = Inr r" "float_rule r = Inr r" using r by (simp_all add: rule_items_def float_rule_limits)
  have "rules_ok (upd_key k r out)" using 2(3) r(3) upd_key_set[of k r out] unfolding rules_ok_def by blast
  moreover have "limits_ok user" using 2(2) by (simp add: limits_ok_def)
  ultimately obtain ls where "overlay_limits (upd_key k r out) user = Inr ls" "rules_ok ls"
      "fst ` set ls = fst ` set (upd_key k r out) \<union> fst ` set user"
    using 2(1) by blast
  then show ?case using i by auto
qed simp

text \<open>The limits of an accepted configuration load: the monitor's constructor never raises, every rule has only
  known bounds with numeric thresholds, and the limited keys are the configured ones and the default.\<close>

theorem configured_limits_load:
  assumes "parse_config doc = Inr cfg"
  shows "\<exists>user ls. get_key (ac_health cfg) ''limits'' = JObj user \<and> resolve_limits (JObj user) = Inr ls
    \<and> rules_ok ls \<and> fst ` set ls = insert ''disk.free_pct'' (fst ` set user)"
proof -
  obtain user where u: "get_key (ac_health cfg) ''limits'' = JObj user" "limits_ok user"
    using parse_config_ok[OF assms] by (auto simp: config_ok_def health_ok_def split: json.splits)
  have "rules_ok DEFAULT_LIMITS" by (simp add: rules_ok_def DEFAULT_LIMITS_def limit_ok_def LIMIT_BOUNDS_def)
  from overlay_ok[OF u(2) this] show ?thesis using u(1)
    by (cases "user = []") (auto simp: resolve_limits_def rule_items_def DEFAULT_LIMITS_def)
qed

end
