(* ===== verification/Health_Monitor.thy ===== *)
theory Health_Monitor
  imports Health
begin

text \<open>
  \<open>core-driver/cam_driver/health.py\<close>, the moving parts: the pipeline provider and the monitor with its polling
  thread.  The clocks, the providers' answers, the disk and the stop event are arguments; the health file is its
  content, the observers are the list of snapshots they were given.  The monitor's operations are the pieces
  between which the stopping thread can run; \<open>monitor_run\<close> interleaves them.
\<close>

section \<open>The pipeline provider\<close>

definition LOSS_HOLD_S :: rat where "LOSS_HOLD_S = 10"

record pipeline_provider =
  pp_output_dir :: string
  pp_stall_after_s :: rat
  pp_loss_hold_s :: rat
  pp_prev :: "(rat \<times> int) option"
  pp_last_frame_t :: "rat option"
  pp_prev_loss :: "(int \<times> int \<times> int) option"
  pp_last_loss_t :: "rat option"
  pp_lost_recent :: int

definition new_pipeline_provider :: "string \<Rightarrow> rat \<Rightarrow> pipeline_provider" where
  "new_pipeline_provider output_dir stall_after_s =
     \<lparr>pp_output_dir = output_dir, pp_stall_after_s = stall_after_s, pp_loss_hold_s = LOSS_HOLD_S, pp_prev = None,
      pp_last_frame_t = None, pp_prev_loss = None, pp_last_loss_t = None, pp_lost_recent = 0\<rparr>"

text \<open>What the provider's callables return.\<close>

record provider_env =
  pv_frame_rate :: "rat option"
  pv_reconnecting :: bool
  pv_playback :: "string option"
  pv_ts_source :: string

definition count_of :: "fields \<Rightarrow> string \<Rightarrow> int" where
  "count_of h k = (case get_or h k (JInt 0) of JInt i \<Rightarrow> i | _ \<Rightarrow> 0)"

definition COUNTERS :: "string list" where
  "COUNTERS = [''frames'', ''source_gaps'', ''frames_missing'', ''enqueue_failures'', ''publish_drops'', ''pts_rebases'']"

definition copy_keys :: "string list \<Rightarrow> fields \<Rightarrow> fields \<Rightarrow> fields" where
  "copy_keys ks h values = fold (\<lambda>k vs. if map_of h k \<noteq> None then upd_key k (get_key h k) vs else vs) ks values"

definition stream_values :: "provider_env \<Rightarrow> rat option \<Rightarrow> rat \<Rightarrow> fields \<Rightarrow> fields" where
  "stream_values e delivered age h =
     (let fps = (case pv_frame_rate e of Some x \<Rightarrow> x | None \<Rightarrow> 0);
          vs = [(''fps.expected'', if fps \<noteq> 0 then JNum (py_round 3 fps) else JNull)]
                 @ (case delivered of Some x \<Rightarrow> [(''fps.delivered'', JNum x)] | None \<Rightarrow> [])
                 @ [(''frame_age_s'', JNum (py_round 2 age))];
          vs = upd_key ''reconnecting'' (JBool (pv_reconnecting e)) (copy_keys COUNTERS h vs);
          vs = (if pv_ts_source e \<noteq> [] then upd_key ''timestamp.source'' (JStr (pv_ts_source e)) vs else vs)
      in case pv_playback e of Some s \<Rightarrow> upd_key ''playback.state'' (JStr s) vs | None \<Rightarrow> vs)"

definition note_loss :: "rat \<Rightarrow> fields \<Rightarrow> pipeline_provider \<Rightarrow> pipeline_provider" where
  "note_loss now h p =
     (let loss = (count_of h ''source_gaps'', count_of h ''frames_missing'', count_of h ''enqueue_failures'');
          p = (case pp_prev_loss p of
                 Some (g, m, q) \<Rightarrow>
                   if loss \<noteq> (g, m, q)
                   then let lost = (count_of h ''frames_missing'' - m) + (count_of h ''enqueue_failures'' - q);
                            held = (case pp_last_loss_t p of None \<Rightarrow> False | Some t \<Rightarrow> \<not> now - t > pp_loss_hold_s p)
                        in p\<lparr>pp_lost_recent := (if held then pp_lost_recent p else 0) + max lost 1, pp_last_loss_t := Some now\<rparr>
                   else p
               | None \<Rightarrow> p)
      in p\<lparr>pp_prev_loss := Some loss\<rparr>)"

definition note_frames :: "rat \<Rightarrow> int \<Rightarrow> pipeline_provider \<Rightarrow> pipeline_provider" where
  "note_frames now frames p =
     (let moved = pp_last_frame_t p = None \<or> (case pp_prev p of Some (_, f) \<Rightarrow> frames > f | None \<Rightarrow> False)
      in p\<lparr>pp_last_frame_t := (if moved then Some now else pp_last_frame_t p), pp_prev := Some (now, frames)\<rparr>)"

definition stream_verdict :: "provider_env \<Rightarrow> rat \<Rightarrow> rat \<Rightarrow> int \<Rightarrow> rat option \<Rightarrow> pipeline_provider \<Rightarrow> nat \<times> string" where
  "stream_verdict e now age frames delivered p =
     (let fps = (case pv_frame_rate e of Some x \<Rightarrow> x | None \<Rightarrow> 0);
          stall_after = (if fps > 0 then max (pp_stall_after_s p) (3 / fps) else pp_stall_after_s p);
          lossy = (case pp_last_loss_t p of Some t \<Rightarrow> now - t \<le> pp_loss_hold_s p | None \<Rightarrow> False)
      in if pv_playback e \<notin> {None, Some ''playing''}
         then (OK, ''playback '' @ (case pv_playback e of Some s \<Rightarrow> s | None \<Rightarrow> []))
         else if pv_reconnecting e then (ERROR, ''source disconnected; reconnecting'')
         else if age > stall_after
         then (ERROR, (if frames = 0 then ''no frames yet'' else ''no frames'') @ '' for '' @ fmt_f0 age @ ''s'')
         else if lossy
         then (WARN, str_int (pp_lost_recent p) @ '' frame(s) lost in the last '' @ fmt_f0 (pp_loss_hold_s p) @ ''s'')
         else (OK, case delivered of Some x \<Rightarrow> fmt_g x @ '' fps'' | None \<Rightarrow> ''starting''))"

definition stream_report :: "provider_env \<Rightarrow> rat \<Rightarrow> fields \<Rightarrow> pipeline_provider \<Rightarrow> report \<times> pipeline_provider" where
  "stream_report e now h p =
     (let frames = count_of h ''frames'';
          delivered = (case pp_prev p of
             Some (t, f) \<Rightarrow> if now > t then Some (py_round 2 (of_int (frames - f) / (now - t))) else None | None \<Rightarrow> None);
          p = note_frames now frames p;
          age = now - (case pp_last_frame_t p of Some t \<Rightarrow> t | None \<Rightarrow> now);
          p = note_loss now h p;
          (level, msg) = stream_verdict e now age frames delivered p
      in (\<lparr>rp_component = ''stream'', rp_level = level, rp_message = msg, rp_hardware_id = [],
           rp_values = stream_values e delivered age h\<rparr>, p))"

text \<open>The file system under the recordings: the nearest existing ancestor, then \<open>statvfs\<close> as
  \<open>(f_bavail, f_frsize, f_blocks)\<close>.\<close>

record disk =
  dk_exists :: "string \<Rightarrow> bool"
  dk_statvfs :: "string \<Rightarrow> (nat \<times> nat \<times> nat) option"

lemma rev_dropWhile_prefix: "\<exists>t. xs = rev (dropWhile P (rev xs)) @ t"
proof -
  have "rev (takeWhile P (rev xs) @ dropWhile P (rev xs)) = xs" by simp
  then show ?thesis unfolding rev_append by metis
qed

lemma prefix_rstrip: "\<exists>t. p = rstrip_slash p @ t"
  unfolding rstrip_slash_def by (rule rev_dropWhile_prefix)

lemma prefix_dirname: "\<exists>t. p = dirname p @ t"
proof -
  define h where "h = rev (dropWhile (\<lambda>c. c \<noteq> CHR ''/'') (rev p))"
  obtain t where t: "p = h @ t" unfolding h_def using rev_dropWhile_prefix by blast
  obtain u where u: "h = rstrip_slash h @ u" using prefix_rstrip by blast
  have "dirname p = (if rstrip_slash h = [] then h else rstrip_slash h)" by (simp add: dirname_def h_def)
  then show ?thesis using t u by (metis append.assoc)
qed

lemma shorter_parent: "dirname (rstrip_slash p) \<noteq> p \<Longrightarrow> length (dirname (rstrip_slash p)) < length p"
proof -
  assume ne: "dirname (rstrip_slash p) \<noteq> p"
  obtain t u where "p = rstrip_slash p @ t" "rstrip_slash p = dirname (rstrip_slash p) @ u"
    using prefix_rstrip prefix_dirname by blast
  then have "p = dirname (rstrip_slash p) @ (u @ t)" by (metis append.assoc)
  with ne show ?thesis by (metis append_Nil2 length_append length_greater_0_conv less_add_same_cancel1)
qed

function disk_anchor :: "(string \<Rightarrow> bool) \<Rightarrow> string \<Rightarrow> string" where
  "disk_anchor exists p =
     (if p = [] \<or> exists p then p
      else let parent = dirname (rstrip_slash p) in if parent = p then p else disk_anchor exists parent)"
  by pat_completeness auto
termination by (relation "measure (\<lambda>(_, p). length p)") (auto intro: shorter_parent)

declare disk_anchor.simps [simp del]

definition disk_values :: "disk \<Rightarrow> string \<Rightarrow> fields" where
  "disk_values d path =
     (let p = disk_anchor (dk_exists d) path in
      case dk_statvfs d (if p = [] then ''.'' else p) of
        None \<Rightarrow> []
      | Some (bavail, frsize, blocks) \<Rightarrow>
          if blocks = 0 then []
          else [(''disk.free_gb'', JNum (py_round 2 (of_nat (bavail * frsize) / 1000000000))),
                (''disk.free_pct'', JNum (py_round 1 (100 * of_nat bavail / of_nat blocks)))])"

definition recording_report :: "disk \<Rightarrow> fields \<Rightarrow> pipeline_provider \<Rightarrow> report" where
  "recording_report dk d p =
     (let enabled = truthy (get_key d ''recording_enabled'');
          state = get_or d ''state'' (JStr []);
          vs = [(''state'', state), (''enabled'', JBool enabled)];
          r = (\<lambda>level msg vs. \<lparr>rp_component = ''recording'', rp_level = level, rp_message = msg, rp_hardware_id = [], rp_values = vs\<rparr>)
      in if \<not> enabled then r OK ''disabled'' vs
         else let rec = (case get_key d ''recording'' of JObj rec \<Rightarrow> rec | _ \<Rightarrow> []);
                  vs = (if rec \<noteq> [] then vs @ [(''frames'', get_key rec ''frames''), (''segments'', get_key rec ''segments''),
                                                (''encoder'', get_key rec ''encoder'')] else vs);
                  vs = merge_dict vs (disk_values dk (str_or (get_key rec ''output_dir'') (pp_output_dir p)))
              in if truthy (get_key rec ''error'') then r ERROR (''session error: '' @ text_of False (get_key rec ''error'')) vs
                 else if truthy (get_key d ''last_error'') then r WARN (text_of False (get_key d ''last_error'')) vs
                 else r OK (if state = JStr ''active'' then ''recording'' else text_of False state) vs)"

definition pipeline_poll :: "provider_env \<Rightarrow> disk \<Rightarrow> rat \<Rightarrow> fields \<Rightarrow> pipeline_provider \<Rightarrow> report list \<times> pipeline_provider" where
  "pipeline_poll e dk now d p =
     (let h = (case get_key d ''health'' of JObj h \<Rightarrow> h | _ \<Rightarrow> []);
          (s, p) = stream_report e now h p
      in ([s, recording_report dk d p], p))"

section \<open>The monitor\<close>

datatype answer = Reported "report list"
  | Raised bool string        \<comment> \<open>was it \<open>ObservationUnavailable\<close>, and its text\<close>

record provider =
  pr_name :: string
  pr_components :: "string list"

record monitor =
  mo_instance :: string
  mo_limits :: limits
  mo_interval_s :: rat
  mo_stale_after_s :: rat
  mo_file_path :: string
  mo_publisher_id :: string
  mo_latest :: "snapshot option"
  mo_latest_at :: rat
  mo_last_ok :: "(string \<times> rat) list"
  mo_last_reports :: "(string \<times> report list) list"
  mo_started_t :: "rat option"
  mo_levels :: "(string \<times> nat) list"
  mo_news :: "(string \<times> nat option \<times> nat) list"    \<comment> \<open>the level changes logged\<close>
  mo_windows :: "(nat \<times> window) list"
  mo_next_window :: nat
  mo_stop :: bool
  mo_sequence :: nat
  mo_sample_ids :: "(string \<times> string) list"
  mo_cleaned :: bool
  mo_closed :: nat                                       \<comment> \<open>how often the providers were closed\<close>
  mo_file :: "snapshot option"
  mo_observed :: "snapshot list"

definition new_monitor :: "string \<Rightarrow> limits \<Rightarrow> rat \<Rightarrow> rat \<Rightarrow> string \<Rightarrow> string \<Rightarrow> snapshot option \<Rightarrow> monitor" where
  "new_monitor inst limits interval stale_after file_path publisher_id left_over =
     \<lparr>mo_instance = inst, mo_limits = limits, mo_interval_s = interval, mo_stale_after_s = stale_after,
      mo_file_path = file_path, mo_publisher_id = publisher_id, mo_latest = None, mo_latest_at = 0, mo_last_ok = [],
      mo_last_reports = [], mo_started_t = None, mo_levels = [], mo_news = [], mo_windows = [], mo_next_window = 0,
      mo_stop = False, mo_sequence = 0, mo_sample_ids = [], mo_cleaned = False, mo_closed = 0, mo_file = left_over,
      mo_observed = []\<rparr>"

definition set_values :: "(string \<times> json) list \<Rightarrow> report \<Rightarrow> report" where
  "set_values kvs r = r\<lparr>rp_values := merge_dict (rp_values r) kvs\<rparr>"

text \<open>\<open>max(r.level, evaluate_limits(r.values, limits)[0])\<close>\<close>

definition own_level :: "limits \<Rightarrow> report \<Rightarrow> json" where
  "own_level limits r = level_json (max (rp_level r) (fst (evaluate_limits (rp_values r) limits)))"

definition no_data :: "rat \<Rightarrow> string \<Rightarrow> string" where
  "no_data silent e = ''no data for '' @ fmt_f0 silent @ ''s: '' @ e"

definition silent_report :: "limits \<Rightarrow> bool \<Rightarrow> rat \<Rightarrow> string \<Rightarrow> report \<Rightarrow> report" where
  "silent_report limits stale silent e r =
     (set_values [(''health.error'', JStr e), (''health.last_level'', own_level limits r)] r)
       \<lparr>rp_level := (if stale then STALE else rp_level r), rp_message := (if stale then no_data silent e else rp_message r)\<rparr>"

definition missing_report :: "rat \<Rightarrow> string \<Rightarrow> string \<Rightarrow> report" where
  "missing_report silent e c =
     \<lparr>rp_component = c, rp_level = STALE, rp_message = no_data silent e, rp_hardware_id = [], rp_values = [(''health.error'', JStr e)]\<rparr>"

text \<open>The reports a provider's answer stands for, their age and availability.\<close>

definition heard :: "provider \<Rightarrow> answer \<Rightarrow> rat \<Rightarrow> monitor \<Rightarrow> (report list \<times> rat \<times> string) \<times> monitor" where
  "heard pv a now mo =
     (case a of
        Reported rs \<Rightarrow>
          ((rs, 0, ''current''),
           mo\<lparr>mo_last_ok := upd_key (pr_name pv) now (mo_last_ok mo),
              mo_last_reports := upd_key (pr_name pv) rs (mo_last_reports mo),
              mo_sample_ids := upd_key (pr_name pv)
                (mo_publisher_id mo @ '':'' @ pr_name pv @ '':'' @ str_nat (mo_sequence mo)) (mo_sample_ids mo)\<rparr>)
      | Raised unavailable e \<Rightarrow>
          let silent = now - (case map_of (mo_last_ok mo) (pr_name pv) of Some t \<Rightarrow> t
                              | None \<Rightarrow> (case mo_started_t mo of Some t \<Rightarrow> t | None \<Rightarrow> now));
              previous = (case map_of (mo_last_reports mo) (pr_name pv) of Some rs \<Rightarrow> rs | None \<Rightarrow> []);
              stale = unavailable \<or> silent \<ge> mo_stale_after_s mo \<or> previous = [];
              rs = (if previous = [] then map (missing_report silent e) (pr_components pv)
                    else map (silent_report (mo_limits mo) stale silent e) previous)
          in ((rs, silent, if stale then ''stale'' else ''retrying''), mo))"

definition stamped :: "monitor \<Rightarrow> string \<Rightarrow> rat \<Rightarrow> string \<Rightarrow> report \<Rightarrow> report" where
  "stamped mo name age availability r =
     set_values
       [(''health.publisher_id'', JStr (mo_publisher_id mo)),
        (''health.sequence'', JInt (int (mo_sequence mo))),
        (''health.sample_id'', JStr (case map_of (mo_sample_ids mo) name of Some s \<Rightarrow> s | None \<Rightarrow> [])),
        (''health.sample_age_s'', JNum (py_round 3 age)),
        (''health.stale_after_s'', JNum (mo_stale_after_s mo)),
        (''health.publish_interval_s'', JNum (mo_interval_s mo)),
        (''health.availability'', JStr (if rp_level r \<noteq> STALE then availability else ''stale''))] r"

text \<open>One round over the providers: \<open>None\<close> when the stop event was seen before one of them.  Each entry holds
  the stop event as read, the provider's answer and the clock after it.\<close>

fun collect :: "(provider \<times> bool \<times> answer \<times> rat) list \<Rightarrow> monitor \<Rightarrow> (report \<times> rat) list option \<times> monitor" where
  "collect [] mo = (Some [], mo)"
| "collect ((pv, stopping, a, now) # ps) mo =
     (if stopping then (None, mo)
      else let ((rs, age, availability), mo) = heard pv a now mo;
               out = map (\<lambda>r. (stamped mo (pr_name pv) age availability r, now)) rs;
               (rest, mo) = collect ps mo
           in (map_option ((@) out) rest, mo))"

definition age_of :: "fields \<Rightarrow> rat" where
  "age_of vs = (case num_of (get_or vs ''health.sample_age_s'' (JInt 0)) of Some x \<Rightarrow> x | None \<Rightarrow> 0)"

definition age_report :: "limits \<Rightarrow> rat \<Rightarrow> rat \<Rightarrow> report \<times> rat \<Rightarrow> report" where
  "age_report limits stale_after published_at ra =
     (let (r, at_t) = ra;
          age = age_of (rp_values r) + max 0 (published_at - at_t);
          r = set_values [(''health.sample_age_s'', JNum (py_round 3 age))] r
      in if age \<ge> stale_after
         then (set_values ((if rp_level r \<noteq> STALE then [(''health.last_level'', own_level limits r)] else [])
                           @ [(''health.availability'', JStr ''stale'')]) r)\<lparr>rp_level := STALE\<rparr>
         else r)"

record poll_env =
  pe_now :: rat
  pe_answers :: "(provider \<times> bool \<times> answer \<times> rat) list"
  pe_published_at :: rat
  pe_wall_ns :: int

definition begin_poll :: "rat \<Rightarrow> monitor \<Rightarrow> monitor" where
  "begin_poll now mo =
     mo\<lparr>mo_started_t := (if mo_started_t mo = None then Some now else mo_started_t mo), mo_sequence := mo_sequence mo + 1\<rparr>"

definition assemble :: "poll_env \<Rightarrow> monitor \<Rightarrow> (report \<times> rat) list \<Rightarrow> snapshot" where
  "assemble e mo ras =
     build_snapshot (mo_instance mo) (pe_wall_ns e)
       (merge (map (age_report (mo_limits mo) (mo_stale_after_s mo) (pe_published_at e)) ras) (mo_instance mo) (mo_limits mo))"

definition gather :: "poll_env \<Rightarrow> monitor \<Rightarrow> snapshot option \<times> monitor" where
  "gather e mo = (case collect (pe_answers e) (begin_poll (pe_now e) mo) of (ras, mo) \<Rightarrow> (map_option (assemble e mo) ras, mo))"

text \<open>Under the lock: a poll that ends after the stop is discarded.\<close>

definition publish :: "rat \<Rightarrow> snapshot \<Rightarrow> monitor \<Rightarrow> bool \<times> monitor" where
  "publish at_t snap mo =
     (if mo_stop mo then (False, mo)
      else (True, mo\<lparr>mo_latest := Some snap, mo_latest_at := at_t,
                     mo_windows := map (\<lambda>(i, w). (i, window_add snap w)) (mo_windows mo)\<rparr>))"

definition log_change :: "status \<Rightarrow> monitor \<Rightarrow> monitor" where
  "log_change st mo =
     (let prev = map_of (mo_levels mo) (st_name st); lvl = st_level st in
      if prev = Some lvl then mo
      else let mo = mo\<lparr>mo_levels := upd_key (st_name st) lvl (mo_levels mo)\<rparr>
           in if prev = None \<and> lvl = OK then mo else mo\<lparr>mo_news := mo_news mo @ [(st_name st, prev, lvl)]\<rparr>)"

definition log_changes :: "snapshot \<Rightarrow> monitor \<Rightarrow> monitor" where
  "log_changes snap mo = fold log_change (sn_status snap) mo"

definition remove_file :: "monitor \<Rightarrow> monitor" where
  "remove_file mo = (if mo_file_path mo \<noteq> [] then mo\<lparr>mo_file := None\<rparr> else mo)"

text \<open>\<open>_write_file\<close>: its check, the write, and what follows the write.\<close>

definition wants_file :: "monitor \<Rightarrow> bool" where
  "wants_file mo \<longleftrightarrow> mo_file_path mo \<noteq> [] \<and> \<not> mo_stop mo"

definition write_json :: "bool \<Rightarrow> snapshot \<Rightarrow> monitor \<Rightarrow> monitor" where
  "write_json ok snap mo = (if ok then mo\<lparr>mo_file := Some snap\<rparr> else mo)"

definition after_write :: "monitor \<Rightarrow> monitor" where
  "after_write mo = (if mo_stop mo then remove_file mo else mo)"

definition write_file :: "bool \<Rightarrow> snapshot \<Rightarrow> monitor \<Rightarrow> monitor" where
  "write_file ok snap mo = (if wants_file mo then (if ok then after_write (write_json True snap mo) else mo) else mo)"

definition observe :: "snapshot \<Rightarrow> monitor \<Rightarrow> monitor" where
  "observe snap mo = (if mo_stop mo then mo else mo\<lparr>mo_observed := mo_observed mo @ [snap]\<rparr>)"

text \<open>A whole poll, undisturbed.\<close>

definition poll_once :: "poll_env \<Rightarrow> bool \<Rightarrow> monitor \<Rightarrow> snapshot option \<times> monitor" where
  "poll_once e write_ok mo =
     (case gather e mo of
        (None, mo) \<Rightarrow> (None, mo)
      | (Some snap, mo) \<Rightarrow>
          (case publish (pe_published_at e) snap mo of
             (False, mo) \<Rightarrow> (None, mo)
           | (True, mo) \<Rightarrow> (Some snap, observe snap (write_file write_ok snap (log_changes snap mo)))))"

text \<open>The last publication, aged by our own clock.\<close>

definition age_row :: "rat \<Rightarrow> rat \<Rightarrow> status \<Rightarrow> status" where
  "age_row stale_after elapsed row =
     (let age = py_round 3 (age_of (st_values row) + elapsed);
          vs = upd_key ''health.sample_age_s'' (JNum age) (st_values row)
      in if age \<ge> stale_after
         then row\<lparr>st_level := STALE,
                  st_values := upd_key ''health.availability'' (JStr ''stale'')
                    (if st_level row \<noteq> STALE then upd_key ''health.last_level'' (level_json (st_level row)) vs else vs)\<rparr>
         else row\<lparr>st_values := vs\<rparr>)"

definition aged_latest :: "rat \<Rightarrow> monitor \<Rightarrow> snapshot option" where
  "aged_latest now mo =
     map_option (\<lambda>snap. let rows = map (age_row (mo_stale_after_s mo) (max 0 (now - mo_latest_at mo))) (sn_status snap)
                        in snap\<lparr>sn_status := rows, sn_level := max_default OK (map st_level rows)\<rparr>) (mo_latest mo)"

definition open_window :: "rat \<Rightarrow> monitor \<Rightarrow> nat \<times> monitor" where
  "open_window now mo =
     (let w = (case aged_latest now mo of Some snap \<Rightarrow> window_add snap new_window | None \<Rightarrow> new_window); i = mo_next_window mo
      in (i, mo\<lparr>mo_windows := mo_windows mo @ [(i, w)], mo_next_window := i + 1\<rparr>))"

text \<open>The window's last state is the summary; a window that was closed keeps it.\<close>

definition close_window :: "nat option \<Rightarrow> monitor \<Rightarrow> window option \<times> monitor" where
  "close_window w mo =
     (case w of None \<Rightarrow> (None, mo)
      | Some i \<Rightarrow> (map_of (mo_windows mo) i, mo\<lparr>mo_windows := filter (\<lambda>(j, _). j \<noteq> i) (mo_windows mo)\<rparr>))"

definition cleanup :: "monitor \<Rightarrow> monitor" where
  "cleanup mo = (if mo_cleaned mo then mo else remove_file (mo\<lparr>mo_cleaned := True, mo_closed := mo_closed mo + 1\<rparr>))"

definition start_monitor :: "monitor \<Rightarrow> monitor" where
  "start_monitor mo = mo\<lparr>mo_cleaned := False, mo_stop := False\<rparr>"

text \<open>\<open>stop\<close>: the event, then, when it waits and the join came back, the rest; \<open>alive\<close> is the worker's state after
  the join's budget.\<close>

definition set_stop :: "monitor \<Rightarrow> monitor" where
  "set_stop mo = mo\<lparr>mo_stop := True\<rparr>"

definition stop_finish :: "bool \<Rightarrow> monitor \<Rightarrow> monitor" where
  "stop_finish alive mo = remove_file (if alive then mo else cleanup mo)"

section \<open>The threads\<close>

datatype worker = Absent | Looping | Gathered rat snapshot | Publishing snapshot | Writing snapshot | Written snapshot
  | Observing snapshot | Leaving

definition alive :: "worker \<Rightarrow> bool" where
  "alive w \<longleftrightarrow> w \<noteq> Absent"

text \<open>The worker's steps, and those of the threads that open and close windows and stop the monitor.\<close>

inductive monitor_step :: "worker \<times> monitor \<Rightarrow> worker \<times> monitor \<Rightarrow> bool" where
  Gather: "\<not> mo_stop mo \<Longrightarrow> gather e mo = (Some snap, mo') \<Longrightarrow>
    monitor_step (Looping, mo) (Gathered (pe_published_at e) snap, mo')"
| Give_up: "gather e mo = (None, mo') \<Longrightarrow> monitor_step (Looping, mo) (Looping, mo')"
| Publish: "publish t snap mo = (True, mo') \<Longrightarrow> monitor_step (Gathered t snap, mo) (Publishing snap, log_changes snap mo')"
| Discard: "publish t snap mo = (False, mo') \<Longrightarrow> monitor_step (Gathered t snap, mo) (Looping, mo')"
| Check_write: "wants_file mo \<Longrightarrow> monitor_step (Publishing snap, mo) (Writing snap, mo)"
| No_write: "\<not> wants_file mo \<Longrightarrow> monitor_step (Publishing snap, mo) (Observing snap, mo)"
| Write: "monitor_step (Writing snap, mo) (Written snap, write_json True snap mo)"
| Write_failed: "monitor_step (Writing snap, mo) (Observing snap, mo)"
| After_write: "monitor_step (Written snap, mo) (Observing snap, after_write mo)"
| Observe: "monitor_step (Observing snap, mo) (Looping, observe snap mo)"
| Loop_end: "mo_stop mo \<Longrightarrow> monitor_step (Looping, mo) (Leaving, mo)"
| Exit: "monitor_step (Leaving, mo) (Absent, cleanup mo)"
| Open: "open_window now mo = (i, mo') \<Longrightarrow> monitor_step (w, mo) (w, mo')"
| Close: "close_window i mo = (r, mo') \<Longrightarrow> monitor_step (w, mo) (w, mo')"
| Stop: "monitor_step (w, mo) (w, set_stop mo)"
| Stop_finish: "mo_stop mo \<Longrightarrow> monitor_step (w, mo) (w, stop_finish (alive w) mo)"

text \<open>\<open>start\<close> runs only when no worker is alive.\<close>

inductive monitor_run :: "worker \<times> monitor \<Rightarrow> bool" where
  Init: "monitor_run (Absent, new_monitor inst limits interval stale_after file_path publisher_id left_over)"
| Start: "monitor_run (Absent, mo) \<Longrightarrow> monitor_run (Looping, start_monitor mo)"
| Step: "monitor_run s \<Longrightarrow> monitor_step s t \<Longrightarrow> monitor_run t"

section \<open>Stopping\<close>

text \<open>What a round over the providers leaves alone.\<close>

definition same_output :: "monitor \<Rightarrow> monitor \<Rightarrow> bool" where
  "same_output mo mo' \<longleftrightarrow> mo_latest mo' = mo_latest mo \<and> mo_latest_at mo' = mo_latest_at mo \<and> mo_file mo' = mo_file mo
     \<and> mo_observed mo' = mo_observed mo \<and> mo_stop mo' = mo_stop mo \<and> mo_file_path mo' = mo_file_path mo
     \<and> mo_cleaned mo' = mo_cleaned mo \<and> mo_limits mo' = mo_limits mo \<and> mo_stale_after_s mo' = mo_stale_after_s mo
     \<and> mo_instance mo' = mo_instance mo"

lemma same_output_refl [simp]: "same_output mo mo" by (simp add: same_output_def)

lemma same_output_trans: "same_output a b \<Longrightarrow> same_output b c \<Longrightarrow> same_output a c"
  by (simp add: same_output_def)

lemma heard_same: "same_output mo (snd (heard pv a now mo))"
  by (cases a) (simp_all add: heard_def Let_def same_output_def)

lemma collect_same: "same_output mo (snd (collect ps mo))"
proof (induction ps mo rule: collect.induct)
  case (2 pv stopping a now ps mo)
  obtain x mo1 where h: "heard pv a now mo = (x, mo1)" by (cases "heard pv a now mo")
  obtain rs age av where x: "x = (rs, age, av)" by (cases x)
  show ?case
  proof (cases stopping)
    case False
    have "same_output mo1 (snd (collect ps mo1))" by (rule 2[OF False h[symmetric] refl x[symmetric] refl refl]) 
    then have "same_output mo (snd (collect ps mo1))" using heard_same[of mo pv a now] h same_output_trans by simp
    then show ?thesis using False by (simp add: h x case_prod_beta)
  qed simp
qed simp

lemma gather_same: "gather e mo = (s, mo') \<Longrightarrow> same_output mo mo'"
proof -
  assume g: "gather e mo = (s, mo')"
  have "same_output mo (begin_poll (pe_now e) mo)" by (simp add: same_output_def begin_poll_def)
  moreover have "mo' = snd (collect (pe_answers e) (begin_poll (pe_now e) mo))" using g by (auto simp: gather_def split: prod.splits)
  ultimately show ?thesis using collect_same same_output_trans by blast
qed

text \<open>After a stop: nothing new is published, and a file exists only between a write that was under way and its check.\<close>

definition quiet :: "monitor \<Rightarrow> worker \<times> monitor \<Rightarrow> bool" where
  "quiet mo0 s \<longleftrightarrow> (case s of (w, mo) \<Rightarrow> mo_stop mo \<and> mo_file_path mo = mo_file_path mo0 \<and> mo_latest mo = mo_latest mo0
     \<and> mo_observed mo = mo_observed mo0 \<and> (mo_file mo \<noteq> None \<longrightarrow> (\<exists>snap. w = Written snap)))"

lemma remove_file_fields [simp]:
  "mo_stop (remove_file mo) = mo_stop mo" "mo_file_path (remove_file mo) = mo_file_path mo"
  "mo_latest (remove_file mo) = mo_latest mo" "mo_observed (remove_file mo) = mo_observed mo"
  "mo_file_path mo \<noteq> [] \<Longrightarrow> mo_file (remove_file mo) = None" "mo_file mo = None \<Longrightarrow> mo_file (remove_file mo) = None"
  by (simp_all add: remove_file_def)

lemma cleanup_fields [simp]:
  "mo_stop (cleanup mo) = mo_stop mo" "mo_file_path (cleanup mo) = mo_file_path mo"
  "mo_latest (cleanup mo) = mo_latest mo" "mo_observed (cleanup mo) = mo_observed mo"
  "mo_file mo = None \<Longrightarrow> mo_file (cleanup mo) = None"
  by (simp_all add: cleanup_def)

lemma stop_finish_fields [simp]:
  "mo_stop (stop_finish a mo) = mo_stop mo" "mo_file_path (stop_finish a mo) = mo_file_path mo"
  "mo_latest (stop_finish a mo) = mo_latest mo" "mo_observed (stop_finish a mo) = mo_observed mo"
  "mo_file_path mo \<noteq> [] \<Longrightarrow> mo_file (stop_finish a mo) = None"
  by (simp_all add: stop_finish_def)

lemma quiet_step: "monitor_step s t \<Longrightarrow> quiet mo0 s \<Longrightarrow> mo_file_path mo0 \<noteq> [] \<Longrightarrow> quiet mo0 t"
proof (induction rule: monitor_step.induct)
  case (Give_up e mo mo')
  then show ?case using gather_same[OF Give_up(1)] by (simp add: quiet_def same_output_def)
next
  case (Open now mo i mo' w)
  then show ?case by (auto simp: open_window_def quiet_def Let_def)
next
  case (Close i mo r mo' w)
  then show ?case by (auto simp: close_window_def quiet_def split: option.splits)
qed (auto simp: quiet_def publish_def wants_file_def write_json_def after_write_def observe_def set_stop_def)

lemma quiet_steps: "monitor_step\<^sup>*\<^sup>* s t \<Longrightarrow> quiet mo0 s \<Longrightarrow> mo_file_path mo0 \<noteq> [] \<Longrightarrow> quiet mo0 t"
  by (induction rule: rtranclp_induct) (auto intro: quiet_step)


definition stopping :: monitor where
  "stopping = set_stop (new_monitor ''front'' [] 1 5 ''/tmp/health.json'' ''p'' None)"


section \<open>Silence\<close>

lemma heard_fields:
  "map_of (mo_last_ok (snd (heard pv a now mo))) n = (if n = pr_name pv \<and> (\<exists>rs. a = Reported rs) then Some now else map_of (mo_last_ok mo) n)"
  "n \<noteq> pr_name pv \<Longrightarrow> map_of (mo_last_reports (snd (heard pv a now mo))) n = map_of (mo_last_reports mo) n"
  "mo_started_t (snd (heard pv a now mo)) = mo_started_t mo"
  by (cases a; simp add: heard_def Let_def)+

text \<open>What decides how a provider is heard.\<close>

definition same_ear :: "string \<Rightarrow> monitor \<Rightarrow> monitor \<Rightarrow> bool" where
  "same_ear n mo mo' \<longleftrightarrow> map_of (mo_last_ok mo') n = map_of (mo_last_ok mo) n
     \<and> map_of (mo_last_reports mo') n = map_of (mo_last_reports mo) n
     \<and> mo_started_t mo' = mo_started_t mo \<and> mo_limits mo' = mo_limits mo \<and> mo_stale_after_s mo' = mo_stale_after_s mo"

lemma collect_member:
  assumes "collect ps mo = (Some ras, mo')" "(pv, b, a, now) \<in> set ps" "distinct (map (pr_name \<circ> fst) ps)"
  shows "\<exists>m. same_ear (pr_name pv) mo m \<and> (case fst (heard pv a now m) of (rs, age, av) \<Rightarrow>
     \<exists>m'. \<forall>r \<in> set rs. (stamped m' (pr_name pv) age av r, now) \<in> set ras)"
  using assms
proof (induction ps mo arbitrary: ras mo' rule: collect.induct)
  case (2 qv stopping c t ps mo)
  obtain rs age av mo1 where h: "heard qv c t mo = ((rs, age, av), mo1)" by (metis prod.collapse)
  obtain rest mo2 where r: "collect ps mo1 = (rest, mo2)" by (cases "collect ps mo1")
  have ns: "\<not> stopping" using 2(2) by (auto split: if_splits)
  then obtain tail where t: "rest = Some tail" "ras = map (\<lambda>r. (stamped mo1 (pr_name qv) age av r, t)) rs @ tail"
    using 2(2) by (auto simp: h r)
  show ?case
  proof (cases "(pv, b, a, now) = (qv, stopping, c, t)")
    case True
    then show ?thesis using t(2) by (intro exI[of _ mo]) (auto simp: h same_ear_def)
  next
    case False
    then have m: "(pv, b, a, now) \<in> set ps" using 2(3) by auto
    have ne: "pr_name pv \<noteq> pr_name qv" using 2(4) m by (force simp: image_iff)
    have d: "distinct (map (pr_name \<circ> fst) ps)" using 2(4) by (simp add: o_def)
    from 2(1)[OF ns refl h[symmetric] refl refl refl r[unfolded t(1)] m d] obtain m where
      m: "same_ear (pr_name pv) mo1 m" "case fst (heard pv a now m) of (rs, age, av) \<Rightarrow>
         \<exists>m'. \<forall>r \<in> set rs. (stamped m' (pr_name pv) age av r, now) \<in> set tail"
      by (elim exE conjE) (rule that)
    have "same_ear (pr_name pv) mo mo1"
      using heard_fields[where pv = qv and a = c and now = t and mo = mo] heard_same[of mo qv c t] ne h by (simp add: same_ear_def same_output_def)
    then have "same_ear (pr_name pv) mo m" using m(1) by (simp add: same_ear_def)
    then show ?thesis using m(2) t(2) by (intro exI[of _ m]) (auto simp: case_prod_beta)
  qed
qed simp

lemma stamped_fields [simp]: "rp_level (stamped m n a av r) = rp_level r" "rp_component (stamped m n a av r) = rp_component r"
  by (simp_all add: stamped_def set_values_def)

lemma age_report_level: "rp_level r = STALE \<Longrightarrow> rp_level (age_report l s p (r, t)) = STALE"
  by (simp add: age_report_def Let_def set_values_def)

lemma age_report_component [simp]: "rp_component (age_report l s p (r, t)) = rp_component r"
  by (simp add: age_report_def Let_def set_values_def)

lemma merge_level_ge: "r \<in> set reports \<Longrightarrow>
    \<exists>st \<in> set (merge reports inst limits). st_name st = inst @ '': '' @ rp_component r \<and> rp_level r \<le> st_level st"
proof -
  assume r: "r \<in> set reports"
  let ?rs = "filter (\<lambda>q. rp_component q = rp_component r) reports"
  have "merge_component inst limits (rp_component r) ?rs \<in> set (merge reports inst limits)" using r by (auto simp: merge_def)
  moreover have "rp_level r \<le> merge_level limits ?rs"
    unfolding merge_level_def using max_default_ge[of "rp_level r" "map rp_level ?rs" OK] r by force
  ultimately show ?thesis by (intro bexI) auto
qed

text \<open>The components a provider speaks for when it is silent.\<close>

definition speaks_for :: "monitor \<Rightarrow> provider \<Rightarrow> string set" where
  "speaks_for mo pv = (case map_of (mo_last_reports mo) (pr_name pv) of
     Some (r # rs) \<Rightarrow> rp_component ` set (r # rs) | _ \<Rightarrow> set (pr_components pv))"

definition last_heard :: "monitor \<Rightarrow> provider \<Rightarrow> rat \<Rightarrow> rat" where
  "last_heard mo pv now = (case map_of (mo_last_ok mo) (pr_name pv) of Some t \<Rightarrow> t
     | None \<Rightarrow> (case mo_started_t mo of Some t \<Rightarrow> t | None \<Rightarrow> now))"

lemma heard_silent:
  assumes "u \<or> now - last_heard mo pv now \<ge> mo_stale_after_s mo" "c \<in> speaks_for mo pv"
  shows "\<exists>r \<in> set (fst (fst (heard pv (Raised u e) now mo))). rp_component r = c \<and> rp_level r = STALE"
proof -
  obtain prev where p: "prev = (case map_of (mo_last_reports mo) (pr_name pv) of Some rs \<Rightarrow> rs | None \<Rightarrow> [])" by blast
  show ?thesis
  proof (cases prev)
    case Nil
    then have "c \<in> set (pr_components pv)" using assms(2) p by (auto simp: speaks_for_def split: option.splits list.splits)
    then show ?thesis using Nil p by (force simp: heard_def Let_def missing_report_def)
  next
    case (Cons x xs)
    then have "c \<in> rp_component ` set prev" using assms(2) p by (auto simp: speaks_for_def split: option.splits list.splits)
    moreover have "u \<or> now - (case map_of (mo_last_ok mo) (pr_name pv) of Some t \<Rightarrow> t
        | None \<Rightarrow> (case mo_started_t mo of Some t \<Rightarrow> t | None \<Rightarrow> now)) \<ge> mo_stale_after_s mo"
      using assms(1) by (simp add: last_heard_def)
    ultimately show ?thesis using Cons p[symmetric]
      by (auto simp: heard_def Let_def silent_report_def set_values_def)
  qed
qed

text \<open>C19: a silent provider goes stale, and only its components are at stake.  When a provider raised
  in a poll and either named a disconnect or has been silent for \<open>stale_after_s\<close>, the snapshot has an entry at STALE
  for every component it last reported (or, if it never did, declares); the poll itself never fails.\<close>

theorem silence_goes_stale:
  assumes "gather e mo = (Some snap, mo')" "distinct (map (pr_name \<circ> fst) (pe_answers e))"
    and "(pv, b, Raised u err, now) \<in> set (pe_answers e)" "mo_started_t mo = Some t0"
    and "u \<or> now - last_heard mo pv now \<ge> mo_stale_after_s mo" "c \<in> speaks_for mo pv"
  shows "\<exists>st \<in> set (sn_status snap). st_name st = mo_instance mo @ '': '' @ c \<and> STALE \<le> st_level st"
proof -
  let ?b = "begin_poll (pe_now e) mo"
  obtain ras where col: "collect (pe_answers e) ?b = (Some ras, mo')" and snap: "snap = assemble e mo' ras"
    using assms(1) by (auto simp: gather_def split: prod.splits)
  from collect_member[OF col assms(3,2)] obtain m m' where m: "same_ear (pr_name pv) ?b m"
    "\<forall>r \<in> set (fst (fst (heard pv (Raised u err) now m))).
       (stamped m' (pr_name pv) (fst (snd (fst (heard pv (Raised u err) now m)))) (snd (snd (fst (heard pv (Raised u err) now m)))) r, now) \<in> set ras"
    by (auto simp: case_prod_beta)
  have same: "same_ear (pr_name pv) mo m" using m(1) assms(4) by (simp add: same_ear_def begin_poll_def)
  have "u \<or> now - last_heard m pv now \<ge> mo_stale_after_s m" "c \<in> speaks_for m pv"
    using assms(5,6) same unfolding same_ear_def last_heard_def speaks_for_def by (elim conjE, simp only:)+
  from heard_silent[OF this, of err] obtain r where r: "r \<in> set (fst (fst (heard pv (Raised u err) now m)))"
    "rp_component r = c" "rp_level r = STALE" by blast
  from m(2) r(1) obtain s where s: "(s, now) \<in> set ras" "rp_component s = c" "rp_level s = STALE" using r(2,3) by force
  let ?q = "age_report (mo_limits mo') (mo_stale_after_s mo') (pe_published_at e) (s, now)"
  have "?q \<in> set (map (age_report (mo_limits mo') (mo_stale_after_s mo') (pe_published_at e)) ras)" using s(1) by auto
  from merge_level_ge[OF this, of "mo_instance mo'" "mo_limits mo'"] show ?thesis
    using s age_report_level gather_same[OF assms(1)]
    by (simp add: snap assemble_def build_snapshot_def same_output_def)
qed

definition boson :: provider where
  "boson = \<lparr>pr_name = ''boson'', pr_components = [''camera'']\<rparr>"

definition silent_poll :: poll_env where
  "silent_poll = \<lparr>pe_now = 0, pe_answers = [(boson, False, Raised True ''unplugged'', 1)], pe_published_at = 1, pe_wall_ns = 7\<rparr>"

definition polled_monitor :: monitor where
  "polled_monitor = begin_poll 0 (new_monitor ''front'' [] 1 5 [] ''p'' None)"

theorem silence_goes_stale_witness:
  "\<exists>snap mo'. gather silent_poll polled_monitor = (Some snap, mo')
     \<and> (\<exists>st \<in> set (sn_status snap). st_name st = ''front: camera'' \<and> STALE \<le> st_level st)"
proof -
  have m: "mo_started_t polled_monitor = Some 0" "mo_instance polled_monitor = ''front''" "mo_last_reports polled_monitor = []"
    by (simp_all add: polled_monitor_def begin_poll_def new_monitor_def)
  have "fst (collect (pe_answers silent_poll) mo) \<noteq> None" for mo
    by (simp add: silent_poll_def case_prod_beta)
  then have "fst (gather silent_poll polled_monitor) \<noteq> None"
    by (simp add: gather_def case_prod_beta)
  then obtain snap mo' where g: "gather silent_poll polled_monitor = (Some snap, mo')"
    by (cases "gather silent_poll polled_monitor") auto
  have "''camera'' \<in> speaks_for polled_monitor boson" "(boson, False, Raised True ''unplugged'', 1) \<in> set (pe_answers silent_poll)"
    "distinct (map (pr_name \<circ> fst) (pe_answers silent_poll))"
    using m(3) by (simp_all add: speaks_for_def boson_def silent_poll_def)
  from silence_goes_stale[OF g this(3,2) m(1) _ this(1)] g m(2) show ?thesis by auto
qed

section \<open>A late query\<close>

lemma age_of_upd: "age_of (upd_key ''health.sample_age_s'' (JNum x) vs) = x"
  by (simp add: age_of_def get_or_def num_of_def)

lemma age_of_other: "k \<noteq> ''health.sample_age_s'' \<Longrightarrow> age_of (upd_key k v vs) = age_of vs"
  by (simp add: age_of_def get_or_def)

lemma age_row_spec:
  "age = py_round 3 (age_of (st_values row) + elapsed) \<Longrightarrow>
   age_of (st_values (age_row s elapsed row)) = age \<and> st_name (age_row s elapsed row) = st_name row
   \<and> st_message (age_row s elapsed row) = st_message row
   \<and> st_level (age_row s elapsed row) = (if age \<ge> s then STALE else st_level row)
   \<and> (age \<ge> s \<and> st_level row \<noteq> STALE \<longrightarrow>
        map_of (st_values (age_row s elapsed row)) ''health.last_level'' = Some (JInt (int (st_level row))))"
  by (simp add: age_row_def Let_def age_of_upd age_of_other level_json_def)

text \<open>a late query gives a frozen observation no new lease of life.  What \<open>latest\<close> returns is the
  last publication with every entry aged by the monitor's own clock; an entry whose age reaches
  \<open>stale_after_s\<close> is STALE, with the level it had kept beside it, and any other keeps its level; and
  \<open>stale_after_s\<close> after the publication (half a millisecond of rounding apart) every entry is STALE.\<close>

theorem latest_never_fresh:
  assumes "mo_latest mo = Some snap"
  shows "\<exists>snap'. aged_latest now mo = Some snap'
    \<and> (\<exists>rows. sn_status snap' = rows \<and> list_all2 (\<lambda>row row'.
         let age = py_round 3 (age_of (st_values row) + max 0 (now - mo_latest_at mo)) in
         st_name row' = st_name row \<and> age_of (st_values row') = age
         \<and> st_level row' = (if age \<ge> mo_stale_after_s mo then STALE else st_level row)
         \<and> (age \<ge> mo_stale_after_s mo \<and> st_level row \<noteq> STALE \<longrightarrow>
              map_of (st_values row') ''health.last_level'' = Some (JInt (int (st_level row))))) (sn_status snap) rows)
    \<and> sn_level snap' = max_default OK (map st_level (sn_status snap'))
    \<and> ((\<forall>row \<in> set (sn_status snap). 0 \<le> age_of (st_values row)) \<and> now - mo_latest_at mo \<ge> mo_stale_after_s mo + 1 / 2000 \<longrightarrow>
         (\<forall>row \<in> set (sn_status snap'). st_level row = STALE))"
proof -
  let ?e = "max 0 (now - mo_latest_at mo)" and ?s = "mo_stale_after_s mo"
  define rows where "rows = map (age_row ?s ?e) (sn_status snap)"
  have a: "aged_latest now mo = Some (snap\<lparr>sn_status := rows, sn_level := max_default OK (map st_level rows)\<rparr>)"
    by (simp add: aged_latest_def assms Let_def rows_def)
  have all2: "list_all2 (\<lambda>row row'.
         let age = py_round 3 (age_of (st_values row) + ?e) in
         st_name row' = st_name row \<and> age_of (st_values row') = age
         \<and> st_level row' = (if age \<ge> ?s then STALE else st_level row)
         \<and> (age \<ge> ?s \<and> st_level row \<noteq> STALE \<longrightarrow>
              map_of (st_values row') ''health.last_level'' = Some (JInt (int (st_level row))))) (sn_status snap) rows"
    unfolding rows_def list_all2_map2 Let_def by (rule list_all2_refl) (use age_row_spec in blast)
  have old: "st_level row = STALE" if "\<forall>row \<in> set (sn_status snap). 0 \<le> age_of (st_values row)"
      "now - mo_latest_at mo \<ge> ?s + 1 / 2000" and mem: "row \<in> set rows" for row
  proof -
    obtain r where r: "row = age_row ?s ?e r" "r \<in> set (sn_status snap)" using mem by (auto simp: rows_def)
    have "0 \<le> age_of (st_values r)" using that(1) r(2) by blast
    moreover have "now - mo_latest_at mo \<le> ?e" by (rule max.cobounded2)
    ultimately have le: "?s + 1 / 2000 \<le> age_of (st_values r) + ?e" using that(2) by linarith
    have "?s \<le> py_round 3 (age_of (st_values r) + ?e)"
    proof -
      have "(1 :: rat) / (2 * 10 ^ 3) = 1 / 2000" by simp
      then show ?thesis
        using py_round_lower[of "age_of (st_values r) + ?e" 3] le by linarith
    qed
    then show ?thesis using age_row_spec[OF refl, of ?s ?e r] r(1) by simp
  qed
  show ?thesis
    by (rule exI[of _ "snap\<lparr>sn_status := rows, sn_level := max_default OK (map st_level rows)\<rparr>"])
       (use a all2 old in auto)
qed

theorem latest_never_fresh_witness:
  "let row = \<lparr>st_level = OK, st_name = ''front: stream'', st_message = ''30 fps'', st_hardware_id = [],
              st_values = [(''health.sample_age_s'', JNum 0)]\<rparr>;
       mo = (new_monitor ''front'' [] 1 5 [] ''p'' None)\<lparr>mo_latest := Some (build_snapshot ''front'' 0 [row]), mo_latest_at := 100\<rparr>
   in \<exists>snap'. aged_latest 106 mo = Some snap' \<and> sn_status snap' \<noteq> [] \<and> (\<forall>r \<in> set (sn_status snap'). st_level r = STALE)"
proof -
  define row where "row = \<lparr>st_level = OK, st_name = ''front: stream'', st_message = ''30 fps'', st_hardware_id = [],
              st_values = [(''health.sample_age_s'', JNum 0)]\<rparr>"
  define mo where "mo = (new_monitor ''front'' [] 1 5 [] ''p'' None)\<lparr>mo_latest := Some (build_snapshot ''front'' 0 [row]), mo_latest_at := 100\<rparr>"
  have m: "mo_latest mo = Some (build_snapshot ''front'' 0 [row])" "mo_stale_after_s mo = 5" "mo_latest_at mo = 100"
    by (simp_all add: mo_def new_monitor_def)
  have r: "sn_status (build_snapshot ''front'' 0 [row]) = [row]" "age_of (st_values row) = 0"
    by (simp_all add: build_snapshot_def row_def age_of_def get_or_def num_of_def)
  from latest_never_fresh[OF m(1), of 106] show ?thesis
    unfolding Let_def row_def[symmetric] mo_def[symmetric] m(2,3) r by (auto simp: r list_all2_Cons1)
qed

section \<open>Capture faults\<close>

type_synonym stream_poll = "provider_env \<times> rat \<times> fields"

definition poll_stream :: "stream_poll \<Rightarrow> pipeline_provider \<Rightarrow> pipeline_provider" where
  "poll_stream q p = (case q of (e, now, h) \<Rightarrow> snd (stream_report e now h p))"

definition losses :: "fields \<Rightarrow> int \<times> int \<times> int" where
  "losses h = (count_of h ''source_gaps'', count_of h ''frames_missing'', count_of h ''enqueue_failures'')"

lemma stream_report_state: "snd (stream_report e now h p) = note_loss now h (note_frames now (count_of h ''frames'') p)"
  by (simp add: stream_report_def Let_def case_prod_beta)

lemma note_frames_fields [simp]:
  "pp_prev_loss (note_frames now f p) = pp_prev_loss p" "pp_last_loss_t (note_frames now f p) = pp_last_loss_t p"
  "pp_lost_recent (note_frames now f p) = pp_lost_recent p" "pp_loss_hold_s (note_frames now f p) = pp_loss_hold_s p"
  "pp_stall_after_s (note_frames now f p) = pp_stall_after_s p" "pp_prev (note_frames now f p) = Some (now, f)"
  by (simp_all add: note_frames_def Let_def)

lemma note_loss_fields [simp]:
  "pp_prev (note_loss now h p) = pp_prev p" "pp_last_frame_t (note_loss now h p) = pp_last_frame_t p"
  "pp_loss_hold_s (note_loss now h p) = pp_loss_hold_s p" "pp_stall_after_s (note_loss now h p) = pp_stall_after_s p"
  "pp_prev_loss (note_loss now h p) = Some (losses h)"
  by (auto simp: note_loss_def Let_def losses_def split: option.splits prod.splits)

lemma note_loss_time:
  "pp_last_loss_t (note_loss now h p) = (case pp_prev_loss p of Some l \<Rightarrow> if losses h \<noteq> l then Some now else pp_last_loss_t p | None \<Rightarrow> pp_last_loss_t p)"
  by (auto simp: note_loss_def Let_def losses_def split: option.splits prod.splits)

text \<open>The last loss is remembered.\<close>

definition lossy_since :: "rat \<Rightarrow> pipeline_provider \<Rightarrow> bool" where
  "lossy_since t p \<longleftrightarrow> (\<exists>u \<ge> t. pp_last_loss_t p = Some u)"

lemma poll_stream_hold [simp]:
  "pp_loss_hold_s (poll_stream q p) = pp_loss_hold_s p" "pp_stall_after_s (poll_stream q p) = pp_stall_after_s p"
  by (simp_all add: poll_stream_def stream_report_state case_prod_beta)

lemma poll_stream_lossy: "lossy_since t p \<Longrightarrow> t \<le> fst (snd q) \<Longrightarrow> lossy_since t (poll_stream q p)"
proof -
  assume l: "lossy_since t p" "t \<le> fst (snd q)"
  obtain e now h where q: "q = (e, now, h)" by (cases q)
  show ?thesis
    using l by (auto simp: lossy_since_def poll_stream_def q stream_report_state note_loss_time split: option.splits)
qed

lemma polls_lossy: "lossy_since t p \<Longrightarrow> \<forall>q \<in> set qs. t \<le> fst (snd q) \<Longrightarrow>
    lossy_since t (fold poll_stream qs p) \<and> pp_loss_hold_s (fold poll_stream qs p) = pp_loss_hold_s p"
  by (induction qs arbitrary: p) (auto simp: poll_stream_lossy)

lemma loss_noted:
  "pp_prev_loss p = Some l \<Longrightarrow> losses h \<noteq> l \<Longrightarrow> lossy_since t (poll_stream (e, t, h) p)"
  by (cases l) (auto simp: lossy_since_def poll_stream_def stream_report_state note_loss_def losses_def Let_def)

text \<open>The verdict of a report, from the state it leaves.\<close>

lemma stream_report_level:
  "rp_level (fst (stream_report e now h p)) =
     (let p' = snd (stream_report e now h p); fps = (case pv_frame_rate e of Some x \<Rightarrow> x | None \<Rightarrow> 0);
          age = now - (case pp_last_frame_t p' of Some t \<Rightarrow> t | None \<Rightarrow> now);
          stall = (if fps > 0 then max (pp_stall_after_s p') (3 / fps) else pp_stall_after_s p');
          lossy = (case pp_last_loss_t p' of Some t \<Rightarrow> now - t \<le> pp_loss_hold_s p' | None \<Rightarrow> False)
      in if pv_playback e \<notin> {None, Some ''playing''} then OK
         else if pv_reconnecting e \<or> age > stall then ERROR else if lossy then WARN else OK)"
  by (simp add: stream_report_def stream_verdict_def Let_def case_prod_beta)

text \<open>no loss goes unseen.  When the loss counters moved between two polls, every poll within the hold after
  that one - whatever happened in between - reports the stream at WARN, or at ERROR when the source is disconnected
  or stalled; only a playback that is not playing is silent.\<close>

theorem loss_stays_visible:
  assumes "pp_prev_loss p = Some l" "losses h \<noteq> l" "\<forall>q \<in> set qs. t \<le> fst (snd q)"
    and "t \<le> now" "now - t \<le> pp_loss_hold_s p" "pv_playback e' \<in> {None, Some ''playing''}"
  shows "rp_level (fst (stream_report e' now h' (fold poll_stream qs (poll_stream (e, t, h) p)))) \<in> {WARN, ERROR}"
proof -
  let ?p = "fold poll_stream qs (poll_stream (e, t, h) p)"
  have "lossy_since t ?p \<and> pp_loss_hold_s ?p = pp_loss_hold_s (poll_stream (e, t, h) p)"
    by (rule polls_lossy[OF loss_noted[OF assms(1,2)] assms(3)])
  then have p: "lossy_since t ?p" "pp_loss_hold_s ?p = pp_loss_hold_s p" by simp_all
  have "lossy_since t (poll_stream (e', now, h') ?p)" by (rule poll_stream_lossy[OF p(1)]) (simp add: assms(4))
  then obtain u where u: "u \<ge> t" "pp_last_loss_t (snd (stream_report e' now h' ?p)) = Some u"
    by (auto simp: lossy_since_def poll_stream_def)
  have "pp_loss_hold_s (snd (stream_report e' now h' ?p)) = pp_loss_hold_s p"
    using p(2) poll_stream_hold(1)[of "(e', now, h')" ?p] by (simp add: poll_stream_def)
  then have "now - u \<le> pp_loss_hold_s (snd (stream_report e' now h' ?p))" using u(1) assms(5) by linarith
  then show ?thesis using u(2) assms(6) by (auto simp: stream_report_level Let_def)
qed

theorem loss_stays_visible_witness:
  "let e = \<lparr>pv_frame_rate = Some 30, pv_reconnecting = False, pv_playback = None, pv_ts_source = []\<rparr>;
       p = poll_stream (e, 0, [(''frames'', JInt 30)]) (new_pipeline_provider ''/data'' 5);
       lost = [(''frames'', JInt 60), (''frames_missing'', JInt 2)]
   in rp_level (fst (stream_report e 9 [(''frames'', JInt 300), (''frames_missing'', JInt 2)]
        (fold poll_stream [(e, 5, [(''frames'', JInt 180), (''frames_missing'', JInt 2)])] (poll_stream (e, 1, lost) p)))) \<in> {WARN, ERROR}"
  unfolding Let_def
  by (rule loss_stays_visible[where l = "(0, 0, 0)"])
     (simp_all add: poll_stream_def stream_report_state losses_def count_of_def get_or_def new_pipeline_provider_def LOSS_HOLD_S_def)

text \<open>a stalled capture is an error.  When the frame counter has not moved since a poll, every later poll
  that is further from the last movement than the stall limit (three frame intervals at least) reports ERROR.\<close>

theorem stall_reported:
  assumes "pp_prev p = Some (t0, f)" "pp_last_frame_t p = Some moved" "\<forall>(e, now, h) \<in> set qs. count_of h ''frames'' = f"
    and "count_of h' ''frames'' = f" "pv_playback e' \<in> {None, Some ''playing''}"
    and "now - moved > pp_stall_after_s p" "\<forall>fps. pv_frame_rate e' = Some fps \<and> fps > 0 \<longrightarrow> now - moved > 3 / fps"
  shows "rp_level (fst (stream_report e' now h' (fold poll_stream qs p))) = ERROR"
proof -
  define still where "still p = ((\<exists>t. pp_prev p = Some (t, f)) \<and> pp_last_frame_t p = Some moved)" for p :: pipeline_provider
  have step: "still (poll_stream q p)" if "still p" "case q of (e, now, h) \<Rightarrow> count_of h ''frames'' = f" for q p
    using that by (auto simp: still_def poll_stream_def stream_report_state note_frames_def Let_def)
  have run: "still (fold poll_stream qs p) \<and> pp_stall_after_s (fold poll_stream qs p) = pp_stall_after_s p"
    if "still p" "\<forall>q \<in> set qs. case q of (e, now, h) \<Rightarrow> count_of h ''frames'' = f" for qs p
    using that
  proof (induction qs arbitrary: p)
    case (Cons q qs)
    then show ?case using step[of p q] by simp
  qed simp
  let ?p = "fold poll_stream qs p"
  have p: "still ?p" "pp_stall_after_s ?p = pp_stall_after_s p" using run[of p qs] assms(1-3) by (auto simp: still_def)
  have "still (poll_stream (e', now, h') ?p)" by (rule step[OF p(1)]) (simp add: assms(4))
  then have "pp_last_frame_t (snd (stream_report e' now h' ?p)) = Some moved" by (simp add: still_def poll_stream_def)
  moreover have "pp_stall_after_s (snd (stream_report e' now h' ?p)) = pp_stall_after_s p"
    using p(2) poll_stream_hold(2)[of "(e', now, h')" ?p] by (simp add: poll_stream_def)
  ultimately show ?thesis using assms(5-7) by (auto simp: stream_report_level Let_def split: option.splits)
qed

theorem stall_reported_witness:
  "let e = \<lparr>pv_frame_rate = Some 30, pv_reconnecting = False, pv_playback = None, pv_ts_source = []\<rparr>;
       p = poll_stream (e, 0, [(''frames'', JInt 30)]) (new_pipeline_provider ''/data'' 5);
       h = [(''frames'', JInt 30)]
   in rp_level (fst (stream_report e 6 h (fold poll_stream [(e, 3, h)] p))) = ERROR"
  unfolding Let_def
  by (rule stall_reported[where f = 30 and moved = 0])
     (simp_all add: poll_stream_def stream_report_state note_frames_def count_of_def get_or_def new_pipeline_provider_def)

text \<open>The disk under a directory that does not exist yet is that of its nearest ancestor that does.\<close>

lemma disk_anchor_ancestor: "(disk_anchor ex p = [] \<or> ex (disk_anchor ex p) \<or> dirname (rstrip_slash (disk_anchor ex p)) = disk_anchor ex p)
    \<and> (\<exists>t. p = disk_anchor ex p @ t)"
proof (induction ex p rule: disk_anchor.induct)
  case (1 ex p)
  show ?case
  proof (cases "p = [] \<or> ex p \<or> dirname (rstrip_slash p) = p")
    case True
    then show ?thesis by (subst (1 2 3 4 5) disk_anchor.simps) (auto simp: Let_def)
  next
    case False
    then have e: "disk_anchor ex p = disk_anchor ex (dirname (rstrip_slash p))"
      by (subst disk_anchor.simps) (simp add: Let_def)
    obtain t u where "p = rstrip_slash p @ t" "rstrip_slash p = dirname (rstrip_slash p) @ u"
      using prefix_rstrip prefix_dirname by blast
    then have "\<exists>t. p = dirname (rstrip_slash p) @ t" by (metis append.assoc)
    then show ?thesis unfolding e using 1 False by (metis append.assoc)
  qed
qed

end
