(* ===== verification/Control_Plane.thy ===== *)
theory Control_Plane
  imports Control_Queries Lifecycle Health_Monitor Playback_Control
begin

text \<open>
  The services behind the control plane of \<open>core-driver/cam_driver/control_zenoh.py\<close>: what its handlers make of a
  query - the lifecycle's and the playback's requests, recording settings, the health snapshot - and that a
  remote can do nothing to the service that a local request could not.
\<close>

section \<open>The handlers\<close>

record served =
  sd_lifecycle :: lifecycle
  sd_pipe :: pipe
  sd_playback :: playback
  sd_monitor :: monitor
  sd_key :: string             \<comment> \<open>\<open>key_base\<close>\<close>

record turn_env =
  te_ops :: ops_env
  te_lc :: lc_env
  te_hook :: "(playback \<Rightarrow> (string + unit) \<times> playback) option"
  te_took :: bool
  te_clock :: rat
  te_mono_ns :: int
  te_mono_s :: rat
  te_now_ns :: int

text \<open>Answers; an error names what went wrong.\<close>

datatype message =
    M_State descriptor
  | M_Change reply descriptor
  | M_Refused string lc_state descriptor
  | M_Playback string play_descriptor
  | M_Play play_reply pb_mode string play_descriptor
  | M_Play_Refused string pb_mode string play_descriptor
  | M_Health snapshot
  | M_Failed

definition served_descriptor :: "turn_env \<Rightarrow> served \<Rightarrow> descriptor" where
  "served_descriptor e s = descriptor (pipeline_ops (te_ops e)) (sd_pipe s) (sd_lifecycle s)"

text \<open>\<open>_playback_descriptor\<close>: the policy's, with the instance; \<open>None\<close> when it raises.\<close>

definition playback_descriptor :: "turn_env \<Rightarrow> served \<Rightarrow> (string \<times> play_descriptor) option" where
  "playback_descriptor e s =
     (case (instance_of_key (sd_key s), play_descriptor (te_mono_ns e) (sd_playback s)) of
        (Some i, Some d) \<Rightarrow> Some (i, d) | _ \<Rightarrow> None)"

text \<open>\<open>_health_snapshot\<close>: before the first poll an empty one.\<close>

definition health_snapshot :: "turn_env \<Rightarrow> served \<Rightarrow> snapshot" where
  "health_snapshot e s =
     (case aged_latest (te_mono_s e) (sd_monitor s) of Some snap \<Rightarrow> snap | None \<Rightarrow> build_snapshot (mo_instance (sd_monitor s)) (te_now_ns e) [])"

definition answer_now :: "turn_env \<Rightarrow> query \<Rightarrow> served \<Rightarrow> message option" where
  "answer_now e q s =
     (case qu_target q of
        Q_State \<Rightarrow> Some (M_State (served_descriptor e s))
      | Q_Playback \<Rightarrow> map_option (\<lambda>(i, d). M_Playback i d) (playback_descriptor e s)
      | Q_Health \<Rightarrow> Some (M_Health (health_snapshot e s))
      | _ \<Rightarrow> None)"

definition transition_of :: "(string \<times> json) list \<Rightarrow> string" where
  "transition_of req = (case map_of req ''transition'' of Some (JStr t) \<Rightarrow> t | _ \<Rightarrow> [])"

definition handle_change :: "turn_env \<Rightarrow> query \<Rightarrow> served \<Rightarrow> message \<times> served" where
  "handle_change e q s =
     (case qu_body q of
        None \<Rightarrow> (M_Failed, s)
      | Some b \<Rightarrow>
          (case parse_change_state b (qu_params q) of
             Inl err \<Rightarrow> (M_Refused err (pl_lifecycle (sd_pipe s)) (served_descriptor e s), s)
           | Inr req \<Rightarrow>
               (case request (pipeline_ops (te_ops e)) (te_lc e) (transition_of req) req (sd_lifecycle s) (sd_pipe s) of
                  (r, lf, p) \<Rightarrow> let s = s\<lparr>sd_lifecycle := lf, sd_pipe := p\<rparr> in (M_Change r (served_descriptor e s), s))))"

text \<open>At most 16384 bytes of settings.\<close>

definition REQUEST_MAX :: nat where "REQUEST_MAX = 16384"

definition handle_recording :: "turn_env \<Rightarrow> query \<Rightarrow> served \<Rightarrow> message \<times> served" where
  "handle_recording e q s =
     (let refused = (\<lambda>err. (M_Refused err (pl_lifecycle (sd_pipe s)) (served_descriptor e s), s)) in
      case qu_body q of
        None \<Rightarrow> (M_Failed, s)
      | Some No_Body \<Rightarrow> refused ''Expecting value: line 1 column 1 (char 0)''
      | Some (Bytes n r) \<Rightarrow>
          if n > REQUEST_MAX then refused ''recording settings request too large''
          else (case r of
                  Inl err \<Rightarrow> refused err
                | Inr req \<Rightarrow>
                    (case lc_configure (pipeline_ops (te_ops e)) req (sd_lifecycle s) (sd_pipe s) of
                       (r, lf, p) \<Rightarrow> let s = s\<lparr>sd_lifecycle := lf, sd_pipe := p\<rparr> in (M_Change r (served_descriptor e s), s))))"

definition op_of :: "(string \<times> json) list \<Rightarrow> string" where
  "op_of req = (case map_of req ''op'' of Some (JStr t) \<Rightarrow> t | _ \<Rightarrow> [])"

text \<open>A descriptor that cannot be built raises inside the request, after the change and before the observers hear of it.\<close>

definition handle_playback :: "turn_env \<Rightarrow> query \<Rightarrow> served \<Rightarrow> message \<times> served" where
  "handle_playback e q s =
     (case qu_body q of
        None \<Rightarrow> (M_Failed, s)
      | Some b \<Rightarrow>
          (case parse_playback_request b (qu_params q) of
             Inl err \<Rightarrow>
               (case playback_descriptor e s of
                  Some (i, d) \<Rightarrow> (M_Play_Refused err (pb_state (sd_playback s)) i d, s) | None \<Rightarrow> (M_Failed, s))
           | Inr req \<Rightarrow>
               (case play_request (te_hook e) (te_took e) (op_of req) req (te_clock e) (te_mono_ns e) (sd_playback s) of
                  (r, ps) \<Rightarrow>
                    let s' = s\<lparr>sd_playback := ps\<rparr> in
                    (case playback_descriptor e s' of
                       Some (i, d) \<Rightarrow> (M_Play r (pb_state ps) i d, s')
                     | None \<Rightarrow> (M_Failed, s\<lparr>sd_playback := ps\<lparr>pb_notified := pb_notified (sd_playback s)\<rparr>\<rparr>)))))"

definition handle_turn :: "turn_env \<Rightarrow> query \<Rightarrow> served \<Rightarrow> message \<times> served" where
  "handle_turn e q s =
     (case qu_target q of Q_Change \<Rightarrow> handle_change e q s | Q_Recording \<Rightarrow> handle_recording e q s
      | Q_Playback_Control \<Rightarrow> handle_playback e q s | _ \<Rightarrow> (M_Failed, s))"

definition control_handlers :: "(served, turn_env, message) handlers" where
  "control_handlers = \<lparr>hd_now = answer_now, hd_turn = handle_turn, hd_failed = M_Failed\<rparr>"

section \<open>The service stays the service\<close>

text \<open>What the service does by itself: frames, session events, the watchdog (the steps of \<open>service_run\<close> that are no
  requests); the playback and the monitor are left free.\<close>

inductive inside_step :: "lifecycle \<times> pipe \<Rightarrow> lifecycle \<times> pipe \<Rightarrow> bool" where
  Frame: "inside_step (lf, p) (lf, snd (on_frame fe stamp payload p))"
| Encoded: "inside_step (lf, p) (lf, snd (on_encoded fe stamp payload caps p))"
| Session_bus: "inside_step (lf, p) (lf, session_message m p)"
| Fragment: "inside_step (lf, p) (hooked oe e lf p (on_session_fragment i p))"
| Error: "le_write_ok e \<Longrightarrow> inside_step (lf, p) (hooked oe e lf p (on_session_error c i p))"
| Watchdog: "le_write_ok e \<Longrightarrow> watchdog c sp p = (True, starts, p') \<Longrightarrow> inside_step (lf, p) (hooked oe e lf p p')"

lemma inside_service: "inside_step sv sv' \<Longrightarrow> service_run sv \<Longrightarrow> service_run sv'"
  by (induction rule: inside_step.induct) (auto intro: service_run.intros)

definition recorder :: "served \<Rightarrow> lifecycle \<times> pipe" where
  "recorder s = (sd_lifecycle s, sd_pipe s)"

lemma turn_service:
  assumes "service_run (recorder s)" "le_write_ok (te_lc e)" "handle_turn e q s = (m, s')"
  shows "service_run (recorder s')"
proof -
  let ?ops = "pipeline_ops (te_ops e)"
  have sv: "service_run (sd_lifecycle s, sd_pipe s)" using assms(1) by (simp add: recorder_def)
  consider "recorder s' = recorder s"
    | t req r lf p where "request ?ops (te_lc e) t req (sd_lifecycle s) (sd_pipe s) = (r, lf, p)" "recorder s' = (lf, p)"
    | req r lf p where "lc_configure ?ops req (sd_lifecycle s) (sd_pipe s) = (r, lf, p)" "recorder s' = (lf, p)"
  proof (cases "qu_target q")
    case Q_Change
    then show thesis using assms(3) that
      by (auto simp: handle_turn_def handle_change_def recorder_def Let_def split: option.splits sum.splits prod.splits)
  next
    case Q_Recording
    then show thesis using assms(3) that
      by (auto simp: handle_turn_def handle_recording_def recorder_def Let_def split: option.splits body.splits if_splits sum.splits prod.splits)
  next
    case Q_Playback_Control
    then show thesis using assms(3) that(1)
      by (auto simp: handle_turn_def handle_playback_def recorder_def Let_def split: option.splits sum.splits prod.splits)
  qed (use assms(3) that(1) in \<open>simp_all add: handle_turn_def\<close>)
  then show ?thesis
  proof cases
    case 1
    then show ?thesis using assms(1) by simp
  next
    case 2
    then show ?thesis using service_run.Request[OF sv assms(2), of "te_ops e"] by metis
  next
    case 3
    then show ?thesis using service_run.Configure[OF sv, of "te_ops e"] by metis
  qed
qed

lemma answered_now: "\<not> deferred (qu_target q) \<Longrightarrow> qu_target q \<noteq> Q_Playback \<Longrightarrow> answer_now e q s \<noteq> None"
  by (cases "qu_target q") (simp_all add: answer_now_def deferred_def)

text \<open>The interface twice: once for any behaviour of the environment, once for one that lets the state file be written.\<close>

interpretation any: query_service control_handlers "\<lambda>_. True" "\<lambda>_. True" "\<lambda>_ _. True" "\<lambda>_. True"
  by unfold_locales (simp_all add: control_handlers_def answered_now)

definition fair_env :: "turn_env \<Rightarrow> bool" where
  "fair_env e \<longleftrightarrow> le_write_ok (te_lc e)"

definition booted :: "served \<Rightarrow> bool" where
  "booted s \<longleftrightarrow> service_run (recorder s)"

definition own_step :: "served \<Rightarrow> served \<Rightarrow> bool" where
  "own_step s s' \<longleftrightarrow> inside_step (recorder s) (recorder s') \<or> recorder s' = recorder s"

interpretation served: query_service control_handlers booted booted own_step fair_env
proof
  show "booted s \<Longrightarrow> own_step s s' \<Longrightarrow> booted s'" for s s'
    using inside_service[of "recorder s" "recorder s'"] by (auto simp: booted_def own_step_def simp del: split_paired_All)
  show "booted s \<Longrightarrow> fair_env e \<Longrightarrow> hd_turn control_handlers e q s = (m, s') \<Longrightarrow> booted s'" for s e q m s'
    using turn_service by (simp add: booted_def fair_env_def control_handlers_def)
qed (simp_all add: control_handlers_def answered_now)


definition demo_served :: served where
  "demo_served = \<lparr>sd_lifecycle = fst (snd demo_boot), sd_pipe = snd (snd demo_boot), sd_playback = held, sd_monitor = stopping,
     sd_key = lifecycle_key ''car'' ''front''\<rparr>"

definition demo_turn_env :: turn_env where
  "demo_turn_env = \<lparr>te_ops = demo_ops, te_lc = \<lparr>le_now = 2, le_write_ok = True\<rparr>, te_hook = None, te_took = True, te_clock = 2,
     te_mono_ns = 2, te_mono_s = 2, te_now_ns = 2\<rparr>"

definition demo_query :: query where
  "demo_query = \<lparr>qu_id = 7, qu_target = Q_Change, qu_body = Some (Bytes 27 (Inr (JObj [(''transition'', JStr ''deactivate'')]))), qu_params = []\<rparr>"

lemma demo_booted: "booted demo_served"
  using demo_service by (simp add: booted_def recorder_def demo_served_def)

lemma demo_parsed: "parse_change_state (Bytes 27 (Inr (JObj [(''transition'', JStr ''deactivate'')]))) [] = Inr [(''transition'', JStr ''deactivate'')]"
  by (simp add: parse_change_state_def body_fields_def text_value_def opt_field_def eval_nat_numeral)


text \<open>C3: a remote can do nothing a local request could not.  Whatever queries arrive, in whatever order and interleaving
  with the service's own steps, the lifecycle and the pipeline behind the control plane stay in a state the service reaches
  by itself, so all that holds of the running service holds under remote control.\<close>

theorem remote_refines_service:
  assumes "plane_run control_handlers ct booted own_step fair_env qs pn"
  shows "service_run (sd_lifecycle (pn_state pn), sd_pipe (pn_state pn))"
  using served.state_good[OF assms] by (simp add: booted_def recorder_def)

theorem remote_refines_service_witness:
  "\<exists>pn. plane_run control_handlers (new_control True ''l'' True None None) booted own_step fair_env [demo_query] pn
     \<and> service_run (sd_lifecycle (pn_state pn), sd_pipe (pn_state pn))"
proof -
  let ?ct = "new_control True ''l'' True None None"
  let ?run = "plane_run control_handlers ?ct booted own_step fair_env"
  let ?pn = "arrive control_handlers ?ct True demo_turn_env demo_query (new_plane demo_served)"
  have "?run ([] @ [demo_query]) ?pn" by (rule plane_run.Arrive[OF plane_run.New[where begins = booted, OF demo_booted]]) simp
  moreover have "fair_env demo_turn_env" by (simp add: fair_env_def demo_turn_env_def)
  ultimately have run: "?run [demo_query] (turn control_handlers ?ct demo_turn_env ?pn)"
    using plane_run.Turn[of control_handlers ?ct booted own_step fair_env "[demo_query]" ?pn] by simp
  show ?thesis using run remote_refines_service[OF run] by blast
qed

text \<open>C14: an acknowledged stop means the files are closed.  When the answer to a \<open>deactivate\<close> says ok, no recording session is
  open, the pipeline is inactive, and the descriptor in the answer says so.\<close>

theorem ack_means_closed:
  assumes "booted s" "handle_change e q s = (M_Change r d, s')" "rp_ok r" "qu_body q = Some b"
    "parse_change_state b (qu_params q) = Inr req" "transition_of req = ''deactivate''"
  shows "pl_session (sd_pipe s') = None \<and> dc_state d = Inactive \<and> \<not> dc_recording d"
proof -
  have ok: "pipe_ok (sd_pipe s)" using service_run_ok assms(1) by (auto simp: booted_def recorder_def service_ok_def)
  have rq: "request (pipeline_ops (te_ops e)) (te_lc e) ''deactivate'' req (sd_lifecycle s) (sd_pipe s) = (r, sd_lifecycle s', sd_pipe s')"
    and d: "d = served_descriptor e s'"
    using assms(2,4-6) by (auto simp: handle_change_def Let_def split: prod.splits)
  note sp = rp.request_spec[OF ok rq, unfolded rp.request_ok_def]
  then have p: "pipe_ok (sd_pipe s')" "pl_lifecycle (sd_pipe s') = Inactive"
    using assms(3) by (auto simp: TRANSITIONS_def)
  then have "pl_session (sd_pipe s') = None" by (auto simp: pipe_ok_def split: option.splits)
  then show ?thesis using p(2) by (simp add: d served_descriptor_def descriptor_def pipeline_ops_def)
qed

theorem ack_means_closed_witness:
  "\<exists>r d s'. handle_change demo_turn_env demo_query demo_served = (M_Change r d, s') \<and> rp_ok r \<and> pl_session (sd_pipe s') = None"
proof -
  have q: "qu_body demo_query = Some (Bytes 27 (Inr (JObj [(''transition'', JStr ''deactivate'')])))" "qu_params demo_query = []"
    by (simp_all add: demo_query_def)
  let ?req = "[(''transition'', JStr ''deactivate'')]"
  have t: "transition_of ?req = ''deactivate''" by (simp add: transition_of_def)
  obtain out lf p where r: "request (pipeline_ops demo_ops) \<lparr>le_now = 2, le_write_ok = True\<rparr> ''deactivate'' ?req
      (fst (snd demo_boot)) (snd (snd demo_boot)) = (out, lf, p)" by (metis prod_cases3)
  have h: "handle_change demo_turn_env demo_query demo_served =
      (M_Change out (served_descriptor demo_turn_env (demo_served\<lparr>sd_lifecycle := lf, sd_pipe := p\<rparr>)), demo_served\<lparr>sd_lifecycle := lf, sd_pipe := p\<rparr>)"
    using r by (simp add: handle_change_def q demo_parsed t demo_turn_env_def demo_served_def Let_def)
  have "rp_ok out"
  proof -
    have same: "request (pipeline_ops demo_ops) \<lparr>le_now = 2, le_write_ok = True\<rparr> ''deactivate'' ?req (fst (snd demo_boot)) (snd (snd demo_boot))
      = request (pipeline_ops demo_ops) \<lparr>le_now = 2, le_write_ok = True\<rparr> ''deactivate'' [] (fst (snd demo_boot)) (snd (snd demo_boot))"
      by (simp add: request_def TRANSITIONS_def Let_def cong: if_cong)
    have "rp_ok (fst (request (pipeline_ops demo_ops) \<lparr>le_now = 2, le_write_ok = True\<rparr> ''deactivate'' [] (fst (snd demo_boot)) (snd (snd demo_boot))))"
      using demo_boot_run by (simp add: case_prod_beta)
    then show ?thesis unfolding same[symmetric] r by simp
  qed
  then show ?thesis using ack_means_closed[OF demo_booted h _ q(1) _ t] h by (auto simp: q demo_parsed)
qed

text \<open>A speed of infinity can be set over the wire; from then on the playback descriptor raises, so a query for it is never
  answered.\<close>

lemma infinite_speed_unanswered:
  assumes "play_descriptor (te_mono_ns e) (sd_playback s) = None" "qu_target q = Q_Playback"
  shows "arrive control_handlers ct dispatched e q (new_plane s) = new_plane s"
  using assms by (simp add: arrive_def deferred_def control_handlers_def answer_now_def playback_descriptor_def new_plane_def split: option.split)

end
