(* ===== verification/Replay.thy ===== *)
theory Replay
  imports Playback_Runs Recorder_Plan Bayer_Tile Py_Format
begin

text \<open>
  \<open>core-driver/cam_driver/sources/replay.py\<close>: playing the sessions of a recorded run as if the camera were live - the
  timeline and its window, re-stamping frame N with row N, the sessions back to back, loops and restarts.  What
  GStreamer does is an argument: the codec a probe read, whether a seek or a rebuild of the reader succeeded.  A
  callback and a main-loop step are atomic.
\<close>

section \<open>Opening a run\<close>

definition RAW_DECODE :: "(string \<times> string) list" where
  "RAW_DECODE = [(''video/x-ffv'', ''avdec_ffv1''), (''video/x-h265'', ''h265parse ! avdec_h265''),
                 (''video/x-h264'', ''h264parse ! avdec_h264''), (''image/jpeg'', ''jpegdec'')]"

definition ENC_KEY :: "(string \<times> string) list" where
  "ENC_KEY = [(''image/jpeg'', ''MJPEG''), (''video/x-h264'', ''H264''), (''video/x-h265'', ''H265'')]"

definition SHAPE_KEYS :: "string list" where
  "SHAPE_KEYS = [''pixel_format'', ''width'', ''height'', ''bayer_pattern'']"

datatype replay_error = Discovery run_error | Stamps stamp_error | No_Rows string | Glob_Hazard string | Shape_Drift
  | Window_After_End | Window_Before_Start | Bad_Retime | No_Track string | Mixed_Modes | Mixed_Codecs | Unsupported_Codec string

record replay_conf =
  cf_speed :: json
  cf_loop :: bool
  cf_retime :: "string option"
  cf_gap_max_s :: rat
  cf_epoch :: "int option"
  cf_from_s :: "rat option"
  cf_to_s :: "rat option"
  cf_initial_state :: string
  cf_start_at :: "rat option"

text \<open>\<open>_check_glob_hazards\<close>: \<open>listing\<close> is the directory's.\<close>

definition glob_hazard :: "string list \<Rightarrow> run_info \<Rightarrow> bool" where
  "glob_hazard listing r \<longleftrightarrow>
     list_ex (\<lambda>c. c \<in> {CHR ''*'', CHR ''?'', CHR ''['', CHR '']''}) (ri_base r)
     \<or> list_ex (\<lambda>n. starts_with (basename (ri_base r) @ ''-'') n \<and> ends_with ''.mkv'' n
                   \<and> length n \<ge> length (basename (ri_base r)) + 5 \<and> n \<notin> set (map basename (ri_mkv_paths r))) listing"

definition shape_drift :: "fields \<Rightarrow> run_info \<Rightarrow> bool" where
  "shape_drift hdr r \<longleftrightarrow> list_ex (\<lambda>k. get_key (ri_header r) k \<noteq> get_key hdr k) SHAPE_KEYS"

definition nanos :: "rat \<Rightarrow> int" where
  "nanos s = trunc_rat (s * 1000000000)"

record replay_timeline =
  tm_median_ns :: int
  tm_span_ns :: int
  tm_epoch_ns :: int
  tm_from_ns :: "int option"
  tm_to_ns :: "int option"
  tm_first_idx :: nat
  tm_cap_ns :: int
  tm_duration_ns :: int

definition stamp_times :: "frame_stamp list list \<Rightarrow> int list" where
  "stamp_times stamps = map fs_timestamp_ns (concat stamps)"

text \<open>The index of the first session that is not over before the window; 0 when there is none.\<close>

fun first_session :: "int \<Rightarrow> frame_stamp list list \<Rightarrow> nat option" where
  "first_session from_ns [] = None"
| "first_session from_ns (s # ss) =
     (if fs_timestamp_ns (last s) \<ge> from_ns then Some 0 else map_option Suc (first_session from_ns ss))"

text \<open>The silence between two sessions beyond the cap.\<close>

fun capped_silence :: "int \<Rightarrow> frame_stamp list list \<Rightarrow> int" where
  "capped_silence cap (a # b # ss) =
     (let gap = fs_timestamp_ns (hd b) - fs_timestamp_ns (last a)
      in (if gap > cap then gap - cap else 0) + capped_silence cap (b # ss))"
| "capped_silence cap _ = 0"

definition make_timeline :: "replay_conf \<Rightarrow> frame_stamp list list \<Rightarrow> replay_error + replay_timeline" where
  "make_timeline cf stamps =
     (let all = stamp_times stamps; ts_first = hd all; ts_last = last all;
          median = median_interval_ns (map fs_timestamp_ns (hd stamps));
          epoch = (case cf_epoch cf of Some e \<Rightarrow> e | None \<Rightarrow> ts_first);
          from_ns = (case cf_epoch cf of
             Some e \<Rightarrow> Some (e + nanos (case cf_from_s cf of Some x \<Rightarrow> x | None \<Rightarrow> 0))
           | None \<Rightarrow> map_option (\<lambda>x. ts_first + nanos x) (cf_from_s cf));
          to_ns = map_option (\<lambda>x. epoch + nanos x) (cf_to_s cf)
      in if (case from_ns of Some f \<Rightarrow> f > ts_last | None \<Rightarrow> False) then Inl Window_After_End
         else if (case to_ns of Some t \<Rightarrow> t \<le> ts_first | None \<Rightarrow> False) then Inl Window_Before_Start
         else let end_ns = (case to_ns of Some t \<Rightarrow> min (ts_last + median) t | None \<Rightarrow> ts_last + median);
                  cap = (if cf_epoch cf = None then nanos (cf_gap_max_s cf) else 0);
                  first = (case from_ns of None \<Rightarrow> 0 | Some f \<Rightarrow> (case first_session f stamps of Some i \<Rightarrow> i | None \<Rightarrow> 0))
              in Inr \<lparr>tm_median_ns = median, tm_span_ns = (ts_last - ts_first) + median, tm_epoch_ns = epoch,
                      tm_from_ns = from_ns, tm_to_ns = to_ns, tm_first_idx = first, tm_cap_ns = cap,
                      tm_duration_ns = (end_ns - epoch) - (if cap > 0 then capped_silence cap stamps else 0)\<rparr>)"

definition copied :: "fields \<Rightarrow> string \<Rightarrow> bool" where
  "copied header codec \<longleftrightarrow> map_of ENC_KEY codec \<noteq> None \<and> get_key header ''pixel_format'' = JStr ''I420''
     \<and> get_key header ''recording_encoder'' \<in> {JNull, JStr [], JStr ''stream-copy''}"

text \<open>The delivery mode of the run: \<open>Inr True\<close> is stream copy.\<close>

definition delivery :: "run_info list \<Rightarrow> string list \<Rightarrow> replay_error + bool" where
  "delivery sessions caps =
     (let sc = copied (ri_header (hd sessions)) (hd caps) in
      if list_ex (\<lambda>(r, c). copied (ri_header r) c \<noteq> sc) (zip sessions caps) then Inl Mixed_Modes
      else if sc then (if length (remdups caps) > 1 then Inl Mixed_Codecs else Inr True)
      else (case filter (\<lambda>c. map_of RAW_DECODE c = None) caps of [] \<Rightarrow> Inr False | c # _ \<Rightarrow> Inl (Unsupported_Codec c)))"

record replay =
  rs_sessions :: "run_info list"
  rs_stamps :: "frame_stamp list list"
  rs_caps :: "string list"
  rs_tm :: replay_timeline
  rs_retime_offset :: int
  rs_stream_copy :: bool
  rs_session_idx :: nat
  rs_idx :: nat
  rs_cycle :: int
  rs_offset :: int
  rs_playback :: playback
  rs_untile :: "(string \<times> string) option"      \<comment> \<open>mode and pattern\<close>
  rs_reader :: bool                             \<comment> \<open>a reader pipeline delivers frames\<close>
  rs_gen :: nat
  rs_stop :: bool
  rs_finished :: bool
  rs_failed :: bool
  rs_discontinuity :: bool
  rs_skipped_ns :: int

definition stored_mode :: "fields \<Rightarrow> string" where
  "stored_mode hdr =
     normalize_mode (case get_or hdr ''cfa_tile_mode'' (JStr ''off'') of
       JBool b \<Rightarrow> Tile_Bool b | JNull \<Rightarrow> Tile_None | v \<Rightarrow> Tile_Str (text_of False v))"

definition activate_session :: "nat \<Rightarrow> replay \<Rightarrow> replay" where
  "activate_session i rs =
     (let r = rs_sessions rs ! i; mode = stored_mode (ri_header r) in
      rs\<lparr>rs_session_idx := i, rs_idx := 0,
         rs_untile := (if mode \<noteq> ''off'' \<and> \<not> rs_stream_copy rs
                       then Some (mode, str_or (get_key (ri_header r) ''bayer_pattern'') ''rggb'') else None),
         rs_playback := (rs_playback rs)\<lparr>pb_source_path := Some (ri_base r), pb_session := Some i\<rparr>\<rparr>)"

definition retime_offset :: "replay_conf \<Rightarrow> int \<Rightarrow> int \<Rightarrow> replay_error + int" where
  "retime_offset cf now_ns epoch =
     (if cf_retime cf = Some ''wall'' then Inr (now_ns - epoch)
      else if cf_retime cf \<in> {Some [], Some ''original''} then Inr 0 else Inl Bad_Retime)"

definition new_replay :: "replay_conf \<Rightarrow> rat \<Rightarrow> int \<Rightarrow> run_info list \<Rightarrow> frame_stamp list list \<Rightarrow> string list \<Rightarrow> replay_timeline \<Rightarrow> int \<Rightarrow> bool \<Rightarrow> replay" where
  "new_replay cf clock mns sessions stamps caps tm retime sc =
     (let ps = new_playback (cf_speed cf) (cf_loop cf) (cf_initial_state cf) (cf_start_at cf) True clock mns;
          ps = ps\<lparr>pb_duration_s := Some (py_round 3 (of_int (tm_duration_ns tm) / 1000000000)), pb_epoch_unix_ns := Some (tm_epoch_ns tm),
                  pb_sessions := Some (length sessions), pb_pacer := (pb_pacer ps)\<lparr>pa_anchor := Some (tm_epoch_ns tm + retime)\<rparr>\<rparr>
      in activate_session (tm_first_idx tm)
           \<lparr>rs_sessions = sessions, rs_stamps = stamps, rs_caps = caps, rs_tm = tm, rs_retime_offset = retime,
            rs_stream_copy = sc, rs_session_idx = 0, rs_idx = 0, rs_cycle = 0, rs_offset = retime, rs_playback = ps,
            rs_untile = None, rs_reader = True, rs_gen = 1, rs_stop = False, rs_finished = False, rs_failed = False,
            rs_discontinuity = False, rs_skipped_ns = 0\<rparr>)"

fun load_sessions :: "play_fs \<Rightarrow> (string \<Rightarrow> string list) \<Rightarrow> run_info list \<Rightarrow> replay_error + frame_stamp list list" where
  "load_sessions fs listing [] = Inr []"
| "load_sessions fs listing (r # rs) =
     (case load_stamps (pf_text fs (ri_csv_path r)) of
        Inl e \<Rightarrow> Inl (Stamps e)
      | Inr stamps \<Rightarrow>
          if stamps = [] then Inl (No_Rows (ri_csv_path r))
          else if glob_hazard (listing (dirname (ri_base r))) r then Inl (Glob_Hazard (ri_base r))
          else ebind (load_sessions fs listing rs) (\<lambda>ss. Inr (stamps # ss)))"

fun probe_all :: "(string \<Rightarrow> string option) \<Rightarrow> run_info list \<Rightarrow> replay_error + string list" where
  "probe_all probe [] = Inr []"
| "probe_all probe (r # rs) =
     (case probe (hd (ri_mkv_paths r)) of
        None \<Rightarrow> Inl (No_Track (hd (ri_mkv_paths r)))
      | Some c \<Rightarrow> ebind (probe_all probe rs) (\<lambda>cs. Inr (c # cs)))"

definition open_replay ::
  "play_fs \<Rightarrow> (string \<Rightarrow> string list) \<Rightarrow> (string \<Rightarrow> string option) \<Rightarrow> replay_conf \<Rightarrow> string \<Rightarrow> string \<Rightarrow> rat \<Rightarrow> int \<Rightarrow> int \<Rightarrow> replay_error + replay" where
  "open_replay fs listing probe cf path run clock mns now_ns =
     (case discover_sessions fs path run of
        Inl e \<Rightarrow> Inl (Discovery e)
      | Inr sessions \<Rightarrow>
          ebind (load_sessions fs listing sessions) (\<lambda>stamps.
          if list_ex (shape_drift (ri_header (hd sessions))) (tl sessions) then Inl Shape_Drift
          else ebind (make_timeline cf stamps) (\<lambda>tm.
               ebind (retime_offset cf now_ns (tm_epoch_ns tm)) (\<lambda>retime.
               ebind (probe_all probe sessions) (\<lambda>caps.
               ebind (delivery sessions caps) (\<lambda>sc.
               Inr (new_replay cf clock mns sessions stamps caps tm retime sc)))))))"

text \<open>The state \<open>new_replay\<close> gives is that of a source that was opened, configured and started once, so its reader
  pipeline exists from then on.\<close>

section \<open>Frames\<close>

definition in_window :: "replay_timeline \<Rightarrow> int \<Rightarrow> bool" where
  "in_window tm raw \<longleftrightarrow>
     (case tm_from_ns tm of Some f \<Rightarrow> f \<le> raw | None \<Rightarrow> True) \<and> (case tm_to_ns tm of Some t \<Rightarrow> raw < t | None \<Rightarrow> True)"

definition deliverable :: "frame_stamp \<Rightarrow> replay \<Rightarrow> bool" where
  "deliverable st rs \<longleftrightarrow> \<not> rs_failed rs \<and> \<not> rs_stop rs \<and> in_window (rs_tm rs) (fs_timestamp_ns st - rs_offset rs)"

definition finish :: "rat \<Rightarrow> replay \<Rightarrow> replay" where
  "finish clock rs = rs\<lparr>rs_finished := True, rs_playback := mark_finished clock None (rs_playback rs)\<rparr>"

definition csv_stamps :: "replay \<Rightarrow> frame_stamp list" where
  "csv_stamps rs = rs_stamps rs ! rs_session_idx rs"

text \<open>What \<open>wait_if_paused\<close> returned, once it did.\<close>

definition after_wait :: "pb_verdict \<Rightarrow> playback \<Rightarrow> playback" where
  "after_wait v ps = (if v = Restart then ps\<lparr>pb_restart_pending := False\<rparr> else ps)"

definition with_pacer :: "int \<Rightarrow> int \<Rightarrow> playback \<Rightarrow> playback" where
  "with_pacer ts mns ps = ps\<lparr>pb_pacer := snd (pacer_wait ts mns (pb_pacer ps))\<rparr>"

text \<open>The pacing point of a frame inside the window: the two verdicts and the clock are arguments.\<close>

definition pace :: "frame_stamp \<Rightarrow> pb_verdict \<Rightarrow> int \<Rightarrow> pb_verdict \<Rightarrow> replay \<Rightarrow> replay" where
  "pace st v1 mns v2 rs =
     (case take_preroll (rs_playback rs) of
        (True, ps) \<Rightarrow> rs\<lparr>rs_playback := ps\<rparr>
      | (False, ps) \<Rightarrow>
          let ps = after_wait v1 ps in
          if v1 = Stop then rs\<lparr>rs_playback := ps\<rparr>
          else let ps = after_wait v2 (with_pacer (fs_timestamp_ns st) mns ps) in
               if v2 = Stop then rs\<lparr>rs_playback := ps\<rparr>
               else rs\<lparr>rs_playback := note_frame (fs_timestamp_ns st)
                        (Some (tm_epoch_ns (rs_tm rs) + rs_offset rs + rs_skipped_ns rs)) ps\<rparr>)"

text \<open>\<open>_new_stamp\<close>: frame N of the session's recording takes row N.  A frame without a row ends the replay; its stamp
  is never delivered.\<close>

definition new_stamp :: "rat \<Rightarrow> pb_verdict \<Rightarrow> int \<Rightarrow> pb_verdict \<Rightarrow> replay \<Rightarrow> frame_stamp \<times> replay" where
  "new_stamp clock v1 mns v2 rs =
     (let i = rs_idx rs; rs = rs\<lparr>rs_idx := i + 1\<rparr> in
      if i \<ge> length (csv_stamps rs)
      then (shift_stamp (last (csv_stamps rs)) (rs_offset rs),
            if rs_failed rs then rs else finish clock (rs\<lparr>rs_failed := True\<rparr>))
      else let st = shift_stamp (csv_stamps rs ! i) (rs_offset rs); raw = fs_timestamp_ns st - rs_offset rs; tm = rs_tm rs in
           if (case tm_from_ns tm of Some f \<Rightarrow> raw < f | None \<Rightarrow> False) then (st, rs)
           else if (case tm_to_ns tm of Some t \<Rightarrow> raw \<ge> t | None \<Rightarrow> False)
           then (st, if rs_finished rs then rs else finish clock rs)
           else (st, pace st v1 mns v2 rs))"

section \<open>End of data, restart, stop\<close>

definition take_discontinuity :: "replay \<Rightarrow> bool \<times> replay" where
  "take_discontinuity rs = (rs_discontinuity rs, rs\<lparr>rs_discontinuity := False\<rparr>)"

definition check_row_count :: "replay \<Rightarrow> bool" where
  "check_row_count rs \<longleftrightarrow> rs_idx rs = length (csv_stamps rs)"

text \<open>\<open>_rebuild\<close>: halt, activate, build the new reader; \<open>built\<close> is whether that succeeded.\<close>

definition rebuild :: "nat \<Rightarrow> bool \<Rightarrow> replay \<Rightarrow> replay" where
  "rebuild i built rs =
     (let rs = activate_session i (rs\<lparr>rs_gen := rs_gen rs + 2, rs_stop := False, rs_reader := False\<rparr>)
      in rs\<lparr>rs_discontinuity := True, rs_reader := built\<rparr>)"

text \<open>\<open>_restart\<close>: the next cycle's shift, then the seek or the rebuild; the first part is whether it raised.\<close>

definition begin_cycle :: "replay \<Rightarrow> replay" where
  "begin_cycle rs =
     (let c = rs_cycle rs + 1; off = rs_retime_offset rs + c * tm_span_ns (rs_tm rs);
          ps = snd (take_restart (mark_cycle c (rs_playback rs)))
      in rs\<lparr>rs_cycle := c, rs_offset := off,
            rs_playback := ps\<lparr>pb_pacer := pacer_reset (Some (tm_epoch_ns (rs_tm rs) + off)) (pb_pacer ps)\<rparr>,
            rs_skipped_ns := 0, rs_finished := False, rs_failed := False\<rparr>)"

definition may_seek :: "replay \<Rightarrow> bool" where
  "may_seek rs \<longleftrightarrow> (length (rs_sessions rs) = 1 \<or> rs_session_idx rs = tm_first_idx (rs_tm rs)) \<and> \<not> rs_finished rs"

definition restart :: "bool \<Rightarrow> bool \<Rightarrow> bool \<Rightarrow> replay \<Rightarrow> bool \<times> replay" where
  "restart is_loop seek_ok built rs =
     (let seek = may_seek rs; first = tm_first_idx (rs_tm rs); rs = begin_cycle rs;
          rs = (if seek then rs\<lparr>rs_idx := 0\<rparr> else rs)
      in if seek \<and> seek_ok then (False, rs)
         else let rs = rebuild first built rs in
              if built then (False, rs)
              else if is_loop then (False, rs\<lparr>rs_failed := True, rs_finished := True\<rparr>)
              else (True, rs))"

definition on_eos :: "nat \<Rightarrow> rat \<Rightarrow> bool \<Rightarrow> bool \<Rightarrow> replay \<Rightarrow> replay" where
  "on_eos gen clock seek_ok built rs =
     (if gen \<noteq> rs_gen rs \<or> rs_finished rs then rs
      else if \<not> check_row_count rs then finish clock (rs\<lparr>rs_failed := True\<rparr>)
      else let nxt = rs_session_idx rs + 1; stamps = rs_stamps rs; tm = rs_tm rs in
           if nxt < length (rs_sessions rs)
              \<and> (case tm_to_ns tm of None \<Rightarrow> True | Some t \<Rightarrow> fs_timestamp_ns (hd (stamps ! nxt)) < t)
           then let gap = fs_timestamp_ns (hd (stamps ! nxt)) - fs_timestamp_ns (last (csv_stamps rs)); cap = tm_cap_ns tm;
                    rs = (if 0 < cap \<and> cap < gap
                          then rs\<lparr>rs_playback := (rs_playback rs)\<lparr>pb_pacer :=
                                     pacer_reset (Some (fs_timestamp_ns (hd (stamps ! nxt)) + rs_offset rs - cap)) (pb_pacer (rs_playback rs))\<rparr>,
                                  rs_skipped_ns := rs_skipped_ns rs + (gap - cap)\<rparr>
                          else rs)
                in rebuild nxt built rs
           else if \<not> pb_loop (rs_playback rs) then finish clock rs
           else snd (restart True seek_ok built rs))"

definition on_error :: "nat \<Rightarrow> replay \<Rightarrow> replay" where
  "on_error gen rs = (if gen \<noteq> rs_gen rs then rs else rs\<lparr>rs_failed := True, rs_finished := True\<rparr>)"

definition stop_replay :: "replay \<Rightarrow> replay" where
  "stop_replay rs = rs\<lparr>rs_gen := rs_gen rs + 1, rs_stop := True, rs_playback := cancel_start_gate (rs_playback rs), rs_reader := False\<rparr>"

section \<open>A replay\<close>

text \<open>The state and what was delivered so far.  A reader delivers frames while it exists; requests and the timer change
  the playback state in between.\<close>

inductive replay_run :: "replay \<Rightarrow> frame_stamp list \<Rightarrow> bool" where
  Open: "open_replay fs listing probe cf path run clock mns now_ns = Inr rs \<Longrightarrow> replay_run rs []"
| Frame: "replay_run rs out \<Longrightarrow> rs_reader rs \<Longrightarrow> new_stamp clock v1 mns v2 rs = (st, rs') \<Longrightarrow>
    replay_run rs' (if deliverable st rs' then out @ [st] else out)"
| Eos: "replay_run rs out \<Longrightarrow> replay_run (on_eos gen clock seek_ok built rs) out"
| Restart: "replay_run rs out \<Longrightarrow> replay_run (snd (restart False seek_ok built rs)) out"
| Error: "replay_run rs out \<Longrightarrow> replay_run (on_error gen rs) out"
| Stop: "replay_run rs out \<Longrightarrow> replay_run (stop_replay rs) out"
| Discontinuity: "replay_run rs out \<Longrightarrow> replay_run (snd (take_discontinuity rs)) out"
| Control: "replay_run rs out \<Longrightarrow> replay_run (rs\<lparr>rs_playback := ps\<rparr>) out"

text \<open>What no step changes, and where a state may be.\<close>

definition rows_left :: "replay \<Rightarrow> frame_stamp list" where
  "rows_left rs = drop (rs_idx rs) (csv_stamps rs) @ concat (drop (Suc (rs_session_idx rs)) (rs_stamps rs))"

definition grounded :: "replay \<Rightarrow> bool" where
  "grounded rs \<longleftrightarrow> rs_session_idx rs < length (rs_stamps rs) \<and> length (rs_stamps rs) = length (rs_sessions rs)
     \<and> (\<forall>s \<in> set (rs_stamps rs). s \<noteq> [])
     \<and> tm_first_idx (rs_tm rs) < length (rs_stamps rs)
     \<and> rs_offset rs = rs_retime_offset rs + rs_cycle rs * tm_span_ns (rs_tm rs) \<and> 0 \<le> rs_cycle rs
     \<and> tm_span_ns (rs_tm rs) > last (stamp_times (rs_stamps rs)) - hd (stamp_times (rs_stamps rs))"

text \<open>A delivered stamp: a row of the run, moved by a cycle's shift, inside the window.\<close>

definition from_row :: "replay \<Rightarrow> frame_stamp \<Rightarrow> bool" where
  "from_row rs st \<longleftrightarrow> (\<exists>row c. row \<in> set (concat (rs_stamps rs)) \<and> 0 \<le> c \<and> c \<le> rs_cycle rs
     \<and> st = shift_stamp row (rs_retime_offset rs + c * tm_span_ns (rs_tm rs)) \<and> in_window (rs_tm rs) (fs_timestamp_ns row))"

definition ahead :: "replay \<Rightarrow> frame_stamp list \<Rightarrow> bool" where
  "ahead rs out \<longleftrightarrow> sorted_wrt (<) (map fs_timestamp_ns out)
     \<and> (\<forall>d \<in> set out. fs_timestamp_ns d \<le> last (stamp_times (rs_stamps rs)) + rs_offset rs)
     \<and> (\<forall>d \<in> set out. \<forall>r \<in> set (rows_left rs). fs_timestamp_ns d < fs_timestamp_ns r + rs_offset rs)"

definition replay_inv :: "replay \<Rightarrow> frame_stamp list \<Rightarrow> bool" where
  "replay_inv rs out \<longleftrightarrow> grounded rs \<and> (\<forall>d \<in> set out. from_row rs d)
     \<and> (sorted_wrt (<) (stamp_times (rs_stamps rs)) \<longrightarrow> ahead rs out)"

text \<open>The fields the invariant is about.\<close>

definition same_run :: "replay \<Rightarrow> replay \<Rightarrow> bool" where
  "same_run rs rs' \<longleftrightarrow> rs_stamps rs' = rs_stamps rs \<and> rs_sessions rs' = rs_sessions rs \<and> rs_tm rs' = rs_tm rs
     \<and> rs_retime_offset rs' = rs_retime_offset rs"

definition same_place :: "replay \<Rightarrow> replay \<Rightarrow> bool" where
  "same_place rs rs' \<longleftrightarrow> same_run rs rs' \<and> rs_session_idx rs' = rs_session_idx rs \<and> rs_cycle rs' = rs_cycle rs
     \<and> rs_offset rs' = rs_offset rs \<and> rs_idx rs \<le> rs_idx rs'"

lemma drop_subset: "i \<le> j \<Longrightarrow> set (drop j xs) \<subseteq> set (drop i xs)"
  by (simp add: set_drop_subset_set_drop)

lemma same_place_inv: "same_place rs rs' \<Longrightarrow> replay_inv rs out \<Longrightarrow> replay_inv rs' out"
proof -
  assume p: "same_place rs rs'" and inv: "replay_inv rs out"
  have "set (rows_left rs') \<subseteq> set (rows_left rs)"
  proof -
    have "set (drop (rs_idx rs') (csv_stamps rs)) \<subseteq> set (drop (rs_idx rs) (csv_stamps rs))"
      using p by (intro drop_subset) (simp add: same_place_def)
    then show ?thesis using p unfolding rows_left_def csv_stamps_def same_place_def same_run_def by auto
  qed
  then show ?thesis using inv p
    unfolding replay_inv_def grounded_def ahead_def from_row_def same_place_def same_run_def by auto
qed

lemma finish_place [simp]: "same_place rs (finish clock rs')  \<longleftrightarrow> same_place rs rs'"
  by (simp add: finish_def same_place_def same_run_def)

lemma same_place_refl [simp]: "same_place rs rs"
  by (simp add: same_place_def same_run_def)

lemma pace_fields [simp]:
  "rs_stamps (pace st v1 m v2 rs) = rs_stamps rs" "rs_sessions (pace st v1 m v2 rs) = rs_sessions rs"
  "rs_tm (pace st v1 m v2 rs) = rs_tm rs" "rs_retime_offset (pace st v1 m v2 rs) = rs_retime_offset rs"
  "rs_session_idx (pace st v1 m v2 rs) = rs_session_idx rs" "rs_cycle (pace st v1 m v2 rs) = rs_cycle rs"
  "rs_offset (pace st v1 m v2 rs) = rs_offset rs" "rs_idx (pace st v1 m v2 rs) = rs_idx rs"
  "rs_failed (pace st v1 m v2 rs) = rs_failed rs" "rs_stop (pace st v1 m v2 rs) = rs_stop rs"
  by (simp_all add: pace_def Let_def take_preroll_def split: prod.splits bool.splits)

lemma finish_fields [simp]:
  "rs_stamps (finish c rs) = rs_stamps rs" "rs_sessions (finish c rs) = rs_sessions rs"
  "rs_tm (finish c rs) = rs_tm rs" "rs_retime_offset (finish c rs) = rs_retime_offset rs"
  "rs_session_idx (finish c rs) = rs_session_idx rs" "rs_cycle (finish c rs) = rs_cycle rs"
  "rs_offset (finish c rs) = rs_offset rs" "rs_idx (finish c rs) = rs_idx rs"
  "rs_failed (finish c rs) = rs_failed rs" "rs_stop (finish c rs) = rs_stop rs"
  by (simp_all add: finish_def)

text \<open>One frame: the next row, or none.\<close>

lemma new_stamp_place: "new_stamp clock v1 m v2 rs = (st, rs') \<Longrightarrow> same_place rs rs' \<and> rs_idx rs' = rs_idx rs + 1"
  by (auto simp: new_stamp_def Let_def same_place_def same_run_def csv_stamps_def split: if_splits)

lemma new_stamp_row:
  assumes "new_stamp clock v1 m v2 rs = (st, rs')"
  shows "if rs_idx rs < length (csv_stamps rs) then st = shift_stamp (csv_stamps rs ! rs_idx rs) (rs_offset rs)
    else \<not> deliverable st rs'"
proof (cases "rs_idx rs < length (csv_stamps rs)")
  case True
  then show ?thesis using assms by (auto simp: new_stamp_def Let_def csv_stamps_def split: if_splits)
next
  case False
  then have "rs_failed rs'" using assms by (auto simp: new_stamp_def Let_def csv_stamps_def split: if_splits)
  then show ?thesis using False by (simp add: deliverable_def)
qed

lemma concat_split: "i < length xss \<Longrightarrow> concat xss = concat (take i xss) @ (xss ! i) @ concat (drop (Suc i) xss)"
proof -
  assume "i < length xss"
  then have "concat xss = concat (take i xss @ xss ! i # drop (Suc i) xss)" by (simp add: id_take_nth_drop[symmetric])
  then show ?thesis by simp
qed

lemma rows_left_split:
  assumes "rs_session_idx rs < length (rs_stamps rs)"
  shows "\<exists>before. concat (rs_stamps rs) = before @ rows_left rs"
proof -
  have "concat (rs_stamps rs) = concat (take (rs_session_idx rs) (rs_stamps rs)) @ csv_stamps rs
      @ concat (drop (Suc (rs_session_idx rs)) (rs_stamps rs))"
    unfolding csv_stamps_def by (rule concat_split[OF assms])
  moreover have "csv_stamps rs = take (rs_idx rs) (csv_stamps rs) @ drop (rs_idx rs) (csv_stamps rs)" by simp
  ultimately show ?thesis unfolding rows_left_def by (metis append.assoc)
qed

lemma rows_left_next:
  assumes "rs_idx rs < length (csv_stamps rs)" "same_place rs rs'" "rs_idx rs' = rs_idx rs + 1"
  shows "rows_left rs = csv_stamps rs ! rs_idx rs # rows_left rs'"
  using assms by (simp add: rows_left_def csv_stamps_def same_place_def same_run_def Cons_nth_drop_Suc[symmetric])

lemma stamp_times_rows:
  assumes "rs_session_idx rs < length (rs_stamps rs)" "r \<in> set (rows_left rs)"
  shows "r \<in> set (concat (rs_stamps rs))"
proof -
  obtain before where "concat (rs_stamps rs) = before @ rows_left rs" using rows_left_split[OF assms(1)] by blast
  then show ?thesis using assms(2) by (simp only: set_append UnI2)
qed

lemma sorted_last: "sorted_wrt (<) xs \<Longrightarrow> x \<in> set xs \<Longrightarrow> x \<le> last (xs :: int list)"
  by (induction xs) (auto simp: less_imp_le split: if_splits)

lemma sorted_hd: "sorted_wrt (<) xs \<Longrightarrow> x \<in> set xs \<Longrightarrow> hd xs \<le> (x :: int)"
  by (cases xs) auto

lemma frame_ahead:
  assumes g: "grounded rs" and s: "sorted_wrt (<) (stamp_times (rs_stamps rs))" and a: "ahead rs out"
    and n: "new_stamp clock v1 m v2 rs = (st, rs')" and i: "rs_idx rs < length (csv_stamps rs)"
  shows "ahead rs' (out @ [st])"
proof -
  let ?row = "csv_stamps rs ! rs_idx rs"
  have pl: "same_place rs rs'" "rs_idx rs' = rs_idx rs + 1" using new_stamp_place[OF n] by simp_all
  have st: "fs_timestamp_ns st = fs_timestamp_ns ?row + rs_offset rs" using new_stamp_row[OF n] i by simp
  note rl = rows_left_next[OF i pl]
  obtain before where b: "concat (rs_stamps rs) = before @ ?row # rows_left rs'"
    using rows_left_split[of rs] g rl by (auto simp: grounded_def)
  have later: "fs_timestamp_ns ?row < fs_timestamp_ns r" if "r \<in> set (rows_left rs')" for r
    using s that unfolding stamp_times_def b by (simp add: sorted_wrt_append)
  have "fs_timestamp_ns ?row \<in> set (stamp_times (rs_stamps rs))" unfolding stamp_times_def b by simp
  then have le: "fs_timestamp_ns ?row \<le> last (stamp_times (rs_stamps rs))" by (rule sorted_last[OF s])
  have same: "rs_stamps rs' = rs_stamps rs" "rs_offset rs' = rs_offset rs" using pl by (simp_all add: same_place_def same_run_def)
  show ?thesis
    using a later le st unfolding ahead_def same rl by (auto simp: sorted_wrt_append)
qed


text \<open>The other steps.\<close>

lemma frame_inv:
  assumes "replay_inv rs out" "new_stamp clock v1 m v2 rs = (st, rs')"
  shows "replay_inv rs' (if deliverable st rs' then out @ [st] else out)"
proof (cases "deliverable st rs'")
  case False
  then show ?thesis using assms(1) same_place_inv new_stamp_place[OF assms(2)] by auto
next
  case True
  then have i: "rs_idx rs < length (csv_stamps rs)" using new_stamp_row[OF assms(2)] by (auto split: if_splits)
  have g: "grounded rs" and f: "\<forall>d \<in> set out. from_row rs d" using assms(1) by (simp_all add: replay_inv_def)
  have pl: "same_place rs rs'" using new_stamp_place[OF assms(2)] by simp
  then have inv: "replay_inv rs' out" using same_place_inv assms(1) by blast
  let ?row = "csv_stamps rs ! rs_idx rs"
  have st: "st = shift_stamp ?row (rs_offset rs)" using new_stamp_row[OF assms(2)] i by simp
  have "?row \<in> set (rows_left rs)" using rows_left_next[OF i pl] new_stamp_place[OF assms(2)] by simp
  then have row: "?row \<in> set (concat (rs_stamps rs))" using stamp_times_rows g by (auto simp: grounded_def)
  have same: "rs_stamps rs' = rs_stamps rs" "rs_offset rs' = rs_offset rs" "rs_tm rs' = rs_tm rs" "rs_cycle rs' = rs_cycle rs"
    "rs_retime_offset rs' = rs_retime_offset rs" using pl by (simp_all add: same_place_def same_run_def)
  have "from_row rs' st"
    unfolding from_row_def same
    using row g st True by (intro exI[of _ ?row] exI[of _ "rs_cycle rs"]) (auto simp: grounded_def deliverable_def same)
  moreover have "ahead rs' (out @ [st])" if "sorted_wrt (<) (stamp_times (rs_stamps rs'))"
    using frame_ahead[OF g _ _ assms(2) i] that assms(1) same by (simp add: replay_inv_def)
  ultimately show ?thesis using inv True by (simp add: replay_inv_def)
qed

lemma rebuild_fields [simp]:
  "rs_stamps (rebuild i b rs) = rs_stamps rs" "rs_sessions (rebuild i b rs) = rs_sessions rs"
  "rs_tm (rebuild i b rs) = rs_tm rs" "rs_retime_offset (rebuild i b rs) = rs_retime_offset rs"
  "rs_session_idx (rebuild i b rs) = i" "rs_cycle (rebuild i b rs) = rs_cycle rs"
  "rs_offset (rebuild i b rs) = rs_offset rs" "rs_idx (rebuild i b rs) = 0"
  by (simp_all add: rebuild_def activate_session_def Let_def)

lemma inv_playback [simp]: "replay_inv (rs\<lparr>rs_playback := ps\<rparr>) out = replay_inv rs out"
  "replay_inv (rs\<lparr>rs_failed := b, rs_finished := b2\<rparr>) out = replay_inv rs out"
  "replay_inv (rs\<lparr>rs_skipped_ns := k\<rparr>) out = replay_inv rs out"
  by (simp_all add: replay_inv_def grounded_def ahead_def from_row_def rows_left_def csv_stamps_def)

text \<open>The next session: what is left is a part of what was.\<close>

lemma rebuild_next_inv:
  assumes "replay_inv rs out" "Suc (rs_session_idx rs) < length (rs_sessions rs)"
  shows "replay_inv (rebuild (Suc (rs_session_idx rs)) b rs) out"
proof -
  let ?r = "rebuild (Suc (rs_session_idx rs)) b rs" and ?n = "Suc (rs_session_idx rs)"
  have g: "grounded rs" using assms(1) by (simp add: replay_inv_def)
  then have l: "?n < length (rs_stamps rs)" using assms(2) by (simp add: grounded_def)
  have "rows_left ?r = concat (drop ?n (rs_stamps rs))"
    using l by (simp add: rows_left_def csv_stamps_def Cons_nth_drop_Suc[symmetric])
  then have sub: "set (rows_left ?r) \<subseteq> set (rows_left rs)" by (simp add: rows_left_def)
  have "grounded ?r" using g l by (simp add: grounded_def)
  moreover have "\<forall>d \<in> set out. from_row ?r d" using assms(1) by (simp add: replay_inv_def from_row_def)
  moreover have "ahead rs out \<longrightarrow> ahead ?r out" using sub by (auto simp: ahead_def)
  ultimately show ?thesis using assms(1) by (simp add: replay_inv_def)
qed

text \<open>A new cycle: everything that was delivered lies before its first row.\<close>

definition next_cycle :: "replay \<Rightarrow> replay \<Rightarrow> bool" where
  "next_cycle rs rs' \<longleftrightarrow> same_run rs rs' \<and> rs_session_idx rs' < length (rs_stamps rs) \<and> rs_cycle rs' = rs_cycle rs + 1
     \<and> rs_offset rs' = rs_offset rs + tm_span_ns (rs_tm rs)"

lemma next_cycle_inv:
  assumes inv: "replay_inv rs out" and n: "next_cycle rs rs'"
  shows "replay_inv rs' out"
proof -
  have g: "grounded rs" using inv by (simp add: replay_inv_def)
  have same: "rs_stamps rs' = rs_stamps rs" "rs_tm rs' = rs_tm rs" "rs_retime_offset rs' = rs_retime_offset rs"
    "rs_cycle rs' = rs_cycle rs + 1" "rs_offset rs' = rs_offset rs + tm_span_ns (rs_tm rs)" "rs_sessions rs' = rs_sessions rs"
    "rs_session_idx rs' < length (rs_stamps rs)"
    using n by (simp_all add: next_cycle_def same_run_def)
  have g': "grounded rs'" using g same by (simp add: grounded_def algebra_simps)
  have "from_row rs' d" if fr: "from_row rs d" for d
  proof -
    obtain row c where "row \<in> set (concat (rs_stamps rs))" "0 \<le> c" "c \<le> rs_cycle rs"
      "d = shift_stamp row (rs_retime_offset rs + c * tm_span_ns (rs_tm rs))" "in_window (rs_tm rs) (fs_timestamp_ns row)"
      using fr unfolding from_row_def by blast
    then show ?thesis unfolding from_row_def same by (intro exI[of _ row] exI[of _ c]) simp
  qed
  moreover have "ahead rs' out" if s: "sorted_wrt (<) (stamp_times (rs_stamps rs))" and a: "ahead rs out"
  proof -
    have lt: "fs_timestamp_ns d < hd (stamp_times (rs_stamps rs)) + rs_offset rs'" if "d \<in> set out" for d
    proof -
      have "fs_timestamp_ns d \<le> last (stamp_times (rs_stamps rs)) + rs_offset rs" using a that by (auto simp: ahead_def)
      then show ?thesis using g same(5) unfolding grounded_def by linarith
    qed
    have first: "hd (stamp_times (rs_stamps rs)) \<le> fs_timestamp_ns r" if "r \<in> set (rows_left rs')" for r
    proof -
      have "r \<in> set (concat (rs_stamps rs'))" by (rule stamp_times_rows[OF _ that]) (use g' in \<open>simp add: grounded_def\<close>)
      then have "fs_timestamp_ns r \<in> set (stamp_times (rs_stamps rs))" unfolding same(1) stamp_times_def set_map by (rule imageI)
      then show ?thesis by (rule sorted_hd[OF s])
    qed
    have ne: "stamp_times (rs_stamps rs) \<noteq> []"
    proof -
      obtain x where "x \<in> set (rs_stamps rs)" "x \<noteq> []" using g unfolding grounded_def by (meson nth_mem)
      then show ?thesis by (auto simp: stamp_times_def)
    qed
    then have "hd (stamp_times (rs_stamps rs)) \<le> last (stamp_times (rs_stamps rs))" by (simp add: sorted_last[OF s])
    then have off: "rs_offset rs \<le> rs_offset rs'" using g same(5) unfolding grounded_def by linarith
    have "fs_timestamp_ns d < fs_timestamp_ns r + rs_offset rs'" if "d \<in> set out" "r \<in> set (rows_left rs')" for d r
      using lt[OF that(1)] first[OF that(2)] by linarith
    moreover have "fs_timestamp_ns d \<le> last (stamp_times (rs_stamps rs)) + rs_offset rs'" if "d \<in> set out" for d
    proof -
      have "fs_timestamp_ns d \<le> last (stamp_times (rs_stamps rs)) + rs_offset rs" using a that by (simp add: ahead_def)
      then show ?thesis using off by linarith
    qed
    ultimately show ?thesis using a unfolding ahead_def same(1) by simp
  qed
  ultimately show ?thesis using inv g' unfolding replay_inv_def same(1) by blast
qed

lemma begin_cycle_fields [simp]:
  "rs_stamps (begin_cycle rs) = rs_stamps rs" "rs_sessions (begin_cycle rs) = rs_sessions rs"
  "rs_tm (begin_cycle rs) = rs_tm rs" "rs_retime_offset (begin_cycle rs) = rs_retime_offset rs"
  "rs_session_idx (begin_cycle rs) = rs_session_idx rs" "rs_cycle (begin_cycle rs) = rs_cycle rs + 1"
  "rs_offset (begin_cycle rs) = rs_retime_offset rs + (rs_cycle rs + 1) * tm_span_ns (rs_tm rs)"
  by (simp_all add: begin_cycle_def Let_def)

lemma restart_next:
  assumes "grounded rs"
  shows "next_cycle rs (snd (restart l seek_ok built rs))"
proof -
  define r where "r = snd (restart l seek_ok built rs)"
  have "rs_stamps r = rs_stamps rs \<and> rs_sessions r = rs_sessions rs \<and> rs_tm r = rs_tm rs \<and> rs_retime_offset r = rs_retime_offset rs
     \<and> rs_session_idx r \<in> {rs_session_idx rs, tm_first_idx (rs_tm rs)} \<and> rs_cycle r = rs_cycle rs + 1
     \<and> rs_offset r = rs_retime_offset rs + (rs_cycle rs + 1) * tm_span_ns (rs_tm rs)"
    unfolding r_def restart_def Let_def by (cases "may_seek rs"; cases seek_ok; cases built; cases l; simp)
  then show ?thesis using assms unfolding r_def[symmetric] next_cycle_def same_run_def grounded_def by (auto simp: distrib_right)
qed

lemma restart_inv: "replay_inv rs out \<Longrightarrow> replay_inv (snd (restart l seek_ok built rs)) out"
  using next_cycle_inv restart_next unfolding replay_inv_def by blast

lemma eos_inv: "replay_inv rs out \<Longrightarrow> replay_inv (on_eos gen clock seek_ok built rs) out"
proof -
  assume inv: "replay_inv rs out"
  have fin: "replay_inv (finish clock (rs\<lparr>rs_failed := True\<rparr>)) out" "replay_inv (finish clock rs) out"
    by (rule same_place_inv[OF _ inv], simp add: same_place_def same_run_def)+
  have step: "replay_inv (rebuild (Suc (rs_session_idx rs)) built r) out"
    if "Suc (rs_session_idx rs) < length (rs_sessions rs)" "same_place rs r" for r
    using rebuild_next_inv[OF same_place_inv[OF that(2) inv]] that by (simp add: same_place_def same_run_def)
  have "same_place rs (rs\<lparr>rs_playback := ps, rs_skipped_ns := k\<rparr>)" for ps k by (simp add: same_place_def same_run_def)
  with step show ?thesis using inv fin restart_inv unfolding on_eos_def Let_def by simp
qed


lemma first_session_bound: "first_session f ss = Some i \<Longrightarrow> i < length ss"
  by (induction f ss arbitrary: i rule: first_session.induct) (auto split: if_splits)

lemma load_sessions_ok: "load_sessions fs listing rs = Inr stamps \<Longrightarrow> length stamps = length rs \<and> (\<forall>s \<in> set stamps. s \<noteq> [])"
proof (induction rs arbitrary: stamps)
  case (Cons r rs)
  then show ?case by (auto split: sum.splits if_splits)
qed simp

lemma discover_nonempty: "discover_sessions fs path run = Inr rs \<Longrightarrow> rs \<noteq> []"
proof -
  have "load_run fs False b \<noteq> Inr None" for b
    by (auto simp: load_run_def Let_def split: option.splits if_splits)
  then show "discover_sessions fs path run = Inr rs \<Longrightarrow> rs \<noteq> []"
    by (auto simp: discover_sessions_def Let_def split: if_splits option.splits)
qed

lemma make_timeline_ok:
  assumes "make_timeline cf stamps = Inr tm" "stamps \<noteq> []"
  shows "tm_first_idx tm < length stamps" "tm_span_ns tm > last (stamp_times stamps) - hd (stamp_times stamps)"
proof -
  have "0 < length stamps" using assms(2) by simp
  then show "tm_first_idx tm < length stamps"
    using assms(1) first_session_bound
    by (auto simp: make_timeline_def Let_def split: if_splits option.splits)
  have "tm_span_ns tm = last (stamp_times stamps) - hd (stamp_times stamps) + median_interval_ns (map fs_timestamp_ns (hd stamps))"
    using assms(1) unfolding make_timeline_def Let_def by (auto split: if_splits)
  then show "tm_span_ns tm > last (stamp_times stamps) - hd (stamp_times stamps)"
    using median_interval_positive[of "map fs_timestamp_ns (hd stamps)"] by linarith
qed

lemma new_replay_fields [simp]:
  "rs_stamps (new_replay cf clock mns ss stamps caps tm retime sc) = stamps"
  "rs_sessions (new_replay cf clock mns ss stamps caps tm retime sc) = ss"
  "rs_tm (new_replay cf clock mns ss stamps caps tm retime sc) = tm"
  "rs_retime_offset (new_replay cf clock mns ss stamps caps tm retime sc) = retime"
  "rs_session_idx (new_replay cf clock mns ss stamps caps tm retime sc) = tm_first_idx tm"
  "rs_cycle (new_replay cf clock mns ss stamps caps tm retime sc) = 0"
  "rs_offset (new_replay cf clock mns ss stamps caps tm retime sc) = retime"
  "rs_idx (new_replay cf clock mns ss stamps caps tm retime sc) = 0"
  by (simp_all add: new_replay_def activate_session_def Let_def)

lemma open_inv: "open_replay fs listing probe cf path run clock mns now_ns = Inr rs \<Longrightarrow> replay_inv rs []"
proof -
  assume o: "open_replay fs listing probe cf path run clock mns now_ns = Inr rs"
  then obtain sessions where d: "discover_sessions fs path run = Inr sessions"
    by (auto simp: open_replay_def split: sum.splits)
  from o d obtain stamps tm retime caps sc where r:
    "load_sessions fs listing sessions = Inr stamps" "make_timeline cf stamps = Inr tm"
    "rs = new_replay cf clock mns sessions stamps caps tm retime sc"
    by (auto simp: open_replay_def split: if_splits)
  have l: "length stamps = length sessions" "\<forall>s \<in> set stamps. s \<noteq> []" using load_sessions_ok[OF r(1)] by simp_all
  then have "stamps \<noteq> []" using discover_nonempty[OF d] by auto
  then show ?thesis using l make_timeline_ok[OF r(2)] by (simp add: replay_inv_def grounded_def ahead_def r(3))
qed

lemma replay_run_inv: "replay_run rs out \<Longrightarrow> replay_inv rs out"
proof (induction rule: replay_run.induct)
  case (Open fs listing probe cf path run clock mns now_ns rs)
  then show ?case by (rule open_inv)
next
  case (Frame rs out clock v1 mns v2 st rs')
  show ?case by (rule frame_inv[OF Frame.IH Frame.hyps(3)])
next
  case (Eos rs out gen clock seek_ok built)
  show ?case by (rule eos_inv[OF Eos.IH])
next
  case (Restart rs out seek_ok built)
  show ?case by (rule restart_inv[OF Restart.IH])
next
  case (Error rs out gen)
  show ?case by (rule same_place_inv[OF _ Error.IH]) (simp add: on_error_def same_place_def same_run_def)
next
  case (Stop rs out)
  show ?case by (rule same_place_inv[OF _ Stop.IH]) (simp add: stop_replay_def same_place_def same_run_def)
next
  case (Discontinuity rs out)
  show ?case by (rule same_place_inv[OF _ Discontinuity.IH]) (simp add: take_discontinuity_def same_place_def same_run_def)
next
  case (Control rs out ps)
  show ?case by (rule same_place_inv[OF _ Control.IH]) (simp add: same_place_def same_run_def)
qed

text \<open>C5: a replay is faithful and strictly monotonic.  Whatever happens - sessions following each other, loops,
  restarts, failed seeks, errors, a stop - every delivered stamp is a recorded row, its window respected,
  moved as a whole by the re-time offset and a whole number of cycle lengths; and when the recording's
  timestamps increase strictly, so do the delivered ones, across sessions and cycles.\<close>

theorem replay_monotonic:
  assumes "replay_run rs out"
  shows "(\<forall>st \<in> set out. \<exists>row c. row \<in> set (concat (rs_stamps rs)) \<and> 0 \<le> c \<and> c \<le> rs_cycle rs
        \<and> st = shift_stamp row (rs_retime_offset rs + c * tm_span_ns (rs_tm rs)) \<and> in_window (rs_tm rs) (fs_timestamp_ns row))
    \<and> (sorted_wrt (<) (map fs_timestamp_ns (concat (rs_stamps rs))) \<longrightarrow> sorted_wrt (<) (map fs_timestamp_ns out))"
  using replay_run_inv[OF assms] by (auto simp: replay_inv_def from_row_def ahead_def stamp_times_def)

text \<open>A run of one session and two rows, played twice.\<close>

definition demo_stamp :: "int \<Rightarrow> int \<Rightarrow> frame_stamp" where
  "demo_stamp n t = \<lparr>fs_frame_id = n, fs_timestamp_ns = t, fs_source = SYSTEM, fs_system_ns = t, fs_camera_ns = t, fs_chunk_ns = None\<rparr>"

definition demo_run :: play_fs where
  "demo_run = \<lparr>pf_isdir = (\<lambda>p. p = ''/r''), pf_files = [''/r/b.json'', ''/r/b.csv'', ''/r/b-00000.mkv''],
     pf_json = (\<lambda>p. Some [(''pixel_format'', JStr ''Mono8''), (''width'', JInt 640), (''height'', JInt 480),
        (''first_timestamp_ns'', JInt 7), (''session'', JObj [(''segments'', JInt 1)])]),
     pf_text = (\<lambda>p. csv_text [csv_row (demo_stamp 0 7) 0, csv_row (demo_stamp 1 9) 2]), pf_mtime = (\<lambda>p. 0)\<rparr>"

definition demo_conf :: replay_conf where
  "demo_conf = \<lparr>cf_speed = JInt 0, cf_loop = True, cf_retime = Some ''original'', cf_gap_max_s = 0, cf_epoch = None,
     cf_from_s = None, cf_to_s = None, cf_initial_state = ''playing'', cf_start_at = None\<rparr>"

definition demo_replay :: "replay_error + replay" where
  "demo_replay = open_replay demo_run (\<lambda>_. []) (\<lambda>_. Some ''image/jpeg'') demo_conf ''/r'' [] 0 0 0"

definition demo_play :: "replay \<Rightarrow> (frame_stamp \<times> bool) list \<times> replay" where
  "demo_play rs =
     (let (a, r1) = new_stamp 0 Resume 0 Resume rs; (b, r2) = new_stamp 0 Resume 0 Resume r1;
          r3 = on_eos (rs_gen r2) 0 True True r2; (c, r4) = new_stamp 0 Resume 0 Resume r3
      in ([(a, rs_reader rs \<and> deliverable a r1), (b, rs_reader r1 \<and> deliverable b r2), (c, rs_reader r3 \<and> deliverable c r4)], r4))"

lemma demo_works: "(case demo_replay of Inl e \<Rightarrow> False
    | Inr rs \<Rightarrow> map (\<lambda>(st, ok). (fs_timestamp_ns st, ok)) (fst (demo_play rs)) = [(7, True), (9, True), (11, True)]) = True"
  by code_simp

theorem replay_monotonic_witness:
  "\<exists>rs out. replay_run rs out \<and> map fs_timestamp_ns out = [7, 9, 11] \<and> sorted_wrt (<) (map fs_timestamp_ns out)
     \<and> (\<forall>st \<in> set out. \<exists>row c. row \<in> set (concat (rs_stamps rs)) \<and> st = shift_stamp row (rs_retime_offset rs + c * tm_span_ns (rs_tm rs)))"
proof -
  obtain r0 where o: "demo_replay = Inr r0"
      and w: "map (\<lambda>(st, ok). (fs_timestamp_ns st, ok)) (fst (demo_play r0)) = [(7, True), (9, True), (11, True)]"
    using demo_works by (auto split: sum.splits)
  obtain a r1 b r2 c r4 where s: "new_stamp 0 Resume 0 Resume r0 = (a, r1)" "new_stamp 0 Resume 0 Resume r1 = (b, r2)"
      "new_stamp 0 Resume 0 Resume (on_eos (rs_gen r2) 0 True True r2) = (c, r4)"
    by (metis surj_pair)
  let ?r3 = "on_eos (rs_gen r2) 0 True True r2"
  have ok: "rs_reader r0" "deliverable a r1" "rs_reader r1" "deliverable b r2" "rs_reader ?r3" "deliverable c r4"
    and ts: "fs_timestamp_ns a = 7" "fs_timestamp_ns b = 9" "fs_timestamp_ns c = 11"
    using w s by (simp_all add: demo_play_def Let_def)
  have r0: "replay_run r0 []" using o unfolding demo_replay_def by (rule replay_run.Open)
  have r1: "replay_run r1 [a]" using replay_run.Frame[OF r0 ok(1) s(1)] ok(2) by simp
  have r2: "replay_run r2 [a, b]" using replay_run.Frame[OF r1 ok(3) s(2)] ok(4) by simp
  have "replay_run r4 [a, b, c]" using replay_run.Frame[OF replay_run.Eos[OF r2] ok(5) s(3)] ok(6) by simp
  from replay_monotonic[OF this] this show ?thesis using ts
    by (intro exI[of _ r4] exI[of _ "[a, b, c]"]) (simp only: list.map list.set sorted_wrt.simps, auto)
qed

end
