(* ===== verification/Boson_Wire.thy ===== *)
theory Boson_Wire
  imports Cam_Prelude
begin

text \<open>
  The serial command channel of \<open>core-driver/cam_driver/health_boson.py\<close>: framing with its CRC and escapes, the
  splitter that cuts a byte stream into frames, and the loop that waits for the reply to a command.
  \<open>binascii.crc_hqx\<close> is CRC-CCITT (polynomial 0x1021, most significant bit first); what the port delivers while
  the deadline has not passed is a list of reads.
\<close>

unbundle bit_operations_syntax

section \<open>Framing\<close>

definition START :: byte where "START = 0x8E"
definition END_MARK :: byte where "END_MARK = 0xAE"
definition ESC :: byte where "ESC = 0x9E"

definition ESCAPES :: "(byte \<times> byte) list" where
  "ESCAPES = [(0x8E, 0x81), (0x9E, 0x91), (0xAE, 0xA1)]"

definition CRC_INIT :: "16 word" where "CRC_INIT = 0x1D0F"
definition REQUEST_STATUS :: nat where "REQUEST_STATUS = 0xFFFFFFFF"

definition crc_bit :: "16 word \<Rightarrow> 16 word" where
  "crc_bit c = (if bit c 15 then push_bit 1 c XOR 0x1021 else push_bit 1 c)"

definition crc_byte :: "16 word \<Rightarrow> byte \<Rightarrow> 16 word" where
  "crc_byte c b = (crc_bit ^^ 8) (c XOR push_bit 8 (ucast b))"

definition crc16 :: "bytes \<Rightarrow> 16 word" where
  "crc16 data = foldl crc_byte CRC_INIT data"

definition escape :: "bytes \<Rightarrow> bytes" where
  "escape body = concat (map (\<lambda>b. case map_of ESCAPES b of Some e \<Rightarrow> [ESC, e] | None \<Rightarrow> [b]) body)"

datatype boson_error = Inside_Escape | Not_A_Frame | Short_Frame nat | Crc_Mismatch | No_Reply nat | Camera_Returned nat nat | Too_Short nat nat
  | Not_Answering

fun unescape :: "bytes \<Rightarrow> boson_error + bytes" where
  "unescape [] = Inr []"
| "unescape (b # bs) =
     (if b = ESC
      then (case bs of [] \<Rightarrow> Inl Inside_Escape | n # rest \<Rightarrow> ebind (unescape rest) (\<lambda>out. Inr ((n + 0x0D) # out)))
      else ebind (unescape bs) (\<lambda>out. Inr (b # out)))"

text \<open>\<open>struct.pack(">BIII", ...)\<close>: the function id and the status have to fit 32 bits.\<close>

definition encode_frame :: "nat \<Rightarrow> nat \<Rightarrow> nat \<Rightarrow> bytes \<Rightarrow> bytes" where
  "encode_frame seq fid status payload =
     (let body = enc BE 1 0 @ enc BE 4 (seq mod 2 ^ 32) @ enc BE 4 fid @ enc BE 4 status @ payload;
          body = body @ enc BE 2 (unat (crc16 body))
      in [START] @ escape body @ [END_MARK])"

definition decode_frame :: "bytes \<Rightarrow> boson_error + nat \<times> nat \<times> nat \<times> bytes" where
  "decode_frame frame =
     (if length frame < 2 \<or> hd frame \<noteq> START \<or> last frame \<noteq> END_MARK then Inl Not_A_Frame
      else ebind (unescape (butlast (tl frame))) (\<lambda>body.
        if length body < 15 then Inl (Short_Frame (length body))
        else let n = length body - 2 in
          if dec BE (drop n body) \<noteq> unat (crc16 (take n body)) then Inl Crc_Mismatch
          else Inr (dec BE (slice body 1 5), dec BE (slice body 5 9), dec BE (slice body 9 13), slice body 13 n)))"

text \<open>\<open>FrameSplitter.feed\<close>: the frames of what is buffered, and what stays.\<close>

function split_frames :: "bytes \<Rightarrow> bytes list \<times> bytes" where
  "split_frames buf =
     (case dropWhile (\<lambda>b. b \<noteq> START) buf of
        [] \<Rightarrow> ([], [])
      | s # rest \<Rightarrow>
          if END_MARK \<notin> set rest then ([], s # rest)
          else (case split_frames (drop 1 (dropWhile (\<lambda>b. b \<noteq> END_MARK) rest)) of
                  (fs, left) \<Rightarrow> ((s # takeWhile (\<lambda>b. b \<noteq> END_MARK) rest @ [END_MARK]) # fs, left)))"
  by pat_completeness auto
termination
proof (relation "measure length")
  fix buf :: bytes and s rest
  assume "dropWhile (\<lambda>b. b \<noteq> START) buf = s # rest"
  then have "length rest < length buf" by (metis length_Cons length_dropWhile_le Suc_le_lessD)
  moreover have "length (drop 1 (dropWhile (\<lambda>b. b \<noteq> END_MARK) rest)) \<le> length rest"
    using length_dropWhile_le[of "\<lambda>b. b \<noteq> END_MARK" rest] by simp
  ultimately show "(drop 1 (dropWhile (\<lambda>b. b \<noteq> END_MARK) rest), buf) \<in> measure length" by simp
qed simp

declare split_frames.simps [simp del]

definition feed_splitter :: "bytes \<Rightarrow> bytes \<Rightarrow> bytes list \<times> bytes" where
  "feed_splitter data buf = split_frames (buf @ data)"

fun feed_all :: "bytes list \<Rightarrow> bytes \<Rightarrow> bytes list \<times> bytes" where
  "feed_all [] buf = ([], buf)"
| "feed_all (d # ds) buf =
     (case feed_splitter d buf of (fs, buf) \<Rightarrow> (case feed_all ds buf of (gs, buf) \<Rightarrow> (fs @ gs, buf)))"

section \<open>A command and its reply\<close>

datatype port_error = Gone | Bad_Reply boson_error

text \<open>The frames of a read: \<open>None\<close> when the reply is not among them.\<close>

fun take_reply :: "nat \<Rightarrow> nat \<Rightarrow> bytes list \<Rightarrow> (port_error + bytes) option" where
  "take_reply seq fid [] = None"
| "take_reply seq fid (f # fs) =
     (case decode_frame f of
        Inl _ \<Rightarrow> take_reply seq fid fs
      | Inr (rseq, rfid, status, body) \<Rightarrow>
          if rseq \<noteq> seq \<or> rfid \<noteq> fid then take_reply seq fid fs
          else if status \<noteq> 0 then Some (Inl (Bad_Reply (Camera_Returned fid status)))
          else Some (Inr body))"

fun await_reply :: "nat \<Rightarrow> nat \<Rightarrow> bytes list \<Rightarrow> bytes \<Rightarrow> port_error + bytes" where
  "await_reply seq fid [] buf = Inl (Bad_Reply (No_Reply fid))"
| "await_reply seq fid (d # ds) buf =
     (if d = [] then Inl Gone
      else case feed_splitter d buf of
        (fs, buf) \<Rightarrow> (case take_reply seq fid fs of Some r \<Rightarrow> r | None \<Rightarrow> await_reply seq fid ds buf))"

record boson_port =
  bp_open :: bool
  bp_seq :: nat
  bp_sent :: "bytes list"

text \<open>\<open>BosonPort.command\<close>; what was unread before is discarded, and the splitter starts empty.\<close>

definition command :: "nat \<Rightarrow> bytes list \<Rightarrow> boson_port \<Rightarrow> (port_error + bytes) \<times> boson_port" where
  "command fid reads bp =
     (if \<not> bp_open bp then (Inl Gone, bp)
      else let seq = (bp_seq bp + 1) mod 2 ^ 32;
               bp = bp\<lparr>bp_seq := seq, bp_sent := bp_sent bp @ [encode_frame seq fid REQUEST_STATUS []]\<rparr>
           in (await_reply seq fid reads [], bp))"

section \<open>Frames survive the wire\<close>

lemma map_of_ESCAPES: "map_of ESCAPES b = (if b = START then Some 0x81 else if b = ESC then Some 0x91 else if b = END_MARK then Some 0xA1 else None)"
  by (auto simp: ESCAPES_def START_def ESC_def END_MARK_def)

lemma escape_simps [simp]:
  "escape [] = []"
  "escape (b # bs) = (if b = START then [ESC, 0x81] else if b = ESC then [ESC, 0x91] else if b = END_MARK then [ESC, 0xA1] else [b]) @ escape bs"
  by (simp_all add: escape_def map_of_ESCAPES)

lemma marks_distinct: "START \<noteq> ESC" "END_MARK \<noteq> ESC" "START \<noteq> END_MARK" "START \<notin> {0x81, 0x91, 0xA1}" "END_MARK \<notin> {0x81, 0x91, 0xA1}"
  by (simp_all add: START_def ESC_def END_MARK_def)

lemma escape_unmarked: "START \<notin> set (escape body)" "END_MARK \<notin> set (escape body)"
  using marks_distinct by (induction body) auto

lemma unescape_escape: "unescape (escape body) = Inr body"
proof -
  have "(0x81 :: byte) + 0x0D = START" "(0x91 :: byte) + 0x0D = ESC" "(0xA1 :: byte) + 0x0D = END_MARK"
    by (simp_all add: START_def ESC_def END_MARK_def)
  then show ?thesis by (induction body) auto
qed

lemma slice_fields:
  assumes "length a = 1" "length b = 4" "length c = 4" "length d = 4"
  shows "slice (a @ b @ c @ d @ p @ t) 1 5 = b" "slice (a @ b @ c @ d @ p @ t) 5 9 = c" "slice (a @ b @ c @ d @ p @ t) 9 13 = d"
    "slice (a @ b @ c @ d @ p @ t) 13 (13 + length p) = p"
  using assms by (simp_all add: slice_def)

lemma decode_body:
  assumes "length a = 1" "length b = 4" "length c = 4" "length d = 4" "t = enc BE 2 (unat (crc16 (a @ b @ c @ d @ p)))"
  shows "decode_frame ([START] @ escape (a @ b @ c @ d @ p @ t) @ [END_MARK]) = Inr (dec BE b, dec BE c, dec BE d, p)"
proof -
  let ?body = "a @ b @ c @ d @ p @ t"
  have un: "unescape (butlast (tl ([START] @ escape ?body @ [END_MARK]))) = Inr ?body" by (simp only: append.simps list.sel butlast_snoc unescape_escape)
  have t: "length t = 2" using assms(5) by simp
  have n: "length ?body - 2 = 13 + length p" "\<not> length ?body < 15" using assms t by simp_all
  have parts: "drop (13 + length p) ?body = t" "take (13 + length p) ?body = a @ b @ c @ d @ p" using assms t by simp_all
  have "unat (crc16 (a @ b @ c @ d @ p)) < 256 ^ 2" using unsigned_less[of "crc16 (a @ b @ c @ d @ p)"] by simp
  then have crc: "dec BE t = unat (crc16 (a @ b @ c @ d @ p))" unfolding assms(5) dec_enc by (rule mod_less)
  have marks: "\<not> (length ([START] @ escape ?body @ [END_MARK]) < 2 \<or> hd ([START] @ escape ?body @ [END_MARK]) \<noteq> START
      \<or> last ([START] @ escape ?body @ [END_MARK]) \<noteq> END_MARK)" by simp
  show ?thesis
    unfolding decode_frame_def if_not_P[OF marks] un ebind.simps if_not_P[OF n(2)] Let_def n(1) parts crc slice_fields[OF assms(1-4)] by simp
qed

lemma decode_encode:
  assumes "fid < 2 ^ 32" "status < 2 ^ 32"
  shows "decode_frame (encode_frame seq fid status payload) = Inr (seq mod 2 ^ 32, fid, status, payload)"
proof -
  have "dec BE (enc BE 4 n) = n" if "n < 2 ^ 32" for n using that by (simp add: dec_enc)
  then show ?thesis
    using decode_body[of "enc BE 1 0" "enc BE 4 (seq mod 2 ^ 32)" "enc BE 4 fid" "enc BE 4 status" _ payload, OF _ _ _ _ refl] assms
    by (simp add: encode_frame_def Let_def)
qed

section \<open>Any chunking\<close>

lemma split_step:
  "split_frames buf =
     (case dropWhile (\<lambda>b. b \<noteq> START) buf of
        [] \<Rightarrow> ([], [])
      | s # rest \<Rightarrow>
          if END_MARK \<notin> set rest then ([], s # rest)
          else (case split_frames (drop 1 (dropWhile (\<lambda>b. b \<noteq> END_MARK) rest)) of
                  (fs, left) \<Rightarrow> ((s # takeWhile (\<lambda>b. b \<noteq> END_MARK) rest @ [END_MARK]) # fs, left)))"
  by (rule split_frames.simps)

lemma split_garbage: "START \<notin> set g \<Longrightarrow> split_frames (g @ buf) = split_frames buf"
proof -
  assume "START \<notin> set g"
  then have "dropWhile (\<lambda>b. b \<noteq> START) (g @ buf) = dropWhile (\<lambda>b. b \<noteq> START) buf"
    by (induction g) auto
  then show ?thesis using split_step[of "g @ buf"] split_step[of buf] by simp
qed

lemma split_one:
  assumes "END_MARK \<notin> set body"
  shows "split_frames (START # body @ END_MARK # rest) = (case split_frames rest of (fs, left) \<Rightarrow> ((START # body @ [END_MARK]) # fs, left))"
proof -
  have "takeWhile (\<lambda>b. b \<noteq> END_MARK) (body @ END_MARK # rest) = body" "dropWhile (\<lambda>b. b \<noteq> END_MARK) (body @ END_MARK # rest) = END_MARK # rest"
    using assms by (induction body) auto
  then show ?thesis using split_step[of "START # body @ END_MARK # rest"] by simp
qed

lemma split_incomplete: "END_MARK \<notin> set body \<Longrightarrow> split_frames (START # body) = ([], START # body)"
  using split_step[of "START # body"] by simp

lemma split_none: "START \<notin> set g \<Longrightarrow> split_frames g = ([], [])"
  using split_garbage[of g "[]"] split_step[of "[]"] by simp

lemma stream_cases:
  obtains (none) "START \<notin> set buf"
  | (partial) g body where "buf = g @ START # body" "START \<notin> set g" "END_MARK \<notin> set body"
  | (frame) g body rest where "buf = g @ START # body @ END_MARK # rest" "START \<notin> set g" "END_MARK \<notin> set body"
proof (cases "START \<in> set buf")
  case True
  then obtain g tail where t: "buf = g @ START # tail" "START \<notin> set g" by (meson split_list_first)
  show thesis
  proof (cases "END_MARK \<in> set tail")
    case True
    then obtain body rest where "tail = body @ END_MARK # rest" "END_MARK \<notin> set body" by (meson split_list_first)
    then show thesis using frame t by blast
  qed (use partial t in blast)
qed (use none in blast)

text \<open>Cutting what came so far and then the rest is cutting all at once.\<close>

lemma split_append:
  "split_frames (xs @ ys) = (case split_frames xs of (fs, b) \<Rightarrow> (case split_frames (b @ ys) of (gs, c) \<Rightarrow> (fs @ gs, c)))"
proof (induction "length xs" arbitrary: xs rule: less_induct)
  case less
  show ?case
  proof (cases xs rule: stream_cases)
    case none
    then show ?thesis using split_garbage[of xs ys] split_none[of xs] by (simp split: prod.split)
  next
    case (partial g body)
    then show ?thesis using split_garbage[of g "START # body @ ys"] split_garbage[of g "START # body"] split_incomplete[of body]
      by (simp split: prod.split)
  next
    case (frame g body rest)
    have ih: "split_frames (rest @ ys) = (case split_frames rest of (fs, b) \<Rightarrow> (case split_frames (b @ ys) of (gs, c) \<Rightarrow> (fs @ gs, c)))"
      using less[of rest] frame by simp
    show ?thesis
      using split_garbage[OF frame(2)] split_one[OF frame(3)] ih by (simp add: frame(1) split: prod.split)
  qed
qed

lemma feed_all_whole: "split_frames buf = ([], buf) \<Longrightarrow> feed_all ds buf = split_frames (buf @ concat ds)"
proof (induction ds arbitrary: buf)
  case (Cons d ds)
  obtain fs b where s: "split_frames (buf @ d) = (fs, b)" by fastforce
  have "split_frames b = ([], b)"
    using split_append[of "buf @ d" "[]"] s by (auto split: prod.splits)
  from Cons.IH[OF this] show ?case using split_append[of "buf @ d" "concat ds"] s by (simp add: feed_splitter_def split: prod.splits)
qed simp

definition on_the_wire :: "(bytes \<times> bytes) list \<Rightarrow> bytes" where
  "on_the_wire fs = concat (map (\<lambda>(f, g). f @ g) fs)"

text \<open>A message - sequence number, function, status, payload - and the bytes that follow its frame.\<close>

definition sent :: "(nat \<times> nat \<times> nat \<times> bytes) \<times> bytes \<Rightarrow> bytes \<times> bytes" where
  "sent m = (case m of ((seq, fid, st, pl), g) \<Rightarrow> (encode_frame seq fid st pl, g))"

definition sendable :: "(nat \<times> nat \<times> nat \<times> bytes) \<times> bytes \<Rightarrow> bool" where
  "sendable m \<longleftrightarrow> (case m of ((seq, fid, st, pl), g) \<Rightarrow> seq < 2 ^ 32 \<and> fid < 2 ^ 32 \<and> st < 2 ^ 32 \<and> START \<notin> set g)"

definition wire_frame :: "bytes \<Rightarrow> bool" where
  "wire_frame f \<longleftrightarrow> (\<exists>body. f = START # body @ [END_MARK] \<and> END_MARK \<notin> set body)"

lemma encode_wire: "wire_frame (encode_frame seq fid status payload)"
  unfolding wire_frame_def encode_frame_def Let_def
  by (rule exI, rule conjI, simp, rule escape_unmarked)

lemma sent_wire: "sendable m \<Longrightarrow> wire_frame (fst (sent m)) \<and> START \<notin> set (snd (sent m))"
  using encode_wire by (cases m) (auto simp: sendable_def sent_def)

lemma sent_wires: "\<forall>m \<in> set ms. sendable m \<Longrightarrow> \<forall>(f, g) \<in> set (map sent ms). wire_frame f \<and> START \<notin> set g"
  using sent_wire by (simp add: case_prod_beta)

lemma sent_decodes: "sendable m \<Longrightarrow> decode_frame (fst (sent m)) = Inr (fst m)"
  by (cases m) (auto simp: sendable_def sent_def decode_encode)

lemma split_wire:
  "\<forall>(f, g) \<in> set fs. wire_frame f \<and> START \<notin> set g \<Longrightarrow> split_frames (on_the_wire fs) = (map fst fs, [])"
proof (induction fs)
  case Nil
  then show ?case using split_none[of "[]"] by (simp add: on_the_wire_def)
next
  case (Cons p fs)
  obtain f g where p: "p = (f, g)" by fastforce
  obtain body where f: "f = START # body @ [END_MARK]" "END_MARK \<notin> set body" using Cons.prems p by (auto simp: wire_frame_def)
  have "split_frames (g @ on_the_wire fs) = (map fst fs, [])" using split_garbage[of g] Cons p by simp
  then show ?case using split_one[OF f(2)] by (simp add: p f(1) on_the_wire_def)
qed



section \<open>Whose reply it is\<close>

lemma take_reply_Some:
  "take_reply seq fid fs = Some (Inr body) \<Longrightarrow> \<exists>f \<in> set fs. decode_frame f = Inr (seq, fid, 0, body)"
  by (induction fs) (auto split: sum.splits if_splits)

lemma take_reply_late:
  "\<forall>f \<in> set fs. case decode_frame f of Inr (s, i, _, _) \<Rightarrow> (s, i) \<noteq> (seq, fid) | Inl _ \<Rightarrow> True \<Longrightarrow>
   take_reply seq fid (fs @ gs) = take_reply seq fid gs"
  by (induction fs) (auto split: sum.splits prod.splits)

lemma await_reply_frames:
  "[] \<notin> set ds \<Longrightarrow> await_reply seq fid ds buf =
     (case take_reply seq fid (fst (feed_all ds buf)) of Some r \<Rightarrow> r | None \<Rightarrow> Inl (Bad_Reply (No_Reply fid)))"
proof (induction ds arbitrary: buf)
  case (Cons d ds)
  have app: "take_reply seq fid (fs @ gs) = (case take_reply seq fid fs of Some r \<Rightarrow> Some r | None \<Rightarrow> take_reply seq fid gs)" for fs gs
    by (induction fs) (auto split: sum.splits prod.splits)
  obtain fs b where s: "feed_splitter d buf = (fs, b)" by fastforce
  obtain gs c where g: "feed_all ds b = (gs, c)" by fastforce
  show ?case using Cons s g by (auto simp: app split: option.split)
qed simp

text \<open>C28: a reply is the command's own.  When late replies to earlier, timed-out commands come in first, in any number and cut
  in any way, the command returns the payload of the reply to itself - same sequence number, same function - when
  that says success, and the camera's return code when it does not.\<close>

theorem late_replies_skipped:
  assumes "bp_open bp" "[] \<notin> set reads"
    "concat reads = on_the_wire (map sent late) @ encode_frame ((bp_seq bp + 1) mod 2 ^ 32) fid st pl @ rest"
    "\<forall>m \<in> set late. sendable m \<and> (fst (fst m), fst (snd (fst m))) \<noteq> ((bp_seq bp + 1) mod 2 ^ 32, fid)" "fid < 2 ^ 32" "st < 2 ^ 32"
  shows "fst (command fid reads bp) = (if st = 0 then Inr pl else Inl (Bad_Reply (Camera_Returned fid st)))"
proof -
  let ?seq = "(bp_seq bp + 1) mod 2 ^ 32"
  let ?own = "encode_frame ?seq fid st pl"
  let ?late = "map sent late"
  obtain gs c where gs: "split_frames rest = (gs, c)" by fastforce
  obtain body where own: "?own = START # body @ [END_MARK]" "END_MARK \<notin> set body" using encode_wire wire_frame_def by metis
  have "split_frames [] = ([], [])" using split_none[of "[]"] by simp
  from feed_all_whole[OF this, of reads] have "feed_all reads [] = split_frames (on_the_wire ?late @ ?own @ rest)" using assms(3) by simp
  moreover have "split_frames (on_the_wire ?late) = (map fst ?late, [])"
    by (rule split_wire, rule sent_wires) (use assms(4) in blast)
  moreover have "split_frames (?own @ rest) = (?own # gs, c)" using split_one[OF own(2), of rest] gs unfolding own(1) by simp
  ultimately have fr: "fst (feed_all reads []) = map fst ?late @ ?own # gs" using split_append[of "on_the_wire ?late" "?own @ rest"] by simp
  have "take_reply ?seq fid (map fst ?late @ ?own # gs) = take_reply ?seq fid (?own # gs)"
    by (rule take_reply_late) (use assms(4) in \<open>auto simp: sent_decodes split: prod.split\<close>)
  then have "take_reply ?seq fid (fst (feed_all reads [])) = Some (if st = 0 then Inr pl else Inl (Bad_Reply (Camera_Returned fid st)))"
    using fr decode_encode[OF assms(5,6), of ?seq pl] by simp
  then show ?thesis using await_reply_frames[OF assms(2), of ?seq fid "[]"] assms(1) by (simp add: command_def Let_def)
qed

theorem late_replies_skipped_witness:
  "fst (command 0x50030 [encode_frame 4 0x50030 0 [9, 9], encode_frame 5 0x50030 0 [0, 7]] \<lparr>bp_open = True, bp_seq = 4, bp_sent = []\<rparr>) = Inr [0, 7]"
proof -
  have "sendable ((4, 0x50030, 0, [9, 9]), [])" by (simp add: sendable_def)
  moreover have "[] \<notin> set [encode_frame 4 0x50030 0 [9, 9], encode_frame 5 0x50030 0 [0, 7]]" by (simp add: encode_frame_def Let_def)
  moreover have "concat [encode_frame 4 0x50030 0 [9, 9], encode_frame 5 0x50030 0 [0, 7]]
      = on_the_wire (map sent [((4, 0x50030, 0, [9, 9]), [])]) @ encode_frame ((4 + 1) mod 2 ^ 32) 0x50030 0 [0, 7] @ []"
    by (simp add: on_the_wire_def sent_def)
  ultimately show ?thesis
    using late_replies_skipped[of "\<lparr>bp_open = True, bp_seq = 4, bp_sent = []\<rparr>" _ "[((4, 0x50030, 0, [9, 9]), [])]" "0x50030" 0 "[0, 7]" "[]"]
    by auto
qed

end
