(* ===== verification/Boson_Health.thy ===== *)
theory Boson_Health
  imports Boson_Wire Health
begin

text \<open>
  The health provider of \<open>core-driver/cam_driver/health_boson.py\<close>: opening and identifying the camera's command
  channel, one poll of its readings, and what becomes of the channel when the camera goes away or stops answering.
\<close>

section \<open>Readings\<close>

definition FN_CAMERA_SN :: nat where "FN_CAMERA_SN = 0x00050002"
definition FN_PART_NUMBER :: nat where "FN_PART_NUMBER = 0x00050004"
definition FN_FFC_STATE :: nat where "FN_FFC_STATE = 0x00050054"
definition FN_FPA_TEMP :: nat where "FN_FPA_TEMP = 0x00050030"
definition FN_LAST_FFC_FRAME :: nat where "FN_LAST_FFC_FRAME = 0x0005005D"
definition FN_FRAME_COUNT :: nat where "FN_FRAME_COUNT = 0x00020002"

definition FFC_STATES :: "(nat \<times> string) list" where
  "FFC_STATES = [(0, ''none''), (1, ''imminent''), (2, ''in_progress''), (3, ''complete'')]"

text \<open>\<open>_unpack\<close> of \<open>need\<close> big-endian bytes; more is ignored.\<close>

definition unpack_be :: "nat \<Rightarrow> bytes \<Rightarrow> boson_error + nat" where
  "unpack_be need body = (if length body < need then Inl (Too_Short (length body) need) else Inr (dec BE (take need body)))"

datatype reading = Temperature | Ffc_State | Count

definition parse_reading :: "reading \<Rightarrow> bytes \<Rightarrow> boson_error + json" where
  "parse_reading r body =
     (case r of
        Temperature \<Rightarrow> ebind (unpack_be 2 body) (\<lambda>n. Inr (JNum (of_int (signed16 n) / 10)))
      | Ffc_State \<Rightarrow> ebind (unpack_be 4 body) (\<lambda>n. Inr (JStr (case map_of FFC_STATES n of Some s \<Rightarrow> s | None \<Rightarrow> ''unknown'')))
      | Count \<Rightarrow> ebind (unpack_be 4 body) (\<lambda>n. Inr (JInt (int n))))"

definition READS :: "(string \<times> nat \<times> reading) list" where
  "READS = [(''temp.sensor_c'', FN_FPA_TEMP, Temperature), (''ffc.state'', FN_FFC_STATE, Ffc_State),
     (''frame_count'', FN_FRAME_COUNT, Count), (''ffc.last_frame'', FN_LAST_FFC_FRAME, Count)]"

section \<open>The provider\<close>

record boson =
  bo_port :: "boson_port option"
  bo_hardware_id :: string

text \<open>What a poll meets: whether the port opens, what the port delivers after each command (the first two identify a port
  just opened), and the stop event before each reading.\<close>

record boson_env =
  be_open :: bool
  be_identify :: "nat \<Rightarrow> bytes list"
  be_reads :: "nat \<Rightarrow> bytes list"
  be_stop :: "nat \<Rightarrow> bool"

definition new_port :: boson_port where
  "new_port = \<lparr>bp_open = True, bp_seq = 0, bp_sent = []\<rparr>"

text \<open>The readings from the \<open>k\<close>th on: values, errors; \<open>None\<close> when the device went away.\<close>

fun read_all :: "boson_env \<Rightarrow> nat \<Rightarrow> (string \<times> nat \<times> reading) list \<Rightarrow> boson_port \<Rightarrow> fields \<Rightarrow> boson_error list
    \<Rightarrow> (fields \<times> boson_error list) option \<times> boson_port" where
  "read_all e k [] bp vs bad = (Some (vs, bad), bp)"
| "read_all e k ((key, fid, r) # rs) bp vs bad =
     (if be_stop e k then (Some (vs, bad), bp)
      else case command fid (be_reads e k) bp of
        (Inl Gone, bp) \<Rightarrow> (None, bp)
      | (Inl (Bad_Reply err), bp) \<Rightarrow> read_all e (k + 1) rs bp vs (bad @ [err])
      | (Inr body, bp) \<Rightarrow>
          (case parse_reading r body of
             Inl err \<Rightarrow> read_all e (k + 1) rs bp vs (bad @ [err])
           | Inr v \<Rightarrow> read_all e (k + 1) rs bp (upd_key key v vs) bad))"

text \<open>\<open>_identify\<close>; the part number is ASCII up to the first NUL (a byte that is none is shown as a question mark).\<close>

definition ascii_text :: "bytes \<Rightarrow> string" where
  "ascii_text bs = strip_space (map (\<lambda>b. if unat b < 128 then char_of (unat b) else CHR ''?'') (takeWhile (\<lambda>b. b \<noteq> 0) bs))"

definition identify :: "boson_env \<Rightarrow> boson_port \<Rightarrow> (port_error + string) \<times> boson_port" where
  "identify e bp =
     (case command FN_PART_NUMBER (be_identify e 0) bp of
        (Inl Gone, bp) \<Rightarrow> (Inl Gone, bp)
      | (pn, bp) \<Rightarrow>
          let parts = ''FLIR Boson'' # (case pn of Inr body \<Rightarrow> if ascii_text body = [] then [] else [ascii_text body] | Inl _ \<Rightarrow> []) in
          (case command FN_CAMERA_SN (be_identify e 1) bp of
             (Inl Gone, bp) \<Rightarrow> (Inl Gone, bp)
           | (sn, bp) \<Rightarrow>
               let parts = parts @ (case sn of Inr body \<Rightarrow> (case unpack_be 4 body of Inr n \<Rightarrow> [''sn '' @ str_nat n] | Inl _ \<Rightarrow> []) | Inl _ \<Rightarrow> [])
               in (Inr (join_with '' '' parts), bp)))"

text \<open>\<open>_ensure_port\<close>: the port, opened and identified when there is none; \<open>None\<close> when it cannot be.\<close>

definition ready_port :: "boson_env \<Rightarrow> boson \<Rightarrow> boson_port option \<times> boson" where
  "ready_port e bo =
     (case Option.bind (bo_port bo) (\<lambda>bp. if bp_open bp then Some bp else None) of
        Some bp \<Rightarrow> (Some bp, bo)
      | None \<Rightarrow>
          if \<not> be_open e then (None, bo)
          else (case identify e new_port of
                  (Inl _, _) \<Rightarrow> (None, bo)
                | (Inr hid, bp) \<Rightarrow> (Some bp, bo\<lparr>bo_port := Some bp, bo_hardware_id := hid\<rparr>)))"

definition close_boson :: "boson \<Rightarrow> boson" where
  "close_boson bo = bo\<lparr>bo_port := None\<rparr>"

text \<open>The values of a poll that got some answer.\<close>

definition ffc_since :: "fields \<Rightarrow> fields" where
  "ffc_since vs =
     (case (map_of vs ''frame_count'', map_of vs ''ffc.last_frame'') of
        (Some (JInt a), Some (JInt b)) \<Rightarrow> upd_key ''ffc.frames_since'' (JInt (a - b)) vs | _ \<Rightarrow> vs)"

definition boson_values :: "fields \<Rightarrow> boson_error list \<Rightarrow> fields" where
  "boson_values vs bad =
     (let vs = ffc_since vs;
          vs = (if bad \<noteq> [] then upd_key ''read_errors'' (JInt (int (length bad))) vs else vs)
      in validate_measurements [''temp.sensor_c''] vs)"

definition boson_report :: "string \<Rightarrow> fields \<Rightarrow> report" where
  "boson_report hid vs =
     (let temp = (case map_of vs ''temp.sensor_c'' of Some (JNum t) \<Rightarrow> [fmt_g t @ '' C''] | _ \<Rightarrow> []);
          ffc = (if map_of vs ''ffc.state'' = Some (JStr ''imminent'') then [''FFC imminent'']
                 else if map_of vs ''ffc.state'' = Some (JStr ''in_progress'') then [''FFC in progress''] else []);
          level = (if map_of vs ''temp.sensor_c'' \<in> {None, Some JNull} then WARN else OK);
          msgs = temp @ ffc @ (if level = WARN then [''temperature unavailable''] else [])
      in \<lparr>rp_component = ''camera'', rp_level = level, rp_message = (if msgs = [] then ''OK'' else join_with ''; '' msgs),
          rp_hardware_id = hid, rp_values = vs\<rparr>)"

text \<open>\<open>poll\<close>: \<open>None\<close> is an exception, which the monitor holds against the provider.\<close>

definition poll_boson :: "boson_env \<Rightarrow> boson \<Rightarrow> report list option \<times> boson" where
  "poll_boson e bo =
     (case ready_port e bo of
        (None, bo) \<Rightarrow> (None, bo)
      | (Some bp, bo) \<Rightarrow>
          (case read_all e 0 READS bp [] [] of
             (None, bp) \<Rightarrow> (None, close_boson bo)
           | (Some (vs, bad), bp) \<Rightarrow>
               if length bad \<ge> length READS then (None, close_boson bo)
               else (Some [boson_report (bo_hardware_id bo) (boson_values vs bad)], bo\<lparr>bo_port := Some bp\<rparr>)))"

section \<open>What a poll reports\<close>

lemma command_open: "bp_open (snd (command fid reads bp)) = bp_open bp"
  by (simp add: command_def Let_def)

lemma read_all_open: "bp_open (snd (read_all e k rs bp vs bad)) = bp_open bp"
  using command_open by (induction e k rs bp vs bad rule: read_all.induct)
    (auto split: prod.splits sum.splits port_error.splits, (metis snd_conv)+)

text \<open>The readings only ever add values of their own keys, and a temperature is a number.\<close>

definition sane :: "fields \<Rightarrow> bool" where
  "sane vs \<longleftrightarrow> (\<forall>k v. map_of vs k = Some v \<longrightarrow> k \<in> fst ` set READS) \<and> (\<forall>v. map_of vs ''temp.sensor_c'' = Some v \<longrightarrow> (\<exists>t. v = JNum t))"

lemma parse_temperature: "parse_reading Temperature body = Inr v \<Longrightarrow> \<exists>t. v = JNum t"
  by (auto simp: parse_reading_def unpack_be_def split: if_splits)

lemma read_all_sane:
  assumes "read_all e k rs bp vs bad = (Some (vs', bad'), bp')" "sane vs" "set rs \<subseteq> set READS"
  shows "sane vs' \<and> length bad' \<le> length bad + length rs"
  using assms
proof (induction e k rs bp vs bad rule: read_all.induct)
  case (2 e k key fid r rs bp vs bad)
  obtain a bp1 where c: "command fid (be_reads e k) bp = (a, bp1)" by fastforce
  show ?case
  proof (cases "be_stop e k")
    case True
    then show ?thesis using "2.prems" by simp
  next
    case False
    have key: "key \<in> fst ` set READS" using "2.prems"(3) by force
    have temp: "r = Temperature" if "key = ''temp.sensor_c''" using "2.prems"(3) that by (auto simp: READS_def)
    consider "a = Inl Gone" | err where "a = Inl (Bad_Reply err)" | body err where "a = Inr body" "parse_reading r body = Inl err"
      | body v where "a = Inr body" "parse_reading r body = Inr v"
      by (metis port_error.exhaust sum.exhaust)
    then show ?thesis
    proof cases
      case 1
      then show ?thesis using "2.prems"(1) False c by simp
    next
      case 2
      then show ?thesis using "2.IH"(1)[OF False c[symmetric]] "2.prems" False c by force
    next
      case 3
      then show ?thesis using "2.IH"(2)[OF False c[symmetric]] "2.prems" False c by force
    next
      case (4 body v)
      have "sane (upd_key key v vs)"
        using "2.prems"(2) key temp parse_temperature[of body v] 4(2) by (auto simp: sane_def)
      then show ?thesis using "2.IH"(3)[OF False c[symmetric] 4] "2.prems" False c 4 by force
    qed
  qed
qed simp

lemma keeps_temp: "map_of (ffc_since vs) ''temp.sensor_c'' = map_of vs ''temp.sensor_c''"
  by (auto simp: ffc_since_def split: option.splits json.splits)

lemma mark_temp:
  "map_of (mark_unavailable key vs) ''temp.sensor_c'' =
     (if key = ''temp.sensor_c'' \<and> \<not> numeric (get_key vs key) then Some JNull else map_of vs ''temp.sensor_c'')"
  by (simp add: mark_unavailable_def)

lemma marks_null: "map_of vs ''temp.sensor_c'' = Some JNull \<Longrightarrow> map_of (fold mark_unavailable keys vs) ''temp.sensor_c'' = Some JNull"
  by (induction keys arbitrary: vs) (simp_all add: mark_temp)

lemma marks_temp:
  assumes "\<forall>v. map_of vs ''temp.sensor_c'' = Some v \<longrightarrow> numeric v"
  shows "map_of (fold mark_unavailable keys vs) ''temp.sensor_c'' =
    (if map_of vs ''temp.sensor_c'' = None \<and> ''temp.sensor_c'' \<in> set keys then Some JNull else map_of vs ''temp.sensor_c'')"
proof -
  show ?thesis using assms
  proof (induction keys arbitrary: vs)
    case (Cons key keys)
    show ?case
    proof (cases "key = ''temp.sensor_c'' \<and> map_of vs ''temp.sensor_c'' = None")
      case True
      then have "map_of (mark_unavailable key vs) ''temp.sensor_c'' = Some JNull"
        by (simp add: mark_temp get_key_def numeric_def num_of_def)
      then have "map_of (fold mark_unavailable keys (mark_unavailable key vs)) ''temp.sensor_c'' = Some JNull" by (rule marks_null)
      then show ?thesis using True by simp
    next
      case False
      then have same: "map_of (mark_unavailable key vs) ''temp.sensor_c'' = map_of vs ''temp.sensor_c''"
        using Cons.prems by (auto simp: mark_temp get_key_def split: option.splits)
      then show ?thesis using Cons.IH[of "mark_unavailable key vs"] Cons.prems False by auto
    qed
  qed simp
qed

lemma boson_temp:
  assumes "sane vs"
  shows "map_of (boson_values vs bad) ''temp.sensor_c'' = (case map_of vs ''temp.sensor_c'' of None \<Rightarrow> Some JNull | Some v \<Rightarrow> Some v)"
proof -
  let ?vs = "if bad \<noteq> [] then upd_key ''read_errors'' (JInt (int (length bad))) (ffc_since vs) else ffc_since vs"
  have t: "map_of ?vs ''temp.sensor_c'' = map_of vs ''temp.sensor_c''" by (simp add: keeps_temp)
  have "\<forall>v. map_of ?vs ''temp.sensor_c'' = Some v \<longrightarrow> numeric v" unfolding t using assms by (auto simp: sane_def numeric_def num_of_def)
  note m = marks_temp[OF this]
  have "''temp.sensor_c'' \<in> set (dedup ([''temp.sensor_c''] @ filter measurement (map fst ?vs)))" by (simp only: set_dedup) simp
  then show ?thesis
    unfolding boson_values_def validate_measurements_def Let_def m t by (simp del: dedup.simps split: option.split)
qed

text \<open>C40: what a poll of the camera ends in.  Either it raises, and no open channel is kept, so the next poll opens and
  identifies afresh - when the node is absent, when the device goes away, when it answers nothing - or there is one
  report, with fewer errors than readings, over a channel that stays open; the report is a warning exactly when the
  temperature could not be read, and then says so in its values.\<close>

theorem boson_poll_outcomes:
  "case poll_boson e bo of
     (None, bo') \<Rightarrow> Option.bind (bo_port bo') (\<lambda>bp. if bp_open bp then Some bp else None) = None
   | (Some rs, bo') \<Rightarrow> \<exists>vs bad bp. rs = [boson_report (bo_hardware_id bo') (boson_values vs bad)] \<and> sane vs \<and> length bad < 4
       \<and> bo_port bo' = Some bp \<and> bp_open bp
       \<and> rp_level (hd rs) = (if map_of vs ''temp.sensor_c'' = None then WARN else OK)
       \<and> (map_of (rp_values (hd rs)) ''temp.sensor_c'' = Some JNull \<longleftrightarrow> map_of vs ''temp.sensor_c'' = None)"
proof -
  let ?open = "\<lambda>bo. Option.bind (bo_port bo) (\<lambda>bp. if bp_open bp then Some bp else None)"
  have ident: "bp_open bp" if "identify e new_port = (r, bp)" for r bp
  proof -
    obtain a b1 where 1: "command FN_PART_NUMBER (be_identify e 0) new_port = (a, b1)" by fastforce
    obtain c b2 where 2: "command FN_CAMERA_SN (be_identify e 1) b1 = (c, b2)" by fastforce
    have "bp_open b1" "bp_open b2" using command_open[of _ _ new_port] command_open[of _ _ b1] 1 2 by (metis snd_conv new_port_def boson_port.select_convs(1))+
    moreover have "bp \<in> {b1, b2}" using that 1 2 unfolding identify_def Let_def by (auto split: sum.splits port_error.splits)
    ultimately show ?thesis by blast
  qed
  obtain rp bo1 where rp: "ready_port e bo = (rp, bo1)" by fastforce
  show ?thesis
  proof (cases rp)
    case None
    then have "?open bo1 = None" using rp by (auto simp: ready_port_def split: option.splits if_splits sum.splits prod.splits)
    then show ?thesis using rp None by (simp add: poll_boson_def)
  next
    case (Some bp)
    have open_bp: "bp_open bp" using rp Some ident by (auto simp: ready_port_def bind_eq_Some_conv split: option.splits if_splits sum.splits prod.splits)
    obtain res bp1 where ra: "read_all e 0 READS bp [] [] = (res, bp1)" by fastforce
    have "bp_open bp1" using read_all_open[of e 0 READS bp "[]" "[]"] ra open_bp by simp
    show ?thesis
    proof (cases res)
      case None
      then show ?thesis using rp Some ra by (simp add: poll_boson_def close_boson_def)
    next
      case (Some vb)
      obtain vs bad where vb: "res = Some (vs, bad)" using Some by (cases vb) simp
      have sane: "sane vs" using read_all_sane[OF ra[unfolded vb]] by (simp add: sane_def)
      have lv: "rp_level (boson_report hid (boson_values vs bad)) = (if map_of vs ''temp.sensor_c'' = None then WARN else OK)"
        "map_of (rp_values (boson_report hid (boson_values vs bad))) ''temp.sensor_c'' = Some JNull \<longleftrightarrow> map_of vs ''temp.sensor_c'' = None" for hid
        using sane by (auto simp: boson_report_def boson_temp[OF sane] Let_def sane_def split: option.split)
      show ?thesis
      proof (cases "length bad \<ge> length READS")
        case True
        then show ?thesis using rp \<open>rp = Some bp\<close> ra vb by (simp add: poll_boson_def close_boson_def)
      next
        case False
        have "length bad < 4" using False by (simp add: READS_def)
        then show ?thesis using rp \<open>rp = Some bp\<close> ra vb sane lv False \<open>bp_open bp1\<close>
          by (auto simp: poll_boson_def)
      qed
    qed
  qed
qed

end
