(* ===== verification/Supervisor.thy ===== *)
theory Supervisor
  imports Config
begin

text \<open>
  \<open>core-driver/supervisor.py\<close>, the entry point of a sensor's container: which children a configuration names, starting
  them, watching and restarting them, and tearing the sensor down.  What the processes do is an argument: when one
  exits and with what status, whether a start succeeds, when a signal to the supervisor arrives.
\<close>

section \<open>The children\<close>

definition RESTART_MAX :: nat where "RESTART_MAX = 5"
definition RESTART_RESET_S :: rat where "RESTART_RESET_S = 30"
definition CORE_STOP_GRACE_S :: rat where "CORE_STOP_GRACE_S = 20"
definition PLUGIN_STOP_GRACE_S :: rat where "PLUGIN_STOP_GRACE_S = 10"

datatype proc = Running | Exited int

datatype sig = Sig_Int | Sig_Kill | Sig_Usr1 | Sig_Usr2

text \<open>A \<open>Service\<close>, with the signals its process was sent.\<close>

record child =
  ch_name :: string
  ch_cmd :: "string list"
  ch_critical :: bool
  ch_restart :: bool
  ch_proc :: "proc option"
  ch_restarts :: nat
  ch_started_at :: rat
  ch_signals :: "sig list"

definition new_child :: "string \<Rightarrow> string list \<Rightarrow> bool \<Rightarrow> bool \<Rightarrow> child" where
  "new_child name cmd critical restart =
     \<lparr>ch_name = name, ch_cmd = cmd, ch_critical = critical, ch_restart = restart, ch_proc = None, ch_restarts = 0,
      ch_started_at = 0, ch_signals = []\<rparr>"

definition spawn :: "rat \<Rightarrow> child \<Rightarrow> child" where
  "spawn now c = c\<lparr>ch_proc := Some Running, ch_started_at := now\<rparr>"

definition alive :: "child \<Rightarrow> bool" where
  "alive c \<longleftrightarrow> ch_proc c = Some Running"

definition send :: "sig \<Rightarrow> child \<Rightarrow> child" where
  "send s c = c\<lparr>ch_signals := ch_signals c @ [s]\<rparr>"

record plugin =
  pg_name :: string
  pg_enabled :: bool
  pg_isolation :: string
  pg_command :: json
  pg_params :: fields
  pg_restart :: bool

definition ros2_bridge_command :: "fields \<Rightarrow> string list" where
  "ros2_bridge_command params =
     [''ros2'', ''run'', ''cam_ros2_bridge'', ''cam_ros2_bridge'', ''--ros-args'']
     @ concat (map (\<lambda>(k, v). [''-p'', k @ '':='' @ text_of False v]) params)"

definition resolve_plugin :: "string \<Rightarrow> plugin \<Rightarrow> string list option" where
  "resolve_plugin socket_path p =
     (if pg_name p = ''ros2-bridge''
      then Some (ros2_bridge_command (if map_of (pg_params p) ''socket_path'' = None
                                      then pg_params p @ [(''socket_path'', JStr socket_path)] else pg_params p))
      else case pg_command p of JList (a # as) \<Rightarrow> Some (map (text_of False) (a # as)) | _ \<Rightarrow> None)"

definition build_services :: "string \<Rightarrow> string \<Rightarrow> string \<Rightarrow> plugin list \<Rightarrow> child list" where
  "build_services python config_path socket_path ps =
     new_child ''core'' [python, ''main.py'', ''-c'', config_path] True False
     # List.map_filter (\<lambda>p. if \<not> pg_enabled p \<or> pg_isolation p \<noteq> ''process'' then None
          else map_option (\<lambda>cmd. new_child (pg_name p) cmd False (pg_restart p)) (resolve_plugin socket_path p)) ps"

text \<open>The children a configuration names.\<close>

definition plugin_config :: "fields \<Rightarrow> plugin" where
  "plugin_config d =
     \<lparr>pg_name = as_str (get_key d ''name''), pg_enabled = truthy (get_key d ''enabled''), pg_isolation = as_str (get_key d ''isolation''),
      pg_command = get_key d ''command'', pg_params = (case get_key d ''params'' of JObj ps \<Rightarrow> ps | _ \<Rightarrow> []),
      pg_restart = truthy (get_key d ''restart'')\<rparr>"

definition sensor_services :: "string \<Rightarrow> string \<Rightarrow> app_config \<Rightarrow> child list" where
  "sensor_services python config_path cfg =
     build_services python config_path (as_str (get_key (ac_plugin_endpoint cfg) ''socket_path'')) (map plugin_config (ac_plugins cfg))"

definition plays_back :: "app_config \<Rightarrow> bool" where
  "plays_back cfg \<longleftrightarrow> get_key (ac_camera cfg) ''type'' \<in> {JStr ''replay'', JStr ''pcap''}"

section \<open>Teardown\<close>

definition stop_grace :: "child \<Rightarrow> rat" where
  "stop_grace c = (if ch_critical c then CORE_STOP_GRACE_S else PLUGIN_STOP_GRACE_S)"

text \<open>Waiting for one child; \<open>x\<close> is when it exits after the signals went out (\<open>None\<close>: never by itself), \<open>t\<close> the time it is
  when its turn comes.  The second part is the time after the wait.\<close>

definition wait_child :: "(child \<Rightarrow> rat option) \<Rightarrow> rat \<Rightarrow> child \<Rightarrow> child \<times> rat" where
  "wait_child exits t c =
     (if ch_proc c = None then (c, t)
      else if \<not> alive c then (c, t)
      else let deadline = t + max 0 (stop_grace c - t) in
        case exits c of
          Some x \<Rightarrow> if x \<le> deadline then (c\<lparr>ch_proc := Some (Exited 0)\<rparr>, max t x) else (send Sig_Kill c, deadline)
        | None \<Rightarrow> (send Sig_Kill c, deadline))"

fun wait_all :: "(child \<Rightarrow> rat option) \<Rightarrow> rat \<Rightarrow> child list \<Rightarrow> child list \<times> rat" where
  "wait_all exits t [] = ([], t)"
| "wait_all exits t (c # cs) =
     (case wait_child exits t c of (c, t) \<Rightarrow> (case wait_all exits t cs of (cs, t) \<Rightarrow> (c # cs, t)))"

text \<open>Every living child is told to stop at once, then they are waited for, the shortest grace first.\<close>

definition teardown :: "(child \<Rightarrow> rat option) \<Rightarrow> child list \<Rightarrow> child list \<times> rat" where
  "teardown exits cs =
     wait_all exits 0 (sort_key stop_grace (map (\<lambda>c. if alive c then send Sig_Int c else c) cs))"

section \<open>Starting and watching\<close>

text \<open>Starting the \<open>i\<close>th child: whether a stop came before it, whether the start succeeds, the clock.\<close>

record start_env =
  st_stopping :: "nat \<Rightarrow> bool"
  st_ok :: "nat \<Rightarrow> bool"
  st_now :: "nat \<Rightarrow> rat"

text \<open>The first part is whether a critical child could not be started.\<close>

fun start_all :: "start_env \<Rightarrow> nat \<Rightarrow> child list \<Rightarrow> bool \<times> child list" where
  "start_all e i [] = (False, [])"
| "start_all e i (c # cs) =
     (if st_stopping e i then (False, c # cs)
      else if st_ok e i then (case start_all e (i + 1) cs of (dead, cs) \<Rightarrow> (dead, spawn (st_now e i) c # cs))
      else if ch_critical c then (True, c # cs)
      else (case start_all e (i + 1) cs of (dead, cs) \<Rightarrow> (dead, c # cs)))"

text \<open>One look at the children: what \<open>poll\<close> says of each, and for a plugin that exited the clock then, whether a stop came
  during the backoff, whether the restart succeeds and the clock after it.\<close>

record look =
  lk_poll :: "nat \<Rightarrow> proc"
  lk_now :: "nat \<Rightarrow> rat"
  lk_stopping :: "nat \<Rightarrow> bool"
  lk_ok :: "nat \<Rightarrow> bool"
  lk_again :: "nat \<Rightarrow> rat"

definition handle_plugin_exit :: "look \<Rightarrow> nat \<Rightarrow> child \<Rightarrow> child" where
  "handle_plugin_exit e i c =
     (let c = (if lk_now e i - ch_started_at c \<ge> RESTART_RESET_S then c\<lparr>ch_restarts := 0\<rparr> else c) in
      if \<not> ch_restart c then c\<lparr>ch_proc := None\<rparr>
      else if ch_restarts c \<ge> RESTART_MAX then c\<lparr>ch_proc := None\<rparr>
      else let c = c\<lparr>ch_restarts := ch_restarts c + 1\<rparr> in
           if lk_stopping e i then c
           else if lk_ok e i then spawn (lk_again e i) c
           else c\<lparr>ch_started_at := lk_again e i\<rparr>)"

definition polled :: "look \<Rightarrow> nat \<Rightarrow> child \<Rightarrow> child" where
  "polled e i c = (if ch_proc c = Some Running then c\<lparr>ch_proc := Some (lk_poll e i)\<rparr> else c)"

definition core_status :: "bool \<Rightarrow> int \<Rightarrow> int" where
  "core_status playback rc = (if rc = 0 \<and> playback then 0 else if rc = 0 then 1 else rc)"

text \<open>The first part is the sensor's exit status when a critical child has exited.\<close>

fun look_all :: "bool \<Rightarrow> look \<Rightarrow> nat \<Rightarrow> child list \<Rightarrow> int option \<times> child list" where
  "look_all pb e i [] = (None, [])"
| "look_all pb e i (c # cs) =
     (let c = polled e i c in
      case ch_proc c of
        Some (Exited rc) \<Rightarrow>
          if ch_critical c then (Some (core_status pb rc), c # cs)
          else (case look_all pb e (i + 1) cs of (r, cs) \<Rightarrow> (r, handle_plugin_exit e i c # cs))
      | _ \<Rightarrow> (case look_all pb e (i + 1) cs of (r, cs) \<Rightarrow> (r, c # cs)))"

text \<open>The looks until a stop arrives (the end of the list) or a critical child exits.\<close>

fun watch :: "bool \<Rightarrow> look list \<Rightarrow> child list \<Rightarrow> int option \<times> child list" where
  "watch pb [] cs = (None, cs)"
| "watch pb (e # es) cs =
     (case look_all pb e 0 cs of (Some r, cs) \<Rightarrow> (Some r, cs) | (None, cs) \<Rightarrow> watch pb es cs)"

text \<open>\<open>run\<close>: the exit status, the children at the end and the time the teardown took.\<close>

definition run_supervisor :: "bool \<Rightarrow> start_env \<Rightarrow> look list \<Rightarrow> (child \<Rightarrow> rat option) \<Rightarrow> child list \<Rightarrow> int \<times> child list \<times> rat" where
  "run_supervisor pb se looks exits cs =
     (case start_all se 0 cs of
        (True, cs) \<Rightarrow> (1, teardown exits cs)
      | (False, cs) \<Rightarrow> (case watch pb looks cs of (r, cs) \<Rightarrow> (case r of Some rc \<Rightarrow> rc | None \<Rightarrow> 0, teardown exits cs)))"

text \<open>The two signals that pass through to the core.\<close>

definition forward_to_core :: "sig \<Rightarrow> child list \<Rightarrow> child list" where
  "forward_to_core s cs = map (\<lambda>c. if ch_critical c \<and> alive c then send s c else c) cs"

section \<open>Nobody is killed within its grace\<close>

definition stopped :: "(child \<Rightarrow> rat option) \<Rightarrow> child \<Rightarrow> child" where
  "stopped exits c =
     (if \<not> alive c then c
      else case exits c of Some x \<Rightarrow> if x \<le> stop_grace c then c\<lparr>ch_proc := Some (Exited 0)\<rparr> else send Sig_Kill c | None \<Rightarrow> send Sig_Kill c)"

lemma wait_child_exact:
  assumes "t \<le> stop_grace c" "wait_child exits t c = (c', t')"
  shows "c' = stopped exits c \<and> t \<le> t' \<and> t' \<le> stop_grace c"
proof -
  have "t + max 0 (stop_grace c - t) = stop_grace c" using assms(1) by simp
  then show ?thesis using assms by (auto simp: wait_child_def stopped_def alive_def split: option.splits if_splits)
qed

lemma wait_all_exact:
  assumes "sorted (map stop_grace cs)" "\<forall>c \<in> set cs. t \<le> stop_grace c" "wait_all exits t cs = (cs', t')" "t \<le> m" "\<forall>c \<in> set cs. stop_grace c \<le> m"
  shows "cs' = map (stopped exits) cs \<and> t' \<le> m"
  using assms
proof (induction exits t cs arbitrary: cs' t' rule: wait_all.induct)
  case (2 exits t c cs)
  obtain c1 t1 where w: "wait_child exits t c = (c1, t1)" by fastforce
  obtain cs2 t2 where r: "wait_all exits t1 cs = (cs2, t2)" by fastforce
  have c: "c1 = stopped exits c" "t1 \<le> stop_grace c" using wait_child_exact[OF _ w] "2.prems"(2) by simp_all
  have "\<forall>x \<in> set cs. t1 \<le> stop_grace x" using "2.prems"(1) c(2) by force
  then have "cs2 = map (stopped exits) cs \<and> t2 \<le> m"
    using "2.IH"[OF w[symmetric], of cs2 t2] "2.prems" r c(2) by force
  then show ?case using "2.prems"(3) w r c(1) by simp
qed simp

text \<open>C38: teardown gives every child its grace, and no more.  All living children are told to stop at the same moment; one is
  killed exactly when it has not exited within its own grace from that moment - a slow plugin costs the core
  nothing - and the whole teardown is over within the core's grace, which is inside the container's.\<close>

theorem teardown_exact:
  "fst (teardown exits cs) = map (stopped exits) (sort_key stop_grace (map (\<lambda>c. if alive c then send Sig_Int c else c) cs))
   \<and> snd (teardown exits cs) \<le> 20"
proof -
  let ?cs = "sort_key stop_grace (map (\<lambda>c. if alive c then send Sig_Int c else c) cs)"
  obtain cs' t where w: "wait_all exits 0 ?cs = (cs', t)" by fastforce
  have g: "0 \<le> stop_grace c" "stop_grace c \<le> 20" for c by (simp_all add: stop_grace_def CORE_STOP_GRACE_S_def PLUGIN_STOP_GRACE_S_def)
  have "cs' = map (stopped exits) ?cs \<and> t \<le> 20"
    by (rule wait_all_exact[OF _ _ w]) (simp_all add: g)
  then show ?thesis by (simp add: teardown_def w)
qed

section \<open>The sensor's status\<close>

lemma look_all_status:
  "look_all pb e i cs = (r, cs') \<Longrightarrow>
   case r of
     Some s \<Rightarrow> \<exists>c \<in> set cs'. \<exists>rc. ch_critical c \<and> ch_proc c = Some (Exited rc) \<and> s = core_status pb rc
   | None \<Rightarrow> \<forall>c \<in> set cs'. ch_critical c \<longrightarrow> ch_proc c \<in> {None, Some Running}"
proof (induction cs arbitrary: i r cs')
  case (Cons c cs)
  obtain q qs where q: "look_all pb e (i + 1) cs = (q, qs)" by fastforce
  let ?c = "polled e i c"
  have crit: "ch_critical (handle_plugin_exit e i x) = ch_critical x" for x
    by (simp add: handle_plugin_exit_def Let_def spawn_def)
  consider rc where "ch_proc ?c = Some (Exited rc)" "ch_critical ?c" | rc where "ch_proc ?c = Some (Exited rc)" "\<not> ch_critical ?c"
    | "ch_proc ?c \<in> {None, Some Running}" by (cases "ch_proc ?c") (auto intro: proc.exhaust)
  then show ?case
  proof cases
    case 1
    then show ?thesis using Cons.prems by (auto simp: Let_def)
  next
    case (2 rc)
    then show ?thesis using Cons.prems q Cons.IH[OF q] crit by (auto simp: Let_def split: option.splits)
  next
    case 3
    then show ?thesis using Cons.prems q Cons.IH[OF q] by (cases "ch_proc ?c") (auto simp: Let_def split: option.splits)
  qed
qed simp

lemma watch_status:
  "watch pb es cs = (Some s, cs') \<Longrightarrow> \<exists>c \<in> set cs'. \<exists>rc. ch_critical c \<and> ch_proc c = Some (Exited rc) \<and> s = core_status pb rc"
proof (induction pb es cs rule: watch.induct)
  case (2 pb e es cs)
  obtain r cs1 where l: "look_all pb e 0 cs = (r, cs1)" by fastforce
  show ?case
  proof (cases r)
    case None
    then show ?thesis using 2 l by simp
  next
    case (Some x)
    then show ?thesis using 2 l look_all_status[OF l] by simp
  qed
qed simp

text \<open>the sensor's exit status is honest.  It is a failure of the start when a critical child could not be started; while
  watching, it is the core's own status when the core failed, zero for a clean exit of a core that plays data back, and one
  for a clean exit of any other; and zero is left for an operator's stop.\<close>

theorem exit_status_honest:
  "case run_supervisor pb se looks exits cs of (rc, _) \<Rightarrow>
     fst (start_all se 0 cs) \<and> rc = 1
     \<or> fst (watch pb looks (snd (start_all se 0 cs))) = None \<and> rc = 0
     \<or> (\<exists>c \<in> set (snd (watch pb looks (snd (start_all se 0 cs)))). \<exists>st. ch_critical c \<and> ch_proc c = Some (Exited st)
          \<and> rc = (if st \<noteq> 0 then st else if pb then 0 else 1))"
proof -
  obtain dead cs1 where s: "start_all se 0 cs = (dead, cs1)" by fastforce
  obtain r cs2 where w: "watch pb looks cs1 = (r, cs2)" by fastforce
  show ?thesis
  proof (cases r)
    case None
    then show ?thesis using s w by (cases dead) (simp_all add: run_supervisor_def)
  next
    case (Some x)
    obtain c st where c: "c \<in> set cs2" "ch_critical c" "ch_proc c = Some (Exited st)" "x = core_status pb st"
      using watch_status[of pb looks cs1 x cs2] w Some by blast
    have "x = (if st \<noteq> 0 then st else if pb then 0 else 1)" by (simp add: c(4) core_status_def)
    with c(1-3) show ?thesis using s w Some by (cases dead) (auto simp: run_supervisor_def)
  qed
qed

section \<open>A plugin that keeps dying\<close>

text \<open>A plugin that has just exited, again and again.\<close>

fun crash_loop :: "look list \<Rightarrow> child \<Rightarrow> child" where
  "crash_loop [] c = c"
| "crash_loop (e # es) c = (if ch_proc c = None then c else crash_loop es (handle_plugin_exit e 0 (c\<lparr>ch_proc := Some (Exited 1)\<rparr>)))"

text \<open>Each time before it ran for \<open>RESTART_RESET_S\<close>.\<close>

fun rapid :: "look list \<Rightarrow> child \<Rightarrow> bool" where
  "rapid [] c = True"
| "rapid (e # es) c =
     (lk_now e 0 - ch_started_at c < RESTART_RESET_S \<and> \<not> lk_stopping e 0 \<and> rapid es (handle_plugin_exit e 0 (c\<lparr>ch_proc := Some (Exited 1)\<rparr>)))"

lemma crash_loop_ends:
  "rapid es c \<Longrightarrow> ch_restarts c \<le> RESTART_MAX \<Longrightarrow>
   ch_restarts (crash_loop es c) \<le> RESTART_MAX \<and> (RESTART_MAX - ch_restarts c < length es \<longrightarrow> ch_proc (crash_loop es c) = None)"
proof (induction es arbitrary: c)
  case (Cons e es)
  let ?c = "handle_plugin_exit e 0 (c\<lparr>ch_proc := Some (Exited 1)\<rparr>)"
  have gone: "crash_loop xs x = x" if "ch_proc x = None" for xs x using that by (cases xs) simp_all
  show ?case
  proof (cases "ch_proc c = None")
    case True
    then show ?thesis using Cons.prems by simp
  next
    case False
    have r: "\<not> lk_now e 0 - ch_started_at c \<ge> RESTART_RESET_S" using Cons.prems(1) by simp
    show ?thesis
    proof (cases "ch_restart c \<and> ch_restarts c < RESTART_MAX")
      case True
      then have "ch_restarts ?c = ch_restarts c + 1" using r Cons.prems(1) by (simp add: handle_plugin_exit_def Let_def spawn_def)
      then show ?thesis using Cons.IH[of ?c] Cons.prems False True by auto
    next
      case f: False
      then have "ch_proc ?c = None" "ch_restarts ?c = ch_restarts c" using r Cons.prems by (auto simp: handle_plugin_exit_def Let_def)
      then show ?thesis using gone[of ?c es] Cons.prems False by simp
    qed
  qed
qed simp

text \<open>C29: a plugin that keeps dying is given up.  However often its restarts succeed or fail, after more than five exits each
  within thirty seconds of its last start it is not restarted any more.\<close>

theorem crash_loop_bounded:
  assumes "rapid es c" "ch_restarts c = 0" "5 < length es"
  shows "ch_proc (crash_loop es c) = None"
  using crash_loop_ends[OF assms(1)] assms(2,3) by (simp add: RESTART_MAX_def)

definition dying :: look where
  "dying = \<lparr>lk_poll = (\<lambda>_. Exited 1), lk_now = (\<lambda>_. 0), lk_stopping = (\<lambda>_. False), lk_ok = (\<lambda>_. True), lk_again = (\<lambda>_. 0)\<rparr>"

theorem crash_loop_bounded_witness:
  "ch_proc (crash_loop (replicate 6 dying) (spawn 0 (new_child ''p'' [''p''] False True))) = None
   \<and> ch_proc (crash_loop (replicate 5 dying) (spawn 0 (new_child ''p'' [''p''] False True))) = Some Running"
proof
  show "ch_proc (crash_loop (replicate 6 dying) (spawn 0 (new_child ''p'' [''p''] False True))) = None"
    by (rule crash_loop_bounded)
      (simp_all add: eval_nat_numeral dying_def spawn_def new_child_def handle_plugin_exit_def Let_def RESTART_RESET_S_def RESTART_MAX_def)
  show "ch_proc (crash_loop (replicate 5 dying) (spawn 0 (new_child ''p'' [''p''] False True))) = Some Running"
    by (simp add: eval_nat_numeral dying_def spawn_def new_child_def handle_plugin_exit_def Let_def RESTART_RESET_S_def RESTART_MAX_def)
qed

end
