(* ===== verification/Webrtc_Tools.thy ===== *)
theory Webrtc_Tools
  imports Playback_Control Py_Format
begin

text \<open>
  The pure policies of the WebRTC bridge under \<open>plugins/webrtc-bridge/tools/\<close>: the preview's downscale plan
  (\<open>scale_plan.py\<close>), the H.264 level it advertises (\<open>h264_level.py\<close>), the encoder's properties (\<open>encoder_policy.py\<close>),
  the element spliced in for the stream's actual caps (\<open>format_adapt.py\<close>) and the thermal stretch
  (\<open>thermal_preview.py\<close>, numpy's percentile an argument).
\<close>

section \<open>Scaling\<close>

definition SCALE_OFF :: "string list" where
  "SCALE_OFF = [[], ''0'', ''off'', ''false'', ''no'', ''none'']"

text \<open>\<open>str.isdigit\<close>\<close>

definition all_digits :: "string \<Rightarrow> bool" where
  "all_digits s \<longleftrightarrow> s \<noteq> [] \<and> list_all is_digit s"

datatype tool_error = Expected_Size | Bound_Too_Small | Bad_Geometry | Not_Positive | Unknown_Level | Expected_Window | Bad_Window
  | Overflow | Not_A_Float

text \<open>\<open>Inr None\<close> is off.\<close>

definition parse_max_size :: "string option \<Rightarrow> tool_error + (nat \<times> nat) option" where
  "parse_max_size spec =
     (let s = lower (filter (\<lambda>c. \<not> is_space c) (case spec of Some s \<Rightarrow> s | None \<Rightarrow> [])) in
      if s \<in> set SCALE_OFF then Inr None
      else let parts = split_on (CHR ''x'') s; parts = (if length parts = 1 then [s, s] else parts) in
           if length parts \<noteq> 2 \<or> \<not> list_all all_digits parts then Inl Expected_Size
           else let w = nat_of_str (parts ! 0); h = nat_of_str (parts ! 1) in
                if w < 2 \<or> h < 2 then Inl Bound_Too_Small else Inr (Some (w, h)))"

definition fit_within :: "int \<Rightarrow> int \<Rightarrow> int \<Rightarrow> int \<Rightarrow> tool_error + (int \<times> int) option" where
  "fit_within width height max_w max_h =
     (if width \<le> 0 \<or> height \<le> 0 then Inl Bad_Geometry
      else if width \<le> max_w \<and> height \<le> max_h then Inr None
      else let (ow, oh) = (if max_w * height \<le> max_h * width then (max_w, height * max_w div width)
                           else (width * max_h div height, max_h))
           in Inr (Some (max 2 (ow div 2 * 2), max 2 (oh div 2 * 2))))"

definition scale_caps :: "int \<Rightarrow> int \<Rightarrow> string" where
  "scale_caps w h = ''video/x-raw,width='' @ str_int w @ '',height='' @ str_int h @ '',pixel-aspect-ratio=1/1''"

section \<open>H.264 levels\<close>

text \<open>Level, macroblocks per frame, macroblocks per second, kbps.\<close>

definition LEVELS :: "(string \<times> int \<times> int \<times> rat) list" where
  "LEVELS = [(''1'', 99, 1485, 64), (''1b'', 99, 1485, 128), (''1.1'', 396, 3000, 192), (''1.2'', 396, 6000, 384),
     (''1.3'', 396, 11880, 768), (''2'', 396, 11880, 2000), (''2.1'', 792, 19800, 4000), (''2.2'', 1620, 20250, 4000),
     (''3'', 1620, 40500, 10000), (''3.1'', 3600, 108000, 14000), (''3.2'', 5120, 216000, 20000), (''4'', 8192, 245760, 20000),
     (''4.1'', 8192, 245760, 50000), (''4.2'', 8704, 522240, 50000), (''5'', 22080, 589824, 135000),
     (''5.1'', 36864, 983040, 240000), (''5.2'', 36864, 2073600, 240000)]"

definition ceil_div :: "int \<Rightarrow> int \<Rightarrow> int" where
  "ceil_div a b = \<lceil>(of_int a / of_int b :: rat)\<rceil>"

definition macroblocks :: "int \<Rightarrow> int \<Rightarrow> int" where
  "macroblocks width height = ceil_div width 16 * ceil_div height 16"

definition covers :: "(string \<times> int \<times> int \<times> rat) \<Rightarrow> int \<Rightarrow> int \<Rightarrow> rat option \<Rightarrow> bool" where
  "covers row fs mbps bitrate \<longleftrightarrow>
     (case row of (_, maxfs, maxmbps, maxbr) \<Rightarrow> maxfs \<ge> fs \<and> maxmbps \<ge> mbps \<and> (case bitrate of None \<Rightarrow> True | Some b \<Rightarrow> maxbr \<ge> b))"

fun index_of :: "string \<Rightarrow> (string \<times> 'b) list \<Rightarrow> nat option" where
  "index_of l [] = None"
| "index_of l ((x, _) # rows) = (if x = l then Some 0 else map_option Suc (index_of l rows))"

text \<open>The loop over the table: the first row that covers.\<close>

fun first_fit :: "(string \<times> int \<times> int \<times> rat) list \<Rightarrow> int \<Rightarrow> int \<Rightarrow> rat option \<Rightarrow> nat option" where
  "first_fit [] fs mbps bitrate = None"
| "first_fit (row # rows) fs mbps bitrate =
     (if covers row fs mbps bitrate then Some 0 else map_option Suc (first_fit rows fs mbps bitrate))"

definition h264_level_for :: "int option \<Rightarrow> int option \<Rightarrow> rat option \<Rightarrow> rat option \<Rightarrow> string \<Rightarrow> tool_error + string" where
  "h264_level_for width height fps bitrate max_level =
     (case (width, height, fps) of
        (Some w, Some h, Some f) \<Rightarrow>
          if w \<le> 0 \<or> h \<le> 0 \<or> f \<le> 0 then Inl Not_Positive
          else (case index_of max_level LEVELS of
             None \<Rightarrow> Inl Unknown_Level
           | Some cap \<Rightarrow>
               let fs = macroblocks w h; mbps = fs * round_even f
               in Inr (fst (LEVELS ! (case first_fit LEVELS fs mbps bitrate of Some i \<Rightarrow> min i cap | None \<Rightarrow> cap))))
      | _ \<Rightarrow> Inl Not_Positive)"

definition level_covers :: "string \<Rightarrow> int \<Rightarrow> int \<Rightarrow> rat \<Rightarrow> rat option \<Rightarrow> bool" where
  "level_covers level width height fps bitrate =
     (case index_of level LEVELS of None \<Rightarrow> False
      | Some i \<Rightarrow> covers (LEVELS ! i) (macroblocks width height) (macroblocks width height * round_even fps) bitrate)"

section \<open>Encoder properties\<close>

definition KEYFRAME_S_DEFAULT :: rat where "KEYFRAME_S_DEFAULT = 2"
definition X264_PRESET_DEFAULT :: string where "X264_PRESET_DEFAULT = ''ultrafast''"

definition above_zero :: "json \<Rightarrow> bool" where
  "above_zero v = (case v of JNum x \<Rightarrow> x > 0 | JNonfinite t \<Rightarrow> t = ''inf'' | _ \<Rightarrow> False)"

text \<open>\<open>max(1, int(round(fps * seconds)))\<close>; an infinite product does not round.\<close>

definition keyframe_interval_frames :: "json \<Rightarrow> json \<Rightarrow> tool_error + int" where
  "keyframe_interval_frames fps seconds =
     (let (f, s) = (case (float_value (if truthy fps then fps else JInt 0), float_value seconds) of
                      (Some f, Some s) \<Rightarrow> (f, s) | _ \<Rightarrow> (JNum 0, JNum KEYFRAME_S_DEFAULT));
          f = (if above_zero f then f else JNum 10); s = (if above_zero s then s else JNum KEYFRAME_S_DEFAULT)
      in case (f, s) of (JNum x, JNum y) \<Rightarrow> Inr (max 1 (round_even (x * y))) | _ \<Rightarrow> Inl Overflow)"

datatype prop_value = Text string | Count int

definition gop_of :: "json \<Rightarrow> json \<Rightarrow> tool_error + int option" where
  "gop_of fps keyframe_s =
     (let k = (case float_value (if keyframe_s = JNull then JNum KEYFRAME_S_DEFAULT else keyframe_s) of
                 Some k \<Rightarrow> k | None \<Rightarrow> JNum KEYFRAME_S_DEFAULT)
      in if above_zero k then map_sum id Some (keyframe_interval_frames fps k) else Inr None)"

definition live_encoder_props :: "string \<Rightarrow> json \<Rightarrow> json \<Rightarrow> string option \<Rightarrow> tool_error + (string \<times> prop_value) list" where
  "live_encoder_props name fps keyframe_s x264_preset =
     ebind (gop_of fps keyframe_s) (\<lambda>gop.
       let count = (\<lambda>p. case gop of Some g \<Rightarrow> [(p, Count g)] | None \<Rightarrow> []);
           preset = (case x264_preset of Some p \<Rightarrow> if p = [] then X264_PRESET_DEFAULT else p | None \<Rightarrow> X264_PRESET_DEFAULT)
       in Inr (if name = ''x264enc'' then (''speed-preset'', Text (lower (strip_space preset))) # count ''key-int-max''
               else if name \<in> {''nvv4l2h264enc'', ''nvv4l2h265enc''} then count ''iframeinterval'' @ count ''idrinterval''
               else if name \<in> {''openh264enc'', ''nvh264enc'', ''vaapih264enc'', ''vah264enc''} then count ''gop-size''
               else []))"

section \<open>Input formats\<close>

definition debayer_enabled :: "string option \<Rightarrow> bool" where
  "debayer_enabled v \<longleftrightarrow>
     lower (strip_space (case v of Some s \<Rightarrow> s | None \<Rightarrow> ''auto'')) \<notin> {''0'', ''false'', ''no'', ''off''}"

definition adapt_for_input :: "string \<Rightarrow> int option \<Rightarrow> int option \<Rightarrow> string option \<Rightarrow> bool \<Rightarrow> (string \<times> string option) option" where
  "adapt_for_input media width height framerate debayer =
     (if media \<noteq> ''video/x-bayer'' then None
      else if debayer then Some (''bayer2rgb'', None)
      else let size = (case (width, height) of
                 (Some w, Some h) \<Rightarrow> if w \<noteq> 0 \<and> h \<noteq> 0 then '',width='' @ str_int w @ '',height='' @ str_int h else []
               | _ \<Rightarrow> []);
               rate = (case framerate of Some f \<Rightarrow> if f \<noteq> [] then '',framerate='' @ f else [] | None \<Rightarrow> [])
           in Some (''capssetter'', Some (''video/x-raw,format=GRAY8'' @ size @ rate)))"

section \<open>Thermal preview\<close>

definition DEFAULT_WINDOW :: "rat \<times> rat" where "DEFAULT_WINDOW = (1, 99)"

definition window_ok :: "json \<Rightarrow> json \<Rightarrow> bool" where
  "window_ok lo hi = (case (lo, hi) of (JNum l, JNum h) \<Rightarrow> 0 \<le> l \<and> l < h \<and> h \<le> 100 | _ \<Rightarrow> False)"

definition parse_window :: "string option \<Rightarrow> tool_error + rat \<times> rat" where
  "parse_window spec =
     (let s = lower (strip_space (case spec of Some s \<Rightarrow> s | None \<Rightarrow> [])) in
      if s \<in> {[], ''auto'', ''1'', ''true'', ''yes'', ''on''} then Inr DEFAULT_WINDOW
      else if CHR '':'' \<notin> set s then Inl Expected_Window
      else (case (float_of_str (takeWhile (\<lambda>c. c \<noteq> CHR '':'') s), float_of_str (drop 1 (dropWhile (\<lambda>c. c \<noteq> CHR '':'') s))) of
              (Some (JNum l), Some (JNum h)) \<Rightarrow> if window_ok (JNum l) (JNum h) then Inr (l, h) else Inl Bad_Window
            | (Some _, Some _) \<Rightarrow> Inl Bad_Window
            | _ \<Rightarrow> Inl Not_A_Float))"

record stretch =
  sh_lo_pct :: rat
  sh_hi_pct :: rat
  sh_smooth :: rat
  sh_ema :: "(rat \<times> rat) option"

definition new_stretch :: "rat \<Rightarrow> rat \<Rightarrow> rat \<Rightarrow> tool_error + stretch" where
  "new_stretch lo hi smooth =
     (if \<not> (0 \<le> lo \<and> lo < hi \<and> hi \<le> 100) then Inl Bad_Window
      else if \<not> (0 \<le> smooth \<and> smooth < 1) then Inl Bad_Window
      else Inr \<lparr>sh_lo_pct = lo, sh_hi_pct = hi, sh_smooth = smooth, sh_ema = None\<rparr>)"

definition ema_step :: "rat \<times> rat \<Rightarrow> stretch \<Rightarrow> rat \<times> rat" where
  "ema_step p sh = (case sh_ema sh of None \<Rightarrow> p
     | Some (lo, hi) \<Rightarrow> let a = sh_smooth sh in (a * lo + (1 - a) * fst p, a * hi + (1 - a) * snd p))"

definition pixel8 :: "rat \<times> rat \<Rightarrow> nat \<Rightarrow> nat" where
  "pixel8 w x = nat \<lfloor>min 255 (max 0 ((of_nat x - fst w) * (255 / max (snd w - fst w) 1)))\<rfloor>"

text \<open>One frame; \<open>percentile\<close> is numpy's.\<close>

definition stretch_frame :: "(nat list \<Rightarrow> rat \<Rightarrow> rat) \<Rightarrow> nat list \<Rightarrow> stretch \<Rightarrow> nat list \<times> stretch" where
  "stretch_frame percentile frame sh =
     (let w = ema_step (percentile frame (sh_lo_pct sh), percentile frame (sh_hi_pct sh)) sh
      in (map (pixel8 w) frame, sh\<lparr>sh_ema := Some w\<rparr>))"

section \<open>What the policies promise\<close>

lemma even_floor: "x div 2 * 2 \<le> (x :: int)" "x - 1 \<le> x div 2 * 2" "even (x div 2 * 2)"
proof -
  have "x div 2 * 2 + x mod 2 = x" "0 \<le> x mod 2" "x mod 2 < 2" by simp_all
  then show "x div 2 * 2 \<le> x" "x - 1 \<le> x div 2 * 2" by linarith+
qed simp

lemma bound_even: "(2 :: int) \<le> m \<Longrightarrow> x \<le> m \<Longrightarrow> max 2 (x div 2 * 2) \<le> m"
  using even_floor(1)[of x] by (auto simp: max_def)

lemma even_max: "even (max 2 (x div 2 * 2 :: int))"
  by (auto simp: max_def)

text \<open>Along the axis that does not bind: the scaled length, rounded down to even, is within two pixels of the ideal.\<close>

lemma floating_axis:
  assumes "0 < (d :: int)"
  shows "n < d * (max 2 (n div d div 2 * 2) + 2)" "d * (max 2 (n div d div 2 * 2)) \<le> n \<or> max 2 (n div d div 2 * 2) = 2"
proof -
  let ?q = "n div d" and ?m = "max 2 (n div d div 2 * 2)"
  have "?q \<le> ?m + 1" using even_floor(2)[of ?q] by linarith
  then have "(?q + 1) * d \<le> (?m + 2) * d" using assms by (intro mult_right_mono) auto
  then show "n < d * (?m + 2)" using floor_div_bounds(2)[OF assms, of n] by (simp only: mult.commute)
  have "?q div 2 * 2 * d \<le> ?q * d" using even_floor(1)[of ?q] assms by (intro mult_right_mono) auto
  then have "?q div 2 * 2 * d \<le> n" using floor_div_bounds(1)[OF assms, of n] by linarith
  then show "d * ?m \<le> n \<or> ?m = 2" by (auto simp: max_def mult.commute)
qed

lemma div_le_bound: "0 < (d :: int) \<Longrightarrow> a * b \<le> c * d \<Longrightarrow> a * b div d \<le> c"
  by (metis div_le_mono int_ops(9) nonzero_mult_div_cancel_right order_less_irrefl zdiv_mono1)

text \<open>the downscale plan.  Nothing that fits is touched and nothing is ever scaled up; else the result is even on both
  axes, at least 2 and inside the box, one axis lands on its bound up to the rounding to even, and the other keeps the
  aspect to within two pixels.\<close>

theorem preview_scale_fits:
  assumes "fit_within w h mw mh = Inr r" "2 \<le> mw" "2 \<le> mh"
  shows "case r of None \<Rightarrow> w \<le> mw \<and> h \<le> mh
    | Some (ow, oh) \<Rightarrow> \<not> (w \<le> mw \<and> h \<le> mh) \<and> even ow \<and> even oh \<and> 2 \<le> ow \<and> ow \<le> mw \<and> 2 \<le> oh \<and> oh \<le> mh
        \<and> ow \<le> max 2 w \<and> oh \<le> max 2 h
        \<and> (mw - 1 \<le> ow \<and> h * mw < w * (oh + 2) \<and> (w * oh \<le> h * mw \<or> oh = 2)
           \<or> mh - 1 \<le> oh \<and> w * mh < h * (ow + 2) \<and> (h * ow \<le> w * mh \<or> ow = 2))"
proof (cases "w \<le> mw \<and> h \<le> mh")
  case True
  then show ?thesis using assms(1) by (auto simp: fit_within_def split: if_splits)
next
  case False
  have pos: "0 < w" "0 < h" using assms(1) by (auto simp: fit_within_def split: if_splits)
  show ?thesis
  proof (cases "mw * h \<le> mh * w")
    case True
    have r: "r = Some (max 2 (mw div 2 * 2), max 2 (h * mw div w div 2 * 2))"
      using assms(1) False True pos by (simp add: fit_within_def)
    have oh: "h * mw div w \<le> mh" using True pos by (intro div_le_bound) (simp_all add: mult.commute)
    have "mw \<le> w"
    proof (rule ccontr)
      assume "\<not> mw \<le> w"
      then have w: "w < mw" "mh < h" using False by auto
      then have "mh * w < h * w" using pos by simp
      also have "h * w < h * mw" using w pos by simp
      finally show False using True by (simp add: mult.commute)
    qed
    then have "h * mw div w \<le> h" using pos by (intro div_le_bound) (simp_all add: mult_left_mono)
    then show ?thesis
      using False \<open>mw \<le> w\<close> assms(2,3) oh floating_axis[OF pos(1), of "h * mw"] even_floor(1,2)[of mw]
        even_floor(1)[of "h * mw div w"] bound_even[OF assms(3) oh] bound_even[OF assms(2) order_refl]
      unfolding r by (simp add: even_max)
  next
    case b: False
    have r: "r = Some (max 2 (w * mh div h div 2 * 2), max 2 (mh div 2 * 2))"
      using assms(1) False b pos by (simp add: fit_within_def)
    have ow: "w * mh div h \<le> mw" using b pos by (intro div_le_bound) (simp_all add: mult.commute)
    have "mh \<le> h"
    proof (rule ccontr)
      assume "\<not> mh \<le> h"
      then have w: "h < mh" "mw < w" using False by auto
      then have "mw * h < w * h" using pos by simp
      also have "w * h < w * mh" using w pos by simp
      finally show False using b by (simp add: mult.commute)
    qed
    then have "w * mh div h \<le> w" using pos by (intro div_le_bound) (simp_all add: mult_left_mono)
    then show ?thesis
      using False \<open>mh \<le> h\<close> assms(2,3) ow floating_axis[OF pos(2), of "w * mh"] even_floor(1,2)[of mh]
        even_floor(1)[of "w * mh div h"] bound_even[OF assms(2) ow] bound_even[OF assms(3) order_refl]
      unfolding r by (simp add: even_max)
  qed
qed

text \<open>The sizes \<open>CAM_WEBRTC_MAX_SIZE\<close> can name satisfy the hypotheses.\<close>

lemma parse_max_size_bounds: "parse_max_size spec = Inr (Some (w, h)) \<Longrightarrow> 2 \<le> w \<and> 2 \<le> h"
  by (auto simp: parse_max_size_def Let_def split: if_splits)

theorem preview_scale_fits_witness:
  "parse_max_size (Some ''1280x720'') = Inr (Some (1280, 720)) \<and> fit_within 2048 1537 1280 720 = Inr (Some (958, 720))
     \<and> even (958 :: int) \<and> 2048 * 720 < 1537 * ((958 :: int) + 2)"
proof -
  have p: "parse_max_size (Some ''1280x720'') = Inr (Some (1280, 720))" by code_simp
  have f: "fit_within 2048 1537 1280 720 = Inr (Some (958, 720))" by (simp add: fit_within_def)
  from preview_scale_fits[OF f] p f show ?thesis by simp
qed

lemma first_fit_Some:
  "first_fit rows fs mbps br = Some i \<Longrightarrow> i < length rows \<and> covers (rows ! i) fs mbps br \<and> (\<forall>j < i. \<not> covers (rows ! j) fs mbps br)"
proof (induction rows fs mbps br arbitrary: i rule: first_fit.induct)
  case (2 row rows fs mbps br)
  show ?case
  proof (cases "covers row fs mbps br")
    case False
    then obtain k where k: "first_fit rows fs mbps br = Some k" "i = Suc k" using "2.prems" by auto
    then show ?thesis using "2.IH"[OF False k(1)] False by (auto simp: nth_Cons split: nat.split)
  qed (use 2 in simp)
qed simp

lemma first_fit_None: "first_fit rows fs mbps br = None \<Longrightarrow> j < length rows \<Longrightarrow> \<not> covers (rows ! j) fs mbps br"
proof (induction rows fs mbps br arbitrary: j rule: first_fit.induct)
  case (2 row rows fs mbps br)
  then show ?case by (cases j) (auto split: if_splits)
qed simp

lemma index_of_Some: "index_of l rows = Some i \<Longrightarrow> i < length rows \<and> fst (rows ! i) = l"
  by (induction l rows arbitrary: i rule: index_of.induct) (auto split: if_splits)

lemma index_of_nth: "distinct (map fst rows) \<Longrightarrow> i < length rows \<Longrightarrow> index_of (fst (rows ! i)) rows = Some i"
proof (induction rows arbitrary: i)
  case (Cons row rows)
  obtain x b where row: "row = (x, b)" by (cases row)
  show ?case
  proof (cases i)
    case (Suc k)
    then have "rows ! k \<in> set rows" using Cons.prems(2) by simp
    then have "fst (rows ! k) \<noteq> x" using Cons.prems(1) row by force
    then show ?thesis using Cons Suc row by simp
  qed (simp add: row)
qed simp

lemma LEVELS_distinct: "distinct (map fst LEVELS)"
  by (simp add: LEVELS_def)

lemma level_covers_nth:
  "i < length LEVELS \<Longrightarrow> level_covers (fst (LEVELS ! i)) w h f br = covers (LEVELS ! i) (macroblocks w h) (macroblocks w h * round_even f) br"
  by (simp add: level_covers_def index_of_nth[OF LEVELS_distinct])

text \<open>the advertised level.  It is never above the clamp; no lower level covers the stream; and it covers
  the stream itself unless no level up to the clamp does, in which case it is the clamp - exactly the case
  \<open>level_covers\<close> lets the caller warn about.\<close>

theorem h264_level_lowest:
  assumes "h264_level_for (Some w) (Some h) (Some f) br clamp = Inr l"
  shows "\<exists>i c. i \<le> c \<and> c < length LEVELS \<and> fst (LEVELS ! i) = l \<and> fst (LEVELS ! c) = clamp
    \<and> (\<forall>j < i. \<not> level_covers (fst (LEVELS ! j)) w h f br)
    \<and> (level_covers l w h f br \<or> l = clamp \<and> (\<forall>j \<le> c. \<not> level_covers (fst (LEVELS ! j)) w h f br))"
proof -
  let ?fs = "macroblocks w h" let ?mb = "?fs * round_even f"
  obtain c where c: "index_of clamp LEVELS = Some c"
    using assms by (auto simp: h264_level_for_def split: if_splits option.splits)
  have cl: "c < length LEVELS" "fst (LEVELS ! c) = clamp" using index_of_Some[OF c] by simp_all
  have l: "l = fst (LEVELS ! (case first_fit LEVELS ?fs ?mb br of Some i \<Rightarrow> min i c | None \<Rightarrow> c))"
    using assms c by (auto simp: h264_level_for_def Let_def split: if_splits)
  show ?thesis
  proof (cases "first_fit LEVELS ?fs ?mb br")
    case None
    then have no: "\<not> level_covers (fst (LEVELS ! j)) w h f br" if "j < length LEVELS" for j
      using first_fit_None[OF None that] level_covers_nth[OF that] by simp
    show ?thesis using None l cl no by (intro exI[of _ c] exI[of _ c]) auto
  next
    case (Some i)
    note fit = first_fit_Some[OF Some]
    have no: "\<not> level_covers (fst (LEVELS ! j)) w h f br" if "j < i" for j
      using fit that by (simp add: level_covers_nth)
    show ?thesis
    proof (cases "i \<le> c")
      case True
      then show ?thesis using Some l cl fit no by (intro exI[of _ i] exI[of _ c]) (simp add: level_covers_nth)
    next
      case False
      then show ?thesis using Some l cl no by (intro exI[of _ c] exI[of _ c]) auto
    qed
  qed
qed

theorem h264_level_lowest_witness:
  "h264_level_for (Some 2048) (Some 1536) (Some 30) None ''5.2'' = Inr ''5''
     \<and> (\<exists>i. fst (LEVELS ! i) = ''5'' \<and> (\<forall>j < i. \<not> level_covers (fst (LEVELS ! j)) 2048 1536 30 None))"
proof -
  have l: "h264_level_for (Some 2048) (Some 1536) (Some 30) None ''5.2'' = Inr ''5''"
    by code_simp
  from h264_level_lowest[OF l] obtain i where "fst (LEVELS ! i) = ''5''" "\<forall>j < i. \<not> level_covers (fst (LEVELS ! j)) 2048 1536 30 None"
    by blast
  then show ?thesis using l by blast
qed

text \<open>A keyframe interval is at least a frame, and the stretch keeps the order of the pixels.\<close>

lemma keyframe_interval_positive: "keyframe_interval_frames fps s = Inr n \<Longrightarrow> 1 \<le> n"
  by (auto simp: keyframe_interval_frames_def Let_def split: option.splits json.splits if_splits)

lemma pixel8_mono: "x \<le> y \<Longrightarrow> pixel8 w x \<le> pixel8 w y"
proof -
  assume "x \<le> y"
  then have "(of_nat x - fst w) * (255 / max (snd w - fst w) 1) \<le> (of_nat y - fst w) * (255 / max (snd w - fst w) 1)"
    by (intro mult_right_mono) auto
  then show ?thesis unfolding pixel8_def by (intro nat_mono floor_mono) auto
qed

lemma pixel8_bound: "pixel8 w x \<le> 255"
proof -
  have "\<lfloor>min 255 (max 0 ((of_nat x - fst w) * (255 / max (snd w - fst w) 1)))\<rfloor> \<le> \<lfloor>255 :: rat\<rfloor>" by (intro floor_mono) simp
  also have "\<lfloor>255 :: rat\<rfloor> = 255" by simp
  finally show ?thesis unfolding pixel8_def by linarith
qed

end
